(* ===== verification/Prelude.thy ===== *)
theory Prelude
  imports Main "HOL-Library.Word"
begin

unbundle bit_operations_syntax

text \<open>
  Shared vocabulary of the development: the byte-addressed memory of the 32-bit MINIX
  build, C strings and arrays, the outcome type in which every abnormal end of a C
  function is a value, and the generic lemmas the component theories rely on.
\<close>

section \<open>Types and collections\<close>

type_synonym byte = "8 word"
type_synonym addr = "32 word"
type_synonym mem = "addr \<Rightarrow> byte"

named_theorems mem_simps \<open>reading and writing byte memories\<close>
named_theorems outcome_simps \<open>sequencing of outcomes\<close>

section \<open>Outcomes of C functions\<close>

text \<open>
  The ways a modelled C function stops without returning: a write through a null pointer
  (the runtime crashes itself that way on purpose), an access outside an array, a failed
  assertion, a panic, a signed overflow, and a call through a null function pointer.
\<close>

datatype fault = NullDeref | OutOfBounds | AssertFail | Panic string | SignedOverflow | NullCall

text \<open>
  A function either returns a value and the new state, or faults; a fault keeps the state
  reached so far, because recovery starts from the memory of the crashed process.
\<close>

datatype ('v, 's) outcome = Ret 'v 's | Fault fault 's

primrec obind :: "('v, 's) outcome \<Rightarrow> ('v \<Rightarrow> 's \<Rightarrow> ('w, 's) outcome) \<Rightarrow> ('w, 's) outcome" where
  "obind (Ret v s) f = f v s"
| "obind (Fault e s) f = Fault e s"

primrec ostate :: "('v, 's) outcome \<Rightarrow> 's" where
  "ostate (Ret v s) = s"
| "ostate (Fault e s) = s"

primrec returns :: "('v, 's) outcome \<Rightarrow> bool" where
  "returns (Ret v s) = True"
| "returns (Fault e s) = False"

text \<open>Sequencing of stateless fallible computations; the left summand is the fault.\<close>

primrec ebind :: "'e + 'a \<Rightarrow> ('a \<Rightarrow> 'e + 'b) \<Rightarrow> 'e + 'b" where
  "ebind (Inl e) f = Inl e"
| "ebind (Inr x) f = f x"

section \<open>C strings and arrays\<close>

abbreviation NUL :: char where
  "NUL \<equiv> CHR 0x00"

text \<open>The string a buffer holds: everything before the first NUL.\<close>

definition c_str :: "char list \<Rightarrow> string" where
  "c_str buf = takeWhile (\<lambda>c. c \<noteq> NUL) buf"

text \<open>Storing a run of elements into an array at an index.\<close>

definition overwrite :: "'a list \<Rightarrow> nat \<Rightarrow> 'a list \<Rightarrow> 'a list" where
  "overwrite buf p xs = take p buf @ xs @ drop (p + length xs) buf"

text \<open>The digit character of a number below ten.\<close>

definition digit_char :: "nat \<Rightarrow> char" where
  "digit_char d = char_of (48 + d)"

definition is_digit :: "char \<Rightarrow> bool" where
  "is_digit c = (CHR ''0'' = c \<or> CHR ''1'' = c \<or> CHR ''2'' = c \<or> CHR ''3'' = c \<or> CHR ''4'' = c \<or>
     CHR ''5'' = c \<or> CHR ''6'' = c \<or> CHR ''7'' = c \<or> CHR ''8'' = c \<or> CHR ''9'' = c)"

definition digit_val :: "char \<Rightarrow> nat" where
  "digit_val c = of_char c - 48"

text \<open>The decimal numeral of a natural number, without leading zeros.\<close>

fun decimal :: "nat \<Rightarrow> string" where
  "decimal n = (if n < 10 then [digit_char n] else decimal (n div 10) @ [digit_char (n mod 10)])"

declare decimal.simps [simp del]

definition show_int :: "int \<Rightarrow> string" where
  "show_int n = (if n < 0 then CHR ''-'' # decimal (nat (- n)) else decimal (nat n))"

section \<open>Byte memory\<close>

text \<open>
  A load and a store of a run of bytes. Addresses wrap around at 32 bits as the
  machine's do.
\<close>

definition load_bytes :: "mem \<Rightarrow> addr \<Rightarrow> nat \<Rightarrow> byte list" where
  "load_bytes m a n = map (\<lambda>i. m (a + of_nat i)) [0..<n]"

definition store_bytes :: "mem \<Rightarrow> addr \<Rightarrow> byte list \<Rightarrow> mem" where
  "store_bytes m a bs = (\<lambda>x. if unat (x - a) < length bs then bs ! unat (x - a) else m x)"

text \<open>A 32-bit pointer as its four little-endian bytes.\<close>

definition ptr_bytes :: "addr \<Rightarrow> byte list" where
  "ptr_bytes v = [ucast v, ucast (drop_bit 8 v), ucast (drop_bit 16 v), ucast (drop_bit 24 v)]"

definition bytes_ptr :: "byte list \<Rightarrow> addr" where
  "bytes_ptr bs = ucast (bs ! 0) OR push_bit 8 (ucast (bs ! 1)) OR
     push_bit 16 (ucast (bs ! 2)) OR push_bit 24 (ucast (bs ! 3))"

section \<open>Lemmas: outcomes\<close>

lemma ebind_eq_Inr: "ebind r f = Inr y \<longleftrightarrow> (\<exists>x. r = Inr x \<and> f x = Inr y)"
  by (cases r) auto

lemma ebind_cong [fundef_cong]:
  "r = r' \<Longrightarrow> (\<And>x. r' = Inr x \<Longrightarrow> f x = g x) \<Longrightarrow> ebind r f = ebind r' g"
  by (cases r') auto

lemma obind_eq_Ret [outcome_simps]:
  "obind r f = Ret v s \<longleftrightarrow> (\<exists>v' s'. r = Ret v' s' \<and> f v' s' = Ret v s)"
  by (cases r) auto

lemma returns_iff: "returns r \<longleftrightarrow> (\<exists>v s. r = Ret v s)"
  by (cases r) auto

lemma obind_assoc: "obind (obind r f) g = obind r (\<lambda>v s. obind (f v s) g)"
  by (cases r) auto

section \<open>Lemmas: strings and arrays\<close>

lemma length_overwrite [simp]:
  "p + length xs \<le> length buf \<Longrightarrow> length (overwrite buf p xs) = length buf"
  by (simp add: overwrite_def)

lemma take_overwrite_self:
  "p \<le> length buf \<Longrightarrow> take (p + length xs) (overwrite buf p xs) = take p buf @ xs"
  by (simp add: overwrite_def)

lemma nth_overwrite_outside:
  "p + length xs \<le> length buf \<Longrightarrow> i < p \<or> p + length xs \<le> i \<Longrightarrow> i < length buf \<Longrightarrow>
   overwrite buf p xs ! i = buf ! i"
  by (auto simp: overwrite_def nth_append min_def)

lemma c_str_append_NUL: "NUL \<notin> set xs \<Longrightarrow> c_str (xs @ NUL # ys) = xs"
  by (induction xs) (auto simp: c_str_def)

lemma c_str_no_NUL: "NUL \<notin> set xs \<Longrightarrow> c_str xs = xs"
  unfolding c_str_def takeWhile_eq_all_conv by blast

lemma digit_cases:
  assumes "n < 10"
  shows "n = 0 \<or> n = 1 \<or> n = 2 \<or> n = 3 \<or> n = 4 \<or> n = 5 \<or> n = 6 \<or> n = 7 \<or> n = 8 \<or> n = (9::nat)"
  using assms by arith

lemma is_digit_digit_char [simp]: "n < 10 \<Longrightarrow> is_digit (digit_char n)"
  by (drule digit_cases, elim disjE) (simp_all add: digit_char_def is_digit_def char_of_def bit_0)

lemma digit_val_digit_char [simp]: "n < 10 \<Longrightarrow> digit_val (digit_char n) = n"
  by (simp add: digit_val_def digit_char_def)

lemma is_digit_not_NUL [simp]: "\<not> is_digit NUL"
  by (simp add: is_digit_def)

lemma decimal_nonempty [simp]: "decimal n \<noteq> []"
  by (subst decimal.simps) simp

lemma decimal_digits: "list_all is_digit (decimal n)"
proof (induction n rule: decimal.induct)
  case (1 n)
  then show ?case by (cases "n < 10") (simp_all add: decimal.simps [of n])
qed

lemma NUL_notin_decimal [simp]: "NUL \<notin> set (decimal n)"
  using decimal_digits [of n] by (auto simp: list_all_iff)

lemma NUL_notin_show_int [simp]: "NUL \<notin> set (show_int n)"
  by (simp add: show_int_def)

text \<open>Horner evaluation of a numeral inverts \<^const>\<open>decimal\<close>.\<close>

definition horner :: "nat \<Rightarrow> string \<Rightarrow> nat" where
  "horner acc ds = foldl (\<lambda>a c. 10 * a + digit_val c) acc ds"

lemma horner_append: "horner a (xs @ ys) = horner (horner a xs) ys"
  by (simp add: horner_def)

lemma horner_decimal: "horner 0 (decimal n) = n"
proof (induction n rule: decimal.induct)
  case (1 n)
  then show ?case
    by (cases "n < 10") (simp_all add: decimal.simps [of n] horner_append, simp_all add: horner_def)
qed

lemma length_decimal_le: "n < 10 ^ k \<Longrightarrow> 0 < k \<Longrightarrow> length (decimal n) \<le> k"
proof (induction n arbitrary: k rule: decimal.induct)
  case (1 n)
  show ?case
  proof (cases "n < 10")
    case True
    with "1.prems" show ?thesis by (simp add: decimal.simps [of n])
  next
    case False
    from False "1.prems" obtain j where k: "k = Suc j" "0 < j"
      by (cases k; cases "k - 1") auto
    with "1.prems" have "n div 10 < 10 ^ j" by (simp add: div_less_iff_less_mult mult.commute)
    with "1.IH" False k have "length (decimal (n div 10)) \<le> j" by blast
    with False k show ?thesis by (simp add: decimal.simps [of n])
  qed
qed

lemma decimal_lower: "10 ^ k \<le> n \<Longrightarrow> k < length (decimal n)"
proof (induction n arbitrary: k rule: decimal.induct)
  case (1 n)
  show ?case
  proof (cases "n < 10")
    case True
    have "10 \<le> (10::nat) ^ Suc j" for j by simp
    with True "1.prems" have "k = 0" by (cases k) (metis leD le_trans, metis leD le_trans)
    then show ?thesis by simp
  next
    case False
    show ?thesis
    proof (cases k)
      case (Suc j)
      with "1.prems" have "10 ^ j \<le> n div 10" by (simp add: less_eq_div_iff_mult_less_eq mult.commute)
      with "1.IH" False Suc show ?thesis by (simp add: decimal.simps [of n])
    qed simp
  qed
qed

lemma length_decimal_iff: "0 < k \<Longrightarrow> length (decimal n) \<le> k \<longleftrightarrow> n < 10 ^ k"
  using length_decimal_le [of n k] decimal_lower [of k n] by (auto simp: not_less [symmetric])

section \<open>Lemmas: byte memory\<close>

lemma length_load_bytes [simp]: "length (load_bytes m a n) = n"
  by (simp add: load_bytes_def)

lemma nth_load_bytes [simp]: "i < n \<Longrightarrow> load_bytes m a n ! i = m (a + of_nat i)"
  by (simp add: load_bytes_def)

lemma store_bytes_inside [mem_simps]:
  "unat (x - a) < length bs \<Longrightarrow> store_bytes m a bs x = bs ! unat (x - a)"
  by (simp add: store_bytes_def)

lemma store_bytes_outside [mem_simps]:
  "\<not> unat (x - a) < length bs \<Longrightarrow> store_bytes m a bs x = m x"
  by (simp add: store_bytes_def)

lemma load_bytes_cong:
  "(\<And>i. i < n \<Longrightarrow> m (a + of_nat i) = m' (a + of_nat i)) \<Longrightarrow> load_bytes m a n = load_bytes m' a n"
  by (simp add: load_bytes_def)

lemma unat_of_nat_small: "i < 2 ^ 32 \<Longrightarrow> unat (of_nat i :: addr) = i"
  by (simp add: unat_of_nat take_bit_eq_mod)

lemma load_store_same [mem_simps]:
  assumes "length bs \<le> 2 ^ 32"
  shows "load_bytes (store_bytes m a bs) a (length bs) = bs"
proof (rule nth_equalityI)
  fix i assume i: "i < length (load_bytes (store_bytes m a bs) a (length bs))"
  then have "unat (of_nat i :: addr) = i"
    using assms by (simp add: unat_of_nat_small)
  with i show "load_bytes (store_bytes m a bs) a (length bs) ! i = bs ! i"
    by (simp add: store_bytes_def)
qed simp

lemma store_load_self: "store_bytes m a (load_bytes m a n) = m"
  if "n \<le> 2 ^ 32"
  by (rule ext) (simp add: store_bytes_def)

lemma length_ptr_bytes [simp]: "length (ptr_bytes v) = 4"
  by (simp add: ptr_bytes_def)

lemma bytes_ptr_ptr_bytes [simp]: "bytes_ptr (ptr_bytes v) = v"
proof (rule bit_word_eqI)
  fix n assume "n < LENGTH(32)"
  then have "n < 8 \<or> 8 \<le> n \<and> n < 16 \<or> 16 \<le> n \<and> n < 24 \<or> 24 \<le> n \<and> n < 32" by auto
  then show "bit (bytes_ptr (ptr_bytes v)) n = bit v n"
    by (elim disjE conjE) (simp_all add: bytes_ptr_def ptr_bytes_def bit_simps, linarith+)
qed

text \<open>Alignment, decrement, and accesses at an offset from a base.\<close>

lemma and_not_mask_eq: "(a :: addr) AND NOT (mask n) = push_bit n (drop_bit n a)"
  by (rule bit_word_eqI) (auto simp: bit_simps)

lemma unat_align: "unat ((a :: addr) AND NOT (mask n)) = 2 ^ n * (unat a div 2 ^ n)"
proof -
  have lt: "unat a < 2 ^ 32" using unsigned_less [of a] by simp
  have "2 ^ n * (unat a div 2 ^ n) \<le> unat a" by simp
  with lt have "2 ^ n * (unat a div 2 ^ n) < 2 ^ 32" by linarith
  with lt show ?thesis
    unfolding and_not_mask_eq unsigned_push_bit_eq unsigned_drop_bit_eq
    by (simp add: push_bit_eq_mult drop_bit_eq_div take_bit_eq_mod mult.commute)
qed

lemma unat_align8: "unat ((a :: addr) AND NOT 7) = 8 * (unat a div 8)"
  using unat_align [of a 3] by (simp add: mask_eq_exp_minus_1)

lemma unat_align4: "unat ((a :: addr) AND NOT 3) = 4 * (unat a div 4)"
  using unat_align [of a 2] by (simp add: mask_eq_exp_minus_1)

lemma unat_minus_less: "0 < k \<Longrightarrow> k \<le> (x :: 32 word) \<Longrightarrow> unat (x - k) < unat x"
  by (simp add: unat_sub word_le_nat_alt word_less_nat_alt)

lemma unat_addr_bound: "unat (a :: addr) < 4294967296"
  using unsigned_less [of a] by simp

lemma unat_diff_addr:
  "unat ((x :: addr) - y) = (if unat y \<le> unat x then unat x - unat y else unat x + 4294967296 - unat y)"
  by (simp add: unat_sub_if')

lemma unat_plus_small:
  "unat (x :: addr) + i < 4294967296 \<Longrightarrow> unat (x + of_nat i) = unat x + i"
  by (simp add: unat_word_ariths unat_of_nat)

lemma store_bytes_offset:
  assumes "p + length bs \<le> 2 ^ 32" "d < 2 ^ 32"
  shows "store_bytes m (wl + of_nat p) bs (wl + of_nat d) =
    (if p \<le> d \<and> d < p + length bs then bs ! (d - p) else m (wl + of_nat d))"
proof (cases "p \<le> d")
  case True
  then have "(wl + of_nat d) - (wl + of_nat p) = (of_nat (d - p) :: addr)" by (simp add: of_nat_diff)
  moreover have "unat (of_nat (d - p) :: addr) = d - p" using assms by (intro unat_of_nat_small) simp
  ultimately show ?thesis using True by (auto simp: store_bytes_def)
next
  case False
  have "(wl + of_nat d) - (wl + of_nat p) = (of_nat (2 ^ 32 + d - p) :: addr)"
    using False assms by (simp add: of_nat_diff)
  moreover have "unat (of_nat (2 ^ 32 + d - p) :: addr) = 2 ^ 32 + d - p"
    using assms False by (intro unat_of_nat_small) simp
  moreover have "\<not> 2 ^ 32 + d - p < length bs" using assms False by simp
  ultimately show ?thesis using False by (simp add: store_bytes_def)
qed

lemma load_bytes_offset: "load_bytes m (wl + of_nat p) n = map (\<lambda>i. m (wl + of_nat (p + i))) [0..<n]"
  by (simp add: load_bytes_def add.assoc)

section \<open>Inductive invariants\<close>

text \<open>
  What every transition system of the development promises: a property kept by each step.
  The clients conclude it for every reachable state, and for every state met on the way.
\<close>

locale inductive_invariant =
  fixes step :: "'s \<Rightarrow> 's \<Rightarrow> bool"
    and inv :: "'s \<Rightarrow> bool"
  assumes step_inv: "step s s' \<Longrightarrow> inv s \<Longrightarrow> inv s'"
begin

lemma reach_inv: "step\<^sup>*\<^sup>* s s' \<Longrightarrow> inv s \<Longrightarrow> inv s'"
  by (induction rule: rtranclp_induct) (auto intro: step_inv)

lemma reach_induct_inv [consumes 2, case_names base step]:
  assumes "step\<^sup>*\<^sup>* s s'" "inv s" "P s"
    and "\<And>t t'. step\<^sup>*\<^sup>* s t \<Longrightarrow> step t t' \<Longrightarrow> inv t \<Longrightarrow> P t \<Longrightarrow> P t'"
  shows "P s'"
  using assms(1)
proof (induction rule: rtranclp_induct)
  case base
  then show ?case using assms(3) .
next
  case (step t t')
  then show ?case using assms(2,4) reach_inv by blast
qed

end

end
