(* ===== verification/Hypermem.thy ===== *)
theory Hypermem
  imports Prelude
begin

text \<open>
  The message formatting of \<^verbatim>\<open>ltckpt_recover.c\<close> (lines 386 to 461): the bounded
  concatenation \<^verbatim>\<open>hypermem_cat\<close>, the number printer with its 20-byte buffer, and
  the three messages built from them. A buffer with its write position is a pair of a
  character list and an index; \<^verbatim>\<open>pend\<close> is the index one past the buffer.
  The interface the message builders use is the locale \<^verbatim>\<open>bounded_builder\<close>.
\<close>

section \<open>Definitions\<close>

type_synonym cursor = "char list \<times> nat"

definition hypermem_cat :: "nat \<Rightarrow> cursor \<Rightarrow> string \<Rightarrow> cursor" where
  "hypermem_cat pend bp s = (case bp of (buf, p) \<Rightarrow>
     if pend \<le> p then (buf, p)
     else let avail = pend - p;
              len = (if length s \<ge> avail then avail - 1 else length s);
              buf' = overwrite buf p (take len s)
          in (overwrite buf' (p + len) [NUL], p + len))"

text \<open>
  The digit loop of \<^verbatim>\<open>hypermem_cat_num\<close>: \<open>s\<close> is the index of the last byte written in the
  20-byte buffer, \<open>acc\<close> what stands from there on; None is a store below the buffer.
\<close>

fun hypermem_num_loop :: "nat \<Rightarrow> nat \<Rightarrow> string \<Rightarrow> (nat \<times> string) option" where
  "hypermem_num_loop n s acc =
     (if s = 0 then None
      else let acc' = digit_char (n mod 10) # acc
           in if n div 10 > 0 then hypermem_num_loop (n div 10) (s - 1) acc'
              else Some (s - 1, acc'))"

declare hypermem_num_loop.simps [simp del]

definition hypermem_cat_num :: "nat \<Rightarrow> cursor \<Rightarrow> 64 word \<Rightarrow> fault + cursor" where
  "hypermem_cat_num pend bp n =
     (let neg = sint n < 0 in
      if n = 0x8000000000000000 then Inl SignedOverflow
      else case hypermem_num_loop (nat \<bar>sint n\<bar>) 19 [] of
             None \<Rightarrow> Inl OutOfBounds
           | Some (s, ds) \<Rightarrow>
               if neg then (if s = 0 then Inl OutOfBounds
                            else Inr (hypermem_cat pend bp (CHR ''-'' # ds)))
               else Inr (hypermem_cat pend bp ds))"

text \<open>The 1024-byte stack buffer the message builders start from.\<close>

definition fresh_cursor :: cursor where
  "fresh_cursor = (replicate 1024 NUL, 0)"

definition hypermem_log_text :: "string \<Rightarrow> string \<Rightarrow> string" where
  "hypermem_log_text g_module_name msg =
     (let bp = hypermem_cat 1024 fresh_cursor msg;
          bp = hypermem_cat 1024 bp ''; module='';
          bp = hypermem_cat 1024 bp g_module_name
      in c_str (fst bp))"

fun cat_callsites :: "nat \<Rightarrow> 64 word list \<Rightarrow> cursor \<Rightarrow> fault + cursor" where
  "cat_callsites i [] bp = Inr bp"
| "cat_callsites i (site # sites) bp =
     ebind (hypermem_cat_num 1024 (if i > 0 then hypermem_cat 1024 bp '', '' else bp) site)
       (cat_callsites (Suc i) sites)"

text \<open>
  The buffer \<^verbatim>\<open>hypermem_log_callsites\<close> hands to \<^verbatim>\<open>hypermem_log\<close>; \<open>sites\<close> are the used
  entries of the callsite table.
\<close>

definition hypermem_callsites_text :: "64 word \<Rightarrow> 64 word list \<Rightarrow> fault + string" where
  "hypermem_callsites_text tot sites =
     (let bp = hypermem_cat 1024 fresh_cursor ''ltckpt recovery: window closed '' in
      ebind (hypermem_cat_num 1024 bp tot) (\<lambda>bp.
      let bp = hypermem_cat 1024 bp '' times from '' in
      ebind (hypermem_cat_num 1024 bp (of_nat (length sites))) (\<lambda>bp.
      let bp = hypermem_cat 1024 bp '' callsite(s): '' in
      ebind (cat_callsites 0 sites bp) (\<lambda>bp. Inr (c_str (fst bp))))))"

definition hypermem_nonreplyable_text :: "int \<Rightarrow> int \<Rightarrow> fault + string" where
  "hypermem_nonreplyable_text msgtype r =
     (let bp = hypermem_cat 1024 fresh_cursor ''ltckpt recovery: '';
          bp = hypermem_cat 1024 bp (if r = 0 then ''success'' else ''failed'');
          bp = hypermem_cat 1024 bp '': non-replyable message: ''
      in ebind (hypermem_cat_num 1024 bp (word_of_int msgtype)) (\<lambda>bp. Inr (c_str (fst bp))))"

text \<open>The text of the callsite message without any bound on its length.\<close>

primrec join_sites :: "64 word list \<Rightarrow> string" where
  "join_sites [] = []"
| "join_sites (x # xs) = show_int (sint x) @ concat (map (\<lambda>y. '', '' @ show_int (sint y)) xs)"

definition callsites_message :: "64 word \<Rightarrow> 64 word list \<Rightarrow> string" where
  "callsites_message tot sites =
     ''ltckpt recovery: window closed '' @ show_int (sint tot) @ '' times from '' @
     show_int (int (length sites)) @ '' callsite(s): '' @ join_sites sites"

section \<open>The interface of a bounded string builder\<close>

text \<open>
  What the message builders rely on: appending concatenates up to the capacity and keeps
  the builder well formed.
\<close>

locale bounded_builder =
  fixes app :: "'b \<Rightarrow> string \<Rightarrow> 'b"
    and content :: "'b \<Rightarrow> string"
    and ok :: "'b \<Rightarrow> bool"
    and cap :: nat
  assumes ok_app: "ok b \<Longrightarrow> NUL \<notin> set s \<Longrightarrow> ok (app b s)"
    and content_app: "ok b \<Longrightarrow> NUL \<notin> set s \<Longrightarrow> content (app b s) = take cap (content b @ s)"
    and content_cap: "ok b \<Longrightarrow> length (content b) \<le> cap"
begin

lemma ok_app_list: "ok b \<Longrightarrow> \<forall>s \<in> set ss. NUL \<notin> set s \<Longrightarrow> ok (foldl app b ss)"
  by (induction ss arbitrary: b) (auto intro: ok_app)

lemma content_app_list:
  "ok b \<Longrightarrow> \<forall>s \<in> set ss. NUL \<notin> set s \<Longrightarrow>
   content (foldl app b ss) = take cap (content b @ concat ss)"
proof (induction ss arbitrary: b)
  case Nil
  then show ?case using content_cap by simp
next
  case (Cons s ss)
  then have "content (foldl app b (s # ss)) = take cap (take cap (content b @ s) @ concat ss)"
    by (simp add: ok_app content_app)
  also have "\<dots> = take cap (content b @ concat (s # ss))"
    by (simp add: take_append min_def)
  finally show ?case .
qed

lemma content_untruncated:
  assumes "ok b" "\<forall>s \<in> set ss. NUL \<notin> set s" "length (content b @ concat ss) \<le> cap"
  shows "content (foldl app b ss) = content b @ concat ss"
  using assms by (simp add: content_app_list)

end

section \<open>hypermem\_cat is a bounded builder\<close>

definition cursor_ok :: "nat \<Rightarrow> cursor \<Rightarrow> bool" where
  "cursor_ok pend bp = (snd bp < pend \<and> pend \<le> length (fst bp) \<and> NUL \<notin> set (take (snd bp) (fst bp)))"

definition cursor_text :: "cursor \<Rightarrow> string" where
  "cursor_text bp = take (snd bp) (fst bp)"

lemma hypermem_cat_eq:
  assumes "snd bp < pend" "pend \<le> length (fst bp)"
  shows "hypermem_cat pend bp s =
    (let t = take (pend - 1 - snd bp) s
     in (take (snd bp) (fst bp) @ t @ NUL # drop (snd bp + length t + 1) (fst bp), snd bp + length t))"
  using assms by (cases bp) (auto simp: hypermem_cat_def overwrite_def Let_def min_def add.commute)

lemma hypermem_cat_text:
  assumes "cursor_ok pend bp"
  shows "cursor_text (hypermem_cat pend bp s) = take (pend - 1) (cursor_text bp @ s)"
proof -
  have "take (pend - 1) (take (snd bp) (fst bp)) = take (snd bp) (fst bp)"
    using assms by (subst take_take, subst min_absorb2) (auto simp: cursor_ok_def)
  then show ?thesis
    using assms by (auto simp: cursor_ok_def cursor_text_def hypermem_cat_eq Let_def min_def)
qed

lemma hypermem_cat_ok:
  assumes "cursor_ok pend bp" "NUL \<notin> set s"
  shows "cursor_ok pend (hypermem_cat pend bp s)"
  using assms
  by (auto simp: cursor_ok_def hypermem_cat_eq Let_def min_def dest: in_set_takeD)

lemma hypermem_cat_c_str:
  assumes "cursor_ok pend bp" "NUL \<notin> set s"
  shows "c_str (fst (hypermem_cat pend bp s)) = cursor_text (hypermem_cat pend bp s)"
proof -
  let ?t = "take (pend - 1 - snd bp) s"
  have "NUL \<notin> set (take (snd bp) (fst bp) @ ?t)"
    using assms by (auto simp: cursor_ok_def dest: in_set_takeD)
  then have "c_str (take (snd bp) (fst bp) @ ?t @ NUL # ys) = take (snd bp) (fst bp) @ ?t" for ys
    using c_str_append_NUL [of "take (snd bp) (fst bp) @ ?t" ys] by simp
  then show ?thesis
    using assms by (auto simp: cursor_ok_def cursor_text_def hypermem_cat_eq Let_def min_def)
qed

interpretation hc: bounded_builder "hypermem_cat 1024" cursor_text "cursor_ok 1024" 1023
  by unfold_locales
    (auto simp: hypermem_cat_text hypermem_cat_ok, auto simp: cursor_text_def cursor_ok_def)

section \<open>The number printer\<close>

lemma hypermem_num_loop_eq:
  "hypermem_num_loop n s acc =
     (if length (decimal n) \<le> s then Some (s - length (decimal n), decimal n @ acc) else None)"
proof (induction n arbitrary: s acc rule: decimal.induct)
  case (1 n)
  show ?case
  proof (cases "n < 10")
    case True
    then show ?thesis by (simp add: hypermem_num_loop.simps [of n] decimal.simps [of n])
  next
    case False
    then have "n div 10 > 0" by simp
    with False 1 show ?thesis
      by (auto simp: hypermem_num_loop.simps [of n] decimal.simps [of n] Let_def)
  qed
qed

lemma sint64_bounds: "- (2 ^ 63) \<le> sint (n :: 64 word)" "sint (n :: 64 word) < 2 ^ 63"
  using sint_range_size [of n] by (simp_all add: word_size)

lemma sint64_min: "n = 0x8000000000000000 \<longleftrightarrow> sint (n :: 64 word) = - (2 ^ 63)"
proof
  assume "sint n = - (2 ^ 63)"
  then have "sint n = sint (0x8000000000000000 :: 64 word)" by simp
  then show "n = 0x8000000000000000" by (simp only: signed_word_eqI)
qed simp

lemma hypermem_cat_num_eq:
  "hypermem_cat_num pend bp n =
     (if sint n = - (2 ^ 63) then Inl SignedOverflow
      else if sint n \<le> - (10 ^ 18) then Inl OutOfBounds
      else Inr (hypermem_cat pend bp (show_int (sint n))))"
proof -
  have short: "length (decimal m) \<le> 19" if "m < 10 ^ 19" for m
    using length_decimal_le [OF that] by simp
  have "nat \<bar>sint n\<bar> < 10 ^ 19" using sint64_bounds [of n] by simp
  then have loop: "hypermem_num_loop (nat \<bar>sint n\<bar>) 19 [] =
      Some (19 - length (decimal (nat \<bar>sint n\<bar>)), decimal (nat \<bar>sint n\<bar>))"
    by (simp add: hypermem_num_loop_eq short)
  show ?thesis
  proof (cases "sint n < 0")
    case True
    have "length (decimal (nat (- sint n))) < 19 \<longleftrightarrow> - (10 ^ 18) < sint n"
      using length_decimal_iff [of 18 "nat (- sint n)"] True by (simp add: less_Suc_eq_le) linarith
    with True loop show ?thesis
      by (auto simp: hypermem_cat_num_def sint64_min show_int_def Let_def)
  next
    case False
    with loop show ?thesis
      by (auto simp: hypermem_cat_num_def sint64_min show_int_def Let_def)
  qed
qed

section \<open>The messages\<close>

lemma fresh_cursor_ok [simp]: "cursor_ok 1024 fresh_cursor" "cursor_text fresh_cursor = []"
  by (simp_all add: cursor_ok_def cursor_text_def fresh_cursor_def)

lemma foldl_cat_c_str:
  assumes "cursor_ok 1024 bp" "ss \<noteq> []" "\<forall>s \<in> set ss. NUL \<notin> set s"
  shows "c_str (fst (foldl (hypermem_cat 1024) bp ss)) = take 1023 (cursor_text bp @ concat ss)"
proof -
  obtain us u where ss: "ss = us @ [u]" using assms(2) by (meson rev_exhaust)
  have "cursor_ok 1024 (foldl (hypermem_cat 1024) bp us)"
    using assms ss by (auto intro: hc.ok_app_list)
  then have "c_str (fst (foldl (hypermem_cat 1024) bp ss)) = cursor_text (foldl (hypermem_cat 1024) bp ss)"
    using assms ss by (simp add: hypermem_cat_c_str)
  with hc.content_app_list [OF assms(1,3)] show ?thesis by simp
qed

lemma hypermem_log_text_eq:
  assumes "NUL \<notin> set msg" "NUL \<notin> set name"
  shows "hypermem_log_text name msg = take 1023 (msg @ ''; module='' @ name)"
  using foldl_cat_c_str [of fresh_cursor "[msg, ''; module='', name]"] assms
  by (simp add: hypermem_log_text_def)

definition callsite_pieces :: "nat \<Rightarrow> 64 word list \<Rightarrow> string list" where
  "callsite_pieces i sites =
     concat (map (\<lambda>(j, x). (if i + j > 0 then ['', ''] else []) @ [show_int (sint x)])
       (enumerate 0 sites))"

lemma callsite_pieces_Nil [simp]: "callsite_pieces i [] = []"
  by (simp add: callsite_pieces_def)

lemma callsite_pieces_Cons [simp]:
  "callsite_pieces i (x # xs) =
     (if i > 0 then ['', ''] else []) @ show_int (sint x) # callsite_pieces (Suc i) xs"
proof -
  have "map (\<lambda>(j, x). (if i + j > 0 then ['', ''] else []) @ [show_int (sint x)]) (enumerate (Suc 0) xs) =
        map (\<lambda>(j, x). (if Suc i + j > 0 then ['', ''] else []) @ [show_int (sint x)]) (enumerate 0 xs)"
    by (rule nth_equalityI) (auto simp: nth_enumerate_eq)
  then show ?thesis by (simp add: callsite_pieces_def)
qed

lemma NUL_notin_pieces: "s \<in> set (callsite_pieces i sites) \<Longrightarrow> NUL \<notin> set s"
  by (induction sites arbitrary: i) (auto split: if_splits)

lemma concat_pieces_Suc:
  "concat (callsite_pieces (Suc i) sites) = concat (map (\<lambda>y. '', '' @ show_int (sint y)) sites)"
  by (induction sites arbitrary: i) auto

lemma concat_pieces_0: "concat (callsite_pieces 0 sites) = join_sites sites"
  by (cases sites) (auto simp: concat_pieces_Suc)

definition printable :: "64 word \<Rightarrow> bool" where
  "printable x = (- (10 ^ 18) < sint x)"

lemma hypermem_cat_num_printable:
  "printable n \<Longrightarrow> hypermem_cat_num pend bp n = Inr (hypermem_cat pend bp (show_int (sint n)))"
  by (simp add: printable_def hypermem_cat_num_eq)

lemma cat_callsites_eq:
  "\<forall>x \<in> set sites. printable x \<Longrightarrow>
   cat_callsites i sites bp = Inr (foldl (hypermem_cat 1024) bp (callsite_pieces i sites))"
  by (induction sites arbitrary: i bp) (auto simp: hypermem_cat_num_printable)

lemma hypermem_callsites_text_eq:
  assumes "printable tot" "\<forall>x \<in> set sites. printable x" "length sites < 2 ^ 63"
  shows "hypermem_callsites_text tot sites = Inr (take 1023 (callsites_message tot sites))"
proof -
  let ?pre = "[''ltckpt recovery: window closed '', show_int (sint tot), '' times from '',
    show_int (int (length sites)), '' callsite(s): '']"
  have len: "sint (of_nat (length sites) :: 64 word) = int (length sites)"
    using assms(3) by (simp add: signed_of_nat signed_take_bit_int_eq_self)
  then have "printable (of_nat (length sites))" by (simp add: printable_def)
  with assms len have "hypermem_callsites_text tot sites =
      Inr (c_str (fst (foldl (hypermem_cat 1024) fresh_cursor (?pre @ callsite_pieces 0 sites))))"
    by (simp add: hypermem_callsites_text_def hypermem_cat_num_printable cat_callsites_eq)
  also have "\<dots> = Inr (take 1023 (callsites_message tot sites))"
    by (subst foldl_cat_c_str)
      (auto simp: NUL_notin_pieces callsites_message_def concat_pieces_0)
  finally show ?thesis .
qed

lemma hypermem_nonreplyable_text_eq:
  assumes "- (2 ^ 31) \<le> msgtype" "msgtype < 2 ^ 31"
  shows "hypermem_nonreplyable_text msgtype r =
    Inr (''ltckpt recovery: '' @ (if r = 0 then ''success'' else ''failed'') @
         '': non-replyable message: '' @ show_int msgtype)"
proof -
  have s: "sint (word_of_int msgtype :: 64 word) = msgtype"
    using assms by (simp add: signed_of_int signed_take_bit_int_eq_self)
  then have "printable (word_of_int msgtype)" using assms by (simp add: printable_def)
  moreover have "length (decimal (nat \<bar>msgtype\<bar>)) \<le> 11"
    using assms by (intro length_decimal_le) auto
  then have "length (show_int msgtype) \<le> 12"
    by (cases "msgtype < 0") (simp_all add: show_int_def)
  ultimately show ?thesis
    using s foldl_cat_c_str [of fresh_cursor "[''ltckpt recovery: '', (if r = 0 then ''success'' else ''failed''),
       '': non-replyable message: '', show_int msgtype]"]
    by (auto simp: hypermem_nonreplyable_text_def hypermem_cat_num_printable)
qed

end
