(* ===== verification/Recovery.thy ===== *)
theory Recovery
  imports Hypermem
begin

text \<open>
  The recovery runtime of \<^verbatim>\<open>ltckpt_recover.c\<close> and \<^verbatim>\<open>ltckpt_recover.h\<close>: the recovery
  window, the shutter board, deterministic fault injection, the policy hooks the
  instrumentation calls at every inter-process call site, and the dispatcher that decides
  after a crash whether the request is answered with an error, the requester is killed or
  the machine is reset. The file's globals are the record \<^verbatim>\<open>rec_state\<close>; the MINIX services
  it calls are the record \<^verbatim>\<open>minix\<close>, a parameter; the build's preprocessor switches are
  the record \<^verbatim>\<open>cfg\<close>. Console output is not modelled, the messages sent through
  \<^verbatim>\<open>hypermem_printstr\<close> are.
\<close>

section \<open>Data\<close>

record wprof_pol =
  bb_in :: "64 word"
  bb_out :: "64 word"
  end_t :: "64 word"
  end_k :: "64 word"
  end_s :: "64 word"
  end_n :: "64 word"
  ended_cumulative :: "64 word"

record wprof_set =
  pes :: wprof_pol
  dfa :: wprof_pol
  opt :: wprof_pol
  rwindow :: wprof_pol
  summary :: string

record window_shutter =
  do_suicide :: int
  prof_num_end :: "64 word"
  prof_bb_in :: "64 word"

record bens_shutter =
  transits :: int
  period :: int

record message =
  m_source :: int
  m_type :: int

text \<open>What the runtime does to the outside world, in order.\<close>

datatype event =
    Hypermem_printstr string
  | Sys_abort
  | Sys_kill int
  | Asynsend int message

record cfg =
  LTRC_SUICIDE_PERIODICALLY :: bool
  LTRC_SUICIDE_ONLY_ONCE :: bool
  LTRC_SUICIDE_WHEN_RECOVERABLE :: bool
  TOGGLE_ENABLE_STATS :: bool
  LTRC_NO_RECOVERY_ON_SVC_FI :: bool
  LTRC_REHANDLE_REQUEST :: bool

text \<open>
  The MINIX services and constants. The two weak symbols are options: None when the symbol
  is not linked. \<^verbatim>\<open>sef_get_current_message\<close> gives None when there is no current message
  and otherwise the message with its replyable flag.
\<close>

record minix =
  sef_get_current_message :: "(message \<times> int) option option"
  sef_llvm_is_user_endpoint :: "(int \<Rightarrow> int) option"
  sys_kill_ret :: "int \<Rightarrow> int"
  sys_abort_ret :: int
  asynsend_ret :: "int \<Rightarrow> message \<Rightarrow> int"
  sys_privctl_get_rs_ready :: bool
  RS_PROC_NR :: int
  COMMON_REQ_FI_CTL :: int
  EINVAL :: int
  ERESTART :: int

record rec_state =
  suicide_on_window_close :: bool
  sa_window_is_open :: bool
  inside_trusted_compute_base :: bool
  g_shutter_board :: "window_shutter list"
  g_module_name :: string
  wshutter_prof_curr_bb_in :: int
  g_num_window_shutters :: "64 word"
  g_num_kernelcall_shutters :: "64 word"
  g_recovery_bitmask :: "32 word"
  g_recovery_naive_mode :: "32 word"
  g_recovery_bitmask_reason :: "string option"
  g_recovery_bitmask_callsites :: "64 word list"
  g_recovery_bitmask_callsite_count :: nat
  g_recovery_bitmask_total_count :: "64 word"
  g_counter_inwindow :: "64 word"
  g_counter_outsidewindow :: "64 word"
  g_num_window_opens :: "64 word"
  g_num_suicides :: "64 word"
  prior_have_handled_message :: bool
  have_handled_message :: bool
  sef_init_done :: bool
  wprof_enable_stats :: bool
  wprof_glo :: wprof_set
  board :: "bens_shutter list"
  trace :: "event list"

definition LTCKPT_SHUTTER_BOARD_IPC_END :: nat where
  "LTCKPT_SHUTTER_BOARD_IPC_END = 1024"

definition LTCKPT_MAX_WINDOW_SHUTTERS :: nat where
  "LTCKPT_MAX_WINDOW_SHUTTERS = 2560"

definition RECOVERY_BITMASK_CALLSITE_COUNT :: nat where
  "RECOVERY_BITMASK_CALLSITE_COUNT = 64"

definition BEN_BOARD :: nat where
  "BEN_BOARD = 1000"

definition MASK_IDEMPOTENT :: "32 word" where "MASK_IDEMPOTENT = 0x1"
definition MASK_REQUEST_SPECIFIC :: "32 word" where "MASK_REQUEST_SPECIFIC = 0x2"
definition MASK_PROCESS_SPECIFIC :: "32 word" where "MASK_PROCESS_SPECIFIC = 0x4"
definition MASK_FAIL_STOP :: "32 word" where "MASK_FAIL_STOP = 0x8"
definition REPROCESSING_REQ :: "32 word" where "REPROCESSING_REQ = 0x10"

definition NAIVE_MODE_DEFAULT :: "32 word" where "NAIVE_MODE_DEFAULT = 0"
definition NAIVE_MODE_NEVER_REPLY :: "32 word" where "NAIVE_MODE_NEVER_REPLY = 5"
definition NAIVE_MODE_ALWAYS_REPLY :: "32 word" where "NAIVE_MODE_ALWAYS_REPLY = 7"

lemmas mask_defs = MASK_IDEMPOTENT_def MASK_REQUEST_SPECIFIC_def MASK_PROCESS_SPECIFIC_def
  MASK_FAIL_STOP_def REPROCESSING_REQ_def
lemmas mode_defs = NAIVE_MODE_DEFAULT_def NAIVE_MODE_NEVER_REPLY_def NAIVE_MODE_ALWAYS_REPLY_def
lemmas size_defs = LTCKPT_SHUTTER_BOARD_IPC_END_def LTCKPT_MAX_WINDOW_SHUTTERS_def
  RECOVERY_BITMASK_CALLSITE_COUNT_def BEN_BOARD_def

section \<open>Initial state\<close>

definition zero_pol :: wprof_pol where
  "zero_pol = \<lparr>bb_in = 0, bb_out = 0, end_t = 0, end_k = 0, end_s = 0, end_n = 0, ended_cumulative = 0\<rparr>"

definition zero_set :: wprof_set where
  "zero_set = \<lparr>pes = zero_pol, dfa = zero_pol, opt = zero_pol, rwindow = zero_pol, summary = []\<rparr>"

text \<open>
  The initialiser the static recovery pass writes for the shutter board
  (\<^verbatim>\<open>StaticRecoveryPass.h\<close>): the inter-process sites, zeros up to index 1024, the
  kernel-call sites, zeros to the end. A site is armed unless a map disarms it.
\<close>

definition shutter_value :: "bool \<Rightarrow> window_shutter" where
  "shutter_value armed = \<lparr>do_suicide = (if armed then 1 else 0), prof_num_end = 0, prof_bb_in = 0\<rparr>"

definition shutter_board_init ::
    "(nat \<rightharpoonup> int) option \<Rightarrow> (nat \<rightharpoonup> bool) \<Rightarrow> nat \<Rightarrow> nat \<Rightarrow> window_shutter list" where
  "shutter_board_init suicideMap kernelcallSuicideMap boardSize kernelCallsiteCounter =
     map (\<lambda>i. shutter_value (case suicideMap of None \<Rightarrow> True | Some f \<Rightarrow> f i \<noteq> Some 0)) [0..<boardSize] @
     map (\<lambda>i. shutter_value False) [boardSize..<LTCKPT_SHUTTER_BOARD_IPC_END + 1] @
     map (\<lambda>i. shutter_value (kernelcallSuicideMap i \<noteq> Some False))
       [LTCKPT_SHUTTER_BOARD_IPC_END + 1..<kernelCallsiteCounter + 1] @
     map (\<lambda>i. shutter_value False) [kernelCallsiteCounter + 1..<LTCKPT_MAX_WINDOW_SHUTTERS]"

text \<open>The array the initialiser is built for holds it exactly.\<close>

definition board_fits :: "nat \<Rightarrow> nat \<Rightarrow> bool" where
  "board_fits nipc nkc = (nipc \<le> LTCKPT_SHUTTER_BOARD_IPC_END + 1 \<and>
     LTCKPT_SHUTTER_BOARD_IPC_END + nkc < LTCKPT_MAX_WINDOW_SHUTTERS)"

text \<open>
  The initialised globals. The instrumentation sets the module name, the board and the two
  shutter counts; the service starts outside any message.
\<close>

definition rec_init :: "string \<Rightarrow> (nat \<rightharpoonup> int) option \<Rightarrow> (nat \<rightharpoonup> bool) \<Rightarrow> nat \<Rightarrow> nat \<Rightarrow> rec_state" where
  "rec_init name sm km nipc nkc = \<lparr>
     suicide_on_window_close = False, sa_window_is_open = False,
     inside_trusted_compute_base = True,
     g_shutter_board = shutter_board_init sm km nipc (LTCKPT_SHUTTER_BOARD_IPC_END + nkc),
     g_module_name = name, wshutter_prof_curr_bb_in = 0,
     g_num_window_shutters = of_nat nipc, g_num_kernelcall_shutters = of_nat nkc,
     g_recovery_bitmask = MASK_IDEMPOTENT, g_recovery_naive_mode = NAIVE_MODE_DEFAULT,
     g_recovery_bitmask_reason = None,
     g_recovery_bitmask_callsites = replicate RECOVERY_BITMASK_CALLSITE_COUNT 0,
     g_recovery_bitmask_callsite_count = 0, g_recovery_bitmask_total_count = 0,
     g_counter_inwindow = 0, g_counter_outsidewindow = 0,
     g_num_window_opens = 0, g_num_suicides = 0,
     prior_have_handled_message = False, have_handled_message = False,
     sef_init_done = False, wprof_enable_stats = False, wprof_glo = zero_set,
     board = replicate BEN_BOARD \<lparr>transits = 0, period = 0\<rparr>, trace = []\<rparr>"

section \<open>Shutter board and counters\<close>

text \<open>The bounds check of the macro CHECK\_SHUTTER\_BOARD\_SIZE: true when the site is refused.\<close>

definition CHECK_SHUTTER_BOARD_SIZE :: "64 word \<Rightarrow> 'a rec_state_scheme \<Rightarrow> bool" where
  "CHECK_SHUTTER_BOARD_SIZE i s =
     ((i \<ge> g_num_window_shutters s \<and> i \<le> 1024) \<or>
      (i > 1024 \<and> i > 1024 + g_num_kernelcall_shutters s))"

text \<open>
  The loop of the board dump visits the inter-process sites and then skips to the
  kernel-call sites; the indices it reads are collected. None is a read outside the board.
  The jump never goes backwards once the assertion before the loop has passed.
\<close>

function dump_loop :: "nat \<Rightarrow> nat \<Rightarrow> nat \<Rightarrow> nat \<Rightarrow> nat list option" where
  "dump_loop i lim nws len =
     (if i > lim then Some []
      else let j = (if i = nws then LTCKPT_SHUTTER_BOARD_IPC_END + 1 else i)
           in if j < i \<or> j \<ge> len then None
              else map_option (\<lambda>js. j # js) (dump_loop (j + 1) lim nws len))"
  by pat_completeness auto
termination
  by (relation "measure (\<lambda>(i, lim, nws, len). Suc lim - i)") auto

declare dump_loop.simps [simp del]

definition ltckpt_dump_shutter_board :: "'a rec_state_scheme \<Rightarrow> (nat list, 'a rec_state_scheme) outcome" where
  "ltckpt_dump_shutter_board s =
     (if \<not> g_num_window_shutters s \<le> 1024 then Fault AssertFail s
      else case dump_loop 0 (unat (1024 + g_num_kernelcall_shutters s))
                  (unat (g_num_window_shutters s)) (length (g_shutter_board s)) of
             None \<Rightarrow> Fault OutOfBounds s
           | Some js \<Rightarrow> Ret js s)"

definition sef_fi_custom :: "cfg \<Rightarrow> 'a rec_state_scheme \<Rightarrow> (int, 'a rec_state_scheme) outcome" where
  "sef_fi_custom c s =
     (let s = (if LTRC_SUICIDE_PERIODICALLY c \<or> LTRC_SUICIDE_ONLY_ONCE c
               then s\<lparr>suicide_on_window_close := True\<rparr> else s) in
      obind (if LTRC_SUICIDE_ONLY_ONCE c then ltckpt_dump_shutter_board s else Ret [] s) (\<lambda>_ s.
      let s = (if TOGGLE_ENABLE_STATS c
               then s\<lparr>wprof_enable_stats := \<not> wprof_enable_stats s\<rparr> else s)
      in Ret 0 s))"

definition inc_counter_inwindow :: "'a rec_state_scheme \<Rightarrow> 'a rec_state_scheme" where
  "inc_counter_inwindow s = s\<lparr>g_counter_inwindow := g_counter_inwindow s + 1\<rparr>"

definition inc_counter_outsidewindow :: "'a rec_state_scheme \<Rightarrow> 'a rec_state_scheme" where
  "inc_counter_outsidewindow s = s\<lparr>g_counter_outsidewindow := g_counter_outsidewindow s + 1\<rparr>"

section \<open>Window management\<close>

definition ltckpt_detect_start_of_window_hook :: "'a rec_state_scheme \<Rightarrow> 'a rec_state_scheme" where
  "ltckpt_detect_start_of_window_hook s =
     (let s1 =
        (if \<not> prior_have_handled_message s \<and> have_handled_message s then
           (let s = s\<lparr>sa_window_is_open := True,
                      g_recovery_bitmask := MASK_IDEMPOTENT,
                      g_recovery_bitmask_reason := None,
                      g_recovery_bitmask_callsite_count := 0,
                      g_recovery_bitmask_total_count := 0,
                      inside_trusted_compute_base := False\<rparr>
            in if wprof_enable_stats s
               then s\<lparr>wshutter_prof_curr_bb_in := 0, g_num_window_opens := g_num_window_opens s + 1\<rparr>
               else s)
         else if prior_have_handled_message s \<and> \<not> have_handled_message s then
           s\<lparr>sa_window_is_open := False\<rparr>
         else s)
      in s1\<lparr>prior_have_handled_message := have_handled_message s1\<rparr>)"

definition ltckpt_close_r_window :: "64 word \<Rightarrow> 'a rec_state_scheme \<Rightarrow> int \<times> 'a rec_state_scheme" where
  "ltckpt_close_r_window site_id s =
     (if have_handled_message s \<and> sa_window_is_open s then
        (let s = s\<lparr>sa_window_is_open := False\<rparr>;
             s = (if wprof_enable_stats s
                  then s\<lparr>wprof_glo := wprof_glo s\<lparr>rwindow :=
                         (rwindow (wprof_glo s))\<lparr>end_t := end_t (rwindow (wprof_glo s)) + 1\<rparr>\<rparr>\<rparr>
                  else s)
         in (1, s))
      else (0, s))"

definition ltckpt_transit_window :: "64 word \<Rightarrow> 'a rec_state_scheme \<Rightarrow> (int, 'a rec_state_scheme) outcome" where
  "ltckpt_transit_window site_id s =
     (if CHECK_SHUTTER_BOARD_SIZE site_id s then Ret 0 s
      else let i = unat (ucast site_id :: 32 word) in
        if i < length (g_shutter_board s) then
          (let e = g_shutter_board s ! i;
               e = e\<lparr>prof_num_end := prof_num_end e + 1\<rparr>;
               e = (if wprof_enable_stats s \<and> prof_bb_in e = 0
                    then e\<lparr>prof_bb_in := word_of_int (wshutter_prof_curr_bb_in s)\<rparr> else e)
           in Ret 0 (s\<lparr>g_shutter_board := (g_shutter_board s)[i := e]\<rparr>))
        else Fault OutOfBounds s)"

section \<open>Messages and the current request\<close>

definition hypermem_log :: "string \<Rightarrow> 'a rec_state_scheme \<Rightarrow> 'a rec_state_scheme" where
  "hypermem_log msg s =
     s\<lparr>trace := trace s @ [Hypermem_printstr (hypermem_log_text (g_module_name s) msg)]\<rparr>"

text \<open>
  The result, whether the flag for a fault-injection request of the reincarnation server
  is set, and the message type when it is stored.
\<close>

definition ltckpt_is_message_replyable :: "minix \<Rightarrow> int \<times> bool \<times> int option" where
  "ltckpt_is_message_replyable m =
     (case sef_get_current_message m of
        None \<Rightarrow> (-1, False, None)
      | Some None \<Rightarrow> (-1, False, None)
      | Some (Some (msg, replyable)) \<Rightarrow>
          (replyable, RS_PROC_NR m = m_source msg \<and> m_type msg = COMMON_REQ_FI_CTL m, Some (m_type msg)))"

section \<open>Deterministic fault injection\<close>

definition ltckpt_do_suicide :: "cfg \<Rightarrow> 'a rec_state_scheme \<Rightarrow> (unit, 'a rec_state_scheme) outcome" where
  "ltckpt_do_suicide c s =
     (let s = (if LTRC_SUICIDE_ONLY_ONCE c then s\<lparr>suicide_on_window_close := False\<rparr> else s) in
      if inside_trusted_compute_base s then Ret () s
      else if g_recovery_bitmask s \<noteq> MASK_IDEMPOTENT then Ret () s
      else Fault NullDeref (s\<lparr>g_num_suicides := g_num_suicides s + 1\<rparr>))"

text \<open>
  The periodic variant keeps its own table of transits and periods, C ints whose overflow is a
  fault; the result is whether this transit crashes.
\<close>

definition c_int :: "int \<Rightarrow> fault + int" where
  "c_int v = (if - (2 ^ 31) \<le> v \<and> v < 2 ^ 31 then Inr v else Inl SignedOverflow)"

definition bens_transit :: "nat \<Rightarrow> bens_shutter list \<Rightarrow> fault + bool \<times> bens_shutter list" where
  "bens_transit i bd =
     (if i < length bd then
        (let e = bd ! i in
         ebind (c_int (transits e + 1)) (\<lambda>n.
         let p = (if period e < 1 then 1 else period e)
         in if n mod p \<noteq> 0 then Inr (False, bd[i := \<lparr>transits = n, period = p\<rparr>])
            else ebind (c_int (p + 1)) (\<lambda>p. ebind (c_int (p * 3)) (\<lambda>p.
              Inr (True, bd[i := \<lparr>transits = 0, period = p div 2\<rparr>])))))
      else Inl OutOfBounds)"

definition ltckpt_do_suicide_per_site ::
    "cfg \<Rightarrow> minix \<Rightarrow> 64 word \<Rightarrow> 'a rec_state_scheme \<Rightarrow> (int, 'a rec_state_scheme) outcome" where
  "ltckpt_do_suicide_per_site c m site_id s =
     (let index = unat (ucast site_id :: 32 word) in
      if CHECK_SHUTTER_BOARD_SIZE site_id s then Ret 0 s
      else if inside_trusted_compute_base s then Ret 0 s
      else if \<not> sef_init_done s then Ret 0 (s\<lparr>inside_trusted_compute_base := True\<rparr>)
      else case sef_get_current_message m of
        None \<Rightarrow> Ret 0 s
      | Some cur \<Rightarrow>
          if sa_window_is_open s \<and> \<not> index < length (g_shutter_board s) then Fault OutOfBounds s
          else if sa_window_is_open s \<and> do_suicide (g_shutter_board s ! index) > 0 \<and>
                  suicide_on_window_close s then
            (case cur of
               None \<Rightarrow> Ret 0 s
             | Some (msg, replyable) \<Rightarrow>
                 if m_source msg = RS_PROC_NR m then Ret 0 s
                 else if \<not> sys_privctl_get_rs_ready m then Ret 0 s
                 else if LTRC_SUICIDE_WHEN_RECOVERABLE c \<and> fst (ltckpt_is_message_replyable m) \<noteq> 1
                 then Ret 0 s
                 else if LTRC_SUICIDE_PERIODICALLY c then
                   (case bens_transit index (board s) of
                      Inl f \<Rightarrow> Fault f s
                    | Inr (crash, bd) \<Rightarrow>
                        if crash then obind (ltckpt_do_suicide c (s\<lparr>board := bd\<rparr>)) (\<lambda>_. Ret 0)
                        else Ret 0 (s\<lparr>board := bd\<rparr>))
                 else obind (ltckpt_do_suicide c (s\<lparr>g_shutter_board :=
                        (g_shutter_board s)[index := (g_shutter_board s ! index)\<lparr>do_suicide := 0\<rparr>]\<rparr>))
                        (\<lambda>_. Ret 0))
          else Ret 0 s)"

section \<open>Policy hooks\<close>

definition ltckpt_set_idempotent_recovery :: "64 word \<Rightarrow> 'a rec_state_scheme \<Rightarrow> (unit, 'a rec_state_scheme) outcome" where
  "ltckpt_set_idempotent_recovery site_id s =
     (if inside_trusted_compute_base s then Ret () s
      else obind (ltckpt_transit_window site_id s) (\<lambda>_ s.
        Ret () (s\<lparr>g_recovery_bitmask := g_recovery_bitmask s OR MASK_IDEMPOTENT\<rparr>)))"

text \<open>The request-specific hook sets the idempotent bit, as the source does.\<close>

definition ltckpt_set_request_specific_recovery :: "64 word \<Rightarrow> 'a rec_state_scheme \<Rightarrow> (unit, 'a rec_state_scheme) outcome" where
  "ltckpt_set_request_specific_recovery site_id s =
     (if inside_trusted_compute_base s then Ret () s
      else obind (ltckpt_transit_window site_id s) (\<lambda>_ s.
        Ret () (s\<lparr>g_recovery_bitmask := g_recovery_bitmask s OR MASK_IDEMPOTENT\<rparr>)))"

definition ltckpt_set_process_local_recovery :: "64 word \<Rightarrow> 'a rec_state_scheme \<Rightarrow> (unit, 'a rec_state_scheme) outcome" where
  "ltckpt_set_process_local_recovery site_id s =
     (if inside_trusted_compute_base s then Ret () s
      else obind (ltckpt_transit_window site_id s) (\<lambda>_ s.
        Ret () (s\<lparr>g_recovery_bitmask := g_recovery_bitmask s OR MASK_PROCESS_SPECIFIC\<rparr>)))"

definition used_callsites :: "'a rec_state_scheme \<Rightarrow> 64 word list" where
  "used_callsites s = take (g_recovery_bitmask_callsite_count s) (g_recovery_bitmask_callsites s)"

definition ltckpt_add_site_id :: "64 word \<Rightarrow> 'a rec_state_scheme \<Rightarrow> 'a rec_state_scheme" where
  "ltckpt_add_site_id site_id s =
     (if list_ex (\<lambda>x. x = site_id) (used_callsites s) then s
      else if g_recovery_bitmask_callsite_count s < RECOVERY_BITMASK_CALLSITE_COUNT then
        s\<lparr>g_recovery_bitmask_callsites :=
             (g_recovery_bitmask_callsites s)[g_recovery_bitmask_callsite_count s := site_id],
          g_recovery_bitmask_callsite_count := g_recovery_bitmask_callsite_count s + 1\<rparr>
      else s)"

definition ltckpt_set_fail_stop_recovery :: "64 word \<Rightarrow> 'a rec_state_scheme \<Rightarrow> (unit, 'a rec_state_scheme) outcome" where
  "ltckpt_set_fail_stop_recovery site_id s =
     (if inside_trusted_compute_base s then Ret () s
      else obind (ltckpt_transit_window site_id s) (\<lambda>_ s.
        let s = snd (ltckpt_close_r_window site_id s);
            s = s\<lparr>g_recovery_bitmask := g_recovery_bitmask s OR MASK_FAIL_STOP,
                  g_recovery_bitmask_reason :=
                    Some ''ltckpt recovery: window closed: ltckpt_set_fail_stop_recovery''\<rparr>;
            s = ltckpt_add_site_id site_id s
        in Ret () (s\<lparr>g_recovery_bitmask_total_count := g_recovery_bitmask_total_count s + 1\<rparr>)))"

definition ltckpt_set_naive_recovery :: "32 word \<Rightarrow> 'a rec_state_scheme \<Rightarrow> 'a rec_state_scheme" where
  "ltckpt_set_naive_recovery mode s = s\<lparr>g_recovery_naive_mode := mode\<rparr>"

section \<open>Recovery actions\<close>

definition sys_abort :: "minix \<Rightarrow> 'a rec_state_scheme \<Rightarrow> int \<times> 'a rec_state_scheme" where
  "sys_abort m s = (sys_abort_ret m, s\<lparr>trace := trace s @ [Sys_abort]\<rparr>)"

definition sys_kill :: "minix \<Rightarrow> int \<Rightarrow> 'a rec_state_scheme \<Rightarrow> int \<times> 'a rec_state_scheme" where
  "sys_kill m src s = (sys_kill_ret m src, s\<lparr>trace := trace s @ [Sys_kill src]\<rparr>)"

definition asynsend :: "minix \<Rightarrow> int \<Rightarrow> message \<Rightarrow> 'a rec_state_scheme \<Rightarrow> int \<times> 'a rec_state_scheme" where
  "asynsend m dst msg s = (asynsend_ret m dst msg, s\<lparr>trace := trace s @ [Asynsend dst msg]\<rparr>)"

definition ltckpt_send_reply :: "minix \<Rightarrow> message \<Rightarrow> 'a rec_state_scheme \<Rightarrow> (int, 'a rec_state_scheme) outcome" where
  "ltckpt_send_reply m msg s =
     (let msg = msg\<lparr>m_type := ERESTART m\<rparr> in
      if \<not> m_type msg < 0 then Fault AssertFail s
      else let (r, s) = asynsend m (m_source msg) msg s
           in if r \<noteq> 0 then Ret (-1) s else Ret 0 s)"

definition ltckpt_is_req_rehandling :: "'a rec_state_scheme \<Rightarrow> 32 word" where
  "ltckpt_is_req_rehandling s = g_recovery_bitmask s AND REPROCESSING_REQ"

definition ltckpt_activate_req_rehandling :: "'a rec_state_scheme \<Rightarrow> 'a rec_state_scheme" where
  "ltckpt_activate_req_rehandling s =
     s\<lparr>g_recovery_bitmask := g_recovery_bitmask s OR REPROCESSING_REQ\<rparr>"

definition ltckpt_deactivate_req_rehandling :: "'a rec_state_scheme \<Rightarrow> 'a rec_state_scheme" where
  "ltckpt_deactivate_req_rehandling s =
     s\<lparr>g_recovery_bitmask := g_recovery_bitmask s AND NOT REPROCESSING_REQ\<rparr>"

definition ltckpt_recovery_idempotent :: "cfg \<Rightarrow> minix \<Rightarrow> 'a rec_state_scheme \<Rightarrow> (int, 'a rec_state_scheme) outcome" where
  "ltckpt_recovery_idempotent c m s =
     (case sef_get_current_message m of
        None \<Rightarrow> Ret (-1) (hypermem_log
          ''ltckpt recovery: failed: idempotent: sef_get_current_message() not available'' s)
      | Some None \<Rightarrow> Ret (-1) (hypermem_log
          ''ltckpt recovery: failed: idempotent: unable to fetch last handled message'' s)
      | Some (Some (msg, replyable)) \<Rightarrow>
          if LTRC_REHANDLE_REQUEST c then
            (if RS_PROC_NR m = m_source msg \<and> m_type msg = COMMON_REQ_FI_CTL m then Ret 0 s
             else Ret 0 (hypermem_log ''ltckpt recovery: success: idempotent''
                    (ltckpt_activate_req_rehandling s)))
          else if replyable = 0 \<and> g_recovery_naive_mode s \<noteq> NAIVE_MODE_ALWAYS_REPLY then
            Ret (-1) (hypermem_log ''ltckpt recovery: failed: idempotent: unreplyable request'' s)
          else obind (ltckpt_send_reply m msg s) (\<lambda>r s.
            if r = -1 then Ret (-1) (hypermem_log
              (''ltckpt recovery: failed: idempotent: couldn'' @ [CHR 0x27] @ ''t send error message'') s)
            else Ret 0 (hypermem_log ''ltckpt recovery: success: idempotent'' s)))"

definition ltckpt_recovery_request_specific :: "cfg \<Rightarrow> minix \<Rightarrow> 'a rec_state_scheme \<Rightarrow> (int, 'a rec_state_scheme) outcome" where
  "ltckpt_recovery_request_specific c m s = ltckpt_recovery_idempotent c m s"

definition ltckpt_recovery_process_specific :: "minix \<Rightarrow> 'a rec_state_scheme \<Rightarrow> (int, 'a rec_state_scheme) outcome" where
  "ltckpt_recovery_process_specific m s =
     (case (sef_get_current_message m, sef_llvm_is_user_endpoint m) of
        (Some cur, Some is_user) \<Rightarrow>
          (case cur of
             None \<Rightarrow> Ret (-1) (hypermem_log
               ''ltckpt recovery: failed: process_specific: unable to fetch last handled message'' s)
           | Some (msg, replyable) \<Rightarrow>
               let ret = is_user (m_source msg) in
               if ret = 1 then
                 (let (r, s) = sys_kill m (m_source msg) s in
                  if r = 0 then Ret 0 (hypermem_log ''ltckpt recovery: success: killed user process'' s)
                  else if r = EINVAL m then
                    Ret 0 (hypermem_log ''ltckpt recovery: success: user process is invalid'' s)
                  else Ret (-1) (hypermem_log
                    ''ltckpt recovery: failed: process_specific: unable to kill user process'' s))
               else if ret = 0 then
                 obind (ltckpt_send_reply m msg s) (\<lambda>r s.
                   if r = -1 then Ret (-1) (hypermem_log
                     ''ltckpt recovery: failed: process_specific: unable to send reply'' s)
                   else Ret 0 s)
               else Ret (-1) (hypermem_log
                 ''ltckpt recovery: failed: process_specific: error in figuring out whether source was user process'' s))
      | _ \<Rightarrow> Ret (-1) (hypermem_log
          ''ltckpt recovery: failed: process_specific: unable to find necessary sef_llvm method'' s))"

definition ltckpt_recovery_fail_stop :: "minix \<Rightarrow> 'a rec_state_scheme \<Rightarrow> (int, 'a rec_state_scheme) outcome" where
  "ltckpt_recovery_fail_stop m s =
     (let s = hypermem_log ''ltckpt recovery: shutdown: fail_stop'' s;
          (r, s) = sys_abort m s
      in if r \<noteq> 0 then Ret (-1) s else Ret 0 s)"

section \<open>The dispatcher\<close>

definition hypermem_log_callsites :: "'a rec_state_scheme \<Rightarrow> (unit, 'a rec_state_scheme) outcome" where
  "hypermem_log_callsites s =
     (case hypermem_callsites_text (g_recovery_bitmask_total_count s) (used_callsites s) of
        Inl e \<Rightarrow> Fault e s
      | Inr msg \<Rightarrow> Ret () (hypermem_log msg s))"

definition hypermem_log_nonreplyable :: "int \<Rightarrow> int \<Rightarrow> 'a rec_state_scheme \<Rightarrow> (unit, 'a rec_state_scheme) outcome" where
  "hypermem_log_nonreplyable msgtype r s =
     (case hypermem_nonreplyable_text msgtype r of
        Inl e \<Rightarrow> Fault e s
      | Inr msg \<Rightarrow> Ret () (hypermem_log msg s))"

text \<open>The branches of the dispatcher for a replyable message.\<close>

definition dispatch_replyable :: "cfg \<Rightarrow> minix \<Rightarrow> 'a rec_state_scheme \<Rightarrow> (int, 'a rec_state_scheme) outcome" where
  "dispatch_replyable c m s =
     (if g_recovery_bitmask s AND MASK_FAIL_STOP \<noteq> 0 then
        obind (hypermem_log_callsites (hypermem_log
            (case g_recovery_bitmask_reason s of
               Some msg \<Rightarrow> msg
             | None \<Rightarrow> ''ltckpt recovery: window closed: reason unknown'') s))
          (\<lambda>_ s. ltckpt_recovery_fail_stop m s)
      else if g_recovery_bitmask s AND MASK_PROCESS_SPECIFIC \<noteq> 0 then ltckpt_recovery_process_specific m s
      else if g_recovery_bitmask s AND MASK_REQUEST_SPECIFIC \<noteq> 0 then ltckpt_recovery_request_specific c m s
      else if g_recovery_bitmask s AND MASK_IDEMPOTENT \<noteq> 0 then ltckpt_recovery_idempotent c m s
      else Ret (-1) (hypermem_log ''ltckpt recovery: failed: invalid g_recovery_bitmask bitmask'' s))"

definition ltckpt_recovery_dispatcher :: "cfg \<Rightarrow> minix \<Rightarrow> 'a rec_state_scheme \<Rightarrow> (int, 'a rec_state_scheme) outcome" where
  "ltckpt_recovery_dispatcher c m s =
     (let s = hypermem_log ''ltckpt recovery: start recovery attempt'' s;
          s = s\<lparr>inside_trusted_compute_base := True\<rparr>;
          (replyable, rs_fi_flag, ty) = ltckpt_is_message_replyable m;
          msgtype = (case ty of None \<Rightarrow> 0 | Some t \<Rightarrow> t)
      in if LTRC_NO_RECOVERY_ON_SVC_FI c \<and> rs_fi_flag
         then Ret 0 (hypermem_log ''ltckpt recovery: success: RS_FI_CUSTOM'' s)
         else
           let replyable = (if g_recovery_naive_mode s = NAIVE_MODE_NEVER_REPLY then 0
                            else if g_recovery_naive_mode s = NAIVE_MODE_ALWAYS_REPLY then 1
                            else replyable)
           in obind
             (if replyable = 1 then dispatch_replyable c m s
              else if replyable = 0 then
                obind (hypermem_log_nonreplyable msgtype (-1) s) (\<lambda>_ s. Ret (-1) s)
              else if replyable = -1 then
                Ret (-1) (hypermem_log ''ltckpt recovery: failed: havent handled message'' s)
              else Ret (-1) (hypermem_log ''ltckpt recovery: failed: bad ltckpt_is_message_replyable result'' s))
             (\<lambda>r s.
               let r = (if g_recovery_naive_mode s \<noteq> NAIVE_MODE_DEFAULT then 0 else r)
               in if r = -1 then Ret r (snd (sys_abort m (hypermem_log ''ltckpt recovery: shutdown'' s)))
                  else Ret r s))"

section \<open>Runtime steps and the invariant\<close>

text \<open>
  One call into the runtime. The messages and the kernel's answers differ from call to call, so
  a call that consults them does so with any \<^verbatim>\<open>minix\<close>. A crash of the fault injection leaves the
  state the recovery works on, and a service whose recovery succeeded runs on from the state the
  dispatcher leaves.
\<close>

inductive rcall :: "cfg \<Rightarrow> 'a rec_state_scheme \<Rightarrow> 'a rec_state_scheme \<Rightarrow> bool" for c where
  step_sef_init: "rcall c s (s\<lparr>sef_init_done := b\<rparr>)"
| step_fi: "sef_fi_custom c s = Ret r s' \<Longrightarrow> rcall c s s'"
| step_inside: "rcall c s (inc_counter_inwindow s)"
| step_outside: "rcall c s (inc_counter_outsidewindow s)"
| step_close: "ltckpt_close_r_window site s = (r, s') \<Longrightarrow> rcall c s s'"
| step_transit: "ltckpt_transit_window site s = Ret r s' \<Longrightarrow> rcall c s s'"
| step_suicide: "ltckpt_do_suicide_per_site c m site s = Ret r s' \<Longrightarrow> rcall c s s'"
| step_crash: "ltckpt_do_suicide_per_site c m site s = Fault NullDeref s' \<Longrightarrow> rcall c s s'"
| step_idempotent: "ltckpt_set_idempotent_recovery site s = Ret u s' \<Longrightarrow> rcall c s s'"
| step_request: "ltckpt_set_request_specific_recovery site s = Ret u s' \<Longrightarrow> rcall c s s'"
| step_process: "ltckpt_set_process_local_recovery site s = Ret u s' \<Longrightarrow> rcall c s s'"
| step_fail_stop: "ltckpt_set_fail_stop_recovery site s = Ret u s' \<Longrightarrow> rcall c s s'"
| step_naive: "rcall c s (ltckpt_set_naive_recovery mode s)"
| step_dispatch: "ltckpt_recovery_dispatcher c m s = Ret r s' \<Longrightarrow> rcall c s s'"
| step_activate: "rcall c s (ltckpt_activate_req_rehandling s)"
| step_deactivate: "rcall c s (ltckpt_deactivate_req_rehandling s)"

text \<open>
  One step of a service: a call into the runtime, or the message loop, which sets
  \<^verbatim>\<open>have_handled_message\<close> and runs the window hook in the same step, where the source places it.
\<close>

inductive rstep :: "cfg \<Rightarrow> 'a rec_state_scheme \<Rightarrow> 'a rec_state_scheme \<Rightarrow> bool" for c where
  step_message: "rstep c s (ltckpt_detect_start_of_window_hook (s\<lparr>have_handled_message := b\<rparr>))"
| step_call: "rcall c s s' \<Longrightarrow> rstep c s s'"

abbreviation reachable :: "cfg \<Rightarrow> 'a rec_state_scheme \<Rightarrow> 'a rec_state_scheme \<Rightarrow> bool" where
  "reachable c \<equiv> (rstep c)\<^sup>*\<^sup>*"

definition fail_stopped :: "'a rec_state_scheme \<Rightarrow> bool" where
  "fail_stopped s = (g_recovery_bitmask s AND MASK_FAIL_STOP \<noteq> 0)"

text \<open>
  The invariant: table sizes, the callsite table holds distinct sites, the mask is one of
  the four the hooks can build, with or without the rehandling flag, the window is only open while a message is handled and no
  fail-stop call was made, and without a fail-stop call nothing is recorded.
\<close>

definition rec_inv :: "'a rec_state_scheme \<Rightarrow> bool" where
  "rec_inv s =
     (length (g_shutter_board s) = LTCKPT_MAX_WINDOW_SHUTTERS \<and>
      length (g_recovery_bitmask_callsites s) = RECOVERY_BITMASK_CALLSITE_COUNT \<and>
      length (board s) = BEN_BOARD \<and>
      g_recovery_bitmask_callsite_count s \<le> RECOVERY_BITMASK_CALLSITE_COUNT \<and>
      distinct (used_callsites s) \<and>
      g_recovery_bitmask s \<in> {1, 5, 9, 13, 17, 21, 25, 29} \<and>
      (sa_window_is_open s \<longrightarrow> have_handled_message s \<and> \<not> fail_stopped s) \<and>
      (fail_stopped s \<longrightarrow> g_recovery_bitmask_reason s \<noteq> None) \<and>
      (\<not> fail_stopped s \<longrightarrow> g_recovery_bitmask_reason s = None \<and>
         g_recovery_bitmask_callsite_count s = 0 \<and> g_recovery_bitmask_total_count s = 0) \<and>
      prior_have_handled_message s = have_handled_message s)"

section \<open>Lemmas: the invariant\<close>

lemma rec_init_inv: "board_fits nipc nkc \<Longrightarrow> rec_inv (rec_init name sm km nipc nkc)"
  by (simp add: rec_inv_def rec_init_def used_callsites_def fail_stopped_def mask_defs
      size_defs board_fits_def shutter_board_init_def)

text \<open>Updates that touch nothing the invariant reads.\<close>

lemma rec_inv_irrelevant [simp]:
  "rec_inv (s\<lparr>g_counter_inwindow := a\<rparr>) = rec_inv s"
  "rec_inv (s\<lparr>g_counter_outsidewindow := a\<rparr>) = rec_inv s"
  "rec_inv (s\<lparr>sef_init_done := b\<rparr>) = rec_inv s"
  "rec_inv (s\<lparr>suicide_on_window_close := b\<rparr>) = rec_inv s"
  "rec_inv (s\<lparr>wprof_enable_stats := b\<rparr>) = rec_inv s"
  "rec_inv (s\<lparr>wprof_glo := w\<rparr>) = rec_inv s"
  "rec_inv (s\<lparr>inside_trusted_compute_base := b\<rparr>) = rec_inv s"
  "rec_inv (s\<lparr>g_recovery_naive_mode := mode\<rparr>) = rec_inv s"
  "rec_inv (s\<lparr>g_num_suicides := a\<rparr>) = rec_inv s"
  "rec_inv (s\<lparr>wshutter_prof_curr_bb_in := i\<rparr>) = rec_inv s"
  "rec_inv (s\<lparr>g_num_window_opens := a\<rparr>) = rec_inv s"
  "rec_inv (s\<lparr>trace := t\<rparr>) = rec_inv s"
  by (simp_all add: rec_inv_def used_callsites_def fail_stopped_def)

lemma rec_inv_boards [simp]:
  "rec_inv (s\<lparr>g_shutter_board := (g_shutter_board s)[i := e]\<rparr>) = rec_inv s"
  "rec_inv (s\<lparr>board := (board s)[i := e']\<rparr>) = rec_inv s"
  by (simp_all add: rec_inv_def used_callsites_def fail_stopped_def)

lemma transit_window_inv:
  "ltckpt_transit_window site s = Ret r s' \<Longrightarrow> rec_inv s \<Longrightarrow> rec_inv s'"
  by (auto simp: ltckpt_transit_window_def Let_def split: if_splits)

lemma transit_window_frame:
  assumes "ltckpt_transit_window site s = Ret r s'"
  shows "g_recovery_bitmask s' = g_recovery_bitmask s"
    "sa_window_is_open s' = sa_window_is_open s"
    "have_handled_message s' = have_handled_message s"
    "inside_trusted_compute_base s' = inside_trusted_compute_base s"
    "used_callsites s' = used_callsites s"
  using assms by (auto simp: ltckpt_transit_window_def Let_def used_callsites_def split: if_splits)

lemma close_r_window_inv: "rec_inv s \<Longrightarrow> rec_inv (snd (ltckpt_close_r_window site s))"
  by (auto simp: ltckpt_close_r_window_def Let_def rec_inv_def used_callsites_def fail_stopped_def)

lemma close_r_window_closed: "rec_inv s \<Longrightarrow> \<not> sa_window_is_open (snd (ltckpt_close_r_window site s))"
  by (auto simp: ltckpt_close_r_window_def Let_def rec_inv_def)

lemma detect_hook_inv:
  "rec_inv s \<Longrightarrow> rec_inv (ltckpt_detect_start_of_window_hook (s\<lparr>have_handled_message := b\<rparr>))"
  by (auto simp: ltckpt_detect_start_of_window_hook_def Let_def rec_inv_def used_callsites_def
      fail_stopped_def mask_defs)

lemma bens_transit_length: "bens_transit i bd = Inr (x, bd') \<Longrightarrow> \<exists>e. bd' = bd[i := e]"
  by (auto simp: bens_transit_def Let_def ebind_eq_Inr split: if_splits)

lemma bens_transit_fault: "bens_transit i bd = Inl e \<Longrightarrow> e \<noteq> NullDeref"
  by (cases "transits (bd ! i) + 1 < 2 ^ 31"; cases "- (2 ^ 31) \<le> transits (bd ! i) + 1")
    (auto simp: bens_transit_def c_int_def Let_def split: if_splits)

lemma obind_Fault: "obind r f = Fault e s \<longleftrightarrow> r = Fault e s \<or> (\<exists>v s'. r = Ret v s' \<and> f v s' = Fault e s)"
  by (cases r) auto

lemma do_suicide_inv:
  "ltckpt_do_suicide c s = Ret u s' \<Longrightarrow> rec_inv s \<Longrightarrow> rec_inv s'"
  "ltckpt_do_suicide c s = Fault e s' \<Longrightarrow> rec_inv s \<Longrightarrow> rec_inv s'"
  by (auto simp: ltckpt_do_suicide_def Let_def split: if_splits)

lemma do_suicide_per_site_inv:
  "ltckpt_do_suicide_per_site c m site s = Ret r s' \<Longrightarrow> rec_inv s \<Longrightarrow> rec_inv s'"
  "ltckpt_do_suicide_per_site c m site s = Fault NullDeref s' \<Longrightarrow> rec_inv s \<Longrightarrow> rec_inv s'"
  by (auto simp: ltckpt_do_suicide_per_site_def Let_def obind_eq_Ret obind_Fault
      dest!: bens_transit_length do_suicide_inv split: if_splits option.splits prod.splits sum.splits)

lemma set_mask_inv:
  "rec_inv s \<Longrightarrow> rec_inv (s\<lparr>g_recovery_bitmask := g_recovery_bitmask s OR MASK_IDEMPOTENT\<rparr>)"
  "rec_inv s \<Longrightarrow> rec_inv (s\<lparr>g_recovery_bitmask := g_recovery_bitmask s OR MASK_PROCESS_SPECIFIC\<rparr>)"
  by (auto simp: rec_inv_def used_callsites_def fail_stopped_def mask_defs)

lemma set_hooks_inv:
  "ltckpt_set_idempotent_recovery site s = Ret u s' \<Longrightarrow> rec_inv s \<Longrightarrow> rec_inv s'"
  "ltckpt_set_request_specific_recovery site s = Ret u s' \<Longrightarrow> rec_inv s \<Longrightarrow> rec_inv s'"
  "ltckpt_set_process_local_recovery site s = Ret u s' \<Longrightarrow> rec_inv s \<Longrightarrow> rec_inv s'"
  by (auto simp: ltckpt_set_idempotent_recovery_def ltckpt_set_request_specific_recovery_def
      ltckpt_set_process_local_recovery_def obind_eq_Ret set_mask_inv
      dest!: transit_window_inv split: if_splits)

lemma used_callsites_add:
  assumes "length (g_recovery_bitmask_callsites s) = RECOVERY_BITMASK_CALLSITE_COUNT"
    "g_recovery_bitmask_callsite_count s \<le> RECOVERY_BITMASK_CALLSITE_COUNT"
  shows "used_callsites (ltckpt_add_site_id site s) =
    (if site \<in> set (used_callsites s) \<or> length (used_callsites s) = RECOVERY_BITMASK_CALLSITE_COUNT
     then used_callsites s else used_callsites s @ [site])"
  using assms
  by (auto simp: ltckpt_add_site_id_def used_callsites_def list_ex_iff take_Suc_conv_app_nth min_def)

lemma fail_stop_mask:
  "x \<in> {1, 5, 9, 13, 17, 21, 25, 29} \<Longrightarrow> (x :: 32 word) OR MASK_FAIL_STOP \<in> {9, 13, 25, 29}"
  by (auto simp: mask_defs)

lemma fail_stop_core_inv:
  assumes "rec_inv s" "\<not> sa_window_is_open s"
  shows "rec_inv (ltckpt_add_site_id site (s\<lparr>g_recovery_bitmask := g_recovery_bitmask s OR MASK_FAIL_STOP,
    g_recovery_bitmask_reason := Some msg\<rparr>)\<lparr>g_recovery_bitmask_total_count := n\<rparr>)"
proof -
  let ?s = "s\<lparr>g_recovery_bitmask := g_recovery_bitmask s OR MASK_FAIL_STOP,
    g_recovery_bitmask_reason := Some msg\<rparr>"
  have u: "used_callsites ?s = used_callsites s" by (simp add: used_callsites_def)
  have m: "g_recovery_bitmask s OR MASK_FAIL_STOP \<in> {9, 13, 25, 29}"
    using assms fail_stop_mask by (simp add: rec_inv_def)
  have d: "distinct (used_callsites (ltckpt_add_site_id site ?s))"
    using assms by (subst used_callsites_add) (auto simp: rec_inv_def u)
  have c: "g_recovery_bitmask_callsite_count (ltckpt_add_site_id site ?s) \<le> RECOVERY_BITMASK_CALLSITE_COUNT"
    "length (g_recovery_bitmask_callsites (ltckpt_add_site_id site ?s)) = RECOVERY_BITMASK_CALLSITE_COUNT"
    using assms by (auto simp: rec_inv_def ltckpt_add_site_id_def)
  have f: "g_recovery_bitmask (ltckpt_add_site_id site ?s) = g_recovery_bitmask s OR MASK_FAIL_STOP"
    "sa_window_is_open (ltckpt_add_site_id site ?s) = sa_window_is_open s"
    "g_recovery_bitmask_reason (ltckpt_add_site_id site ?s) = Some msg"
    "g_shutter_board (ltckpt_add_site_id site ?s) = g_shutter_board s"
    "board (ltckpt_add_site_id site ?s) = board s"
    "prior_have_handled_message (ltckpt_add_site_id site ?s) = prior_have_handled_message s"
    "have_handled_message (ltckpt_add_site_id site ?s) = have_handled_message s"
    by (auto simp: ltckpt_add_site_id_def)
  have fs: "fail_stopped (ltckpt_add_site_id site ?s)"
    using m f by (auto simp: fail_stopped_def mask_defs)
  have "used_callsites (x\<lparr>g_recovery_bitmask_total_count := n\<rparr>) = used_callsites x"
    "fail_stopped (x\<lparr>g_recovery_bitmask_total_count := n\<rparr>) = fail_stopped x" for x :: "'a rec_state_scheme"
    by (simp_all add: used_callsites_def fail_stopped_def)
  moreover have "g_recovery_bitmask s OR MASK_FAIL_STOP \<in> {1, 5, 9, 13, 17, 21, 25, 29}"
    using m by auto
  ultimately show ?thesis using assms d c f fs by (simp add: rec_inv_def)
qed

lemma set_fail_stop_inv:
  assumes "ltckpt_set_fail_stop_recovery site s = Ret u s'" "rec_inv s"
  shows "rec_inv s'"
proof (cases "inside_trusted_compute_base s")
  case False
  then obtain r t where t: "ltckpt_transit_window site s = Ret r t"
    using assms(1) by (auto simp: ltckpt_set_fail_stop_recovery_def obind_eq_Ret)
  then have "rec_inv (snd (ltckpt_close_r_window site t))"
    and "\<not> sa_window_is_open (snd (ltckpt_close_r_window site t))"
    using assms(2) transit_window_inv [OF t] close_r_window_closed [of t site]
    by (auto intro: close_r_window_inv)
  from fail_stop_core_inv [OF this] show ?thesis
    using assms(1) False t by (auto simp: ltckpt_set_fail_stop_recovery_def Let_def)
qed (use assms in \<open>auto simp: ltckpt_set_fail_stop_recovery_def\<close>)

lemma sef_fi_custom_inv: "sef_fi_custom c s = Ret r s' \<Longrightarrow> rec_inv s \<Longrightarrow> rec_inv s'"
  by (auto simp: sef_fi_custom_def ltckpt_dump_shutter_board_def Let_def obind_eq_Ret
      split: if_splits option.splits)

text \<open>What the dispatcher changes: the trace, and the rehandling flag of the mask.\<close>

definition dispatch_frame :: "'a rec_state_scheme \<Rightarrow> 'a rec_state_scheme \<Rightarrow> bool" where
  "dispatch_frame s t = (t\<lparr>trace := [], g_recovery_bitmask := 0\<rparr> = s\<lparr>trace := [], g_recovery_bitmask := 0\<rparr> \<and>
     (g_recovery_bitmask t = g_recovery_bitmask s \<or>
      g_recovery_bitmask t = g_recovery_bitmask s OR REPROCESSING_REQ))"

lemma dispatch_frame_simps [simp]:
  "dispatch_frame s s"
  "dispatch_frame s (ltckpt_activate_req_rehandling s)"
  "dispatch_frame s (t\<lparr>trace := tr\<rparr>) = dispatch_frame s t"
  "dispatch_frame s (hypermem_log msg t) = dispatch_frame s t"
  "dispatch_frame (hypermem_log msg s) t = dispatch_frame s t"
  by (simp_all add: dispatch_frame_def ltckpt_activate_req_rehandling_def hypermem_log_def)

lemma dispatch_frame_eq:
  assumes "dispatch_frame s t"
  shows "t = s\<lparr>trace := trace t, g_recovery_bitmask := g_recovery_bitmask t\<rparr>"
proof -
  have "t = (t\<lparr>trace := [], g_recovery_bitmask := 0\<rparr>)\<lparr>trace := trace t, g_recovery_bitmask := g_recovery_bitmask t\<rparr>"
    by simp
  also have "\<dots> = s\<lparr>trace := trace t, g_recovery_bitmask := g_recovery_bitmask t\<rparr>"
    using assms by (simp only: dispatch_frame_def) simp
  finally show ?thesis .
qed

lemma send_reply_frame: "ltckpt_send_reply m msg s = Ret r t \<Longrightarrow> dispatch_frame s t"
  by (auto simp: ltckpt_send_reply_def asynsend_def Let_def split: if_splits)

lemma idempotent_frame: "ltckpt_recovery_idempotent c m s = Ret r t \<Longrightarrow> dispatch_frame s t"
  by (auto simp: ltckpt_recovery_idempotent_def obind_eq_Ret
      dest!: send_reply_frame split: option.splits if_splits)

lemma process_specific_frame: "ltckpt_recovery_process_specific m s = Ret r t \<Longrightarrow> dispatch_frame s t"
  by (auto simp: ltckpt_recovery_process_specific_def obind_eq_Ret sys_kill_def Let_def
      dest!: send_reply_frame split: option.splits if_splits)

lemma dispatch_replyable_frame: "dispatch_replyable c m s = Ret r t \<Longrightarrow> dispatch_frame s t"
  by (auto simp: dispatch_replyable_def obind_eq_Ret hypermem_log_callsites_def ltckpt_recovery_fail_stop_def
      sys_abort_def ltckpt_recovery_request_specific_def Let_def
      dest!: idempotent_frame process_specific_frame split: option.splits if_splits sum.splits)

lemma dispatcher_frame:
  "ltckpt_recovery_dispatcher c m s = Ret r t \<Longrightarrow> dispatch_frame (s\<lparr>inside_trusted_compute_base := True\<rparr>) t"
proof -
  have eq: "(hypermem_log msg s)\<lparr>inside_trusted_compute_base := True\<rparr> =
    hypermem_log msg (s\<lparr>inside_trusted_compute_base := True\<rparr>)" for msg by (simp add: hypermem_log_def)
  show "ltckpt_recovery_dispatcher c m s = Ret r t \<Longrightarrow> dispatch_frame (s\<lparr>inside_trusted_compute_base := True\<rparr>) t"
    by (auto simp: ltckpt_recovery_dispatcher_def eq obind_eq_Ret hypermem_log_nonreplyable_def sys_abort_def Let_def
        dest!: dispatch_replyable_frame split: prod.splits if_splits sum.splits)
qed

lemma rehandling_inv:
  "rec_inv s \<Longrightarrow> rec_inv (ltckpt_activate_req_rehandling s)"
  "rec_inv s \<Longrightarrow> rec_inv (ltckpt_deactivate_req_rehandling s)"
  by (auto simp: ltckpt_activate_req_rehandling_def ltckpt_deactivate_req_rehandling_def rec_inv_def
      used_callsites_def fail_stopped_def mask_defs)

lemma dispatch_frame_inv:
  assumes "dispatch_frame s t" "rec_inv s"
  shows "rec_inv t"
proof -
  let ?s = "s\<lparr>trace := trace t\<rparr>"
  have "g_recovery_bitmask t = g_recovery_bitmask ?s \<or> g_recovery_bitmask t = g_recovery_bitmask ?s OR REPROCESSING_REQ"
    using assms(1) by (simp add: dispatch_frame_def)
  then have "rec_inv (?s\<lparr>g_recovery_bitmask := g_recovery_bitmask t\<rparr>)"
    using assms(2) rehandling_inv(1) [of ?s] by (auto simp: ltckpt_activate_req_rehandling_def)
  then show ?thesis using dispatch_frame_eq [OF assms(1)] by simp
qed

lemma rcall_inv: "rcall c s s' \<Longrightarrow> rec_inv s \<Longrightarrow> rec_inv s'"
proof (induction rule: rcall.induct)
  case (step_close site s r s')
  then show ?case using close_r_window_inv [of s site] by simp
next
  case (step_dispatch m s r s')
  then show ?case using dispatch_frame_inv [OF dispatcher_frame] by simp
qed (auto simp: inc_counter_inwindow_def inc_counter_outsidewindow_def ltckpt_set_naive_recovery_def
    intro: transit_window_inv do_suicide_per_site_inv set_hooks_inv set_fail_stop_inv
      sef_fi_custom_inv rehandling_inv)

lemma rstep_inv: "rstep c s s' \<Longrightarrow> rec_inv s \<Longrightarrow> rec_inv s'"
  by (induction rule: rstep.induct) (auto intro: detect_hook_inv rcall_inv)

interpretation rs: inductive_invariant "rstep c" rec_inv
  by unfold_locales (rule rstep_inv)

section \<open>The recovery policy as a decision table\<close>

text \<open>
  The promise of the dispatcher without its logging: the result and the actions taken on
  other processes and on the machine.
\<close>

definition is_action :: "event \<Rightarrow> bool" where
  "is_action e = (case e of Hypermem_printstr msg \<Rightarrow> False | _ \<Rightarrow> True)"

definition actions :: "'a rec_state_scheme \<Rightarrow> event list" where
  "actions s = filter is_action (trace s)"

definition reply_spec :: "minix \<Rightarrow> message \<Rightarrow> int \<times> event list" where
  "reply_spec m msg =
     (let reply = msg\<lparr>m_type := ERESTART m\<rparr>
      in (if asynsend_ret m (m_source msg) reply = 0 then 0 else -1, [Asynsend (m_source msg) reply]))"

definition idempotent_spec :: "cfg \<Rightarrow> minix \<Rightarrow> 32 word \<Rightarrow> int \<times> event list" where
  "idempotent_spec c m mode =
     (case sef_get_current_message m of
        Some (Some (msg, replyable)) \<Rightarrow>
          if LTRC_REHANDLE_REQUEST c then (0, [])
          else if replyable = 0 \<and> mode \<noteq> NAIVE_MODE_ALWAYS_REPLY then (-1, [])
          else reply_spec m msg
      | _ \<Rightarrow> (-1, []))"

definition process_spec :: "minix \<Rightarrow> int \<times> event list" where
  "process_spec m =
     (case (sef_get_current_message m, sef_llvm_is_user_endpoint m) of
        (Some (Some (msg, replyable)), Some is_user) \<Rightarrow>
          if is_user (m_source msg) = 1 then
            (if sys_kill_ret m (m_source msg) \<in> {0, EINVAL m} then 0 else -1, [Sys_kill (m_source msg)])
          else if is_user (m_source msg) = 0 then reply_spec m msg
          else (-1, [])
      | _ \<Rightarrow> (-1, []))"

definition policy_spec :: "cfg \<Rightarrow> minix \<Rightarrow> 32 word \<Rightarrow> 32 word \<Rightarrow> int \<times> event list" where
  "policy_spec c m w mode =
     (if bit w 3 then (if sys_abort_ret m = 0 then 0 else -1, [Sys_abort])
      else if bit w 2 then process_spec m
      else if bit w 1 \<or> bit w 0 then idempotent_spec c m mode
      else (-1, []))"

definition effective_replyable :: "minix \<Rightarrow> 32 word \<Rightarrow> int" where
  "effective_replyable m mode =
     (if mode = NAIVE_MODE_NEVER_REPLY then 0 else if mode = NAIVE_MODE_ALWAYS_REPLY then 1
      else case sef_get_current_message m of Some (Some (msg, r)) \<Rightarrow> r | _ \<Rightarrow> -1)"

definition service_fi_request :: "minix \<Rightarrow> bool" where
  "service_fi_request m =
     (case sef_get_current_message m of
        Some (Some (msg, r)) \<Rightarrow> m_source msg = RS_PROC_NR m \<and> m_type msg = COMMON_REQ_FI_CTL m
      | _ \<Rightarrow> False)"

definition dispatch_spec :: "cfg \<Rightarrow> minix \<Rightarrow> 32 word \<Rightarrow> 32 word \<Rightarrow> int \<times> event list" where
  "dispatch_spec c m w mode =
     (if LTRC_NO_RECOVERY_ON_SVC_FI c \<and> service_fi_request m then (0, [])
      else let (r, acts) = (if effective_replyable m mode = 1 then policy_spec c m w mode else (-1, []))
           in if mode \<noteq> NAIVE_MODE_DEFAULT then (0, acts)
              else if r = -1 then (-1, acts @ [Sys_abort]) else (r, acts))"

text \<open>
  What the dispatcher relies on: ERESTART is negative, message types are C ints, and the
  recorded numbers fit the number printer's buffer.
\<close>

definition minix_ok :: "minix \<Rightarrow> bool" where
  "minix_ok m = (ERESTART m < 0 \<and>
     (case sef_get_current_message m of
        Some (Some (msg, r)) \<Rightarrow> - (2 ^ 31) \<le> m_type msg \<and> m_type msg < 2 ^ 31
      | _ \<Rightarrow> True))"

definition log_ok :: "'a rec_state_scheme \<Rightarrow> bool" where
  "log_ok s = (printable (g_recovery_bitmask_total_count s) \<and> (\<forall>x \<in> set (used_callsites s). printable x) \<and>
     length (used_callsites s) \<le> RECOVERY_BITMASK_CALLSITE_COUNT)"

section \<open>Lemmas: the dispatcher refines the table\<close>

lemma bit_mask_iff:
  "(w :: 32 word) AND MASK_FAIL_STOP \<noteq> 0 \<longleftrightarrow> bit w 3"
  "w AND MASK_PROCESS_SPECIFIC \<noteq> 0 \<longleftrightarrow> bit w 2"
  "w AND MASK_REQUEST_SPECIFIC \<noteq> 0 \<longleftrightarrow> bit w 1"
  "w AND MASK_IDEMPOTENT \<noteq> 0 \<longleftrightarrow> bit w 0"
  using and_exp_eq_0_iff_not_bit [of w 3] and_exp_eq_0_iff_not_bit [of w 2]
    and_exp_eq_0_iff_not_bit [of w 1] and_exp_eq_0_iff_not_bit [of w 0]
  by (simp_all add: mask_defs)

lemma hypermem_log_fields [simp]:
  "g_recovery_bitmask (hypermem_log msg s) = g_recovery_bitmask s"
  "g_recovery_naive_mode (hypermem_log msg s) = g_recovery_naive_mode s"
  "g_recovery_bitmask_reason (hypermem_log msg s) = g_recovery_bitmask_reason s"
  "g_recovery_bitmask_total_count (hypermem_log msg s) = g_recovery_bitmask_total_count s"
  "used_callsites (hypermem_log msg s) = used_callsites s"
  "actions (hypermem_log msg s) = actions s"
  by (simp_all add: hypermem_log_def used_callsites_def actions_def is_action_def)

lemma actions_update [simp]:
  "actions (s\<lparr>trace := trace s @ [e]\<rparr>) = actions s @ (if is_action e then [e] else [])"
  "actions (s\<lparr>inside_trusted_compute_base := b\<rparr>) = actions s"
  "actions (s\<lparr>g_recovery_bitmask := w\<rparr>) = actions s"
  by (simp_all add: actions_def)

lemma is_action_simps [simp]:
  "is_action Sys_abort" "is_action (Sys_kill i)" "is_action (Asynsend i msg)"
  "\<not> is_action (Hypermem_printstr t)"
  by (simp_all add: is_action_def)

text \<open>A recovery action behaves as a table entry: it returns, acts so, and keeps the mode.\<close>

definition meets :: "(int, 'a rec_state_scheme) outcome \<Rightarrow> 'a rec_state_scheme \<Rightarrow> int \<times> event list \<Rightarrow> bool" where
  "meets out s sp = (case out of Ret r s' \<Rightarrow>
     r = fst sp \<and> actions s' = actions s @ snd sp \<and> g_recovery_naive_mode s' = g_recovery_naive_mode s
   | Fault e s' \<Rightarrow> False)"

lemma meets_log: "meets (Ret r (hypermem_log msg s)) s (r, [])"
  by (simp add: meets_def)

lemma send_reply_meets: "ERESTART m < 0 \<Longrightarrow> meets (ltckpt_send_reply m msg s) s (reply_spec m msg)"
  by (auto simp: meets_def ltckpt_send_reply_def asynsend_def reply_spec_def Let_def)

lemma idempotent_meets:
  "ERESTART m < 0 \<Longrightarrow>
   meets (ltckpt_recovery_idempotent c m s) s (idempotent_spec c m (g_recovery_naive_mode s))"
  by (auto simp: meets_def ltckpt_recovery_idempotent_def idempotent_spec_def ltckpt_send_reply_def
      asynsend_def reply_spec_def ltckpt_activate_req_rehandling_def Let_def split: option.splits)

lemma process_meets:
  "ERESTART m < 0 \<Longrightarrow> meets (ltckpt_recovery_process_specific m s) s (process_spec m)"
  by (auto simp: meets_def ltckpt_recovery_process_specific_def process_spec_def ltckpt_send_reply_def
      asynsend_def sys_kill_def reply_spec_def Let_def split: option.splits)

lemma log_callsites_ok:
  assumes "log_ok s"
  shows "\<exists>msg. hypermem_log_callsites s = Ret () (hypermem_log msg s)"
  using assms hypermem_callsites_text_eq [of "g_recovery_bitmask_total_count s" "used_callsites s"]
  by (auto simp: log_ok_def hypermem_log_callsites_def size_defs)

lemma log_ok_hypermem [simp]: "log_ok (hypermem_log msg s) = log_ok s"
  by (simp add: log_ok_def)

lemma fail_stop_meets:
  assumes "log_ok s"
  shows "meets (obind (hypermem_log_callsites (hypermem_log msg s)) (\<lambda>_ s. ltckpt_recovery_fail_stop m s)) s
     (if sys_abort_ret m = 0 then 0 else -1, [Sys_abort])"
proof -
  obtain t where "hypermem_log_callsites (hypermem_log msg s) = Ret () (hypermem_log t (hypermem_log msg s))"
    using assms log_callsites_ok [of "hypermem_log msg s"] by auto
  then show ?thesis
    by (simp add: meets_def ltckpt_recovery_fail_stop_def sys_abort_def Let_def)
qed

lemma dispatch_replyable_meets:
  assumes "ERESTART m < 0" "log_ok s"
  shows "meets (dispatch_replyable c m s) s (policy_spec c m (g_recovery_bitmask s) (g_recovery_naive_mode s))"
  using fail_stop_meets [OF assms(2)] idempotent_meets [OF assms(1)] process_meets [OF assms(1)]
  unfolding dispatch_replyable_def policy_spec_def bit_mask_iff ltckpt_recovery_request_specific_def
  by (auto simp: meets_log)

lemma nonreplyable_meets:
  assumes "- (2 ^ 31) \<le> ty" "ty < 2 ^ 31"
  shows "meets (obind (hypermem_log_nonreplyable ty (-1) s) (\<lambda>_. Ret (-1))) s (-1, [])"
  using hypermem_nonreplyable_text_eq [OF assms] by (simp add: meets_def hypermem_log_nonreplyable_def)

lemma replyable_effective:
  "minix_ok m \<Longrightarrow> ltckpt_is_message_replyable m = (r, fi, ty) \<Longrightarrow>
     fi = service_fi_request m \<and>
     (if mode = NAIVE_MODE_NEVER_REPLY then 0 else if mode = NAIVE_MODE_ALWAYS_REPLY then 1 else r) =
       effective_replyable m mode \<and>
     - (2 ^ 31) \<le> (case ty of None \<Rightarrow> 0 | Some t \<Rightarrow> t) \<and> (case ty of None \<Rightarrow> 0 | Some t \<Rightarrow> t) < 2 ^ 31"
  by (auto simp: ltckpt_is_message_replyable_def service_fi_request_def effective_replyable_def minix_ok_def
      split: option.splits)

lemma dispatcher_finish:
  assumes "meets out s sp"
  shows "meets (obind out (\<lambda>r s.
      let r = (if g_recovery_naive_mode s \<noteq> NAIVE_MODE_DEFAULT then 0 else r)
      in if r = -1 then Ret r (snd (sys_abort m (hypermem_log msg s))) else Ret r s)) s
    (if g_recovery_naive_mode s \<noteq> NAIVE_MODE_DEFAULT then (0, snd sp)
     else if fst sp = -1 then (-1, snd sp @ [Sys_abort]) else sp)"
proof -
  from assms obtain r t where "out = Ret r t" "r = fst sp" "actions t = actions s @ snd sp"
    "g_recovery_naive_mode t = g_recovery_naive_mode s"
    by (cases out) (auto simp: meets_def)
  then show ?thesis
    by (simp add: meets_def sys_abort_def Let_def)
qed

lemma dispatcher_meets:
  assumes "minix_ok m" "log_ok s"
  shows "meets (ltckpt_recovery_dispatcher c m s) s
    (dispatch_spec c m (g_recovery_bitmask s) (g_recovery_naive_mode s))"
proof -
  let ?s = "(hypermem_log ''ltckpt recovery: start recovery attempt'' s)\<lparr>inside_trusted_compute_base := True\<rparr>"
  obtain r fi ty where rep: "ltckpt_is_message_replyable m = (r, fi, ty)" by (cases "ltckpt_is_message_replyable m")
  let ?eff = "effective_replyable m (g_recovery_naive_mode s)"
  let ?sp = "if ?eff = 1 then policy_spec c m (g_recovery_bitmask s) (g_recovery_naive_mode s) else (-1, [])"
  let ?body = "if ?eff = 1 then dispatch_replyable c m ?s
     else if ?eff = 0 then obind (hypermem_log_nonreplyable (case ty of None \<Rightarrow> 0 | Some t \<Rightarrow> t) (-1) ?s) (\<lambda>_. Ret (-1))
     else if ?eff = -1 then Ret (-1) (hypermem_log ''ltckpt recovery: failed: havent handled message'' ?s)
     else Ret (-1) (hypermem_log ''ltckpt recovery: failed: bad ltckpt_is_message_replyable result'' ?s)"
  note eff = replyable_effective [OF assms(1) rep, of "g_recovery_naive_mode s"]
  have ok: "ERESTART m < 0" "log_ok ?s"
    using assms by (simp_all add: minix_ok_def log_ok_def hypermem_log_def used_callsites_def)
  have same: "g_recovery_bitmask ?s = g_recovery_bitmask s" "g_recovery_naive_mode ?s = g_recovery_naive_mode s"
    "actions ?s = actions s"
    by simp_all
  have "meets ?body ?s ?sp"
    using dispatch_replyable_meets [OF ok, of c, unfolded same]
      nonreplyable_meets [of "case ty of None \<Rightarrow> 0 | Some t \<Rightarrow> t" ?s] eff
    by (simp only: meets_log if_True if_False split: if_split) simp
  note fin = dispatcher_finish [OF this, of m "''ltckpt recovery: shutdown''"]
  show ?thesis
  proof (cases "LTRC_NO_RECOVERY_ON_SVC_FI c \<and> fi")
    case True
    then show ?thesis
      using eff rep by (simp add: ltckpt_recovery_dispatcher_def dispatch_spec_def meets_def)
  next
    case False
    have "ltckpt_recovery_dispatcher c m s = obind ?body (\<lambda>r s.
      let r = (if g_recovery_naive_mode s \<noteq> NAIVE_MODE_DEFAULT then 0 else r)
      in if r = -1 then Ret r (snd (sys_abort m (hypermem_log ''ltckpt recovery: shutdown'' s))) else Ret r s)"
      unfolding ltckpt_recovery_dispatcher_def
      by (simp only: rep Let_def prod.case False if_False same eff [THEN conjunct2, THEN conjunct1])
    moreover have "dispatch_spec c m (g_recovery_bitmask s) (g_recovery_naive_mode s) =
      (if g_recovery_naive_mode s \<noteq> NAIVE_MODE_DEFAULT then (0, snd ?sp)
       else if fst ?sp = -1 then (-1, snd ?sp @ [Sys_abort]) else ?sp)"
      unfolding dispatch_spec_def
      by (simp only: False eff [THEN conjunct1, symmetric] if_False Let_def split_beta prod.collapse)
    ultimately show ?thesis
      using fin by (simp only: same) (simp only: meets_def same)
  qed
qed

section \<open>Lemmas: bounds, injection, callsites\<close>

lemma index_of_accepted:
  assumes "\<not> CHECK_SHUTTER_BOARD_SIZE site s" "unat (g_num_kernelcall_shutters s) < 1536"
  shows "unat (ucast site :: 32 word) < 2560"
proof -
  have "unat (1024 + g_num_kernelcall_shutters s) = 1024 + unat (g_num_kernelcall_shutters s)"
    using assms(2) by (simp add: unat_add_lem [symmetric] unat_plus_if')
  then have "unat site < 2560"
    using assms by (auto simp: CHECK_SHUTTER_BOARD_SIZE_def word_le_nat_alt word_less_nat_alt)
  moreover have "unat (ucast site :: 32 word) \<le> unat site"
    by (simp add: unsigned_ucast_eq take_bit_eq_mod)
  ultimately show ?thesis by simp
qed

lemma transit_window_returns:
  assumes "rec_inv s" "unat (g_num_kernelcall_shutters s) < 1536"
  shows "returns (ltckpt_transit_window site s)"
  using assms index_of_accepted [OF _ assms(2), of site]
  by (auto simp: ltckpt_transit_window_def rec_inv_def size_defs Let_def)

lemma do_suicide_fault:
  "ltckpt_do_suicide c s = Fault e s' \<Longrightarrow>
   e = NullDeref \<and> \<not> inside_trusted_compute_base s \<and> g_recovery_bitmask s = MASK_IDEMPOTENT \<and>
   g_recovery_bitmask s' = g_recovery_bitmask s \<and> sa_window_is_open s' = sa_window_is_open s \<and>
   g_recovery_naive_mode s' = g_recovery_naive_mode s \<and> used_callsites s' = used_callsites s \<and>
   g_recovery_bitmask_total_count s' = g_recovery_bitmask_total_count s \<and> actions s' = actions s"
  by (auto simp: ltckpt_do_suicide_def Let_def used_callsites_def actions_def split: if_splits)

lemma suicide_per_site_fault:
  assumes "ltckpt_do_suicide_per_site c m site s = Fault NullDeref s'"
  shows "sa_window_is_open s \<and> g_recovery_bitmask s' = MASK_IDEMPOTENT \<and> sa_window_is_open s' \<and>
    g_recovery_naive_mode s' = g_recovery_naive_mode s \<and> used_callsites s' = used_callsites s \<and>
    g_recovery_bitmask_total_count s' = g_recovery_bitmask_total_count s \<and> actions s' = actions s \<and>
    (\<exists>msg r. sef_get_current_message m = Some (Some (msg, r)) \<and> m_source msg \<noteq> RS_PROC_NR m \<and>
       (LTRC_SUICIDE_WHEN_RECOVERABLE c \<longrightarrow> r = 1))"
  using assms
  by (auto simp: ltckpt_do_suicide_per_site_def Let_def obind_Fault used_callsites_def actions_def
      ltckpt_is_message_replyable_def dest!: do_suicide_fault bens_transit_fault
      split: if_splits option.splits prod.splits sum.splits)

text \<open>The sites of a sequence of calls, each once, in the order of their first call.\<close>

definition first_seen :: "'b list \<Rightarrow> 'b list" where
  "first_seen xs = rev (remdups (rev xs))"

lemma first_seen_snoc: "first_seen (xs @ [x]) = (if x \<in> set xs then first_seen xs else first_seen xs @ [x])"
  by (simp add: first_seen_def)

lemma set_first_seen [simp]: "set (first_seen xs) = set xs"
  by (simp add: first_seen_def)

fun fail_stops :: "64 word list \<Rightarrow> 'a rec_state_scheme \<Rightarrow> (unit, 'a rec_state_scheme) outcome" where
  "fail_stops [] s = Ret () s"
| "fail_stops (site # sites) s = obind (ltckpt_set_fail_stop_recovery site s) (\<lambda>_. fail_stops sites)"

lemma fail_stops_snoc:
  "fail_stops (xs @ [x]) s = obind (fail_stops xs s) (\<lambda>_. ltckpt_set_fail_stop_recovery x)"
proof (induction xs arbitrary: s)
  case Nil
  then show ?case by (cases "ltckpt_set_fail_stop_recovery x s") auto
next
  case (Cons a xs)
  show ?case
    by (cases "ltckpt_set_fail_stop_recovery a s") (simp_all add: Cons.IH)
qed

lemma set_fail_stop_effect:
  assumes "rec_inv s" "unat (g_num_kernelcall_shutters s) < 1536" "\<not> inside_trusted_compute_base s"
  shows "\<exists>s'. ltckpt_set_fail_stop_recovery site s = Ret () s' \<and> rec_inv s' \<and>
    g_num_kernelcall_shutters s' = g_num_kernelcall_shutters s \<and> \<not> inside_trusted_compute_base s' \<and>
    g_recovery_bitmask_total_count s' = g_recovery_bitmask_total_count s + 1 \<and> fail_stopped s' \<and>
    used_callsites s' = (if site \<in> set (used_callsites s) \<or> length (used_callsites s) = RECOVERY_BITMASK_CALLSITE_COUNT
       then used_callsites s else used_callsites s @ [site])"
proof -
  obtain r t where t: "ltckpt_transit_window site s = Ret r t"
    using transit_window_returns [OF assms(1,2), of site] by (auto simp: returns_iff)
  let ?c = "snd (ltckpt_close_r_window site t)"
  let ?f = "?c\<lparr>g_recovery_bitmask := g_recovery_bitmask ?c OR MASK_FAIL_STOP,
    g_recovery_bitmask_reason := Some ''ltckpt recovery: window closed: ltckpt_set_fail_stop_recovery''\<rparr>"
  have c: "rec_inv ?c" "used_callsites ?f = used_callsites s"
    using close_r_window_inv [OF transit_window_inv [OF t assms(1)]] transit_window_frame(5) [OF t]
    by (simp, simp add: ltckpt_close_r_window_def used_callsites_def Let_def)
  have k: "g_num_kernelcall_shutters ?f = g_num_kernelcall_shutters s" "\<not> inside_trusted_compute_base ?f"
    "g_recovery_bitmask_total_count ?f = g_recovery_bitmask_total_count s"
    using t assms(3)
    by (auto simp: ltckpt_transit_window_def ltckpt_close_r_window_def Let_def split: if_splits)
  have add: "g_num_kernelcall_shutters (ltckpt_add_site_id site x) = g_num_kernelcall_shutters x"
    "inside_trusted_compute_base (ltckpt_add_site_id site x) = inside_trusted_compute_base x"
    "g_recovery_bitmask_total_count (ltckpt_add_site_id site x) = g_recovery_bitmask_total_count x"
    "g_recovery_bitmask (ltckpt_add_site_id site x) = g_recovery_bitmask x" for x :: "'a rec_state_scheme"
    by (simp_all add: ltckpt_add_site_id_def)
  have eq: "ltckpt_set_fail_stop_recovery site s = Ret () ((ltckpt_add_site_id site ?f)
      \<lparr>g_recovery_bitmask_total_count := g_recovery_bitmask_total_count s + 1\<rparr>)"
    using t assms(3) k add by (simp add: ltckpt_set_fail_stop_recovery_def Let_def)
  moreover note set_fail_stop_inv [OF eq assms(1)]
  moreover have "used_callsites (ltckpt_add_site_id site ?f) =
     (if site \<in> set (used_callsites s) \<or> length (used_callsites s) = RECOVERY_BITMASK_CALLSITE_COUNT
       then used_callsites s else used_callsites s @ [site])"
    using c by (subst used_callsites_add) (auto simp: rec_inv_def)
  moreover have "used_callsites (x\<lparr>g_recovery_bitmask_total_count := n\<rparr>) = used_callsites x" for x :: "'a rec_state_scheme" and n
    by (simp add: used_callsites_def)
  moreover have "fail_stopped ((ltckpt_add_site_id site ?f)\<lparr>g_recovery_bitmask_total_count := n\<rparr>)" for n
    using fail_stop_mask [of "g_recovery_bitmask ?c"] c
    by (auto simp: fail_stopped_def add rec_inv_def mask_defs)
  ultimately show ?thesis using k add by simp
qed

lemma fail_stops_effect:
  assumes "rec_inv s" "unat (g_num_kernelcall_shutters s) < 1536" "\<not> inside_trusted_compute_base s"
    "used_callsites s = []"
  shows "\<exists>s'. fail_stops xs s = Ret () s' \<and> rec_inv s' \<and>
    g_num_kernelcall_shutters s' = g_num_kernelcall_shutters s \<and> \<not> inside_trusted_compute_base s' \<and>
    g_recovery_bitmask_total_count s' = g_recovery_bitmask_total_count s + of_nat (length xs) \<and>
    used_callsites s' = take RECOVERY_BITMASK_CALLSITE_COUNT (first_seen xs)"
proof (induction xs rule: rev_induct)
  case Nil
  then show ?case using assms by (simp add: first_seen_def)
next
  case (snoc x xs)
  then obtain t where t: "fail_stops xs s = Ret () t" "rec_inv t"
    "g_num_kernelcall_shutters t = g_num_kernelcall_shutters s" "\<not> inside_trusted_compute_base t"
    "g_recovery_bitmask_total_count t = g_recovery_bitmask_total_count s + of_nat (length xs)"
    "used_callsites t = take RECOVERY_BITMASK_CALLSITE_COUNT (first_seen xs)" by blast
  have cut: "(if x \<in> set (take k (first_seen xs)) \<or> length (take k (first_seen xs)) = k
       then take k (first_seen xs) else take k (first_seen xs) @ [x]) = take k (first_seen (xs @ [x]))" for k
    using set_take_subset [of k "first_seen xs"]
    by (cases "length (first_seen xs) < k") (auto simp: first_seen_snoc min_def)
  have "unat (g_num_kernelcall_shutters t) < 1536" using assms(2) t(3) by simp
  from set_fail_stop_effect [OF t(2) this t(4), of x, unfolded t(6) cut] t(1,3,5) show ?case
    by (auto simp: fail_stops_snoc)
qed

lemma rcall_kernelcalls: "rcall c s s' \<Longrightarrow> g_num_kernelcall_shutters s' = g_num_kernelcall_shutters s"
proof (induction rule: rcall.induct)
  case (step_dispatch m s r s')
  show ?case
    using arg_cong [OF dispatch_frame_eq [OF dispatcher_frame [OF step_dispatch]], of g_num_kernelcall_shutters]
    by simp
qed (auto simp: sef_fi_custom_def ltckpt_dump_shutter_board_def inc_counter_inwindow_def inc_counter_outsidewindow_def
      ltckpt_close_r_window_def ltckpt_transit_window_def ltckpt_do_suicide_per_site_def ltckpt_do_suicide_def
      ltckpt_set_idempotent_recovery_def ltckpt_set_request_specific_recovery_def
      ltckpt_set_process_local_recovery_def ltckpt_set_fail_stop_recovery_def ltckpt_add_site_id_def
      ltckpt_set_naive_recovery_def ltckpt_activate_req_rehandling_def ltckpt_deactivate_req_rehandling_def
      Let_def obind_eq_Ret obind_Fault split: if_splits option.splits prod.splits sum.splits)

interpretation kc: inductive_invariant "rstep c" "\<lambda>s. g_num_kernelcall_shutters s = k"
proof
  fix s s' :: "'a rec_state_scheme"
  assume "rstep c s s'" "g_num_kernelcall_shutters s = k"
  then show "g_num_kernelcall_shutters s' = k"
    by (cases rule: rstep.cases)
      (auto simp: rcall_kernelcalls ltckpt_detect_start_of_window_hook_def Let_def split: if_splits)
qed

lemma hooks_return:
  assumes "rec_inv s" "unat (g_num_kernelcall_shutters s) < 1536"
  shows "returns (ltckpt_set_idempotent_recovery site s)"
    "returns (ltckpt_set_request_specific_recovery site s)"
    "returns (ltckpt_set_process_local_recovery site s)"
    "returns (ltckpt_set_fail_stop_recovery site s)"
  using transit_window_returns [OF assms, of site]
  by (auto simp: ltckpt_set_idempotent_recovery_def ltckpt_set_request_specific_recovery_def
      ltckpt_set_process_local_recovery_def ltckpt_set_fail_stop_recovery_def returns_iff Let_def)

lemma open_log_ok: "rec_inv s \<Longrightarrow> sa_window_is_open s \<Longrightarrow> log_ok s"
  by (auto simp: rec_inv_def log_ok_def used_callsites_def printable_def)

lemma open_mask:
  "rec_inv s \<Longrightarrow> sa_window_is_open s \<Longrightarrow> \<not> bit (g_recovery_bitmask s) 3 \<and> bit (g_recovery_bitmask s) 0"
  unfolding bit_mask_iff [symmetric] by (auto simp: rec_inv_def fail_stopped_def mask_defs)

section \<open>A concrete service\<close>

text \<open>A request from endpoint 7 to a service whose system calls succeed.\<close>

definition ex_cfg :: cfg where
  "ex_cfg = \<lparr>LTRC_SUICIDE_PERIODICALLY = True, LTRC_SUICIDE_ONLY_ONCE = False,
     LTRC_SUICIDE_WHEN_RECOVERABLE = True, TOGGLE_ENABLE_STATS = False,
     LTRC_NO_RECOVERY_ON_SVC_FI = True, LTRC_REHANDLE_REQUEST = False\<rparr>"

definition ex_msg :: message where
  "ex_msg = \<lparr>m_source = 7, m_type = 3\<rparr>"

definition ex_minix :: minix where
  "ex_minix = \<lparr>sef_get_current_message = Some (Some (ex_msg, 1)),
     sef_llvm_is_user_endpoint = Some (\<lambda>e. 1), sys_kill_ret = (\<lambda>e. 0), sys_abort_ret = 0,
     asynsend_ret = (\<lambda>e msg. 0), sys_privctl_get_rs_ready = True, RS_PROC_NR = 2,
     COMMON_REQ_FI_CTL = 3600, EINVAL = -22, ERESTART = -200\<rparr>"

text \<open>
  The service is initialised, fault injection is switched on, and a message is received:
  every site is armed and the window is open.
\<close>

definition ex_ready :: rec_state where
  "ex_ready = (rec_init ''vfs'' None Map.empty 10 20)\<lparr>sef_init_done := True, suicide_on_window_close := True\<rparr>"

definition ex_open :: rec_state where
  "ex_open = ltckpt_detect_start_of_window_hook (ex_ready\<lparr>have_handled_message := True\<rparr>)"

lemma ex_fits: "board_fits 10 20"
  by (simp add: board_fits_def size_defs)

lemma ex_reach_open: "reachable ex_cfg (rec_init ''vfs'' None Map.empty 10 20) ex_open"
proof -
  let ?i = "rec_init ''vfs'' None Map.empty 10 20"
  have "rstep ex_cfg ?i (?i\<lparr>sef_init_done := True\<rparr>)" by (rule step_call [OF step_sef_init])
  moreover have "rstep ex_cfg (?i\<lparr>sef_init_done := True\<rparr>) ex_ready"
    by (rule step_call [OF step_fi [where r = 0]]) (simp add: sef_fi_custom_def ex_cfg_def ex_ready_def)
  moreover have "rstep ex_cfg ex_ready ex_open"
    unfolding ex_open_def by (rule step_message)
  ultimately show ?thesis by (meson rtranclp.rtrancl_into_rtrancl rtranclp.rtrancl_refl)
qed

lemma ex_open_fields:
  "sa_window_is_open ex_open" "g_recovery_naive_mode ex_open = NAIVE_MODE_DEFAULT"
  "\<not> inside_trusted_compute_base ex_open" "used_callsites ex_open = []"
  "g_recovery_bitmask ex_open = 1" "actions ex_open = []"
  "g_num_kernelcall_shutters ex_open = 20" "g_num_window_shutters ex_open = 10"
  "sef_init_done ex_open" "suicide_on_window_close ex_open"
  "board ex_open = replicate BEN_BOARD \<lparr>transits = 0, period = 0\<rparr>"
  "g_shutter_board ex_open = shutter_board_init None Map.empty 10 (LTCKPT_SHUTTER_BOARD_IPC_END + 20)"
  by (simp_all add: ex_open_def ex_ready_def rec_init_def ltckpt_detect_start_of_window_hook_def Let_def
      used_callsites_def actions_def mask_defs)

lemma ex_open_inv: "rec_inv ex_open"
  using rs.reach_inv [OF ex_reach_open rec_init_inv [OF ex_fits]] .

lemma ex_open_armed: "do_suicide (g_shutter_board ex_open ! 3) = 1" "do_suicide (g_shutter_board ex_open ! 1030) = 1"
  by (simp_all add: ex_open_fields shutter_board_init_def shutter_value_def nth_append size_defs del: upt_Suc)

section \<open>Properties\<close>

text \<open>
  C12 (invariant): in every state the runtime can reach from its initialised globals, through the
  message loop and any calls of ltckpt\_recover.c, crashes, recoveries and the rehandling switches
  included, the tables have their declared sizes, the callsite table holds at most 64 distinct sites, the
  recovery mask is one of 1, 5, 9, 13, with or without the rehandling flag 16, the recovery window is
  open only while a message is being handled and no fail-stop call was made, and every fail-stop mask
  carries a reason.
\<close>
theorem reachable_recovery_invariant:
  "board_fits nipc nkc \<Longrightarrow> reachable c (rec_init name sm km nipc nkc) s \<Longrightarrow> rec_inv s"
  by (rule rs.reach_inv [OF _ rec_init_inv])

theorem reachable_recovery_invariant_witness:
  "reachable ex_cfg (rec_init ''vfs'' None Map.empty 10 20) ex_open \<and> rec_inv ex_open"
  using ex_reach_open reachable_recovery_invariant [OF ex_fits ex_reach_open] by simp

text \<open>
  C3 (refinement): the recovery dispatcher always returns, and its result and the actions it takes on
  other processes and on the machine are those of the decision table: fail-stop before
  process-specific before request-specific and idempotent recovery, a naive mode always reports
  success, and a failed recovery in the default mode resets the machine.
\<close>
theorem dispatcher_follows_policy:
  assumes "minix_ok m" "log_ok s"
  shows "\<exists>s'. ltckpt_recovery_dispatcher c m s =
      Ret (fst (dispatch_spec c m (g_recovery_bitmask s) (g_recovery_naive_mode s))) s' \<and>
    actions s' = actions s @ snd (dispatch_spec c m (g_recovery_bitmask s) (g_recovery_naive_mode s))"
  using dispatcher_meets [OF assms, of c]
  by (cases "ltckpt_recovery_dispatcher c m s") (auto simp: meets_def)

lemma ex_minix_ok: "minix_ok ex_minix"
  by (simp add: minix_ok_def ex_minix_def ex_msg_def)

theorem dispatcher_follows_policy_witness:
  "\<exists>s'. ltckpt_recovery_dispatcher ex_cfg ex_minix ex_open = Ret 0 s' \<and>
    actions s' = [Asynsend 7 \<lparr>m_source = 7, m_type = -200\<rparr>]"
proof -
  have "dispatch_spec ex_cfg ex_minix 1 NAIVE_MODE_DEFAULT = (0, [Asynsend 7 \<lparr>m_source = 7, m_type = -200\<rparr>])"
    by (simp add: dispatch_spec_def policy_spec_def idempotent_spec_def reply_spec_def ex_minix_def ex_msg_def
        ex_cfg_def service_fi_request_def effective_replyable_def mode_defs bit_simps)
  then show ?thesis
    using dispatcher_follows_policy [of ex_minix ex_open ex_cfg, OF ex_minix_ok open_log_ok [OF ex_open_inv ex_open_fields(1)]]
    by (simp add: ex_open_fields)
qed

text \<open>
  C5 (safety): after a fail-stop call (the window was closed by an interaction that cannot be undone)
  the dispatcher in its default mode neither answers the request nor kills the requester: its only
  actions are machine resets, one, and a second one when the first is refused.
\<close>
theorem fail_stop_only_resets:
  assumes "fail_stopped s" "g_recovery_naive_mode s = NAIVE_MODE_DEFAULT" "minix_ok m" "log_ok s"
    "sef_get_current_message m = Some (Some (msg, 1))" "\<not> LTRC_NO_RECOVERY_ON_SVC_FI c \<or> m_source msg \<noteq> RS_PROC_NR m"
  shows "\<exists>s'. ltckpt_recovery_dispatcher c m s = Ret (if sys_abort_ret m = 0 then 0 else -1) s' \<and>
    actions s' = actions s @ (if sys_abort_ret m = 0 then [Sys_abort] else [Sys_abort, Sys_abort])"
  using dispatcher_meets [OF assms(3,4), of c] assms
  by (cases "ltckpt_recovery_dispatcher c m s")
    (auto simp: meets_def dispatch_spec_def policy_spec_def fail_stopped_def bit_mask_iff
      service_fi_request_def effective_replyable_def mode_defs)

definition ex_closed :: rec_state where
  "ex_closed = ostate (ltckpt_set_fail_stop_recovery 3 ex_open)"

lemma ex_closed_facts:
  "fail_stopped ex_closed" "g_recovery_naive_mode ex_closed = NAIVE_MODE_DEFAULT" "log_ok ex_closed"
proof -
  obtain t where t: "ltckpt_set_fail_stop_recovery 3 ex_open = Ret () t" "fail_stopped t"
    "used_callsites t = [3]" "g_recovery_bitmask_total_count t = g_recovery_bitmask_total_count ex_open + 1"
    using set_fail_stop_effect [OF ex_open_inv, of 3] by (auto simp: ex_open_fields size_defs)
  have "g_recovery_bitmask_total_count ex_open = 0"
    using ex_open_inv ex_open_fields(1) by (simp add: rec_inv_def)
  with t show "fail_stopped ex_closed" "log_ok ex_closed"
    by (simp_all add: ex_closed_def log_ok_def printable_def size_defs)
  show "g_recovery_naive_mode ex_closed = NAIVE_MODE_DEFAULT"
    using ex_open_fields(2)
    by (auto simp: ex_closed_def ltckpt_set_fail_stop_recovery_def ltckpt_transit_window_def Let_def
        ltckpt_close_r_window_def ltckpt_add_site_id_def)
qed

theorem fail_stop_only_resets_witness:
  "fail_stopped ex_closed \<and>
   (\<exists>s'. ltckpt_recovery_dispatcher ex_cfg ex_minix ex_closed = Ret 0 s' \<and>
     actions s' = actions ex_closed @ [Sys_abort])"
  using fail_stop_only_resets [OF ex_closed_facts(1,2) ex_minix_ok ex_closed_facts(3), of ex_msg ex_cfg]
    ex_closed_facts(1)
  by (simp add: ex_minix_def ex_msg_def)

text \<open>
  C4 (liveness): in a build that does not handle requests again, a crash while the recovery window is
  open, during a replyable request and in the default mode, is always recovered when the kernel accepts
  the reply or the signal: the dispatcher succeeds without resetting the machine, and either
  answers the requester with ERESTART or, when the mask is process-specific, kills the requesting user
  process.
\<close>
theorem open_window_recovers:
  assumes "board_fits nipc nkc" "reachable c (rec_init name sm km nipc nkc) s" "sa_window_is_open s"
    "g_recovery_naive_mode s = NAIVE_MODE_DEFAULT" "minix_ok m"
    "sef_get_current_message m = Some (Some (msg, 1))" "\<not> LTRC_NO_RECOVERY_ON_SVC_FI c \<or> m_source msg \<noteq> RS_PROC_NR m"
    "\<not> LTRC_REHANDLE_REQUEST c"
    "asynsend_ret m (m_source msg) (msg\<lparr>m_type := ERESTART m\<rparr>) = 0"
    "sef_llvm_is_user_endpoint m = Some is_user" "is_user (m_source msg) \<in> {0, 1}"
    "sys_kill_ret m (m_source msg) \<in> {0, EINVAL m}"
  shows "\<exists>s'. ltckpt_recovery_dispatcher c m s = Ret 0 s' \<and>
    actions s' = actions s @ (if g_recovery_bitmask s AND MASK_PROCESS_SPECIFIC \<noteq> 0 \<and> is_user (m_source msg) = 1
      then [Sys_kill (m_source msg)] else [Asynsend (m_source msg) (msg\<lparr>m_type := ERESTART m\<rparr>)])"
proof -
  have inv: "rec_inv s" by (rule rs.reach_inv [OF assms(2) rec_init_inv [OF assms(1)]])
  show ?thesis
    using dispatcher_meets [OF assms(5) open_log_ok [OF inv assms(3)], of c] assms open_mask [OF inv assms(3)]
    by (cases "ltckpt_recovery_dispatcher c m s")
      (auto simp: bit_mask_iff meets_def dispatch_spec_def policy_spec_def idempotent_spec_def process_spec_def
        reply_spec_def service_fi_request_def effective_replyable_def mode_defs)
qed

theorem open_window_recovers_witness:
  "\<exists>s'. ltckpt_recovery_dispatcher ex_cfg ex_minix ex_open = Ret 0 s' \<and>
    actions s' = actions ex_open @ [Asynsend 7 \<lparr>m_source = 7, m_type = -200\<rparr>]"
  using open_window_recovers [OF ex_fits ex_reach_open ex_open_fields(1,2) ex_minix_ok, of ex_msg "\<lambda>e. 1"]
  by (simp add: ex_minix_def ex_msg_def ex_cfg_def ex_open_fields mask_defs)

text \<open>
  C6 (safety): an injected crash is recoverable. Take a build that only crashes recoverable requests
  (LTRC\_SUICIDE\_WHEN\_RECOVERABLE) and answers them instead of handling them again (no
  LTRC\_REHANDLE\_REQUEST), and any reachable state in the default recovery mode. When the per-site
  fault injection crashes the service there, the window is open, the request is replyable and does not
  come from the reincarnation server; and if the kernel accepts the reply, the dispatcher run on the
  crashed state succeeds by answering exactly this request with ERESTART.
\<close>
theorem injected_crash_recovers:
  assumes "board_fits nipc nkc" "reachable c (rec_init name sm km nipc nkc) s"
    "ltckpt_do_suicide_per_site c m site s = Fault NullDeref s'"
    "LTRC_SUICIDE_WHEN_RECOVERABLE c" "\<not> LTRC_REHANDLE_REQUEST c"
    "g_recovery_naive_mode s = NAIVE_MODE_DEFAULT" "minix_ok m"
    "\<And>msg r. sef_get_current_message m = Some (Some (msg, r)) \<Longrightarrow>
      asynsend_ret m (m_source msg) (msg\<lparr>m_type := ERESTART m\<rparr>) = 0"
  shows "\<exists>msg t. sef_get_current_message m = Some (Some (msg, 1)) \<and> m_source msg \<noteq> RS_PROC_NR m \<and>
    sa_window_is_open s \<and> ltckpt_recovery_dispatcher c m s' = Ret 0 t \<and>
    actions t = actions s @ [Asynsend (m_source msg) (msg\<lparr>m_type := ERESTART m\<rparr>)]"
proof -
  have inv: "rec_inv s" by (rule rs.reach_inv [OF assms(2) rec_init_inv [OF assms(1)]])
  note f = suicide_per_site_fault [OF assms(3)]
  then obtain msg where msg: "sef_get_current_message m = Some (Some (msg, 1))" "m_source msg \<noteq> RS_PROC_NR m"
    using assms(4) by blast
  have lok: "log_ok s'" using open_log_ok [OF inv] f by (simp add: log_ok_def)
  have bits: "\<not> bit (1 :: 32 word) 3" "\<not> bit (1 :: 32 word) 2" "bit (1 :: 32 word) 0" by (simp_all add: bit_simps)
  have "dispatch_spec c m (g_recovery_bitmask s') (g_recovery_naive_mode s') =
      (0, [Asynsend (m_source msg) (msg\<lparr>m_type := ERESTART m\<rparr>)])"
    using f msg assms(5,6) assms(8) [OF msg(1)] bits
    by (simp add: dispatch_spec_def policy_spec_def idempotent_spec_def reply_spec_def
        service_fi_request_def effective_replyable_def mode_defs mask_defs)
  then have "\<exists>t. ltckpt_recovery_dispatcher c m s' = Ret 0 t \<and>
    actions t = actions s' @ [Asynsend (m_source msg) (msg\<lparr>m_type := ERESTART m\<rparr>)]"
    using dispatcher_meets [OF assms(7) lok, of c]
    by (cases "ltckpt_recovery_dispatcher c m s'") (auto simp: meets_def)
  with f msg show ?thesis by auto
qed

lemma ex_crash:
  "ltckpt_do_suicide_per_site ex_cfg ex_minix 3 ex_open =
   Fault NullDeref (ex_open\<lparr>board := (board ex_open)[3 := \<lparr>transits = 0, period = 3\<rparr>], g_num_suicides := g_num_suicides ex_open + 1\<rparr>)"
  using ex_open_armed(1) ex_open_inv
  by (simp add: ltckpt_do_suicide_per_site_def CHECK_SHUTTER_BOARD_SIZE_def ex_open_fields ltckpt_do_suicide_def
      bens_transit_def c_int_def rec_inv_def ltckpt_is_message_replyable_def ex_cfg_def ex_minix_def ex_msg_def
      mask_defs Let_def size_defs)

theorem injected_crash_recovers_witness:
  "\<exists>s' t. ltckpt_do_suicide_per_site ex_cfg ex_minix 3 ex_open = Fault NullDeref s' \<and>
    ltckpt_recovery_dispatcher ex_cfg ex_minix s' = Ret 0 t \<and>
    actions t = [Asynsend 7 \<lparr>m_source = 7, m_type = -200\<rparr>]"
  using injected_crash_recovers [OF ex_fits ex_reach_open ex_crash _ _ ex_open_fields(2) ex_minix_ok] ex_crash
  by (simp add: ex_cfg_def ex_minix_def ex_msg_def ex_open_fields)

text \<open>
  C13 (bounds): no policy hook ever leaves the shutter board: whatever site the instrumentation passes,
  in every reachable state of a service whose board initialiser fits the board the four hooks return.
\<close>
theorem policy_hooks_in_bounds:
  assumes "board_fits nipc nkc" "reachable c (rec_init name sm km nipc nkc) s" 
  shows "returns (ltckpt_set_idempotent_recovery site s) \<and>
    returns (ltckpt_set_request_specific_recovery site s) \<and>
    returns (ltckpt_set_process_local_recovery site s) \<and>
    returns (ltckpt_set_fail_stop_recovery site s)"
proof -
  have "g_num_kernelcall_shutters s = of_nat nkc"
    by (rule kc.reach_inv [OF assms(2)]) (simp add: rec_init_def)
  then have "unat (g_num_kernelcall_shutters s) < 1536"
    using assms(1) by (simp add: board_fits_def size_defs unat_of_nat)
  with hooks_return [OF rs.reach_inv [OF assms(2) rec_init_inv [OF assms(1)]]] show ?thesis by simp
qed

theorem policy_hooks_in_bounds_witness:
  "returns (ltckpt_set_fail_stop_recovery 0xFFFFFFFFFFFFFFFF ex_open)"
  using policy_hooks_in_bounds [OF ex_fits ex_reach_open, of "0xFFFFFFFFFFFFFFFF"] by simp

text \<open>
  C14 (error): the periodic fault injection indexes its 1000-entry table with the site of the shutter
  board, whose kernel-call sites start at 1025: every armed kernel-call site reached in an open window
  accesses memory outside that table instead of crashing the service in a controlled way.
\<close>
theorem kernelcall_site_overruns_periodic_table:
  assumes "rec_inv s" "unat (g_num_kernelcall_shutters s) < 1536" "1024 < site"
    "site \<le> 1024 + g_num_kernelcall_shutters s"
    "LTRC_SUICIDE_PERIODICALLY c" "\<not> inside_trusted_compute_base s" "sef_init_done s"
    "sa_window_is_open s" "suicide_on_window_close s"
    "do_suicide (g_shutter_board s ! unat (ucast site :: 32 word)) > 0"
    "sef_get_current_message m = Some (Some (msg, 1))" "m_source msg \<noteq> RS_PROC_NR m"
    "sys_privctl_get_rs_ready m"
  shows "ltckpt_do_suicide_per_site c m site s = Fault OutOfBounds s"
proof -
  have chk: "\<not> CHECK_SHUTTER_BOARD_SIZE site s"
    using assms(3,4) by (auto simp: CHECK_SHUTTER_BOARD_SIZE_def)
  have u: "unat site < 2560"
    using assms(2,4) by (simp add: word_le_nat_alt unat_plus_if')
  then have idx: "unat (ucast site :: 32 word) = unat site"
    by (simp add: unsigned_ucast_eq take_bit_eq_mod)
  have "1024 < unat site" using assms(3) by (simp add: word_less_nat_alt)
  then have "bens_transit (unat site) (board s) = Inl OutOfBounds"
    using assms(1) by (simp add: bens_transit_def rec_inv_def size_defs)
  with chk u idx assms show ?thesis
    by (simp add: ltckpt_do_suicide_per_site_def ltckpt_is_message_replyable_def rec_inv_def size_defs Let_def)
qed

theorem kernelcall_site_overruns_periodic_table_witness:
  "ltckpt_do_suicide_per_site ex_cfg ex_minix 1030 ex_open = Fault OutOfBounds ex_open"
  by (rule kernelcall_site_overruns_periodic_table [where msg = ex_msg])
    (simp_all add: ex_open_inv ex_open_fields(1-10) ex_open_armed, simp_all add: ex_cfg_def ex_minix_def ex_msg_def)

text \<open>
  C15 (functional): the callsite table after any sequence of fail-stop calls in one message holds the
  first 64 distinct sites in the order of their first call, and the counter holds the number of calls
  modulo 2 to the 64.
\<close>
theorem fail_stop_callsites_recorded:
  assumes "rec_inv s" "unat (g_num_kernelcall_shutters s) < 1536" "sa_window_is_open s"
    "\<not> inside_trusted_compute_base s"
  shows "\<exists>s'. fail_stops xs s = Ret () s' \<and> used_callsites s' = take 64 (first_seen xs) \<and>
    g_recovery_bitmask_total_count s' = of_nat (length xs)"
proof -
  have "used_callsites s = []" "g_recovery_bitmask_total_count s = 0"
    using assms(1,3) by (simp_all add: rec_inv_def used_callsites_def)
  with fail_stops_effect [OF assms(1,2,4), of xs] show ?thesis by (auto simp: size_defs)
qed

theorem fail_stop_callsites_recorded_witness:
  "\<exists>s'. fail_stops [3, 5, 3] ex_open = Ret () s' \<and> used_callsites s' = [3, 5] \<and>
    g_recovery_bitmask_total_count s' = 3"
  using fail_stop_callsites_recorded [OF ex_open_inv, of "[3, 5, 3]"]
  by (simp add: ex_open_fields first_seen_def)

end
