(* ===== verification/Checkpoint.thy ===== *)
theory Checkpoint
  imports Recovery
begin

text \<open>
  The part of the checkpointing library every mechanism shares: the context of
  \<^verbatim>\<open>ltckpt_ctx.c\<close> and \<^verbatim>\<open>ltckpt_ctx.h\<close>, the environment parser of \<^verbatim>\<open>env.h\<close>, mechanism
  selection, restart and memory mapping of \<^verbatim>\<open>ltckpt_common.c\<close>, and the write statistics of
  \<^verbatim>\<open>ltckpt_stat.c\<close>. The locale \<^verbatim>\<open>checkpoint_mechanism\<close> states what the instrumentation
  relies on in any mechanism: a write through the hooks takes effect and can be rolled back.
\<close>

section \<open>Reading integers from the environment\<close>

text \<open>The C library's strtol with base 0, on a 32-bit long: value and number of characters read.\<close>

definition is_space :: "char \<Rightarrow> bool" where
  "is_space ch = (ch = CHR '' '' \<or> (9 \<le> (of_char ch :: nat) \<and> (of_char ch :: nat) \<le> 13))"

definition digit_of :: "nat \<Rightarrow> char \<Rightarrow> nat option" where
  "digit_of b ch =
     (let n = (of_char ch :: nat);
          v = (if 48 \<le> n \<and> n \<le> 57 then Some (n - 48)
               else if 97 \<le> n \<and> n \<le> 122 then Some (n - 87)
               else if 65 \<le> n \<and> n \<le> 90 then Some (n - 55) else None)
      in case v of None \<Rightarrow> None | Some d \<Rightarrow> if d < b then Some d else None)"

fun read_digits :: "nat \<Rightarrow> nat \<Rightarrow> string \<Rightarrow> nat \<times> nat" where
  "read_digits b acc [] = (acc, 0)"
| "read_digits b acc (ch # cs) =
     (case digit_of b ch of
        None \<Rightarrow> (acc, 0)
      | Some d \<Rightarrow> (let (v, k) = read_digits b (acc * b + d) cs in (v, Suc k)))"

definition clamp32 :: "int \<Rightarrow> int" where
  "clamp32 v = max (- (2 ^ 31)) (min (2 ^ 31 - 1) v)"

definition strtol0 :: "string \<Rightarrow> int \<times> nat" where
  "strtol0 cs =
     (let sp = length (takeWhile is_space cs);
          r = drop sp cs;
          neg = (r \<noteq> [] \<and> hd r = CHR ''-'');
          sg = (if r \<noteq> [] \<and> (hd r = CHR ''-'' \<or> hd r = CHR ''+'') then 1 else 0);
          r = drop sg r;
          hex = (length r > 2 \<and> r ! 0 = CHR ''0'' \<and> (r ! 1 = CHR ''x'' \<or> r ! 1 = CHR ''X'') \<and>
                 digit_of 16 (r ! 2) \<noteq> None);
          b = (if hex then 16 else if r \<noteq> [] \<and> hd r = CHR ''0'' then 8 else 10);
          px = (if hex then 2 else 0);
          (v, k) = read_digits b 0 (drop px r)
      in if k = 0 then (0, 0)
         else (clamp32 (if neg then - int v else int v), sp + sg + px + k))"

definition util_env_parse_int :: "(string \<rightharpoonup> string) \<Rightarrow> string \<Rightarrow> int \<Rightarrow> int" where
  "util_env_parse_int env env_name default_value =
     (case env env_name of
        None \<Rightarrow> default_value
      | Some str \<Rightarrow>
          let (env_value, tail) = strtol0 str
          in if env_value = 0 \<and> tail = 0 then default_value else env_value)"

section \<open>The checkpointing context\<close>

record ltckpt_ctx =
  lazy_init :: int
  skip_mmap :: int
  atexit_dump :: int
  allow_prctl :: int
  checkpoint_interval :: int
  page_statistic_enabled :: int
  approach :: string
  errors :: "32 word"
  num_cows :: "32 word"
  num_tols :: "32 word"
  num_checkpoints :: "32 word"
  max_log_size :: "32 word"
  num_aop_funcs :: "32 word"
  num_aop_tols :: "32 word"

definition ltckpt_ctx_clear_default :: "ltckpt_ctx \<Rightarrow> ltckpt_ctx" where
  "ltckpt_ctx_clear_default x = x\<lparr>errors := 0, num_cows := 0, num_checkpoints := 0,
     num_aop_funcs := 0, num_aop_tols := 0\<rparr>"

definition ltckpt_ctx_init :: "(string \<rightharpoonup> string) \<Rightarrow> string \<Rightarrow> ltckpt_ctx \<Rightarrow> ltckpt_ctx" where
  "ltckpt_ctx_init env name x = x\<lparr>
     lazy_init := util_env_parse_int env ''CP_LINIT'' 1,
     skip_mmap := util_env_parse_int env ''CP_NOMMAP'' 1,
     atexit_dump := util_env_parse_int env ''ATEXIT_DUMP'' 0,
     allow_prctl := util_env_parse_int env ''CP_PRCTL'' 1,
     checkpoint_interval := util_env_parse_int env ''CP_INTERVAL'' 1,
     page_statistic_enabled := util_env_parse_int env ''PAGESTAT'' 0,
     approach := name\<rparr>"

text \<open>
  CTX\_NEW\_TOL\_OR\_RETURN: the flag tells whether the caller goes on to take a checkpoint.
  The remainder is computed on unsigned longs.
\<close>

definition CTX_NEW_TOL_OR_RETURN :: "ltckpt_ctx \<Rightarrow> bool \<times> ltckpt_ctx" where
  "CTX_NEW_TOL_OR_RETURN x =
     (let skip = (checkpoint_interval x = 0 \<or>
                  num_tols x mod word_of_int (checkpoint_interval x) > 0)
      in (\<not> skip, x\<lparr>num_tols := num_tols x + 1\<rparr>))"

definition CTX_NEW_CHECKPOINT :: "ltckpt_ctx \<Rightarrow> ltckpt_ctx" where
  "CTX_NEW_CHECKPOINT x = x\<lparr>num_checkpoints := num_checkpoints x + 1\<rparr>"

definition CTX_NEW_LOG_SIZE :: "32 word \<Rightarrow> ltckpt_ctx \<Rightarrow> ltckpt_ctx" where
  "CTX_NEW_LOG_SIZE ls x = (if ls > max_log_size x then x\<lparr>max_log_size := ls\<rparr> else x)"

text \<open>The length the context buffer is rounded up to, a page being 4096 bytes.\<close>

definition ctx_buff_len :: "32 word \<Rightarrow> 32 word" where
  "ctx_buff_len len = (if len mod 4096 \<noteq> 0 then len - len mod 4096 + 4096 else len)"

section \<open>Mechanism selection\<close>

text \<open>The table of configured mechanisms on MINIX.\<close>

definition ltckpt_confs :: "string list" where
  "ltckpt_confs = [''baseline'', ''bitmap'', ''undolog'']"

fun conf_scan :: "string \<Rightarrow> string list \<Rightarrow> string option" where
  "conf_scan name [] = None"
| "conf_scan name (c # cs) = (if name = c then Some c else conf_scan name cs)"

definition ltckpt_conf_setup_from_hook :: "string \<Rightarrow> string option \<Rightarrow> (unit, string option) outcome" where
  "ltckpt_conf_setup_from_hook name conf =
     (if conf \<noteq> None then Fault AssertFail conf
      else case conf_scan name ltckpt_confs of
             None \<Rightarrow> Fault AssertFail None
           | Some c \<Rightarrow> Ret () (Some c))"

definition ltckpt_conf_setup :: "string option \<Rightarrow> (unit, string option) outcome" where
  "ltckpt_conf_setup conf =
     (if conf = None then ltckpt_conf_setup_from_hook ''baseline'' conf else Ret () conf)"

definition ltckpt_mechanism_enabled :: "string option \<Rightarrow> bool" where
  "ltckpt_mechanism_enabled conf = (case conf of None \<Rightarrow> False | Some name \<Rightarrow> name \<noteq> ''baseline'')"

text \<open>Restart through the mechanism's hook, when it has one.\<close>

definition ltckpt_restart ::
    "int \<Rightarrow> ('a rec_state_scheme \<Rightarrow> (int, 'a rec_state_scheme) outcome) option \<Rightarrow>
     'a rec_state_scheme \<Rightarrow> (int, 'a rec_state_scheme) outcome" where
  "ltckpt_restart enoent restart_hook s =
     (let s = s\<lparr>inside_trusted_compute_base := True\<rparr>
      in case restart_hook of Some h \<Rightarrow> h s | None \<Rightarrow> Ret enoent s)"

section \<open>Memory mapping\<close>

definition LTCKPT_MAP_FIXED :: "32 word" where "LTCKPT_MAP_FIXED = 1"
definition LTCKPT_MAP_PRIVATE :: "32 word" where "LTCKPT_MAP_PRIVATE = 2"
definition LTCKPT_MAP_NORESERVE :: "32 word" where "LTCKPT_MAP_NORESERVE = 4"
definition LTCKPT_MAP_STACK :: "32 word" where "LTCKPT_MAP_STACK = 8"
definition LTCKPT_MAP_POPULATE :: "32 word" where "LTCKPT_MAP_POPULATE = 16"
definition LTCKPT_PROT_R :: "32 word" where "LTCKPT_PROT_R = 1"
definition LTCKPT_PROT_W :: "32 word" where "LTCKPT_PROT_W = 2"
definition LTCKPT_PROT_X :: "32 word" where "LTCKPT_PROT_X = 4"
definition LTCKPT_MAP_FAILED :: addr where "LTCKPT_MAP_FAILED = -1"

text \<open>The operating system's constants and its mmap and munmap; None is MAP\_FAILED.\<close>

record os_mm =
  MAP_FIXED :: "32 word"
  MAP_PREALLOC :: "32 word"
  MAP_PRIVATE :: "32 word"
  MAP_NORESERVE :: "32 word"
  MAP_STACK :: "32 word"
  MAP_ANONYMOUS :: "32 word"
  PROT_READ :: "32 word"
  PROT_WRITE :: "32 word"
  PROT_EXEC :: "32 word"
  os_mmap :: "addr \<Rightarrow> 32 word \<Rightarrow> 32 word \<Rightarrow> 32 word \<Rightarrow> addr option"

definition mmap_flags :: "os_mm \<Rightarrow> 32 word \<Rightarrow> 32 word" where
  "mmap_flags os flags =
     (let f = 0;
          f = (if flags AND LTCKPT_MAP_FIXED \<noteq> 0 then f OR MAP_FIXED os else f);
          f = (if flags AND LTCKPT_MAP_POPULATE \<noteq> 0 then f OR MAP_PREALLOC os else f);
          f = (if flags AND LTCKPT_MAP_PRIVATE \<noteq> 0 then f OR MAP_PRIVATE os else f);
          f = (if flags AND LTCKPT_MAP_NORESERVE \<noteq> 0 then f OR MAP_NORESERVE os else f);
          f = (if flags AND LTCKPT_MAP_STACK \<noteq> 0 then f OR MAP_STACK os else f)
      in f OR MAP_ANONYMOUS os)"

definition mmap_prot :: "os_mm \<Rightarrow> 32 word \<Rightarrow> 32 word" where
  "mmap_prot os prot =
     (let p = 0;
          p = (if prot AND LTCKPT_PROT_R \<noteq> 0 then p OR PROT_READ os else p);
          p = (if prot AND LTCKPT_PROT_W \<noteq> 0 then p OR PROT_WRITE os else p);
          p = (if prot AND LTCKPT_PROT_X \<noteq> 0 then p OR PROT_EXEC os else p)
      in p)"

definition ltckpt_mmap :: "os_mm \<Rightarrow> addr \<Rightarrow> 32 word \<Rightarrow> 32 word \<Rightarrow> 32 word \<Rightarrow> addr" where
  "ltckpt_mmap os a sz prot flags =
     (case os_mmap os a sz (mmap_prot os prot) (mmap_flags os flags) of
        None \<Rightarrow> LTCKPT_MAP_FAILED
      | Some ret \<Rightarrow> ret)"

definition ltckpt_is_mapped :: "os_mm \<Rightarrow> addr \<Rightarrow> bool" where
  "ltckpt_is_mapped os a =
     (ltckpt_mmap os a 4096 (PROT_WRITE os OR PROT_READ os)
        (LTCKPT_MAP_PRIVATE OR LTCKPT_MAP_NORESERVE) \<noteq> a)"

section \<open>Write statistics\<close>

type_synonym stat_list = "(addr \<times> 32 word) list"

fun ltckpt_stat_find :: "addr \<Rightarrow> stat_list \<Rightarrow> 32 word option" where
  "ltckpt_stat_find a [] = None"
| "ltckpt_stat_find a ((b, n) # st) = (if b = a then Some n else ltckpt_stat_find a st)"

fun stat_bump :: "addr \<Rightarrow> stat_list \<Rightarrow> stat_list" where
  "stat_bump a [] = []"
| "stat_bump a ((b, n) # st) = (if b = a then (b, n + 1) # st else (b, n) # stat_bump a st)"

definition ltckpt_stat_add :: "addr \<Rightarrow> stat_list \<Rightarrow> stat_list" where
  "ltckpt_stat_add a st =
     (case ltckpt_stat_find a st of
        None \<Rightarrow> (a, 1) # st
      | Some n \<Rightarrow> stat_bump a st)"

section \<open>The interface of a checkpoint mechanism\<close>

text \<open>
  The writes the instrumentation hooks: a store instruction, and a memory-intrinsic call of
  any length.
\<close>

datatype mem_write = Store addr "byte list" | Memcpy addr "byte list"

primrec waddr :: "mem_write \<Rightarrow> addr" where
  "waddr (Store a bs) = a"
| "waddr (Memcpy a bs) = a"

primrec wbytes :: "mem_write \<Rightarrow> byte list" where
  "wbytes (Store a bs) = bs"
| "wbytes (Memcpy a bs) = bs"

definition plain_write :: "mem_write \<Rightarrow> mem \<Rightarrow> mem" where
  "plain_write w m = store_bytes m (waddr w) (wbytes w)"

definition plain_writes :: "mem_write list \<Rightarrow> mem \<Rightarrow> mem" where
  "plain_writes ws m = fold plain_write ws m"

text \<open>A run of hooked writes; None as soon as one of them is.\<close>

fun run_hooked :: "(mem_write \<Rightarrow> 's \<Rightarrow> 's option) \<Rightarrow> mem_write list \<Rightarrow> 's \<Rightarrow> 's option" where
  "run_hooked hooked [] s = Some s"
| "run_hooked hooked (w # ws) s = (case hooked w s of None \<Rightarrow> None | Some t \<Rightarrow> run_hooked hooked ws t)"

text \<open>
  What instrumented code relies on. A hooked write, where the mechanism supports it, takes
  effect in memory and leaves what a rollback would restore unchanged on every protected
  address; it is None when the mechanism gives up the checkpoint. A checkpoint that is due
  makes the current memory the one a rollback restores. The client's lemmas concern whole
  runs between two checkpoints.
\<close>

locale checkpoint_mechanism =
  fixes memory :: "'s \<Rightarrow> mem"
    and due :: "'s \<Rightarrow> bool"
    and checkpoint :: "'s \<Rightarrow> 's"
    and hooked_write :: "mem_write \<Rightarrow> 's \<Rightarrow> 's option"
    and rollback :: "'s \<Rightarrow> mem"
    and ready :: "'s \<Rightarrow> bool"
    and supported :: "mem_write \<Rightarrow> bool"
    and protected :: "addr \<Rightarrow> bool"
  assumes write_ready: "ready s \<Longrightarrow> supported w \<Longrightarrow> hooked_write w s = Some t \<Longrightarrow> ready t"
    and write_effect: "ready s \<Longrightarrow> supported w \<Longrightarrow> hooked_write w s = Some t \<Longrightarrow> protected x \<Longrightarrow>
      memory t x = plain_write w (memory s) x"
    and write_rollback: "ready s \<Longrightarrow> supported w \<Longrightarrow> hooked_write w s = Some t \<Longrightarrow> protected x \<Longrightarrow>
      rollback t x = rollback s x"
    and checkpoint_ready: "due s \<Longrightarrow> ready (checkpoint s)"
    and checkpoint_rollback: "due s \<Longrightarrow> protected x \<Longrightarrow> rollback (checkpoint s) x = memory s x"
    and checkpoint_memory: "due s \<Longrightarrow> protected x \<Longrightarrow> memory (checkpoint s) x = memory s x"
begin

lemma run_writes_step:
  "run_hooked hooked_write (w # ws) s = Some t \<Longrightarrow> \<exists>u. hooked_write w s = Some u \<and> run_hooked hooked_write ws u = Some t"
  by (auto split: option.splits)

lemma run_writes_rollback:
  assumes "run_hooked hooked_write ws s = Some t" "ready s" "\<forall>w \<in> set ws. supported w" "protected x"
  shows "ready t \<and> rollback t x = rollback s x"
  using assms
proof (induction ws arbitrary: s)
  case (Cons w ws)
  then obtain u where u: "hooked_write w s = Some u" "run_hooked hooked_write ws u = Some t"
    using run_writes_step by blast
  have "supported w" using Cons.prems by simp
  note laws = write_ready [OF Cons.prems(2) this u(1)] write_rollback [OF Cons.prems(2) this u(1) Cons.prems(4)]
  with Cons.IH [OF u(2)] Cons.prems show ?case by simp
qed simp

lemma plain_writes_cong:
  assumes "m x = m' x"
  shows "plain_writes ws m x = plain_writes ws m' x"
  using assms
proof (induction ws arbitrary: m m')
  case (Cons w ws)
  have "plain_write w m x = plain_write w m' x"
    using Cons.prems by (simp add: plain_write_def store_bytes_def)
  from Cons.IH [of "plain_write w m" "plain_write w m'", OF this] show ?case
    by (simp add: plain_writes_def)
qed (simp add: plain_writes_def)

lemma run_writes_effect:
  assumes "run_hooked hooked_write ws s = Some t" "ready s" "\<forall>w \<in> set ws. supported w" "protected x"
  shows "memory t x = plain_writes ws (memory s) x"
  using assms
proof (induction ws arbitrary: s)
  case (Cons w ws)
  then obtain u where u: "hooked_write w s = Some u" "run_hooked hooked_write ws u = Some t"
    using run_writes_step by blast
  have sup: "supported w" using Cons.prems by simp
  have "memory t x = plain_writes ws (memory u) x"
    using Cons.IH [OF u(2) write_ready [OF Cons.prems(2) sup u(1)]] Cons.prems by simp
  also have "\<dots> = plain_writes ws (plain_write w (memory s)) x"
    using plain_writes_cong [of "memory u" x "plain_write w (memory s)" ws]
      write_effect [OF Cons.prems(2) sup u(1) Cons.prems(4)] by simp
  finally show ?case by (simp add: plain_writes_def)
qed (simp add: plain_writes_def)

text \<open>A run after a checkpoint computes what the plain program computes, and can be rolled back.\<close>

lemma rollback_to_checkpoint:
  assumes "due s" "run_hooked hooked_write ws (checkpoint s) = Some t" "\<forall>w \<in> set ws. supported w" "protected x"
  shows "rollback t x = memory s x"
  using run_writes_rollback [OF assms(2) checkpoint_ready [OF assms(1)] assms(3,4)]
    checkpoint_rollback [OF assms(1,4)] by simp

lemma run_from_checkpoint:
  assumes "due s" "run_hooked hooked_write ws (checkpoint s) = Some t" "\<forall>w \<in> set ws. supported w" "protected x"
  shows "memory t x = plain_writes ws (memory s) x"
  using run_writes_effect [OF assms(2) checkpoint_ready [OF assms(1)] assms(3,4)]
    plain_writes_cong [of "memory (checkpoint s)" x "memory s" ws] checkpoint_memory [OF assms(1,4)] by simp

end

section \<open>Lemmas: intervals and statistics\<close>

definition tol_step :: "ltckpt_ctx \<Rightarrow> ltckpt_ctx" where
  "tol_step x = snd (CTX_NEW_TOL_OR_RETURN x)"

lemma tol_steps:
  "num_tols ((tol_step ^^ n) x) = num_tols x + of_nat n"
  "checkpoint_interval ((tol_step ^^ n) x) = checkpoint_interval x"
  by (induction n) (simp_all add: tol_step_def CTX_NEW_TOL_OR_RETURN_def Let_def)

lemma stat_find_bump:
  "ltckpt_stat_find a (stat_bump b st) =
     (if a = b then map_option (\<lambda>n. n + 1) (ltckpt_stat_find a st) else ltckpt_stat_find a st)"
  by (induction st rule: ltckpt_stat_find.induct) auto

lemma stat_find_add:
  "ltckpt_stat_find a (ltckpt_stat_add b st) =
     (if a = b then Some (case ltckpt_stat_find a st of None \<Rightarrow> 1 | Some n \<Rightarrow> n + 1)
      else ltckpt_stat_find a st)"
  by (auto simp: ltckpt_stat_add_def stat_find_bump split: option.splits)

text \<open>The context of a service started with an empty environment.\<close>

definition ex_ctx :: ltckpt_ctx where
  "ex_ctx = ltckpt_ctx_init Map.empty ''undolog'' \<lparr>lazy_init = 0, skip_mmap = 0, atexit_dump = 0,
     allow_prctl = 0, checkpoint_interval = 0, page_statistic_enabled = 0, approach = [], errors = 0,
     num_cows = 0, num_tols = 0, num_checkpoints = 0, max_log_size = 0, num_aop_funcs = 0, num_aop_tols = 0\<rparr>"

section \<open>Properties\<close>

text \<open>
  C24 (functional): with a positive checkpoint interval k and a fresh context, the n-th pass through the
  top of the message loop (counted from zero) takes a checkpoint exactly when k divides n, for every n
  the 32-bit counter can hold; an interval of zero never takes one.
\<close>
theorem checkpoint_every_interval:
  assumes "num_tols x = 0" "n < 2 ^ 32" "0 \<le> checkpoint_interval x" "checkpoint_interval x < 2 ^ 31"
  shows "fst (CTX_NEW_TOL_OR_RETURN ((tol_step ^^ n) x)) \<longleftrightarrow>
    checkpoint_interval x \<noteq> 0 \<and> nat (checkpoint_interval x) dvd n"
proof -
  obtain k where k: "checkpoint_interval x = int k" using assms(3) by (metis nonneg_int_cases)
  then have "unat (of_nat n mod (word_of_int (int k) :: 32 word)) = n mod k"
    using assms(2,4) by (simp add: unat_mod unat_of_nat take_bit_eq_mod)
  then have "(of_nat n mod (word_of_int (int k) :: 32 word) > 0) \<longleftrightarrow> n mod k \<noteq> 0"
    by (simp add: word_less_nat_alt)
  then show ?thesis
    using assms(1) k by (simp add: CTX_NEW_TOL_OR_RETURN_def tol_steps Let_def dvd_eq_mod_eq_0)
qed

theorem checkpoint_every_interval_witness:
  "fst (CTX_NEW_TOL_OR_RETURN ((tol_step ^^ 6) (ex_ctx\<lparr>checkpoint_interval := 3\<rparr>)))"
  using checkpoint_every_interval [of "ex_ctx\<lparr>checkpoint_interval := 3\<rparr>" 6]
  by (simp add: ex_ctx_def ltckpt_ctx_init_def)

text \<open>
  The write statistics count. After any sequence of recorded addresses, looking an
  address up gives the number of times it was recorded (modulo 2 to the 32), and nothing when it never was.
\<close>
theorem stat_counts_writes:
  "ltckpt_stat_find a (fold ltckpt_stat_add xs []) =
     (if a \<in> set xs then Some (of_nat (count_list xs a)) else None)"
proof (induction xs rule: rev_induct)
  case (snoc x xs)
  then show ?case by (auto simp: stat_find_add)
qed simp

end
