(* ===== verification/Writelog.thy ===== *)
theory Writelog
  imports Checkpoint
begin

text \<open>
  The undo log of \<^verbatim>\<open>mechanisms/ltckpt_writelog.c\<close> in the 32-bit MINIX build. The log lives in
  the modelled byte memory from \<^verbatim>\<open>wl_data\<close> on: twelve bytes per entry, the region's address and
  its eight bytes before the write. The runtime's own variables are fields of the state; their
  addresses, which \<^verbatim>\<open>ltckpt_can_restore\<close> compares with, are parameters. The kernel's copy
  calls and the identity state transfer of the restart are parameters too.
\<close>

section \<open>State\<close>

definition WRITELOG_START :: addr where "WRITELOG_START = 0x60000000"
definition WRITELOG_MAXLEN :: "32 word" where "WRITELOG_MAXLEN = 0x200000"
definition WRITELOG_GRANULARITY :: nat where "WRITELOG_GRANULARITY = 8"
definition WRITELOG_BYTES :: "32 word" where "WRITELOG_BYTES = WRITELOG_MAXLEN * (8 + 4)"

record wl_state = rec_state +
  mem :: mem
  wl_data :: addr
  wl_position :: "32 word"
  wl_position_high_watermark :: "32 word"
  ltckpt_writelog_enabled :: bool
  ctx :: ltckpt_ctx

section \<open>Logging\<close>

text \<open>The log is full: the window closes and recovery becomes fail-stop.\<close>

definition wl_overflow :: "'a wl_state_scheme \<Rightarrow> 'a wl_state_scheme" where
  "wl_overflow s = s\<lparr>sa_window_is_open := False,
     g_recovery_bitmask := g_recovery_bitmask s OR MASK_FAIL_STOP,
     g_recovery_bitmask_reason :=
       (case g_recovery_bitmask_reason s of
          None \<Rightarrow> Some ''ltckpt recovery: window closed: writelog full''
        | Some r \<Rightarrow> Some r)\<rparr>"

text \<open>The eight-byte region an address lies in.\<close>

definition region_of :: "addr \<Rightarrow> addr" where
  "region_of a = a AND NOT 7"

definition ltckpt_write_wl :: "addr \<Rightarrow> 'a wl_state_scheme \<Rightarrow> (unit, 'a wl_state_scheme) outcome" where
  "ltckpt_write_wl a s =
     (let a = region_of a;
          wl_data_start = wl_data s;
          wl_data_end = wl_data s + WRITELOG_BYTES
      in if wl_data s = 0 then Fault AssertFail s
         else if \<not> sa_window_is_open s then Ret () s
         else if wl_data_start \<le> a \<and> a < wl_data_end then Fault (Panic ''Try to write into writelog!'') s
         else
           let slot = wl_data s + wl_position s;
               m1 = store_bytes (mem s) slot (ptr_bytes a);
               m2 = store_bytes m1 (slot + 4) (load_bytes m1 a WRITELOG_GRANULARITY);
               s' = s\<lparr>mem := m2, wl_position := wl_position s + 12\<rparr>
           in Ret () (if wl_position s' \<ge> WRITELOG_BYTES then wl_overflow s' else s'))"

definition wl_store_hook :: "addr \<Rightarrow> 'a wl_state_scheme \<Rightarrow> (unit, 'a wl_state_scheme) outcome" where
  "wl_store_hook a s = (if ltckpt_writelog_enabled s then ltckpt_write_wl a s else Ret () s)"

text \<open>
  The loop of the memcpy hook. It does not return when the region pointer wraps around below
  the end, so that not returning is the value None.
\<close>

partial_function (option) wl_memcpy_loop ::
    "addr \<Rightarrow> addr \<Rightarrow> 'a wl_state_scheme \<Rightarrow> (unit, 'a wl_state_scheme) outcome option" where
  "wl_memcpy_loop reg fin s =
     (if reg < fin then
        (case ltckpt_write_wl reg s of
           Fault e t \<Rightarrow> Some (Fault e t)
         | Ret u t \<Rightarrow> wl_memcpy_loop (reg + 8) fin t)
      else Some (Ret () s))"

definition wl_memcpy_hook :: "addr \<Rightarrow> 32 word \<Rightarrow> 'a wl_state_scheme \<Rightarrow> (unit, 'a wl_state_scheme) outcome option" where
  "wl_memcpy_hook a sz s =
     (if \<not> ltckpt_writelog_enabled s then Some (Ret () s)
      else wl_memcpy_loop (a AND NOT 3) (a + sz) s)"

definition wl_top_of_the_loop :: "'a wl_state_scheme \<Rightarrow> 'a wl_state_scheme" where
  "wl_top_of_the_loop s =
     (let s = s\<lparr>ctx := CTX_NEW_LOG_SIZE (wl_position s) (ctx s)\<rparr>;
          (go, x) = CTX_NEW_TOL_OR_RETURN (ctx s);
          s = s\<lparr>ctx := x\<rparr>
      in if \<not> go then s
         else
           let s = (if wl_position s > wl_position_high_watermark s
                    then s\<lparr>wl_position_high_watermark := wl_position s\<rparr> else s);
               s = s\<lparr>wl_position := 0, ltckpt_writelog_enabled := True\<rparr>
           in s\<lparr>ctx := CTX_NEW_CHECKPOINT (ctx s)\<rparr>)"

section \<open>Initialisation\<close>

text \<open>What the start-up code asks the system: its identity, and whether it is VM or RS.\<close>

record wl_boot =
  sys_whoami_ret :: int
  priv_flags :: "32 word"
  i_am_ep :: int
  ROOT_SYS_PROC :: "32 word"
  rs_proc_nr :: int
  is_vm :: bool
  is_rs :: bool
  vm_is_hole :: bool
  vm_allocpages_at :: "addr \<Rightarrow> 32 word \<Rightarrow> addr"

definition LTCKPT_RESTARTING :: "os_mm \<Rightarrow> wl_boot \<Rightarrow> 'a wl_state_scheme \<Rightarrow> (bool, 'a wl_state_scheme) outcome" where
  "LTCKPT_RESTARTING os bt s =
     (if ltckpt_is_mapped os WRITELOG_START then Ret True (s\<lparr>wl_data := WRITELOG_START\<rparr>)
      else if sys_whoami_ret bt \<noteq> 0 then Fault (Panic ''LTCKPT_RESTARTING: sys_whoami failed'') s
      else Ret (priv_flags bt AND ROOT_SYS_PROC bt \<noteq> 0 \<and> i_am_ep bt \<noteq> rs_proc_nr bt) s)"

definition ltckpt_init_writelog :: "os_mm \<Rightarrow> wl_boot \<Rightarrow> 'a wl_state_scheme \<Rightarrow> (unit, 'a wl_state_scheme) outcome" where
  "ltckpt_init_writelog os bt s =
     (let flags = LTCKPT_MAP_PRIVATE OR LTCKPT_MAP_NORESERVE OR LTCKPT_MAP_FIXED;
          flags = (if is_rs bt then flags OR LTCKPT_MAP_POPULATE else flags);
          ret = ltckpt_mmap os WRITELOG_START WRITELOG_BYTES (LTCKPT_PROT_W OR LTCKPT_PROT_R) flags
      in if ret = LTCKPT_MAP_FAILED then Fault (Panic ''ltckpt: could not allocate writelog data'') s
         else if ret \<noteq> WRITELOG_START then Fault (Panic ''ltckpt: wrong address returned?!'') s
         else Ret () (s\<lparr>wl_data := ret\<rparr>))"

definition wl_late_init_hook :: "os_mm \<Rightarrow> wl_boot \<Rightarrow> 'a wl_state_scheme \<Rightarrow> (unit, 'a wl_state_scheme) outcome" where
  "wl_late_init_hook os bt s =
     (if is_vm bt then Ret () s
      else obind (LTCKPT_RESTARTING os bt s) (\<lambda>restarting s.
        if restarting then Ret () s else ltckpt_init_writelog os bt s))"

definition ltckpt_undolog_vm_late_init :: "wl_boot \<Rightarrow> 'a wl_state_scheme \<Rightarrow> (unit, 'a wl_state_scheme) outcome" where
  "ltckpt_undolog_vm_late_init bt s =
     (if \<not> vm_is_hole bt then Ret () s
      else let ret = vm_allocpages_at bt WRITELOG_START WRITELOG_BYTES
           in if ret \<noteq> 0 then Ret () (s\<lparr>wl_data := ret\<rparr>)
              else Fault (Panic ''ltckpt: vm: could not allocate writelog'') s)"

section \<open>Restart\<close>

definition ltckpt_overlaps :: "addr \<Rightarrow> 32 word \<Rightarrow> addr \<Rightarrow> 32 word \<Rightarrow> bool" where
  "ltckpt_overlaps ps1 s1 ps2 s2 =
     (let pe1 = ps1 + s1; pe2 = ps2 + s2
      in (ps1 \<le> ps2 \<and> pe1 > ps2) \<or> (ps2 \<le> ps1 \<and> pe2 > ps1))"

text \<open>
  Addresses of the log's three variables and of the restart's stack limit, and the kernel
  services: the result of copying to the old process, of each copy from it by source address
  and length, and the state transfer.
\<close>

record 's restart_env =
  addr_wl_data :: addr
  addr_wl_position :: addr
  addr_writelog_enabled :: addr
  datamax :: addr
  sys_safecopyto_ret :: int
  sys_safecopyfrom_ret :: "addr \<Rightarrow> 32 word \<Rightarrow> int"
  identity_state_transfer :: "'s \<Rightarrow> 's \<Rightarrow> int \<times> 's"

definition ltckpt_can_restore :: "('s, 'b) restart_env_scheme \<Rightarrow> addr \<Rightarrow> addr \<Rightarrow> bool" where
  "ltckpt_can_restore e wl a =
     (\<not> ltckpt_overlaps a 8 wl WRITELOG_BYTES \<and>
      \<not> ltckpt_overlaps a 8 (addr_wl_data e) 4 \<and>
      \<not> ltckpt_overlaps a 8 (addr_wl_position e) 4 \<and>
      \<not> ltckpt_overlaps a 8 (addr_writelog_enabled e) 4)"

text \<open>
  The reverse walk: the result is an error code of a failed copy, or the number of entries
  walked and of stack entries among them. \<open>old\<close> is the memory of the crashed process.
\<close>

function wl_undo_loop ::
    "('s, 'b) restart_env_scheme \<Rightarrow> mem \<Rightarrow> nat \<Rightarrow> nat \<Rightarrow> 'a wl_state_scheme \<Rightarrow>
     (int + nat \<times> nat, 'a wl_state_scheme) outcome" where
  "wl_undo_loop e old i stack s =
     (if wl_position s \<ge> 12 then
        let s = s\<lparr>wl_position := wl_position s - 12, inside_trusted_compute_base := True\<rparr>;
            slot = wl_data s + wl_position s;
            r = sys_safecopyfrom_ret e slot 4;
            a = bytes_ptr (load_bytes old slot 4)
        in if r \<noteq> 0 then
             Ret (Inl r) (hypermem_log ''ltckpt recovery: failed: writelog: sys_safecopyfrom addr failed'' s)
           else if \<not> ltckpt_can_restore e (wl_data s) a then wl_undo_loop e old (Suc i) stack s
           else if a > datamax e then wl_undo_loop e old (Suc i) (Suc stack) s
           else if a \<noteq> 0 then
             let r = sys_safecopyfrom_ret e (slot + 4) 8
             in if r \<noteq> 0 then
                  Ret (Inl r) (hypermem_log ''ltckpt recovery: failed: writelog: sys_safecopyfrom region failed'' s)
                else wl_undo_loop e old (Suc i) stack
                       (s\<lparr>mem := store_bytes (mem s) a (load_bytes old (slot + 4) 8)\<rparr>)
           else wl_undo_loop e old (Suc i) stack s
      else Ret (Inr (i, stack)) s)"
  by pat_completeness auto
termination
  by (relation "measure (\<lambda>(e, old, i, stack, s). unat (wl_position s))")
    (simp_all add: unat_minus_less Let_def)

declare wl_undo_loop.simps [simp del]

definition wl_entry_size :: "32 word" where
  "wl_entry_size = 12"

definition wl_restart_message :: "32 word \<Rightarrow> 32 word \<Rightarrow> fault + string" where
  "wl_restart_message restored stack =
     (let bp = hypermem_cat 1024 fresh_cursor ''ltckpt recovery: success: writelog: '' in
      ebind (hypermem_cat_num 1024 bp (ucast restored)) (\<lambda>bp.
      let bp = hypermem_cat 1024 bp '' log entries, '' in
      ebind (hypermem_cat_num 1024 bp (ucast stack)) (\<lambda>bp.
      Inr (c_str (fst (hypermem_cat 1024 bp '' stack entries''))))))"

definition wl_restart_hook ::
    "('a wl_state_scheme, 'b) restart_env_scheme \<Rightarrow> 'a wl_state_scheme \<Rightarrow> 'a wl_state_scheme \<Rightarrow>
     (int, 'a wl_state_scheme) outcome" where
  "wl_restart_hook e old s =
     (let s = hypermem_log ''ltckpt recovery: start: writelog'' s;
          s = s\<lparr>inside_trusted_compute_base := True\<rparr>;
          s = s\<lparr>ltckpt_writelog_enabled := False\<rparr>;
          r = sys_safecopyto_ret e
      in if r \<noteq> 0 then
           Ret r (hypermem_log ''ltckpt recovery: failed: writelog: sys_safecopyto failed'' s)
         else
           let old = old\<lparr>ltckpt_writelog_enabled := False\<rparr>;
               s = s\<lparr>ltckpt_writelog_enabled := False\<rparr>;
               (r, s) = identity_state_transfer e old s
           in if r \<noteq> 0 then
                Ret r (hypermem_log ''ltckpt recovery: failed: writelog: identity state transfer failed'' s)
              else
                let num_entries = wl_position s div wl_entry_size
                in if wl_position s mod wl_entry_size \<noteq> 0 then Fault AssertFail s
                   else obind (wl_undo_loop e (mem old) 0 0 s) (\<lambda>res s.
                     case res of
                       Inl r \<Rightarrow> Ret r s
                     | Inr (i, stack_entries) \<Rightarrow>
                         if of_nat i \<noteq> num_entries then Fault AssertFail s
                         else if wl_position s \<noteq> 0 then Fault AssertFail s
                         else
                           let s = s\<lparr>inside_trusted_compute_base := True\<rparr>
                           in case wl_restart_message (num_entries - of_nat stack_entries) (of_nat stack_entries) of
                                Inl f \<Rightarrow> Fault f s
                              | Inr msg \<Rightarrow> Ret 0 (hypermem_log msg s)))"

section \<open>The log as a list of saved regions\<close>

definition in_log :: "addr \<Rightarrow> addr \<Rightarrow> bool" where
  "in_log wl x = (unat (x - wl) < 25165824)"

text \<open>The log area: eight-byte aligned, not at zero, not reaching the end of memory.\<close>

definition log_area_ok :: "addr \<Rightarrow> bool" where
  "log_area_ok wl = (wl \<noteq> 0 \<and> unat wl mod 8 = 0 \<and> unat wl + 25165824 < 4294967296)"

definition entry_at :: "mem \<Rightarrow> addr \<Rightarrow> nat \<Rightarrow> addr \<times> byte list" where
  "entry_at m wl k = (bytes_ptr (load_bytes m (wl + of_nat (12 * k)) 4),
     load_bytes m (wl + of_nat (12 * k + 4)) 8)"

definition log_entries :: "mem \<Rightarrow> addr \<Rightarrow> nat \<Rightarrow> (addr \<times> byte list) list" where
  "log_entries m wl n = map (entry_at m wl) [0..<n]"

definition wl_entries :: "'a wl_state_scheme \<Rightarrow> (addr \<times> byte list) list" where
  "wl_entries s = log_entries (mem s) (wl_data s) (unat (wl_position s) div 12)"

definition wl_inv :: "'a wl_state_scheme \<Rightarrow> bool" where
  "wl_inv s = (log_area_ok (wl_data s) \<and> unat (wl_position s) mod 12 = 0 \<and>
     unat (wl_position s) \<le> 25165824 \<and>
     (sa_window_is_open s \<longrightarrow> unat (wl_position s) < 25165824))"

text \<open>Undoing a list of saved regions, the most recent first.\<close>

definition undo :: "(addr \<times> byte list) list \<Rightarrow> mem \<Rightarrow> mem" where
  "undo es m = foldr (\<lambda>(a, bs) m. store_bytes m a bs) es m"

section \<open>Lemmas: addresses\<close>

lemma WRITELOG_BYTES_value [simp]: "WRITELOG_BYTES = 25165824"
  by (simp add: WRITELOG_BYTES_def WRITELOG_MAXLEN_def)

lemma WRITELOG_START_ok: "log_area_ok WRITELOG_START"
  by (simp add: log_area_ok_def WRITELOG_START_def)

lemma log_check:
  assumes "log_area_ok wl"
  shows "wl \<le> a \<and> a < wl + 25165824 \<longleftrightarrow> in_log wl a"
proof -
  have "unat (wl + 25165824) = unat wl + 25165824"
    using assms unat_plus_small [of wl 25165824] by (simp add: log_area_ok_def)
  then show ?thesis
    using assms unat_addr_bound [of a]
    by (auto simp: in_log_def log_area_ok_def word_le_nat_alt word_less_nat_alt unat_diff_addr)
qed

lemma region_outside_log:
  assumes "log_area_ok wl" "unat a mod 8 = 0" "\<not> in_log wl a" "i < 8"
  shows "\<not> in_log wl (a + of_nat i)"
proof -
  have "unat (a - wl) mod 8 = 0"
    using assms(1,2) by (auto simp: log_area_ok_def unat_diff_addr mod_diff_eq)
  moreover have "unat (a - wl) < 4294967296" by (rule unat_addr_bound)
  ultimately have "unat (a - wl) + i < 4294967296" using assms(4) by presburger
  then have "unat (a - wl + of_nat i) = unat (a - wl) + i" by (rule unat_plus_small)
  then show ?thesis using assms(3) by (simp add: in_log_def algebra_simps)
qed

lemma unat_region_of: "unat (region_of a) = 8 * (unat a div 8)"
  unfolding region_of_def by (rule unat_align8)

lemma region_of_mod [simp]: "unat (region_of a) mod 8 = 0"
  by (simp add: unat_region_of)

lemma region_cover:
  assumes "unat a mod 8 = 0"
  shows "unat (x - a) < 8 \<longleftrightarrow> region_of x = a"
proof -
  have "region_of x = a \<longleftrightarrow> 8 * (unat x div 8) = unat a"
    by (simp add: unat_region_of [symmetric] word_unat_eq_iff)
  also have "\<dots> \<longleftrightarrow> unat a \<le> unat x \<and> unat x - unat a < 8"
  proof -
    obtain q where q: "unat a = 8 * q" using assms by (auto simp: mod_eq_0_iff_dvd elim: dvdE)
    show ?thesis unfolding q by auto
  qed
  also have "\<dots> \<longleftrightarrow> unat (x - a) < 8"
  proof -
    have "unat a \<le> 4294967288" using assms unat_addr_bound [of a] by presburger
    then show ?thesis unfolding unat_diff_addr by auto
  qed
  finally show ?thesis by simp
qed

section \<open>Lemmas: appending an entry\<close>

lemma log_entries_cong:
  assumes "\<And>d. d < 12 * n \<Longrightarrow> m (wl + of_nat d) = m' (wl + of_nat d)"
  shows "log_entries m wl n = log_entries m' wl n"
proof -
  have "entry_at m wl k = entry_at m' wl k" if "k < n" for k
  proof -
    have "m (wl + of_nat (12 * k + i)) = m' (wl + of_nat (12 * k + i))" if "i < 12" for i
      using that \<open>k < n\<close> by (intro assms) simp
    then have "load_bytes m (wl + of_nat (12 * k)) 4 = load_bytes m' (wl + of_nat (12 * k)) 4"
      "load_bytes m (wl + of_nat (12 * k + 4)) 8 = load_bytes m' (wl + of_nat (12 * k + 4)) 8"
      unfolding load_bytes_offset by (simp_all add: add.assoc del: of_nat_add of_nat_mult)
    then show ?thesis unfolding entry_at_def by presburger
  qed
  then show ?thesis by (simp add: log_entries_def)
qed

lemma append_entry:
  assumes "12 * n + 12 \<le> 25165824" "length bs = 8"
    and m2: "m2 = store_bytes (store_bytes m (wl + of_nat (12 * n)) (ptr_bytes a)) (wl + of_nat (12 * n) + 4) bs"
  shows "log_entries m2 wl (Suc n) = log_entries m wl n @ [(a, bs)]"
    and "\<not> in_log wl x \<Longrightarrow> m2 x = m x"
proof -
  have slot: "wl + of_nat (12 * n) + 4 = wl + of_nat (12 * n + 4)" by simp
  have val: "m2 (wl + of_nat d) =
      (if 12 * n \<le> d \<and> d < 12 * n + 4 then ptr_bytes a ! (d - 12 * n)
       else if 12 * n + 4 \<le> d \<and> d < 12 * n + 12 then bs ! (d - (12 * n + 4)) else m (wl + of_nat d))"
    if "d < 2 ^ 32" for d
    using assms(1,2) that unfolding m2 slot by (simp add: store_bytes_offset del: of_nat_add of_nat_mult)
  have "log_entries m2 wl n = log_entries m wl n"
    using assms(1) by (intro log_entries_cong) (simp add: val del: of_nat_add of_nat_mult)
  moreover have "load_bytes m2 (wl + of_nat (12 * n)) 4 = ptr_bytes a"
    by (rule nth_equalityI) (use assms(1) val in \<open>auto simp: load_bytes_offset simp del: of_nat_add of_nat_mult\<close>)
  moreover have "load_bytes m2 (wl + of_nat (12 * n + 4)) 8 = bs"
    by (rule nth_equalityI) (use assms(1,2) val in \<open>auto simp: load_bytes_offset simp del: of_nat_add of_nat_mult\<close>)
  ultimately show "log_entries m2 wl (Suc n) = log_entries m wl n @ [(a, bs)]"
    by (simp add: log_entries_def entry_at_def)
  assume "\<not> in_log wl x"
  then have "25165824 \<le> unat (x - wl)" by (simp add: in_log_def)
  moreover have "m2 x = m2 (wl + of_nat (unat (x - wl)))" by simp
  ultimately show "m2 x = m x"
    using val [of "unat (x - wl)"] assms(1) unat_addr_bound [of "x - wl"] by simp
qed

lemma load_region_cong:
  assumes "log_area_ok wl" "unat a mod 8 = 0" "\<not> in_log wl a" "\<And>x. \<not> in_log wl x \<Longrightarrow> m x = m' x"
  shows "load_bytes m a 8 = load_bytes m' a 8"
  using assms region_outside_log by (intro load_bytes_cong) simp

section \<open>Lemmas: the write hook\<close>

lemma unat_add12: "unat (p :: 32 word) < 25165824 \<Longrightarrow> unat (p + 12) = unat p + 12"
  using unat_plus_small [of p 12] by simp

lemma write_wl_open:
  assumes "wl_inv s" "sa_window_is_open s" "\<not> in_log (wl_data s) (region_of a)"
  shows "\<exists>t. ltckpt_write_wl a s = Ret () t \<and> wl_inv t \<and>
    wl_entries t = wl_entries s @ [(region_of a, load_bytes (mem s) (region_of a) 8)] \<and>
    (\<forall>x. \<not> in_log (wl_data s) x \<longrightarrow> mem t x = mem s x) \<and> wl_data t = wl_data s \<and>
    unat (wl_position t) = unat (wl_position s) + 12 \<and>
    ltckpt_writelog_enabled t = ltckpt_writelog_enabled s \<and>
    (sa_window_is_open t \<longleftrightarrow> unat (wl_position t) < 25165824) \<and>
    t = (if sa_window_is_open t then s\<lparr>mem := mem t, wl_position := wl_position t\<rparr>
         else wl_overflow (s\<lparr>mem := mem t, wl_position := wl_position t\<rparr>))"
proof -
  define n where "n = unat (wl_position s) div 12"
  have ok: "log_area_ok (wl_data s)" and lt: "unat (wl_position s) < 25165824"
    and md: "unat (wl_position s) mod 12 = 0"
    using assms(1,2) by (auto simp: wl_inv_def)
  have pos: "unat (wl_position s) = 12 * n" using md unfolding n_def by presburger
  have "wl_position s = of_nat (unat (wl_position s))" by simp
  then have posw: "wl_position s = of_nat (12 * n)" unfolding pos .
  have fits: "12 * n + 12 \<le> 25165824" using pos lt by presburger
  let ?w = "wl_data s"
  let ?m1 = "store_bytes (mem s) (?w + of_nat (12 * n)) (ptr_bytes (region_of a))"
  let ?bs = "load_bytes ?m1 (region_of a) 8"
  let ?m2 = "store_bytes ?m1 (?w + of_nat (12 * n) + 4) ?bs"
  let ?t = "s\<lparr>mem := ?m2, wl_position := wl_position s + 12\<rparr>"
  have m1: "?m1 x = mem s x" if "\<not> in_log ?w x" for x
  proof -
    have "x = ?w + of_nat (unat (x - ?w))" by simp
    moreover have "store_bytes (mem s) (?w + of_nat (12 * n)) (ptr_bytes (region_of a)) (?w + of_nat (unat (x - ?w))) =
        mem s (?w + of_nat (unat (x - ?w)))"
      using that fits unat_addr_bound [of "x - ?w"]
      by (subst store_bytes_offset) (auto simp: in_log_def)
    ultimately show ?thesis by simp
  qed
  have bs: "?bs = load_bytes (mem s) (region_of a) 8"
    using load_region_cong [OF ok region_of_mod assms(3), of ?m1 "mem s"] m1 by blast
  note app = append_entry [where m = "mem s" and wl = ?w and a = "region_of a" and bs = ?bs,
      OF fits length_load_bytes refl]
  have p12: "unat (wl_position s + 12) = 12 * Suc n" using pos lt by (simp add: unat_add12)
  have run: "ltckpt_write_wl a s = Ret () (if wl_position s + 12 \<ge> 25165824 then wl_overflow ?t else ?t)"
    using ok assms(2,3) log_check [OF ok, of "region_of a"]
    by (simp add: ltckpt_write_wl_def Let_def log_area_ok_def WRITELOG_GRANULARITY_def posw)
  have full: "wl_position s + 12 \<ge> 25165824 \<longleftrightarrow> \<not> unat (wl_position s + 12) < 25165824"
    by (simp add: word_le_nat_alt not_less)
  have ent: "wl_entries ?t = wl_entries s @ [(region_of a, load_bytes (mem s) (region_of a) 8)]"
    using app(1) p12 bs by (simp add: wl_entries_def n_def [symmetric])
  show ?thesis
  proof (cases "unat (wl_position s + 12) < 25165824")
    case True
    with run full ent app(2) p12 pos ok assms(2) show ?thesis
      by (intro exI [of _ ?t]) (auto simp: wl_inv_def bs)
  next
    case False
    have "wl_entries (wl_overflow ?t) = wl_entries ?t" by (simp add: wl_entries_def wl_overflow_def)
    with False run full ent app(2) p12 pos ok fits show ?thesis
      by (intro exI [of _ "wl_overflow ?t"]) (auto simp: wl_inv_def bs wl_overflow_def)
  qed
qed

lemma write_wl_closed:
  "wl_inv s \<Longrightarrow> \<not> sa_window_is_open s \<Longrightarrow> ltckpt_write_wl a s = Ret () s"
  by (simp add: ltckpt_write_wl_def Let_def wl_inv_def log_area_ok_def)

section \<open>Lemmas: undoing\<close>

definition wf_entries :: "(addr \<times> byte list) list \<Rightarrow> bool" where
  "wf_entries es = (\<forall>(a, bs) \<in> set es. unat a mod 8 = 0 \<and> length bs = 8)"

lemma undo_snoc: "undo (es @ [(a, bs)]) m = undo es (store_bytes m a bs)"
  by (simp add: undo_def)

text \<open>The oldest entry of a region decides.\<close>

lemma undo_lookup:
  assumes "wf_entries es"
  shows "undo es m x = (case map_of es (region_of x) of None \<Rightarrow> m x | Some bs \<Rightarrow> bs ! unat (x - region_of x))"
  using assms
proof (induction es)
  case (Cons e es)
  obtain a bs where e: "e = (a, bs)" by (cases e)
  have "unat a mod 8 = 0" "length bs = 8" using Cons.prems e by (auto simp: wf_entries_def)
  then have "undo (e # es) m x = (if region_of x = a then bs ! unat (x - a) else undo es m x)"
    using region_cover [of a x] e by (simp add: undo_def store_bytes_def)
  moreover have "wf_entries es" using Cons.prems by (simp add: wf_entries_def)
  ultimately show ?case using Cons.IH e by auto
qed (simp add: undo_def)

lemma map_of_filter_fst: "Q k \<Longrightarrow> map_of (filter (\<lambda>e. Q (fst e)) es) k = map_of es k"
  by (induction es) auto

lemma undo_filter:
  assumes "wf_entries es" "Q (region_of x)"
  shows "undo (filter (\<lambda>e. Q (fst e)) es) m x = undo es m x"
proof -
  have "wf_entries (filter (\<lambda>e. Q (fst e)) es)" using assms(1) by (auto simp: wf_entries_def)
  then show ?thesis
    using assms by (simp add: undo_lookup map_of_filter_fst [where Q = Q])
qed

definition snapshots :: "mem \<Rightarrow> addr list \<Rightarrow> (addr \<times> byte list) list" where
  "snapshots m rs = map (\<lambda>r. (region_of r, load_bytes m (region_of r) 8)) rs"

lemma map_of_snapshots:
  "map_of (snapshots m rs) r = (if r \<in> region_of ` set rs then Some (load_bytes m r 8) else None)"
  by (induction rs) (auto simp: snapshots_def)

lemma wf_snapshots: "wf_entries (snapshots m rs)"
  by (auto simp: wf_entries_def snapshots_def)

lemma wf_entries_append [simp]: "wf_entries (es @ fs) \<longleftrightarrow> wf_entries es \<and> wf_entries fs"
  by (auto simp: wf_entries_def)

lemma region_index: "unat (x - region_of x) < 8"
  using region_cover [of "region_of x" x] by simp

text \<open>Saving a region before it is changed keeps what undoing restores.\<close>

lemma undo_snapshots:
  assumes "wf_entries es" "m' x = m x \<or> region_of x \<in> region_of ` set rs"
  shows "undo (es @ snapshots m rs) m' x = undo es m x"
  using assms region_index [of x]
  by (auto simp: undo_lookup wf_snapshots map_add_def map_of_snapshots split: option.splits)

section \<open>Lemmas: sequences of log writes\<close>

fun wl_write_all :: "addr list \<Rightarrow> 'a wl_state_scheme \<Rightarrow> (unit, 'a wl_state_scheme) outcome" where
  "wl_write_all [] s = Ret () s"
| "wl_write_all (r # rs) s = obind (ltckpt_write_wl r s) (\<lambda>_. wl_write_all rs)"

lemma wl_write_all_closed:
  "wl_inv s \<Longrightarrow> \<not> sa_window_is_open s \<Longrightarrow> wl_write_all rs s = Ret () s"
  by (induction rs) (simp_all add: write_wl_closed)

definition wl_frame :: "'a wl_state_scheme \<Rightarrow> 'a wl_state_scheme \<Rightarrow> bool" where
  "wl_frame s t = (wl_inv t \<and> wl_data t = wl_data s \<and> ltckpt_writelog_enabled t = ltckpt_writelog_enabled s \<and>
     (\<forall>x. \<not> in_log (wl_data s) x \<longrightarrow> mem t x = mem s x))"

lemma wl_write_all_logs:
  assumes "wl_inv s" "sa_window_is_open s" "\<forall>r \<in> set rs. \<not> in_log (wl_data s) (region_of r)"
  shows "\<exists>t. wl_write_all rs s = Ret () t \<and> wl_frame s t \<and>
    (sa_window_is_open t \<longrightarrow> wl_entries t = wl_entries s @ snapshots (mem s) rs \<and>
       t = s\<lparr>mem := mem t, wl_position := wl_position t\<rparr>)"
  using assms
proof (induction rs arbitrary: s)
  case Nil
  then show ?case by (simp add: wl_frame_def snapshots_def)
next
  case (Cons r rs)
  obtain u where u: "ltckpt_write_wl r s = Ret () u" "wl_frame s u"
    "wl_entries u = wl_entries s @ [(region_of r, load_bytes (mem s) (region_of r) 8)]"
    "sa_window_is_open u \<Longrightarrow> u = s\<lparr>mem := mem u, wl_position := wl_position u\<rparr>"
    using write_wl_open [OF Cons.prems(1,2), of r] Cons.prems(3) by (auto simp: wl_frame_def)
  show ?case
  proof (cases "sa_window_is_open u")
    case True
    have inv: "wl_inv u" and same: "\<And>x. \<not> in_log (wl_data s) x \<Longrightarrow> mem u x = mem s x" and wl: "wl_data u = wl_data s"
      using u(2) by (auto simp: wl_frame_def)
    obtain t where t: "wl_write_all rs u = Ret () t" "wl_frame u t"
      "sa_window_is_open t \<longrightarrow> wl_entries t = wl_entries u @ snapshots (mem u) rs \<and>
        t = u\<lparr>mem := mem t, wl_position := wl_position t\<rparr>"
      using Cons.IH [OF inv True] Cons.prems(3) wl by auto
    have ok: "log_area_ok (wl_data s)" using Cons.prems(1) by (simp add: wl_inv_def)
    have "snapshots (mem u) rs = snapshots (mem s) rs"
      unfolding snapshots_def
    proof (rule map_cong [OF refl])
      fix q assume "q \<in> set rs"
      then have "\<not> in_log (wl_data s) (region_of q)" using Cons.prems(3) by simp
      from load_region_cong [OF ok region_of_mod this same]
      show "(region_of q, load_bytes (mem u) (region_of q) 8) = (region_of q, load_bytes (mem s) (region_of q) 8)" by simp
    qed
    moreover have "wl_frame s t" using u(2) t(2) by (auto simp: wl_frame_def)
    moreover have "t = s\<lparr>mem := mem t, wl_position := wl_position t\<rparr>" if "sa_window_is_open t"
      using t(3) u(4) [OF True] that by (metis (no_types, lifting) wl_state.surjective wl_state.update_convs(1,3))
    ultimately show ?thesis using u t by (auto simp: snapshots_def)
  next
    case False
    have "wl_inv u" using u(2) by (simp add: wl_frame_def)
    with False u show ?thesis by (auto simp: wl_write_all_closed)
  qed
qed

section \<open>Lemmas: the memcpy hook\<close>

lemma div4_div8: "(a::nat) div 4 = 2 * (a div 8) + (if a mod 8 < 4 then 0 else 1)"
proof -
  define q r where "q = a div 8" and "r = a mod 8"
  have a: "a = r + 4 * (2 * q)" "r < 8" by (auto simp: q_def r_def)
  have "a div 4 = 2 * q + r div 4" unfolding a(1) by (subst div_mult_self2) auto
  moreover have "r div 4 = (if r < 4 then 0 else 1)" using a(2) by (auto simp: div_nat_eqI)
  ultimately show ?thesis by (simp add: q_def r_def)
qed
lemma covered_arith:
  assumes h: "(a mod 8 < 4 \<or> (a + n) mod 8 = 0 \<or> (a + n) mod 8 > 4 \<or> a div 8 = (a + n) div 8)"
   "a \<le> x" "x < a + n" shows "4 * (a div 4) + 8 * (x div 8 - a div 8) < a + (n::nat)"
proof -
  define q r where "q = a div 8" and "r = a mod 8"
  define j y where "j = x div 8" and "y = x mod 8"
  define g z where "g = (a+n) div 8" and "z = (a + n) mod 8"
  have a: "a = 8*q+r" "r<8" and x: "x = 8*j+y" "y<8" and f: "a+n = 8*g+z" "z<8" by (auto simp: q_def r_def j_def y_def g_def z_def)
  have jq: "q \<le> j" using h(2) unfolding q_def j_def by (rule div_le_mono)
  have a4: "4 * (a div 4) = 8*q + (if r < 4 then 0 else 4)" using div4_div8 [of a] by (simp add: q_def r_def)
  have h1: "r < 4 \<or> z = 0 \<or> z > 4 \<or> q = g" using h(1) by (simp add: q_def r_def g_def z_def)
  show ?thesis unfolding a4 q_def [symmetric] j_def [symmetric]
  proof (cases "r < 4")
    case True
    then show "8 * q + (if r < 4 then 0 else 4) + 8 * (j - q) < a + n" using jq h(3) x by simp
  next
    case False
    consider "j < g" | "j = g" | "g < j" by linarith
    then have "8 * j + 4 < 8 * g + z"
    proof cases
      case 2
      then have "z > 4" using h1 False h(2,3) x f a by auto
      then show ?thesis using 2 by simp
    qed (use h(3) x f in auto)
    then show "8 * q + (if r < 4 then 0 else 4) + 8 * (j - q) < a + n" using jq f False by simp
  qed
qed
lemma covered_arith_div: "a \<le> (x::nat) \<Longrightarrow> (4 * (a div 4) + 8 * (x div 8 - a div 8)) div 8 = x div 8"
proof -
  assume "a \<le> x"
  then have "a div 8 \<le> x div 8" by (rule div_le_mono)
  then show ?thesis unfolding div4_div8 by simp
qed

lemma regs_count_step: "(r :: nat) < f \<Longrightarrow> (f - r + 7) div 8 = Suc ((f - (r + 8) + 7) div 8)"
  by (cases "r + 8 \<le> f") (auto simp: div_if [of "f - r + 7" 8])

lemma regs_count: "(r :: nat) < f \<Longrightarrow> k < (f - r + 7) div 8 \<longleftrightarrow> r + 8 * k < f"
  by (auto simp add: less_eq_div_iff_mult_less_eq Suc_le_eq [symmetric])


text \<open>The region pointers the loop visits when it does not wrap around.\<close>

definition wl_regs :: "addr \<Rightarrow> addr \<Rightarrow> addr list" where
  "wl_regs reg fin = map (\<lambda>k. reg + of_nat (8 * k)) [0..<(unat fin - unat reg + 7) div 8]"

lemma wl_regs_Nil: "\<not> reg < fin \<Longrightarrow> wl_regs reg fin = []"
  by (simp add: wl_regs_def word_less_nat_alt)

lemma wl_regs_Cons:
  assumes "reg < fin" "unat fin \<le> 4294967288"
  shows "wl_regs reg fin = reg # wl_regs (reg + 8) fin"
proof -
  have "unat reg < unat fin" using assms(1) by (simp add: word_less_nat_alt)
  moreover have "unat (reg + 8) = unat reg + 8"
    using unat_plus_small [of reg 8] calculation assms(2) by simp
  ultimately have "(unat fin - unat reg + 7) div 8 = Suc ((unat fin - unat (reg + 8) + 7) div 8)"
    by (simp only: regs_count_step)
  then have "wl_regs reg fin = reg # map (\<lambda>k. reg + of_nat (8 * Suc k)) [0..<(unat fin - unat (reg + 8) + 7) div 8]"
    unfolding wl_regs_def by (simp only: map_upt_Suc) simp
  then show ?thesis by (simp add: wl_regs_def add.assoc)
qed

lemma wl_memcpy_loop_eq:
  assumes "unat fin \<le> 4294967288"
  shows "wl_memcpy_loop reg fin s = Some (wl_write_all (wl_regs reg fin) s)"
proof (induction "unat fin - unat reg" arbitrary: reg s rule: less_induct)
  case less
  show ?case
  proof (cases "reg < fin")
    case True
    then have lt: "unat reg < unat fin" by (simp add: word_less_nat_alt)
    have "unat (reg + 8) = unat reg + 8" using unat_plus_small [of reg 8] lt assms by simp
    then have "unat fin - unat (reg + 8) < unat fin - unat reg" using lt by simp
    note IH = less.hyps [OF this]
    show ?thesis
      using True wl_regs_Cons [OF True assms] IH
      by (subst wl_memcpy_loop.simps) (auto split: outcome.split)
  qed (subst wl_memcpy_loop.simps, simp add: wl_regs_Nil)
qed

text \<open>
  The bytes the hook covers: all of them, unless the write starts in the upper half of a
  region and ends in the lower half of a later one.
\<close>

definition memcpy_covered :: "addr \<Rightarrow> nat \<Rightarrow> bool" where
  "memcpy_covered a n =
     (unat a mod 8 < 4 \<or> (unat a + n) mod 8 = 0 \<or> (unat a + n) mod 8 > 4 \<or>
      unat a div 8 = (unat a + n) div 8)"

lemma wl_regs_nth:
  assumes "unat reg + 8 * k < unat fin" "unat fin \<le> 4294967288"
  shows "reg + of_nat (8 * k) \<in> set (wl_regs reg fin)" "unat (reg + of_nat (8 * k)) = unat reg + 8 * k"
proof -
  have "k < (unat fin - unat reg + 7) div 8" using assms(1) by (subst regs_count) auto
  then show "reg + of_nat (8 * k) \<in> set (wl_regs reg fin)" by (auto simp: wl_regs_def)
  show "unat (reg + of_nat (8 * k)) = unat reg + 8 * k"
    using assms by (intro unat_plus_small) simp
qed

lemma memcpy_covers:
  assumes "memcpy_covered a n" "unat fin = unat a + n" "unat fin \<le> 4294967288"
    "unat a \<le> unat x" "unat x < unat fin"
  shows "region_of x \<in> region_of ` set (wl_regs (a AND NOT 3) fin)"
proof -
  let ?k = "unat x div 8 - unat a div 8"
  have start: "unat (a AND NOT 3) = 4 * (unat a div 4)" by (rule unat_align4)
  have "4 * (unat a div 4) + 8 * ?k < unat fin"
    using covered_arith [OF assms(1) [unfolded memcpy_covered_def] assms(4)] assms(2,5) by simp
  note r = wl_regs_nth [of "a AND NOT 3" ?k fin, unfolded start, OF this assms(3)]
  have "(4 * (unat a div 4) + 8 * ?k) div 8 = unat x div 8"
    using assms(4) by (rule covered_arith_div)
  then have "region_of ((a AND NOT 3) + of_nat (8 * ?k)) = region_of x"
    by (simp only: word_unat_eq_iff unat_region_of r(2))
  with r(1) show ?thesis by (metis image_eqI)
qed

lemma wl_regs_bounds:
  assumes "r \<in> set (wl_regs (a AND NOT 3) fin)" "unat fin \<le> 4294967288" "unat a < unat fin"
  shows "unat a - 3 \<le> unat r \<and> unat r < unat fin"
proof -
  obtain k where k: "r = (a AND NOT 3) + of_nat (8 * k)" "k < (unat fin - unat (a AND NOT 3) + 7) div 8"
    using assms(1) by (auto simp: wl_regs_def)
  have "unat (a AND NOT 3) \<le> unat a" unfolding unat_align4 by simp
  then have lt: "unat (a AND NOT 3) + 8 * k < unat fin" using assms(3) k(2) by (subst (asm) regs_count) auto
  have "unat a - 3 \<le> unat (a AND NOT 3)" unfolding unat_align4 by presburger
  with wl_regs_nth(2) [OF lt assms(2)] lt k(1) show ?thesis by simp
qed

section \<open>Lemmas: the restart\<close>

definition restorable :: "('s, 'b) restart_env_scheme \<Rightarrow> addr \<Rightarrow> addr \<Rightarrow> bool" where
  "restorable e wl a = (ltckpt_can_restore e wl a \<and> a \<le> datamax e \<and> a \<noteq> 0)"

lemma log_entries_Suc: "log_entries m wl (Suc n) = log_entries m wl n @ [entry_at m wl n]"
  by (simp add: log_entries_def)

lemma wl_undo_loop_eq:
  fixes s :: "'a wl_state_scheme"
  assumes "\<And>a n. sys_safecopyfrom_ret e a n = 0" "wl_position s = of_nat (12 * n)" "12 * n \<le> 25165824"
  shows "\<exists>k b. wl_undo_loop e old i stack s = Ret (Inr (i + n, stack + k))
    (s\<lparr>wl_position := 0, inside_trusted_compute_base := b,
       mem := undo (filter (\<lambda>x. restorable e (wl_data s) (fst x)) (log_entries old (wl_data s) n)) (mem s)\<rparr>) \<and> k \<le> n"
  using assms(2,3)
proof (induction n arbitrary: s i stack)
  case 0
  then show ?case
    by (subst wl_undo_loop.simps) (auto simp: undo_def log_entries_def intro!: exI [of _ "inside_trusted_compute_base s"])
next
  case (Suc n)
  let ?s = "s\<lparr>wl_position := of_nat (12 * n), inside_trusted_compute_base := True\<rparr>"
  let ?slot = "wl_data s + of_nat (12 * n)"
  let ?a = "bytes_ptr (load_bytes old ?slot 4)"
  let ?bs = "load_bytes old (?slot + 4) 8"
  have "unat (wl_position s) = 12 * Suc n"
    unfolding Suc.prems(1) using Suc.prems(2) by (intro unat_of_nat_small) simp
  then have ge: "12 \<le> wl_position s" by (simp add: word_le_nat_alt)
  have dec: "wl_position s - 12 = of_nat (12 * n)" using Suc.prems(1) by simp
  have ent: "entry_at old (wl_data s) n = (?a, ?bs)"
    by (simp add: entry_at_def add.assoc)
  have step: "wl_undo_loop e old i stack s =
     (if \<not> ltckpt_can_restore e (wl_data s) ?a then wl_undo_loop e old (Suc i) stack ?s
      else if ?a > datamax e then wl_undo_loop e old (Suc i) (Suc stack) ?s
      else if ?a \<noteq> 0 then wl_undo_loop e old (Suc i) stack (?s\<lparr>mem := store_bytes (mem s) ?a ?bs\<rparr>)
      else wl_undo_loop e old (Suc i) stack ?s)"
    using ge by (subst wl_undo_loop.simps) (simp add: assms(1) dec Let_def)
  have IH: "\<exists>k b. wl_undo_loop e old j st t = Ret (Inr (j + n, st + k))
      (t\<lparr>wl_position := 0, inside_trusted_compute_base := b,
         mem := undo (filter (\<lambda>x. restorable e (wl_data t) (fst x)) (log_entries old (wl_data t) n)) (mem t)\<rparr>) \<and> k \<le> n"
    if "wl_position t = of_nat (12 * n)" for t :: "'a wl_state_scheme" and j st
    using Suc.IH [OF that, of j st] Suc.prems(2) by simp
  show ?case
  proof (cases "restorable e (wl_data s) ?a")
    case True
    let ?t = "?s\<lparr>mem := store_bytes (mem s) ?a ?bs\<rparr>"
    have "ltckpt_can_restore e (wl_data s) ?a" "\<not> ?a > datamax e" "?a \<noteq> 0"
      using True unfolding restorable_def not_less by blast+
    then have "wl_undo_loop e old i stack s = wl_undo_loop e old (Suc i) stack ?t"
      unfolding step by (simp only: if_True if_False not_True_eq_False simp_thms)
    with IH [of ?t "Suc i" stack] True show ?thesis
      by (auto simp: log_entries_Suc ent undo_snoc)
  next
    case False
    then have "wl_undo_loop e old i stack s = wl_undo_loop e old (Suc i) (stack + 0) ?s \<or>
        wl_undo_loop e old i stack s = wl_undo_loop e old (Suc i) (stack + 1) ?s"
      by (auto simp: step restorable_def not_less)
    then obtain st where st: "wl_undo_loop e old i stack s = wl_undo_loop e old (Suc i) (stack + st) ?s" "st \<le> 1"
      by blast
    obtain k b where "wl_undo_loop e old (Suc i) (stack + st) ?s = Ret (Inr (Suc i + n, stack + st + k))
      (?s\<lparr>wl_position := 0, inside_trusted_compute_base := b,
         mem := undo (filter (\<lambda>x. restorable e (wl_data s) (fst x)) (log_entries old (wl_data s) n)) (mem s)\<rparr>)" "k \<le> n"
      using IH [of ?s "Suc i" "stack + st"] by auto
    with st False show ?thesis
      by (intro exI [of _ "st + k"] exI [of _ b]) (auto simp: log_entries_Suc ent)
  qed
qed

section \<open>The undo log is a checkpoint mechanism\<close>

definition wl_hook :: "mem_write \<Rightarrow> 'a wl_state_scheme \<Rightarrow> (unit, 'a wl_state_scheme) outcome option" where
  "wl_hook w s = (case w of
     Store a bs \<Rightarrow> Some (wl_store_hook a s)
   | Memcpy a bs \<Rightarrow> wl_memcpy_hook a (of_nat (length bs)) s)"

text \<open>An instrumented write: the hook, then the write. None when the hook does not return or closes the window.\<close>

definition wl_hooked_write :: "mem_write \<Rightarrow> 'a wl_state_scheme \<Rightarrow> 'a wl_state_scheme option" where
  "wl_hooked_write w s = (case wl_hook w s of
     Some (Ret u t) \<Rightarrow> if sa_window_is_open t then Some (t\<lparr>mem := plain_write w (mem t)\<rparr>) else None
   | _ \<Rightarrow> None)"

definition wl_supported :: "mem_write \<Rightarrow> bool" where
  "wl_supported w = (case w of
     Store a bs \<Rightarrow> unat a mod 8 + length bs \<le> 8
   | Memcpy a bs \<Rightarrow> unat a + length bs \<le> 4294967288 \<and> memcpy_covered a (length bs))"

definition wl_ready :: "'a wl_state_scheme \<Rightarrow> bool" where
  "wl_ready s = (wl_inv s \<and> sa_window_is_open s \<and> ltckpt_writelog_enabled s \<and>
     wl_data s = WRITELOG_START \<and> wf_entries (wl_entries s))"

definition wl_due :: "'a wl_state_scheme \<Rightarrow> bool" where
  "wl_due s = (wl_data s = WRITELOG_START \<and> \<not> prior_have_handled_message s \<and>
     fst (CTX_NEW_TOL_OR_RETURN (ctx s)))"

text \<open>A checkpoint: the top of the message loop, and the window opens with the next message.\<close>

definition wl_checkpoint :: "'a wl_state_scheme \<Rightarrow> 'a wl_state_scheme" where
  "wl_checkpoint s =
     ltckpt_detect_start_of_window_hook ((wl_top_of_the_loop s)\<lparr>have_handled_message := True\<rparr>)"

definition wl_rollback :: "('s, 'b) restart_env_scheme \<Rightarrow> 'a wl_state_scheme \<Rightarrow> mem" where
  "wl_rollback e s = undo (filter (\<lambda>x. restorable e (wl_data s) (fst x)) (wl_entries s)) (mem s)"

definition wl_protected :: "('s, 'b) restart_env_scheme \<Rightarrow> addr \<Rightarrow> bool" where
  "wl_protected e x = (\<not> in_log WRITELOG_START x \<and> restorable e WRITELOG_START (region_of x))"

definition wl_targets :: "mem_write \<Rightarrow> addr list" where
  "wl_targets w = (case w of
     Store a bs \<Rightarrow> [a]
   | Memcpy a bs \<Rightarrow> wl_regs (a AND NOT 3) (a + of_nat (length bs)))"

lemma wl_hook_targets:
  assumes "wl_supported w" "ltckpt_writelog_enabled s"
  shows "wl_hook w s = Some (wl_write_all (wl_targets w) s)"
proof (cases w)
  case (Store a bs)
  then show ?thesis
    using assms by (cases "ltckpt_write_wl a s") (auto simp: wl_hook_def wl_targets_def wl_store_hook_def)
next
  case (Memcpy a bs)
  then have le: "unat a + length bs \<le> 4294967288" using assms(1) by (simp add: wl_supported_def)
  then have "unat (a + of_nat (length bs)) = unat a + length bs" by (intro unat_plus_small) simp
  then show ?thesis
    using wl_memcpy_loop_eq [of "a + of_nat (length bs)" "a AND NOT 3" s] Memcpy assms(2) le
    by (simp add: wl_hook_def wl_targets_def wl_memcpy_hook_def)
qed

lemma same_region_arith:
  assumes "(a :: nat) mod 8 + n \<le> 8" "a \<le> x" "x < a + n"
  shows "x div 8 = a div 8"
proof -
  have "8 * (a div 8) + a mod 8 = a" by simp
  then have "8 * (a div 8) \<le> x" "x < 8 * (a div 8) + 8" using assms by linarith+
  then show ?thesis by (intro div_nat_eqI) simp_all
qed

lemma in_range:
  assumes "unat (x - a :: addr) < n" "unat a + n \<le> 4294967296"
  shows "unat a \<le> unat x \<and> unat x < unat a + n"
  using assms unat_addr_bound [of x] by (auto simp: unat_diff_addr split: if_splits)

lemma wl_targets_cover:
  assumes "wl_supported w" "unat (x - waddr w) < length (wbytes w)"
  shows "region_of x \<in> region_of ` set (wl_targets w)"
proof (cases w)
  case (Store a bs)
  then have sup: "unat a mod 8 + length bs \<le> 8" "unat (x - a) < length bs"
    using assms by (simp_all add: wl_supported_def)
  have "unat a + (8 - unat a mod 8) \<le> 4294967296"
    using unat_addr_bound [of a] by presburger
  then have "unat a \<le> unat x \<and> unat x < unat a + length bs"
    using sup by (intro in_range) linarith+
  then have "unat x div 8 = unat a div 8" using same_region_arith [OF sup(1)] by blast
  then have "region_of x = region_of a" by (simp add: word_unat_eq_iff unat_region_of)
  then show ?thesis using Store by (simp add: wl_targets_def)
next
  case (Memcpy a bs)
  then have sup: "unat a + length bs \<le> 4294967288" "memcpy_covered a (length bs)" "unat (x - a) < length bs"
    using assms by (simp_all add: wl_supported_def)
  then have "unat (a + of_nat (length bs)) = unat a + length bs" by (intro unat_plus_small) simp
  then show ?thesis
    using memcpy_covers [OF sup(2), of "a + of_nat (length bs)" x] in_range [OF sup(3)] sup(1) Memcpy
    by (simp add: wl_targets_def)
qed

lemma in_log_region:
  assumes "log_area_ok wl" "\<not> in_log wl (region_of x)"
  shows "\<not> in_log wl x"
proof -
  have "region_of x + of_nat (unat (x - region_of x)) = x" by simp
  then show ?thesis
    using region_outside_log [OF assms(1) region_of_mod assms(2) region_index [of x]] by simp
qed

lemma wl_write_all_guard:
  assumes "wl_write_all rs s = Ret () t" "wl_inv s" "sa_window_is_open s" "sa_window_is_open t"
  shows "\<forall>r \<in> set rs. \<not> in_log (wl_data s) (region_of r)"
  using assms
proof (induction rs arbitrary: s)
  case (Cons r rs)
  show ?case
  proof (cases "in_log (wl_data s) (region_of r)")
    case True
    then have "ltckpt_write_wl r s = Fault (Panic ''Try to write into writelog!'') s"
      using Cons.prems(2,3) log_check [of "wl_data s" "region_of r"]
      by (simp add: ltckpt_write_wl_def Let_def wl_inv_def log_area_ok_def)
    then show ?thesis using Cons.prems(1) by simp
  next
    case False
    obtain u where u: "ltckpt_write_wl r s = Ret () u" "wl_inv u" "wl_data u = wl_data s"
      using write_wl_open [OF Cons.prems(2,3) False] by blast
    have rest: "wl_write_all rs u = Ret () t" using Cons.prems(1) u(1) by simp
    have "sa_window_is_open u"
      using rest wl_write_all_closed [OF u(2)] Cons.prems(4) by (cases "sa_window_is_open u") auto
    from Cons.IH [OF rest u(2) this Cons.prems(4)] u(3) False show ?thesis by simp
  qed
qed simp

lemma write_wl_frame:
  assumes "wl_inv s"
  shows "wl_frame s (ostate (ltckpt_write_wl a s))"
proof (cases "sa_window_is_open s \<and> \<not> in_log (wl_data s) (region_of a)")
  case True
  then show ?thesis using write_wl_open [OF assms, of a] by (auto simp: wl_frame_def)
next
  case False
  then have "ostate (ltckpt_write_wl a s) = s"
    using assms log_check [of "wl_data s" "region_of a"]
    by (auto simp: ltckpt_write_wl_def Let_def wl_inv_def)
  then show ?thesis using assms by (simp add: wl_frame_def)
qed

text \<open>Also when a write panics half-way, nothing outside the log has changed.\<close>

lemma wl_write_all_frame: "wl_inv s \<Longrightarrow> wl_frame s (ostate (wl_write_all rs s))"
proof (induction rs arbitrary: s)
  case Nil
  then show ?case by (simp add: wl_frame_def)
next
  case (Cons r rs)
  show ?case
  proof (cases "ltckpt_write_wl r s")
    case (Ret u t)
    then have st: "wl_frame s t" using write_wl_frame [OF Cons.prems, of r] by simp
    then have "wl_frame t (ostate (wl_write_all rs t))" by (intro Cons.IH) (simp add: wl_frame_def)
    then show ?thesis using st Ret by (auto simp: wl_frame_def)
  next
    case (Fault e t)
    then show ?thesis using write_wl_frame [OF Cons.prems, of r] by simp
  qed
qed

text \<open>What a successful hooked write does.\<close>

lemma wl_hooked_write_effect:
  assumes "wl_ready s" "wl_supported w" "wl_hooked_write w s = Some t"
  obtains u where "wl_write_all (wl_targets w) s = Ret () u" "wl_frame s u" "sa_window_is_open u"
    "wl_entries t = wl_entries s @ snapshots (mem s) (wl_targets w)" "t = u\<lparr>mem := plain_write w (mem u)\<rparr>"
    "wl_inv t" "wl_data t = wl_data s"
proof -
  have inv: "wl_inv s" "sa_window_is_open s" "ltckpt_writelog_enabled s" "log_area_ok (wl_data s)"
    using assms(1) by (auto simp: wl_ready_def wl_inv_def)
  obtain u where u: "wl_write_all (wl_targets w) s = Ret () u" "sa_window_is_open u"
    "t = u\<lparr>mem := plain_write w (mem u)\<rparr>"
    using assms(3) wl_hook_targets [OF assms(2) inv(3)]
    by (auto simp: wl_hooked_write_def split: outcome.splits if_splits)
  have out: "\<forall>r \<in> set (wl_targets w). \<not> in_log (wl_data s) (region_of r)"
    by (rule wl_write_all_guard [OF u(1) inv(1,2) u(2)])
  have eff: "wl_frame s u" "wl_entries u = wl_entries s @ snapshots (mem s) (wl_targets w)"
    using wl_write_all_logs [OF inv(1,2) out] u(1,2) by auto
  have wl: "wl_data u = wl_data s" and invu: "wl_inv u" using eff(1) by (auto simp: wl_frame_def)
  have miss: "plain_write w (mem u) x = mem u x" if "in_log (wl_data s) x" for x
  proof -
    have "\<not> unat (x - waddr w) < length (wbytes w)"
      using wl_targets_cover [OF assms(2), of x] out in_log_region [OF inv(4), of x] that by auto
    then show ?thesis by (simp add: plain_write_def store_bytes_outside)
  qed
  have "wl_entries t = wl_entries u"
    unfolding wl_entries_def u(3)
  proof (simp, rule log_entries_cong)
    fix d assume d: "d < 12 * (unat (wl_position u) div 12)"
    moreover have "12 * (unat (wl_position u) div 12) \<le> unat (wl_position u)" by simp
    moreover have "unat (wl_position u) \<le> 25165824" using invu by (simp add: wl_inv_def)
    ultimately have "d < 25165824" by linarith
    then have "in_log (wl_data s) (wl_data u + of_nat d)"
      unfolding in_log_def wl by (simp add: unat_of_nat_small)
    then show "plain_write w (mem u) (wl_data u + of_nat d) = mem u (wl_data u + of_nat d)" by (rule miss)
  qed
  moreover have "wl_inv t" using invu u(3) by (simp add: wl_inv_def)
  ultimately show ?thesis using that [OF u(1) eff(1) u(2)] eff u(3) wl by simp
qed

lemma plain_write_cong: "m x = m' x \<Longrightarrow> plain_write w m x = plain_write w m' x"
  by (simp add: plain_write_def store_bytes_def)

lemma wl_write_ready:
  assumes "wl_ready s" "wl_supported w" "wl_hooked_write w s = Some t"
  shows "wl_ready t"
proof -
  obtain u where u: "wl_frame s u" "sa_window_is_open u"
    "wl_entries t = wl_entries s @ snapshots (mem s) (wl_targets w)" "t = u\<lparr>mem := plain_write w (mem u)\<rparr>"
    "wl_inv t" "wl_data t = wl_data s"
    by (rule wl_hooked_write_effect [OF assms])
  then show ?thesis
    using assms(1) by (auto simp: wl_ready_def wl_frame_def wf_snapshots)
qed

lemma wl_write_memory:
  assumes "wl_ready s" "wl_supported w" "wl_hooked_write w s = Some t" "\<not> in_log (wl_data s) x"
  shows "mem t x = plain_write w (mem s) x"
proof -
  obtain u where u: "wl_frame s u" "t = u\<lparr>mem := plain_write w (mem u)\<rparr>"
    by (rule wl_hooked_write_effect [OF assms(1-3)])
  then have "mem u x = mem s x" using assms(4) by (simp add: wl_frame_def)
  then show ?thesis using u(2) plain_write_cong [of "mem u" x "mem s" w] by simp
qed

lemma wl_write_rollback:
  assumes "wl_ready s" "wl_supported w" "wl_hooked_write w s = Some t" "wl_protected e x"
  shows "wl_rollback e t x = wl_rollback e s x"
proof -
  have start: "wl_data s = WRITELOG_START" "wf_entries (wl_entries s)"
    using assms(1) by (simp_all add: wl_ready_def)
  have x: "\<not> in_log (wl_data s) x" "restorable e (wl_data s) (region_of x)"
    using assms(4) start by (simp_all add: wl_protected_def)
  obtain u where u: "wl_frame s u" "sa_window_is_open u"
    "wl_entries t = wl_entries s @ snapshots (mem s) (wl_targets w)" "t = u\<lparr>mem := plain_write w (mem u)\<rparr>"
    "wl_inv t" "wl_data t = wl_data s"
    by (rule wl_hooked_write_effect [OF assms(1-3)])
  have wf: "wf_entries (wl_entries t)" using u(3) start(2) by (simp add: wf_snapshots)
  have "wl_rollback e t x = undo (wl_entries t) (mem t) x"
    unfolding wl_rollback_def u(6) by (rule undo_filter [where Q = "restorable e (wl_data s)", OF wf x(2)])
  also have "\<dots> = undo (wl_entries s) (mem s) x"
    unfolding u(3)
  proof (rule undo_snapshots [OF start(2)])
    have "mem t x = plain_write w (mem s) x" by (rule wl_write_memory [OF assms(1-3) x(1)])
    then show "mem t x = mem s x \<or> region_of x \<in> region_of ` set (wl_targets w)"
      using wl_targets_cover [OF assms(2), of x] by (auto simp: plain_write_def store_bytes_def)
  qed
  also have "\<dots> = wl_rollback e s x"
    unfolding wl_rollback_def
    by (rule undo_filter [where Q = "restorable e (wl_data s)", OF start(2) x(2), symmetric])
  finally show ?thesis .
qed

lemma new_tol_log_size: "fst (CTX_NEW_TOL_OR_RETURN (CTX_NEW_LOG_SIZE n x)) = fst (CTX_NEW_TOL_OR_RETURN x)"
  by (simp add: CTX_NEW_TOL_OR_RETURN_def CTX_NEW_LOG_SIZE_def Let_def)

lemma wl_checkpoint_fields:
  assumes "wl_due s"
  shows "mem (wl_checkpoint s) = mem s" "wl_position (wl_checkpoint s) = 0"
    "wl_data (wl_checkpoint s) = WRITELOG_START" "sa_window_is_open (wl_checkpoint s)"
    "ltckpt_writelog_enabled (wl_checkpoint s)"
  using assms
  by (auto simp: wl_due_def wl_checkpoint_def wl_top_of_the_loop_def ltckpt_detect_start_of_window_hook_def
      Let_def split_beta new_tol_log_size)

lemma wl_checkpoint_ready: "wl_due s \<Longrightarrow> wl_ready (wl_checkpoint s)"
  using WRITELOG_START_ok
  by (simp add: wl_ready_def wl_inv_def wl_checkpoint_fields wl_entries_def log_entries_def wf_entries_def)

lemma wl_checkpoint_rollback: "wl_due s \<Longrightarrow> wl_rollback e (wl_checkpoint s) = mem s"
  by (simp add: wl_rollback_def wl_entries_def log_entries_def undo_def wl_checkpoint_fields)

interpretation wlm: checkpoint_mechanism mem wl_due wl_checkpoint wl_hooked_write "wl_rollback e" wl_ready
    wl_supported "wl_protected e"
proof unfold_locales
  fix s :: "'a wl_state_scheme" and w t x
  assume s: "wl_ready s" "wl_supported w" "wl_hooked_write w s = Some t"
  show "wl_ready t" by (rule wl_write_ready [OF s])
  assume x: "wl_protected e x"
  show "wl_rollback e t x = wl_rollback e s x" by (rule wl_write_rollback [OF s x])
  have "wl_data s = WRITELOG_START" using s(1) by (simp add: wl_ready_def)
  then show "mem t x = plain_write w (mem s) x"
    using wl_write_memory [OF s] x by (simp add: wl_protected_def)
qed (simp_all add: wl_checkpoint_ready wl_checkpoint_rollback wl_checkpoint_fields)

section \<open>Lemmas: the restart hook\<close>

text \<open>
  What the restart relies on: the kernel copies succeed, and the state transfer makes the
  new process a copy of the old one; the messages already sent are not undone.
\<close>

definition restart_services_ok ::
    "('a wl_state_scheme, 'b) restart_env_scheme \<Rightarrow> 'a wl_state_scheme \<Rightarrow> bool" where
  "restart_services_ok e old = (sys_safecopyto_ret e = 0 \<and> (\<forall>a n. sys_safecopyfrom_ret e a n = 0) \<and>
     (\<forall>s. identity_state_transfer e (old\<lparr>ltckpt_writelog_enabled := False\<rparr>) s =
        (0, old\<lparr>ltckpt_writelog_enabled := False, trace := trace s\<rparr>)))"

lemma ucast_printable: "printable (ucast (n :: 32 word))"
proof -
  have "uint n < 2 ^ 32" using unsigned_less [of n, where ?'a = int] by simp
  moreover have "- (2 ^ 63) \<le> uint n" by (rule order_trans [of _ 0]) simp_all
  ultimately have "signed_take_bit 63 (uint n) = uint n"
    by (intro signed_take_bit_int_eq_self) simp_all
  then have "sint (ucast n :: 64 word) = uint n"
    by (simp add: signed_ucast_eq)
  moreover have "- (10 ^ 18) < uint n" by (rule less_le_trans [of _ 0]) simp_all
  ultimately show ?thesis by (simp add: printable_def)
qed

lemma restart_message_returns: "\<exists>msg. wl_restart_message a b = Inr msg"
  by (simp add: wl_restart_message_def hypermem_cat_num_printable ucast_printable Let_def)

lemma restart_hook_rolls_back:
  fixes old s :: "'a wl_state_scheme"
  assumes "restart_services_ok e old" "wl_inv old"
  shows "\<exists>tr. wl_restart_hook e old s = Ret 0 (old\<lparr>ltckpt_writelog_enabled := False, wl_position := 0,
      mem := wl_rollback e old, inside_trusted_compute_base := True, trace := tr\<rparr>) \<and>
    filter is_action tr = filter is_action (trace s)"
proof -
  define n where "n = unat (wl_position old) div 12"
  have md: "unat (wl_position old) mod 12 = 0" and le: "unat (wl_position old) \<le> 25165824"
    using assms(2) by (simp_all add: wl_inv_def)
  have pos: "unat (wl_position old) = 12 * n" using md unfolding n_def by presburger
  have "wl_position old = of_nat (unat (wl_position old))" by simp
  then have posw: "wl_position old = of_nat (12 * n)" unfolding pos .
  have n: "12 * n \<le> 25165824" using le pos by simp
  let ?s1 = "(hypermem_log ''ltckpt recovery: start: writelog'' s)
    \<lparr>inside_trusted_compute_base := True, ltckpt_writelog_enabled := False\<rparr>"
  let ?o = "old\<lparr>ltckpt_writelog_enabled := False, trace := trace ?s1\<rparr>"
  obtain k b where loop: "wl_undo_loop e (mem old) 0 0 ?o = Ret (Inr (n, k)) (?o\<lparr>wl_position := 0,
      inside_trusted_compute_base := b,
      mem := undo (filter (\<lambda>x. restorable e (wl_data old) (fst x)) (log_entries (mem old) (wl_data old) n)) (mem old)\<rparr>)"
    using wl_undo_loop_eq [where e = e and s = ?o and n = n and old = "mem old" and i = 0 and stack = 0] assms(1) posw n
    by (auto simp: restart_services_ok_def)
  have "unat (wl_position old mod 12) = 0" using md by (simp add: unat_mod)
  then have md0: "wl_position old mod 12 = 0" by (simp add: unat_eq_0)
  have "unat (wl_position old div 12) = n" by (simp add: unat_div n_def)
  moreover have "wl_position old div 12 = of_nat (unat (wl_position old div 12))" by simp
  ultimately have num: "wl_position old div 12 = of_nat n" by simp
  obtain msg where msg: "wl_restart_message (of_nat n - of_nat k) (of_nat k) = Inr msg"
    using restart_message_returns by blast
  have "wl_restart_hook e old s = Ret 0 (hypermem_log msg (?o\<lparr>wl_position := 0, mem := wl_rollback e old,
      inside_trusted_compute_base := True\<rparr>))"
    using assms(1) loop md0 num msg
    by (simp add: wl_restart_hook_def restart_services_ok_def wl_entry_size_def Let_def
        wl_rollback_def wl_entries_def n_def [symmetric])
  then have "wl_restart_hook e old s = Ret 0 (old\<lparr>ltckpt_writelog_enabled := False, wl_position := 0,
      mem := wl_rollback e old, inside_trusted_compute_base := True,
      trace := trace s @ [Hypermem_printstr (hypermem_log_text (g_module_name s) ''ltckpt recovery: start: writelog''),
        Hypermem_printstr (hypermem_log_text (g_module_name old) msg)]\<rparr>)"
    by (simp add: hypermem_log_def)
  then show ?thesis by (intro exI conjI, assumption) simp
qed

section \<open>Lemmas: the log and the recovery state\<close>

lemma rec_inv_wl [simp]:
  "rec_inv (s\<lparr>mem := m\<rparr>) = rec_inv s" "rec_inv (s\<lparr>wl_position := p\<rparr>) = rec_inv s"
  "rec_inv (s\<lparr>ltckpt_writelog_enabled := b\<rparr>) = rec_inv s" "rec_inv (s\<lparr>ctx := x\<rparr>) = rec_inv s"
  "rec_inv (s\<lparr>wl_position_high_watermark := p\<rparr>) = rec_inv s"
  by (simp_all add: rec_inv_def used_callsites_def fail_stopped_def)

lemma wl_overflow_fail_stopped: "fail_stopped (wl_overflow s)"
proof -
  have "bit (w OR 8 :: 32 word) 3" for w by (simp add: bit_simps)
  then show ?thesis unfolding fail_stopped_def bit_mask_iff(1) by (simp add: wl_overflow_def mask_defs)
qed

lemma wl_overflow_inv:
  assumes "rec_inv s"
  shows "rec_inv (wl_overflow s)"
proof -
  have "g_recovery_bitmask (wl_overflow s) \<in> {9, 13, 25, 29}"
    using assms fail_stop_mask by (simp add: rec_inv_def wl_overflow_def)
  then show ?thesis
    using assms wl_overflow_fail_stopped [of s]
    by (auto simp: rec_inv_def wl_overflow_def used_callsites_def split: option.splits)
qed

lemma write_wl_rec_inv: "ltckpt_write_wl a s = Ret u t \<Longrightarrow> rec_inv s \<Longrightarrow> rec_inv t"
  by (auto simp: ltckpt_write_wl_def Let_def intro: wl_overflow_inv split: if_splits)

lemma wl_write_all_rec_inv: "wl_write_all rs s = Ret u t \<Longrightarrow> rec_inv s \<Longrightarrow> rec_inv t"
  by (induction rs arbitrary: s) (auto simp: obind_eq_Ret dest: write_wl_rec_inv)

lemma wl_store_progress:
  assumes "wl_ready s" "unat a mod 8 + length bs \<le> 8" "\<not> in_log WRITELOG_START (region_of a)"
    "unat (wl_position s) + 12 < 25165824"
  shows "\<exists>t. wl_hooked_write (Store a bs) s = Some t \<and> unat (wl_position t) = unat (wl_position s) + 12"
proof -
  have inv: "wl_inv s" "sa_window_is_open s" "ltckpt_writelog_enabled s" "wl_data s = WRITELOG_START"
    using assms(1) by (simp_all add: wl_ready_def)
  obtain t where "ltckpt_write_wl a s = Ret () t" "unat (wl_position t) = unat (wl_position s) + 12"
    "sa_window_is_open t \<longleftrightarrow> unat (wl_position t) < 25165824"
    using write_wl_open [OF inv(1,2), of a] assms(3) inv(4) by auto
  then show ?thesis
    using assms(4) inv(3) by (simp add: wl_hooked_write_def wl_hook_def wl_store_hook_def)
qed

text \<open>The copies whose last region the hook does not visit.\<close>

definition memcpy_missed :: "addr \<Rightarrow> nat \<Rightarrow> bool" where
  "memcpy_missed a n =
     (4 \<le> unat a mod 8 \<and> unat a div 8 < (unat a + n) div 8 \<and>
      0 < (unat a + n) mod 8 \<and> (unat a + n) mod 8 \<le> 4)"

lemma memcpy_missed_iff: "memcpy_missed a n \<longleftrightarrow> \<not> memcpy_covered a n"
proof -
  have "unat a div 8 \<le> (unat a + n) div 8" by (simp add: div_le_mono)
  then show ?thesis unfolding memcpy_missed_def memcpy_covered_def by linarith
qed

lemma memcpy_misses:
  assumes "memcpy_missed a n" "unat fin = unat a + n" "unat fin \<le> 4294967288"
    "r \<in> set (wl_regs (a AND NOT 3) fin)"
  shows "unat r div 8 < (unat a + n) div 8"
proof -
  define q z where "q = unat a div 8" and "z = (unat a + n) mod 8"
  define g where "g = (unat a + n) div 8"
  have z: "z \<le> 4" "unat a + n = 8 * g + z" "4 \<le> unat a mod 8" "0 < n"
    using assms(1) by (auto simp: memcpy_missed_def q_def z_def g_def intro: gr0I)
  have start: "unat (a AND NOT 3) = 8 * q + 4"
    unfolding unat_align4 div4_div8 using z(3) by (simp add: q_def)
  obtain k where k: "r = (a AND NOT 3) + of_nat (8 * k)" "k < (unat fin - unat (a AND NOT 3) + 7) div 8"
    using assms(4) by (auto simp: wl_regs_def)
  have "unat (a AND NOT 3) < unat fin" using unat_align4 [of a] z(4) assms(2) by auto
  then have lt: "unat (a AND NOT 3) + 8 * k < unat fin" using k(2) by (simp add: regs_count)
  then have "unat r = 8 * q + 4 + 8 * k" using wl_regs_nth(2) [OF lt assms(3)] k(1) start by simp
  moreover have "8 * q + 4 + 8 * k < 8 * g + z" using lt start assms(2) z(2) by simp
  moreover from calculation z(1) have "q + k < g" by linarith
  ultimately have "unat r < 8 * g" by linarith
  then show ?thesis unfolding g_def [symmetric] by (simp add: div_less_iff_less_mult mult.commute)
qed

section \<open>A concrete service with an undo log\<close>

definition ex_wl :: wl_state where
  "ex_wl = rec_state.extend (rec_init ''vfs'' None Map.empty 10 20)
     \<lparr>mem = (\<lambda>a. 0), wl_data = WRITELOG_START, wl_position = 0, wl_position_high_watermark = 0,
      ltckpt_writelog_enabled = False, ctx = ex_ctx\<rparr>"

definition ex_env :: "wl_state restart_env" where
  "ex_env = \<lparr>addr_wl_data = 0x5000, addr_wl_position = 0x5004, addr_writelog_enabled = 0x5008,
     datamax = 0xE0000000, sys_safecopyto_ret = 0, sys_safecopyfrom_ret = (\<lambda>a n. 0),
     identity_state_transfer = (\<lambda>old s. (0, old\<lparr>trace := trace s\<rparr>))\<rparr>"

lemma ex_wl_fields:
  "wl_data ex_wl = WRITELOG_START" "mem ex_wl = (\<lambda>a. 0)" "ctx ex_wl = ex_ctx"
  "\<not> prior_have_handled_message ex_wl" "wl_position ex_wl = 0"
  by (simp_all add: ex_wl_def rec_state.defs rec_init_def)

lemma ex_ctx_due: "fst (CTX_NEW_TOL_OR_RETURN ex_ctx)"
  by (simp add: ex_ctx_def ltckpt_ctx_init_def util_env_parse_int_def CTX_NEW_TOL_OR_RETURN_def Let_def)

lemma ex_wl_due: "wl_due ex_wl"
  using ex_ctx_due by (simp add: wl_due_def ex_wl_fields)

lemma ex_env_ok: "restart_services_ok ex_env s"
  by (simp add: restart_services_ok_def ex_env_def)

lemma ex_1000: "region_of 0x1000 = 0x1000" "\<not> in_log WRITELOG_START 0x1000"
  by (simp_all add: region_of_def in_log_def WRITELOG_START_def)

lemma ex_protected: "wl_protected ex_env 0x1000"
  by (simp add: wl_protected_def ex_1000 restorable_def ltckpt_can_restore_def ltckpt_overlaps_def
      ex_env_def Let_def) (simp add: WRITELOG_START_def)

lemma ex_run: "\<exists>t. run_hooked wl_hooked_write [Store 0x1000 [7]] (wl_checkpoint ex_wl) = Some t"
  using wl_store_progress [OF wl_checkpoint_ready [OF ex_wl_due], of "0x1000" "[7]"] ex_1000
  by (auto simp: wl_checkpoint_fields [OF ex_wl_due])

section \<open>Properties\<close>

text \<open>
  C2 (safety): a restart restores the memory of the last checkpoint. After a checkpoint and any
  sequence of instrumented stores within an eight-byte region and memory copies the hook covers,
  while the window stays open, the restart hook run on the crashed process succeeds and every byte
  outside the log whose region is restorable (below the stack limit, not one of the log's own
  variables) has the value it had at the checkpoint.
\<close>
theorem undo_log_restart_restores_checkpoint:
  assumes "wl_due s" "run_hooked wl_hooked_write ws (wl_checkpoint s) = Some old"
    "\<forall>w \<in> set ws. wl_supported w" "restart_services_ok e old" "wl_protected e x"
  shows "\<exists>t. wl_restart_hook e old new = Ret 0 t \<and> mem t x = mem s x"
proof -
  have "wl_ready old"
    using wlm.run_writes_rollback [OF assms(2) wl_checkpoint_ready [OF assms(1)] assms(3,5)] by simp
  then have "wl_inv old" by (simp add: wl_ready_def)
  from restart_hook_rolls_back [OF assms(4) this, of new] wlm.rollback_to_checkpoint [OF assms(1,2,3,5)]
  show ?thesis by auto
qed

theorem undo_log_restart_restores_checkpoint_witness:
  "\<exists>old t. run_hooked wl_hooked_write [Store 0x1000 [7]] (wl_checkpoint ex_wl) = Some old \<and>
    wl_restart_hook ex_env old ex_wl = Ret 0 t \<and> mem t 0x1000 = 0"
proof -
  obtain old where "run_hooked wl_hooked_write [Store 0x1000 [7]] (wl_checkpoint ex_wl) = Some old"
    using ex_run by blast
  with undo_log_restart_restores_checkpoint [OF ex_wl_due this _ ex_env_ok ex_protected, of ex_wl]
  show ?thesis by (auto simp: ex_wl_fields wl_supported_def)
qed

text \<open>
  C19 (equivalence): the instrumentation is transparent. A run of instrumented stores
  within an eight-byte region and memory copies the hook covers, after a checkpoint and while the
  window stays open, leaves on every protected byte the value the uninstrumented program would.
\<close>
theorem undo_log_instrumentation_transparent:
  assumes "wl_due s" "run_hooked wl_hooked_write ws (wl_checkpoint s) = Some t"
    "\<forall>w \<in> set ws. wl_supported w" "wl_protected e x"
  shows "mem t x = plain_writes ws (mem s) x"
  by (rule wlm.run_from_checkpoint [OF assms])

theorem undo_log_instrumentation_transparent_witness:
  "\<exists>t. run_hooked wl_hooked_write [Store 0x1000 [7]] (wl_checkpoint ex_wl) = Some t \<and> mem t 0x1000 = 7"
proof -
  obtain t where "run_hooked wl_hooked_write [Store 0x1000 [7]] (wl_checkpoint ex_wl) = Some t"
    using ex_run by blast
  with undo_log_instrumentation_transparent [OF ex_wl_due this _ ex_protected] show ?thesis
    by (auto simp: wl_supported_def plain_writes_def plain_write_def store_bytes_def)
qed

text \<open>
  C20 (bounds): while the window is open a log write of an address outside the log appends exactly one
  entry holding the region's old bytes, stays inside the log area, and changes no other memory; the
  entry that fills the log closes the window and makes recovery fail-stop.
\<close>
theorem write_wl_appends_in_bounds:
  assumes "wl_inv s" "sa_window_is_open s" "\<not> in_log (wl_data s) (region_of a)"
  shows "\<exists>t. ltckpt_write_wl a s = Ret () t \<and> wl_inv t \<and>
    wl_entries t = wl_entries s @ [(region_of a, load_bytes (mem s) (region_of a) 8)] \<and>
    (\<forall>x. \<not> in_log (wl_data s) x \<longrightarrow> mem t x = mem s x) \<and>
    (sa_window_is_open t \<longleftrightarrow> length (wl_entries t) < 2097152) \<and>
    (\<not> sa_window_is_open t \<longrightarrow> fail_stopped t)"
proof -
  obtain t where t: "ltckpt_write_wl a s = Ret () t" "wl_inv t"
    "wl_entries t = wl_entries s @ [(region_of a, load_bytes (mem s) (region_of a) 8)]"
    "\<forall>x. \<not> in_log (wl_data s) x \<longrightarrow> mem t x = mem s x"
    "sa_window_is_open t \<longleftrightarrow> unat (wl_position t) < 25165824"
    "t = (if sa_window_is_open t then s\<lparr>mem := mem t, wl_position := wl_position t\<rparr>
         else wl_overflow (s\<lparr>mem := mem t, wl_position := wl_position t\<rparr>))"
    using write_wl_open [OF assms] by blast
  have "length (wl_entries t) = unat (wl_position t) div 12" by (simp add: wl_entries_def log_entries_def)
  moreover have "unat (wl_position t) mod 12 = 0" using t(2) by (simp add: wl_inv_def)
  ultimately have "length (wl_entries t) < 2097152 \<longleftrightarrow> unat (wl_position t) < 25165824" by auto
  moreover have "fail_stopped t" if "\<not> sa_window_is_open t"
    using t(6) that wl_overflow_fail_stopped by metis
  ultimately show ?thesis using t by blast
qed

theorem write_wl_appends_in_bounds_witness:
  "\<exists>t. ltckpt_write_wl 0x1003 (wl_checkpoint ex_wl) = Ret () t \<and> wl_entries t = [(0x1000, replicate 8 0)]"
proof -
  have r: "region_of 0x1003 = 0x1000" by (simp add: region_of_def)
  have "wl_inv (wl_checkpoint ex_wl)" using wl_checkpoint_ready [OF ex_wl_due] by (simp add: wl_ready_def)
  from write_wl_appends_in_bounds [OF this, of "0x1003"] show ?thesis
    using ex_1000 r
    by (auto simp: wl_checkpoint_fields [OF ex_wl_due] ex_wl_fields wl_entries_def log_entries_def load_bytes_def
        map_replicate_const)
qed

text \<open>
  C21 (termination): the memcpy hook returns for every copy that ends at least eight bytes below the end
  of the address space, and with the log enabled it visits exactly the regions of the list of region
  pointers. When the log satisfies its invariant before, it does so after, and no byte outside the
  log has changed, even when the hook panics because the copy reaches into the log.
\<close>
theorem memcpy_hook_returns:
  assumes "unat a + unat sz \<le> 4294967288"
  shows "\<exists>r. wl_memcpy_hook a sz s = Some r \<and>
    (ltckpt_writelog_enabled s \<longrightarrow> r = wl_write_all (wl_regs (a AND NOT 3) (a + sz)) s) \<and>
    (wl_inv s \<longrightarrow> wl_inv (ostate r) \<and> (\<forall>x. \<not> in_log (wl_data s) x \<longrightarrow> mem (ostate r) x = mem s x))"
proof -
  have "unat (a + sz) = unat a + unat sz"
    using assms unat_plus_small [of a "unat sz"] by simp
  then show ?thesis
    using wl_memcpy_loop_eq [of "a + sz" "a AND NOT 3" s] assms
      wl_write_all_frame [of s "wl_regs (a AND NOT 3) (a + sz)"]
    by (auto simp: wl_memcpy_hook_def wl_frame_def)
qed

theorem memcpy_hook_returns_witness:
  "\<exists>r. wl_memcpy_hook 0x1000 20 (wl_checkpoint ex_wl) = Some r \<and>
    r = wl_write_all [0x1000, 0x1008, 0x1010] (wl_checkpoint ex_wl) \<and>
    wl_inv (ostate r) \<and> mem (ostate r) 0x1000 = 0"
proof -
  have "wl_inv (wl_checkpoint ex_wl)" using wl_checkpoint_ready [OF ex_wl_due] by (simp add: wl_ready_def)
  with memcpy_hook_returns [of "0x1000" 20 "wl_checkpoint ex_wl"] show ?thesis
    using ex_1000(2) by (simp add: wl_checkpoint_fields [OF ex_wl_due] wl_regs_def upt_rec ex_wl_fields)
qed

text \<open>
  C22 (error): the memcpy hook aligns its start to four bytes but steps by eight. A copy that starts in
  the upper half of a region and ends in the lower half of a later one is not logged in its last
  region: whatever the memory holds when the log is undone, its last byte keeps that value.
\<close>
theorem memcpy_hook_misses_last_region:
  assumes "wl_ready s" "memcpy_missed a n" "unat a + n \<le> 4294967288"
    "wl_memcpy_hook a (of_nat n) s = Some (Ret () t)" "sa_window_is_open t"
    "map_of (wl_entries s) (region_of (a + of_nat (n - 1))) = None"
  shows "undo (wl_entries t) m (a + of_nat (n - 1)) = m (a + of_nat (n - 1))"
proof -
  let ?x = "a + of_nat (n - 1)"
  have inv: "wl_inv s" "sa_window_is_open s" "ltckpt_writelog_enabled s" "wf_entries (wl_entries s)"
    using assms(1) by (simp_all add: wl_ready_def)
  have fin: "unat (a + of_nat n) = unat a + n" using assms(3) by (intro unat_plus_small) simp
  have n0: "0 < n" using assms(2) by (auto simp: memcpy_missed_def intro: gr0I)
  have x: "unat ?x = unat a + (n - 1)" using assms(3) by (intro unat_plus_small) simp
  have run: "wl_write_all (wl_regs (a AND NOT 3) (a + of_nat n)) s = Ret () t"
    using assms(4) inv(3) wl_memcpy_loop_eq [of "a + of_nat n" "a AND NOT 3" s] fin assms(3)
    by (simp add: wl_memcpy_hook_def)
  have ent: "wl_entries t = wl_entries s @ snapshots (mem s) (wl_regs (a AND NOT 3) (a + of_nat n))"
    using wl_write_all_logs [OF inv(1,2) wl_write_all_guard [OF run inv(1,2) assms(5)]] run assms(5) by auto
  have last: "unat ?x div 8 = (unat a + n) div 8"
  proof -
    have "(unat a + n) mod 8 \<noteq> 0" using assms(2) by (simp add: memcpy_missed_def)
    moreover have "k mod 8 \<noteq> 0 \<Longrightarrow> (k - 1) div 8 = k div 8" for k :: nat
      by (cases k) (auto simp: div_Suc)
    ultimately have "(unat a + n - 1) div 8 = (unat a + n) div 8" by blast
    then show ?thesis using x n0 by simp
  qed
  have "region_of ?x \<notin> region_of ` set (wl_regs (a AND NOT 3) (a + of_nat n))"
  proof
    assume "region_of ?x \<in> region_of ` set (wl_regs (a AND NOT 3) (a + of_nat n))"
    then obtain r where r: "r \<in> set (wl_regs (a AND NOT 3) (a + of_nat n))" "region_of ?x = region_of r" by auto
    then have "unat ?x div 8 = unat r div 8" by (simp add: word_unat_eq_iff unat_region_of)
    with memcpy_misses [OF assms(2) fin _ r(1)] fin assms(3) last show False by simp
  qed
  then show ?thesis
    using assms(6) inv(4) by (simp add: ent undo_lookup wf_snapshots map_of_append map_add_def map_of_snapshots)
qed

theorem memcpy_hook_misses_last_region_witness:
  "\<exists>t. wl_memcpy_hook 0x1004 6 (wl_checkpoint ex_wl) = Some (Ret () t) \<and>
    undo (wl_entries t) (\<lambda>x. 7) 0x1009 = 7"
proof -
  let ?s = "wl_checkpoint ex_wl"
  have rdy: "wl_ready ?s" by (rule wl_checkpoint_ready [OF ex_wl_due])
  then have inv: "wl_inv ?s" "sa_window_is_open ?s" "ltckpt_writelog_enabled ?s" by (simp_all add: wl_ready_def)
  have regs: "wl_regs (0x1004 AND NOT 3) (0x1004 + 6) = [0x1004]" by (simp add: wl_regs_def)
  have reg: "region_of 0x1004 = 0x1000" by (simp add: region_of_def)
  obtain t where t: "ltckpt_write_wl 0x1004 ?s = Ret () t" "sa_window_is_open t"
    using write_wl_open [OF inv(1,2), of "0x1004"] reg ex_1000
    by (auto simp: wl_checkpoint_fields [OF ex_wl_due])
  have "wl_memcpy_hook 0x1004 6 ?s = Some (Ret () t)"
    using wl_memcpy_loop_eq [of "0x1004 + 6" "0x1004 AND NOT 3" ?s] inv(3) t(1) regs
    by (simp add: wl_memcpy_hook_def)
  with memcpy_hook_misses_last_region [OF rdy, of "0x1004" 6 t "\<lambda>x. 7"] t(2) show ?thesis
    by (simp add: memcpy_missed_def wl_entries_def log_entries_def wl_checkpoint_fields [OF ex_wl_due])
qed

text \<open>
  C23 (error): with a checkpoint interval other than one the log is not reset at every message, but the
  window opens again: once the log is full, the next instrumented write in the reopened window is
  logged past the end of the log area and overwrites the memory behind it.
\<close>
theorem full_log_reopened_overruns:
  assumes "wl_data s = WRITELOG_START" "wl_position s = WRITELOG_BYTES" "\<not> prior_have_handled_message s"
    "\<not> fst (CTX_NEW_TOL_OR_RETURN (ctx s))" "\<not> in_log WRITELOG_START (region_of a)"
  shows "sa_window_is_open (wl_checkpoint s) \<and>
    (\<exists>t. ltckpt_write_wl a (wl_checkpoint s) = Ret () t \<and>
       load_bytes (mem t) (WRITELOG_START + WRITELOG_BYTES) 4 = ptr_bytes (region_of a) \<and>
       \<not> in_log WRITELOG_START (WRITELOG_START + WRITELOG_BYTES))"
proof -
  let ?c = "wl_checkpoint s" and ?lim = "WRITELOG_START + 25165824"
  have c: "sa_window_is_open ?c" "wl_data ?c = WRITELOG_START" "wl_position ?c = 25165824" "mem ?c = mem s"
    using assms
    by (auto simp: wl_checkpoint_def wl_top_of_the_loop_def ltckpt_detect_start_of_window_hook_def
        Let_def split_beta new_tol_log_size)
  define m1 where "m1 = store_bytes (mem s) ?lim (ptr_bytes (region_of a))"
  let ?m2 = "store_bytes m1 (?lim + 4) (load_bytes m1 (region_of a) 8)"
  have "load_bytes ?m2 ?lim 4 = load_bytes m1 ?lim 4"
  proof (rule load_bytes_cong)
    fix i :: nat assume i: "i < 4"
    have "?lim + of_nat i - (?lim + 4) = of_nat (4294967292 + i)" by simp
    moreover have "unat (of_nat (4294967292 + i) :: addr) = 4294967292 + i"
      using i by (intro unat_of_nat_small) simp
    ultimately show "?m2 (?lim + of_nat i) = m1 (?lim + of_nat i)"
      by (simp only: store_bytes_def length_load_bytes) simp
  qed
  moreover have "load_bytes m1 ?lim 4 = ptr_bytes (region_of a)"
    unfolding m1_def using load_store_same [of "ptr_bytes (region_of a)" "mem s" ?lim] by simp
  ultimately have "load_bytes ?m2 ?lim 4 = ptr_bytes (region_of a)" by simp
  moreover have "mem (wl_overflow u) = mem u" for u :: "'a wl_state_scheme"
    by (simp add: wl_overflow_def)
  ultimately have "\<exists>t. ltckpt_write_wl a ?c = Ret () t \<and> load_bytes (mem t) ?lim 4 = ptr_bytes (region_of a)"
    using c assms(5) log_check [OF WRITELOG_START_ok, of "region_of a"] WRITELOG_START_ok
    by (simp add: ltckpt_write_wl_def Let_def log_area_ok_def WRITELOG_GRANULARITY_def m1_def)
  then show ?thesis using c(1) by (simp add: in_log_def)
qed

definition ex_full :: wl_state where
  "ex_full = ex_wl\<lparr>wl_position := WRITELOG_BYTES, ctx := ex_ctx\<lparr>checkpoint_interval := 2, num_tols := 1\<rparr>\<rparr>"

theorem full_log_reopened_overruns_witness:
  "\<exists>t. ltckpt_write_wl 0x1000 (wl_checkpoint ex_full) = Ret () t \<and>
    load_bytes (mem t) (WRITELOG_START + WRITELOG_BYTES) 4 = ptr_bytes 0x1000"
  using full_log_reopened_overruns [of ex_full "0x1000"] ex_1000
  by (auto simp: ex_full_def ex_wl_fields CTX_NEW_TOL_OR_RETURN_def)

end
