(* ===== verification/Service.thy ===== *)
theory Service
  imports Writelog
begin

text \<open>
  A service instrumented with the recovery hooks and the undo log, as a transition system with
  labelled steps. A state is the runtime's state together with the memory at the last pass
  through the top of the message loop, which no code stores and which says what a rollback has to
  restore. The steps are those of one incarnation of a service: a pass through the top of the
  loop with the receipt of a message, the end of its handling, any call into the recovery runtime,
  and any instrumented write.
\<close>

section \<open>Steps\<close>

datatype svc_event = Receive | Done | Call | Write mem_write

inductive svc_step :: "cfg \<Rightarrow> wl_state \<times> mem \<Rightarrow> svc_event \<Rightarrow> wl_state \<times> mem \<Rightarrow> bool" for cf where
  svc_receive: "svc_step cf (s, c) Receive (wl_checkpoint s, mem s)"
| svc_done: "svc_step cf (s, c) Done (ltckpt_detect_start_of_window_hook (s\<lparr>have_handled_message := False\<rparr>), c)"
| svc_call: "rcall cf s t \<Longrightarrow> svc_step cf (s, c) Call (t, c)"
| svc_write: "wl_hook w s = Some (Ret u t) \<Longrightarrow>
    svc_step cf (s, c) (Write w) (t\<lparr>mem := plain_write w (mem t)\<rparr>, c)"

inductive svc_run :: "cfg \<Rightarrow> wl_state \<times> mem \<Rightarrow> svc_event list \<Rightarrow> wl_state \<times> mem \<Rightarrow> bool" for cf where
  run_start: "svc_run cf sc [] sc"
| run_step: "svc_run cf sc evs sc1 \<Longrightarrow> svc_step cf sc1 ev sc2 \<Longrightarrow> svc_run cf sc (evs @ [ev]) sc2"

text \<open>The writes the undo log saves completely.\<close>

definition logged_event :: "svc_event \<Rightarrow> bool" where
  "logged_event ev = (case ev of Write w \<Rightarrow> wl_supported w | _ \<Rightarrow> True)"

definition logged_step :: "cfg \<Rightarrow> wl_state \<times> mem \<Rightarrow> wl_state \<times> mem \<Rightarrow> bool" where
  "logged_step cf sc sc' = (\<exists>ev. logged_event ev \<and> svc_step cf sc ev sc')"

text \<open>A service just started: the undo log mapped, no message handled yet.\<close>

definition svc_init :: "wl_state \<Rightarrow> bool" where
  "svc_init s = (rec_inv s \<and> wl_data s = WRITELOG_START \<and> wl_position s = 0 \<and>
     \<not> sa_window_is_open s \<and> \<not> have_handled_message s)"

text \<open>
  The invariant of a service that checkpoints at every pass: the recovery state's, the log's,
  and while the window is open the log undoes the memory to the one at the last pass.
\<close>

definition svc_inv :: "('s, 'b) restart_env_scheme \<Rightarrow> wl_state \<times> mem \<Rightarrow> bool" where
  "svc_inv e sc = (case sc of (s, c) \<Rightarrow>
     rec_inv s \<and> wl_inv s \<and> wl_data s = WRITELOG_START \<and> checkpoint_interval (ctx s) = 1 \<and>
     (sa_window_is_open s \<longrightarrow> wl_ready s \<and> (\<forall>x. wl_protected e x \<longrightarrow> wl_rollback e s x = c x)))"

section \<open>Lemmas\<close>

lemma svc_init_inv: "svc_init s \<Longrightarrow> checkpoint_interval (ctx s) = 1 \<Longrightarrow> svc_inv e (s, c)"
  using WRITELOG_START_ok by (simp add: svc_init_def svc_inv_def wl_inv_def)

text \<open>Steps of the recovery runtime that leave the log alone and never open the window.\<close>

definition log_untouched :: "wl_state \<Rightarrow> wl_state \<Rightarrow> bool" where
  "log_untouched s t = (mem t = mem s \<and> ctx t = ctx s \<and> wl_data t = wl_data s \<and> wl_position t = wl_position s \<and>
     ltckpt_writelog_enabled t = ltckpt_writelog_enabled s \<and> (sa_window_is_open t \<longrightarrow> sa_window_is_open s))"

lemma log_untouched_inv:
  assumes "svc_inv e (s, c)" "log_untouched s t" "rec_inv t"
  shows "svc_inv e (t, c)"
proof -
  have "wl_entries t = wl_entries s" "wl_rollback e t = wl_rollback e s"
    using assms(2) by (simp_all add: log_untouched_def wl_entries_def wl_rollback_def)
  then show ?thesis
    using assms by (auto simp: svc_inv_def log_untouched_def wl_inv_def wl_ready_def)
qed

lemma transit_untouched: "ltckpt_transit_window site s = Ret r t \<Longrightarrow> log_untouched s t"
  by (auto simp: ltckpt_transit_window_def log_untouched_def Let_def split: if_splits)

lemma close_untouched: "log_untouched s (snd (ltckpt_close_r_window site s))"
  by (auto simp: ltckpt_close_r_window_def log_untouched_def Let_def)

lemma log_untouched_trans: "log_untouched s t \<Longrightarrow> log_untouched t u \<Longrightarrow> log_untouched s u"
  by (auto simp: log_untouched_def)

lemma add_site_untouched: "log_untouched s (ltckpt_add_site_id site s)"
  by (auto simp: ltckpt_add_site_id_def log_untouched_def)

lemma hooks_untouched:
  "ltckpt_set_idempotent_recovery site s = Ret u t \<Longrightarrow> log_untouched s t"
  "ltckpt_set_request_specific_recovery site s = Ret u t \<Longrightarrow> log_untouched s t"
  "ltckpt_set_process_local_recovery site s = Ret u t \<Longrightarrow> log_untouched s t"
  by (auto simp: ltckpt_set_idempotent_recovery_def ltckpt_set_request_specific_recovery_def
      ltckpt_set_process_local_recovery_def obind_eq_Ret log_untouched_def
      dest!: transit_untouched split: if_splits)

lemma fail_stop_untouched:
  assumes "ltckpt_set_fail_stop_recovery site s = Ret u t"
  shows "log_untouched s t"
proof (cases "inside_trusted_compute_base s")
  case True
  then show ?thesis using assms by (simp add: ltckpt_set_fail_stop_recovery_def log_untouched_def)
next
  case False
  then obtain r v where v: "ltckpt_transit_window site s = Ret r v"
    using assms by (auto simp: ltckpt_set_fail_stop_recovery_def obind_eq_Ret)
  let ?c = "snd (ltckpt_close_r_window site v)"
  let ?f = "?c\<lparr>g_recovery_bitmask := g_recovery_bitmask ?c OR MASK_FAIL_STOP,
    g_recovery_bitmask_reason := Some ''ltckpt recovery: window closed: ltckpt_set_fail_stop_recovery''\<rparr>"
  have "t = (ltckpt_add_site_id site ?f)\<lparr>g_recovery_bitmask_total_count :=
      g_recovery_bitmask_total_count (ltckpt_add_site_id site ?f) + 1\<rparr>"
    using assms False v by (simp add: ltckpt_set_fail_stop_recovery_def Let_def)
  then have "log_untouched (ltckpt_add_site_id site ?f) t" by (simp add: log_untouched_def)
  moreover have "log_untouched ?f (ltckpt_add_site_id site ?f)" by (rule add_site_untouched)
  moreover have "log_untouched ?c ?f" by (simp add: log_untouched_def)
  ultimately show ?thesis
    using transit_untouched [OF v] close_untouched [of v site] log_untouched_trans by blast
qed

lemma done_untouched:
  "log_untouched s (ltckpt_detect_start_of_window_hook (s\<lparr>have_handled_message := False\<rparr>))"
  by (auto simp: ltckpt_detect_start_of_window_hook_def log_untouched_def Let_def)

lemma suicide_untouched:
  "ltckpt_do_suicide_per_site c m site s = Ret r t \<Longrightarrow> log_untouched s t"
  "ltckpt_do_suicide_per_site c m site s = Fault NullDeref t \<Longrightarrow> log_untouched s t"
  by (auto simp: ltckpt_do_suicide_per_site_def ltckpt_do_suicide_def log_untouched_def Let_def
      obind_eq_Ret obind_Fault split: if_splits option.splits prod.splits sum.splits)

lemma dispatcher_untouched:
  assumes "ltckpt_recovery_dispatcher c m s = Ret r t"
  shows "log_untouched s t"
proof -
  obtain x w where "t = s\<lparr>inside_trusted_compute_base := True, trace := x, g_recovery_bitmask := w\<rparr>"
    using dispatch_frame_eq [OF dispatcher_frame [OF assms]] by blast
  then show ?thesis by (simp add: log_untouched_def)
qed

lemma rcall_untouched: "rcall cf s t \<Longrightarrow> log_untouched s t"
proof (induction rule: rcall.induct)
  case (step_close site s r s')
  then show ?case using close_untouched [of s site] by simp
next
  case (step_fi s r s')
  then show ?case
    by (auto simp: sef_fi_custom_def ltckpt_dump_shutter_board_def log_untouched_def Let_def obind_eq_Ret
        split: if_splits option.splits)
qed (auto intro: transit_untouched suicide_untouched hooks_untouched fail_stop_untouched dispatcher_untouched,
    auto simp: log_untouched_def inc_counter_inwindow_def inc_counter_outsidewindow_def
      ltckpt_set_naive_recovery_def ltckpt_activate_req_rehandling_def ltckpt_deactivate_req_rehandling_def)

lemma top_of_loop_rec_inv: "rec_inv s \<Longrightarrow> rec_inv (wl_top_of_the_loop s)"
  by (auto simp: wl_top_of_the_loop_def Let_def split_beta)

lemma checkpoint_rec_inv: "rec_inv s \<Longrightarrow> rec_inv (wl_checkpoint s)"
  unfolding wl_checkpoint_def by (intro detect_hook_inv top_of_loop_rec_inv)

lemma every_pass_due: "checkpoint_interval x = 1 \<Longrightarrow> fst (CTX_NEW_TOL_OR_RETURN x)"
  by (simp add: CTX_NEW_TOL_OR_RETURN_def Let_def)

lemma pass_fields:
  assumes "checkpoint_interval (ctx s) = 1"
  shows "mem (wl_checkpoint s) = mem s" "wl_position (wl_checkpoint s) = 0"
    "wl_data (wl_checkpoint s) = wl_data s" "ltckpt_writelog_enabled (wl_checkpoint s)"
    "checkpoint_interval (ctx (wl_checkpoint s)) = 1"
  using assms every_pass_due [OF assms]
  by (auto simp: wl_checkpoint_def wl_top_of_the_loop_def ltckpt_detect_start_of_window_hook_def
      CTX_NEW_CHECKPOINT_def Let_def split_beta new_tol_log_size)
    (simp_all add: CTX_NEW_LOG_SIZE_def CTX_NEW_TOL_OR_RETURN_def Let_def)

lemma receive_inv: "svc_inv e (s, c) \<Longrightarrow> svc_inv e (wl_checkpoint s, mem s)"
  using WRITELOG_START_ok
  by (auto simp: svc_inv_def checkpoint_rec_inv pass_fields wl_inv_def wl_ready_def wl_rollback_def
      wl_entries_def log_entries_def undo_def wf_entries_def)

lemma svc_inv_rec: "svc_inv e (s, c) \<Longrightarrow> rec_inv s"
  by (simp add: svc_inv_def)

lemma write_all_ctx: "wl_write_all rs s = Ret u t \<Longrightarrow> ctx t = ctx s"
proof (induction rs arbitrary: s)
  case (Cons r rs)
  have "ctx x = ctx s" if "ltckpt_write_wl r s = Ret v x" for v x
    using that by (auto simp: ltckpt_write_wl_def wl_overflow_def Let_def split: if_splits)
  with Cons show ?case by (auto simp: obind_eq_Ret)
qed simp

lemma write_inv:
  assumes "svc_inv e (s, c)" "wl_supported w" "wl_hook w s = Some (Ret u t)"
  shows "svc_inv e (t\<lparr>mem := plain_write w (mem t)\<rparr>, c)"
proof (cases "ltckpt_writelog_enabled s")
  case False
  then have "t = s \<and> \<not> sa_window_is_open s"
    using assms by (auto simp: wl_hook_def wl_store_hook_def wl_memcpy_hook_def svc_inv_def wl_ready_def
        split: mem_write.splits)
  then show ?thesis using assms(1) WRITELOG_START_ok by (simp add: svc_inv_def wl_inv_def)
next
  case True
  have run: "wl_write_all (wl_targets w) s = Ret () t"
    using wl_hook_targets [OF assms(2) True] assms(3) by simp
  have inv: "rec_inv s" "wl_inv s" "wl_data s = WRITELOG_START" using assms(1) by (simp_all add: svc_inv_def)
  have rec: "rec_inv t" by (rule wl_write_all_rec_inv [OF run inv(1)])
  have ctx: "checkpoint_interval (ctx t) = 1"
    using write_all_ctx [OF run] assms(1) by (simp add: svc_inv_def)
  show ?thesis
  proof (cases "sa_window_is_open t")
    case op: True
    then have "sa_window_is_open s"
      using wl_write_all_closed [OF inv(2), of "wl_targets w"] run by (cases "sa_window_is_open s") auto
    then have rdy: "wl_ready s" and roll: "\<And>x. wl_protected e x \<Longrightarrow> wl_rollback e s x = c x"
      using assms(1) by (simp_all add: svc_inv_def)
    have hw: "wl_hooked_write w s = Some (t\<lparr>mem := plain_write w (mem t)\<rparr>)"
      using assms(3) op by (simp add: wl_hooked_write_def)
    have "wl_ready (t\<lparr>mem := plain_write w (mem t)\<rparr>)" by (rule wl_write_ready [OF rdy assms(2) hw])
    moreover have "wl_rollback e (t\<lparr>mem := plain_write w (mem t)\<rparr>) x = c x" if "wl_protected e x" for x
      using wl_write_rollback [OF rdy assms(2) hw that] roll [OF that] by simp
    ultimately show ?thesis using rec ctx by (simp add: svc_inv_def wl_ready_def)
  next
    case cl: False
    have "wl_inv t \<and> wl_data t = wl_data s"
      using wl_write_all_frame [OF inv(2), of "wl_targets w"] run by (simp add: wl_frame_def)
    then show ?thesis using rec ctx cl inv(3) WRITELOG_START_ok by (simp add: svc_inv_def wl_inv_def)
  qed
qed

lemma svc_step_inv: "svc_step cf sc ev sc' \<Longrightarrow> logged_event ev \<Longrightarrow> svc_inv e sc \<Longrightarrow> svc_inv e sc'"
proof (induction rule: svc_step.induct)
  case (svc_done s c)
  then show ?case
    using log_untouched_inv [OF svc_done(2) done_untouched] detect_hook_inv [OF svc_inv_rec [OF svc_done(2)]] by blast
next
  case (svc_call s t c)
  then show ?case using log_untouched_inv rcall_untouched rcall_inv svc_inv_rec by blast
qed (auto simp: logged_event_def intro: receive_inv write_inv)

interpretation svc: inductive_invariant "logged_step cf" "svc_inv e"
  by unfold_locales (auto simp: logged_step_def intro: svc_step_inv)

lemma logged_run: "svc_run cf sc evs sc' \<Longrightarrow> (\<forall>ev \<in> set evs. logged_event ev) \<Longrightarrow> (logged_step cf)\<^sup>*\<^sup>* sc sc'"
proof (induction rule: svc_run.induct)
  case (run_step sc evs sc1 ev sc2)
  then have "(logged_step cf)\<^sup>*\<^sup>* sc sc1" by simp
  moreover have "logged_step cf sc1 sc2" using run_step by (auto simp: logged_step_def)
  ultimately show ?case by (rule rtranclp.rtrancl_into_rtrancl)
qed simp

end
