(* ===== verification/Hashtable.thy ===== *)
theory Hashtable
  imports Prelude "HOL-Library.Multiset"
begin

text \<open>
  Chained hash tables, as the analysis tools build them over and over (allocation records,
  source lines, functions): an array of chains, an entry appended to the chain of its key.
  The components define their tables with these functions; the locale gives them, for any
  key and bucket function, the laws of a finite map and the order in which the tools
  traverse a table.
\<close>

section \<open>Chains and tables\<close>

type_synonym 'e chains = "'e list list"

fun chain_find :: "('e \<Rightarrow> 'k) \<Rightarrow> 'k \<Rightarrow> 'e list \<Rightarrow> 'e option" where
  "chain_find key k [] = None"
| "chain_find key k (e # es) = (if key e = k then Some e else chain_find key k es)"

fun chain_remove :: "('e \<Rightarrow> 'k) \<Rightarrow> 'k \<Rightarrow> 'e list \<Rightarrow> 'e list" where
  "chain_remove key k [] = []"
| "chain_remove key k (e # es) = (if key e = k then es else e # chain_remove key k es)"

fun chain_change :: "('e \<Rightarrow> 'k) \<Rightarrow> 'k \<Rightarrow> ('e \<Rightarrow> 'e) \<Rightarrow> 'e list \<Rightarrow> 'e list" where
  "chain_change key k f [] = []"
| "chain_change key k f (e # es) = (if key e = k then f e # es else e # chain_change key k f es)"

definition table_find :: "('e \<Rightarrow> 'k) \<Rightarrow> ('k \<Rightarrow> nat) \<Rightarrow> 'e chains \<Rightarrow> 'k \<Rightarrow> 'e option" where
  "table_find key bucket t k = chain_find key k (t ! bucket k)"

definition table_add :: "('e \<Rightarrow> 'k) \<Rightarrow> ('k \<Rightarrow> nat) \<Rightarrow> 'e \<Rightarrow> 'e chains \<Rightarrow> 'e chains" where
  "table_add key bucket e t = t[bucket (key e) := t ! bucket (key e) @ [e]]"

definition table_remove :: "('e \<Rightarrow> 'k) \<Rightarrow> ('k \<Rightarrow> nat) \<Rightarrow> 'k \<Rightarrow> 'e chains \<Rightarrow> 'e chains" where
  "table_remove key bucket k t = t[bucket k := chain_remove key k (t ! bucket k)]"

definition table_change :: "('e \<Rightarrow> 'k) \<Rightarrow> ('k \<Rightarrow> nat) \<Rightarrow> 'k \<Rightarrow> ('e \<Rightarrow> 'e) \<Rightarrow> 'e chains \<Rightarrow> 'e chains" where
  "table_change key bucket k f t = t[bucket k := chain_change key k f (t ! bucket k)]"

text \<open>Every entry is in the chain of its key, and a chain has no key twice.\<close>

definition table_wf :: "('e \<Rightarrow> 'k) \<Rightarrow> ('k \<Rightarrow> nat) \<Rightarrow> nat \<Rightarrow> 'e chains \<Rightarrow> bool" where
  "table_wf key bucket n t =
     (length t = n \<and>
      (\<forall>i < n. distinct (map key (t ! i)) \<and> (\<forall>e \<in> set (t ! i). bucket (key e) = i)))"

section \<open>Lemmas: chains\<close>

lemma chain_find_append:
  "chain_find key k (xs @ ys) = (case chain_find key k xs of None \<Rightarrow> chain_find key k ys | Some e \<Rightarrow> Some e)"
  by (induction xs) auto

lemma chain_find_eq_None: "chain_find key k es = None \<longleftrightarrow> k \<notin> key ` set es"
  by (induction es) auto

lemma chain_find_SomeD: "chain_find key k es = Some e \<Longrightarrow> e \<in> set es \<and> key e = k"
  by (induction es) (auto split: if_splits)

lemma chain_find_distinct:
  assumes "distinct (map key es)"
  shows "chain_find key k es = Some e \<longleftrightarrow> e \<in> set es \<and> key e = k"
  using assms
proof (induction es)
  case (Cons d es)
  then have "key d \<notin> key ` set es" by simp
  then show ?case using Cons by (auto simp: image_iff)
qed simp

lemma chain_find_remove:
  assumes "distinct (map key es)"
  shows "chain_find key j (chain_remove key k es) = (if j = k then None else chain_find key j es)"
  using assms by (induction es) (auto simp: chain_find_eq_None)

lemma set_chain_remove: "set (chain_remove key k es) \<subseteq> set es"
  by (induction es) auto

lemma distinct_chain_remove: "distinct (map key es) \<Longrightarrow> distinct (map key (chain_remove key k es))"
  using set_chain_remove by (induction es) (auto, fastforce)

lemma keys_chain_change:
  assumes "\<And>e. key e = k \<Longrightarrow> key (f e) = k"
  shows "map key (chain_change key k f es) = map key es"
  using assms by (induction es) auto

lemma chain_find_change:
  assumes "\<And>e. key e = k \<Longrightarrow> key (f e) = k"
  shows "chain_find key j (chain_change key k f es) =
    (if j = k then map_option f (chain_find key j es) else chain_find key j es)"
  using assms by (induction es) auto

lemma map_chain_change:
  assumes "\<And>e. key e = k \<Longrightarrow> key (f e) = k" "distinct (map key es)"
  shows "chain_change key k f es = map (\<lambda>e. if key e = k then f e else e) es"
  using assms
proof (induction es)
  case (Cons e es)
  show ?case
  proof (cases "key e = k")
    case True
    then have "k \<notin> key ` set es" using Cons.prems by simp
    then have "map (\<lambda>e. if key e = k then f e else e) es = es" by (intro map_idI) auto
    then show ?thesis using True by simp
  qed (use Cons in auto)
qed simp

lemma mset_concat_update:
  "i < length t \<Longrightarrow> mset (concat (t[i := xs])) + mset (t ! i) = mset (concat t) + mset xs"
proof (induction t arbitrary: i)
  case (Cons y t)
  show ?case
  proof (cases i)
    case (Suc j)
    then show ?thesis using Cons.IH [of j] Cons.prems by (simp add: ac_simps)
  qed (simp add: ac_simps)
qed simp

section \<open>The laws of a table\<close>

locale chained_table =
  fixes key :: "'e \<Rightarrow> 'k" and bucket :: "'k \<Rightarrow> nat" and n :: nat
  assumes bucket_bound: "bucket k < n"
begin

lemma wf_empty: "table_wf key bucket n (replicate n [])"
  by (simp add: table_wf_def)

lemma find_empty: "table_find key bucket (replicate n []) k = None"
  by (simp add: table_find_def bucket_bound)

lemma chain_of:
  assumes "table_wf key bucket n t"
  shows "bucket k < length t" "distinct (map key (t ! bucket k))" "e \<in> set (t ! bucket k) \<Longrightarrow> bucket (key e) = bucket k"
  using assms bucket_bound [of k] by (auto simp: table_wf_def)

lemma find_iff:
  assumes "table_wf key bucket n t"
  shows "table_find key bucket t k = Some e \<longleftrightarrow> e \<in> set (concat t) \<and> key e = k"
proof -
  have "e \<in> set (t ! bucket k)" if "e \<in> set (concat t)" "key e = k"
  proof -
    from that(1) obtain xs where "xs \<in> set t" "e \<in> set xs" by auto
    then obtain i where "i < length t" "e \<in> set (t ! i)" by (metis in_set_conv_nth)
    then show ?thesis using assms that(2) by (auto simp: table_wf_def)
  qed
  then show ?thesis
    using chain_of(1,2) [OF assms, of k] by (auto simp: table_find_def chain_find_distinct)
qed

lemma find_None_iff:
  assumes "table_wf key bucket n t"
  shows "table_find key bucket t k = None \<longleftrightarrow> k \<notin> key ` set (concat t)"
proof
  assume none: "table_find key bucket t k = None"
  show "k \<notin> key ` set (concat t)"
  proof
    assume "k \<in> key ` set (concat t)"
    then obtain e where "e \<in> set (concat t)" "key e = k" by blast
    then have "table_find key bucket t k = Some e" by (simp only: find_iff [OF assms] simp_thms)
    then show False using none by simp
  qed
next
  assume "k \<notin> key ` set (concat t)"
  then have "table_find key bucket t k \<noteq> Some e" for e using find_iff [OF assms, of k e] by blast
  then show "table_find key bucket t k = None" by (cases "table_find key bucket t k") auto
qed

lemma add_wf:
  assumes "table_wf key bucket n t" "table_find key bucket t (key e) = None"
  shows "table_wf key bucket n (table_add key bucket e t)"
proof -
  define b where "b = bucket (key e)"
  have t: "b < n" "length t = n"
    "\<And>i. i < n \<Longrightarrow> distinct (map key (t ! i))" "\<And>i d. i < n \<Longrightarrow> d \<in> set (t ! i) \<Longrightarrow> bucket (key d) = i"
    using assms(1) bucket_bound [of "key e"] by (auto simp: table_wf_def b_def)
  have new: "key e \<notin> key ` set (t ! b)" using assms(2) by (simp add: table_find_def chain_find_eq_None b_def)
  have "distinct (map key (t[b := t ! b @ [e]] ! i))" if "i < n" for i
    using t(1-3) new that by (cases "i = b") (simp_all add: nth_list_update)
  moreover have "bucket (key d) = i" if "i < n" "d \<in> set (t[b := t ! b @ [e]] ! i)" for i d
  proof (cases "d \<in> set (t ! i)")
    case False
    then have "i = b" "d = e" using that t(1,2) by (auto simp: nth_list_update split: if_splits)
    then show ?thesis by (simp add: b_def)
  qed (use t(4) that in blast)
  ultimately show ?thesis
    using t(2) unfolding table_wf_def table_add_def b_def [symmetric] by simp
qed

lemma find_add:
  assumes "table_wf key bucket n t" "table_find key bucket t (key e) = None"
  shows "table_find key bucket (table_add key bucket e t) = (table_find key bucket t)(key e \<mapsto> e)"
  using assms chain_of(1) [OF assms(1), of "key e"]
  by (auto simp: table_add_def table_find_def fun_eq_iff nth_list_update chain_find_append
      split: option.splits)

lemma entries_add:
  assumes "table_wf key bucket n t"
  shows "mset (concat (table_add key bucket e t)) = add_mset e (mset (concat t))"
proof -
  have b: "bucket (key e) < length t" by (rule chain_of(1) [OF assms])
  have "mset (concat (table_add key bucket e t)) + mset (t ! bucket (key e)) =
      add_mset e (mset (concat t)) + mset (t ! bucket (key e))"
    using mset_concat_update [OF b, of "t ! bucket (key e) @ [e]"] by (simp add: table_add_def ac_simps)
  then show ?thesis by (simp only: add_right_cancel)
qed

lemma remove_wf:
  assumes "table_wf key bucket n t"
  shows "table_wf key bucket n (table_remove key bucket k t)"
  using assms set_chain_remove [of key k "t ! bucket k"] chain_of(1) [OF assms, of k]
  by (auto simp: table_wf_def table_remove_def nth_list_update distinct_chain_remove)

lemma find_remove:
  assumes "table_wf key bucket n t"
  shows "table_find key bucket (table_remove key bucket k t) = (table_find key bucket t)(k := None)"
proof
  fix j
  show "table_find key bucket (table_remove key bucket k t) j = ((table_find key bucket t)(k := None)) j"
    using chain_of(1,2) [OF assms, of k]
    by (cases "bucket j = bucket k")
      (auto simp: table_find_def table_remove_def nth_list_update chain_find_remove)
qed

lemma change_wf:
  assumes "table_wf key bucket n t" "\<And>e. key e = k \<Longrightarrow> key (f e) = k"
  shows "table_wf key bucket n (table_change key bucket k f t)"
proof -
  let ?c = "chain_change key k f (t ! bucket k)"
  have keys: "map key ?c = map key (t ! bucket k)"
    using assms(2) by (intro keys_chain_change)
  have "bucket (key e) = bucket k" if "e \<in> set ?c" for e
  proof -
    have "key e \<in> set (map key (t ! bucket k))" using that keys [symmetric] by simp
    then show ?thesis using chain_of(3) [OF assms(1), of _ k] by auto
  qed
  then show ?thesis
    using assms(1) keys chain_of(1) [OF assms(1), of k]
    by (auto simp: table_wf_def table_change_def nth_list_update)
qed

lemma find_change:
  assumes "table_wf key bucket n t" "\<And>e. key e = k \<Longrightarrow> key (f e) = k"
  shows "table_find key bucket (table_change key bucket k f t) j =
    (if j = k then map_option f (table_find key bucket t j) else table_find key bucket t j)"
proof -
  have "chain_find key j (chain_change key k f es) =
      (if j = k then map_option f (chain_find key j es) else chain_find key j es)" for es
    using assms(2) by (intro chain_find_change)
  note find = this [of "t ! bucket k"]
  have b: "bucket k < length t" by (rule chain_of(1) [OF assms(1)])
  show ?thesis
  proof (cases "bucket j = bucket k")
    case True
    show ?thesis unfolding table_find_def table_change_def True nth_list_update_eq [OF b] by (rule find)
  next
    case False
    then show ?thesis by (auto simp: table_find_def table_change_def)
  qed
qed

lemma distinct_keys:
  assumes "table_wf key bucket n t"
  shows "distinct (map key (concat t))"
proof -
  have "distinct (map key (concat us))" if "\<forall>us' xs us''. us = us' @ xs # us'' \<longrightarrow>
      distinct (map key xs) \<and> key ` set xs \<inter> key ` set (concat us'') = {}" for us
    using that
  proof (induction us)
    case (Cons xs us)
    have hd: "distinct (map key xs) \<and> key ` set xs \<inter> key ` set (concat us) = {}"
      using Cons.prems [rule_format, of "[]"] by simp
    have "\<forall>us' ys us''. us = us' @ ys # us'' \<longrightarrow>
        distinct (map key ys) \<and> key ` set ys \<inter> key ` set (concat us'') = {}"
      using Cons.prems [rule_format, of "xs # _"] by auto
    with Cons.IH hd show ?case by (auto simp: image_iff)
  qed simp
  moreover have "distinct (map key xs) \<and> key ` set xs \<inter> key ` set (concat us'') = {}"
    if t: "t = us' @ xs # us''" for us' xs us''
  proof -
    let ?i = "length us'"
    have i: "?i < n" "t ! ?i = xs" using assms t by (auto simp: table_wf_def)
    have "bucket (key e) = ?i" if "e \<in> set xs" for e using assms i that by (auto simp: table_wf_def)
    moreover have "bucket (key e) > ?i" if "e \<in> set (concat us'')" for e
    proof -
      from that obtain xs where "xs \<in> set us''" "e \<in> set xs" by auto
      then obtain j where j: "j < length us''" "e \<in> set (us'' ! j)" by (metis in_set_conv_nth)
      then have "t ! (Suc ?i + j) = us'' ! j" "Suc ?i + j < n"
        using t assms by (auto simp: nth_append table_wf_def)
      then show ?thesis using assms j by (auto simp: table_wf_def)
    qed
    ultimately show ?thesis using assms i by (fastforce simp: table_wf_def)
  qed
  ultimately show ?thesis by blast
qed

end

end
