(* ===== verification/Helper.thy ===== *)
theory Helper
  imports Hashtable
begin

text \<open>
  The helpers the analysis tools share (\<^verbatim>\<open>hypermemloganalyze/common/helper.c\<close>): string
  comparison, hashing and lists of strings, times, the checked allocation functions with
  the allocation table of the debugging build (DEBUG\_MEMORY), and the line counter of
  \<^verbatim>\<open>linecounter.c\<close>. The tools run on a 64-bit host. A NULL string is None.
\<close>

section \<open>Strings\<close>

text \<open>The C library's string comparison: the difference of the first unequal bytes.\<close>

fun strcmp :: "string \<Rightarrow> string \<Rightarrow> int" where
  "strcmp [] [] = 0"
| "strcmp [] (b # bs) = - of_char b"
| "strcmp (a # as) [] = of_char a"
| "strcmp (a # as) (b # bs) = (if a = b then strcmp as bs else of_char a - of_char b)"

definition safestrcmp :: "string option \<Rightarrow> string option \<Rightarrow> int" where
  "safestrcmp s1 s2 =
     (case s1 of
        None \<Rightarrow> (if s2 \<noteq> None then -1 else 0)
      | Some a \<Rightarrow> (case s2 of None \<Rightarrow> 1 | Some b \<Rightarrow> strcmp a b))"

text \<open>Every slash moves the result behind it.\<close>

fun basename_loop :: "string \<Rightarrow> string \<Rightarrow> string" where
  "basename_loop result [] = result"
| "basename_loop result (ch # s) = basename_loop (if ch = CHR ''/'' then s else result) s"

definition basename_const :: "string option \<Rightarrow> string option" where
  "basename_const s = (case s of None \<Rightarrow> None | Some s \<Rightarrow> Some (basename_loop s s))"

definition tolower :: "char \<Rightarrow> char" where
  "tolower ch = (if 65 \<le> (of_char ch :: nat) \<and> (of_char ch :: nat) \<le> 90
     then char_of (of_char ch + 32 :: nat) else ch)"

definition ends_with :: "string \<Rightarrow> string \<Rightarrow> bool \<Rightarrow> bool" where
  "ends_with s substr ignore_case =
     (if length s < length substr then False
      else let tl = drop (length s - length substr) s
           in if ignore_case then strcmp (map tolower tl) (map tolower substr) = 0
              else strcmp tl substr = 0)"

text \<open>A char is signed: bytes from 128 are sign-extended into the hash.\<close>

fun hashstr_loop :: "64 word \<Rightarrow> string \<Rightarrow> 64 word" where
  "hashstr_loop h [] = h"
| "hashstr_loop h (ch # s) = hashstr_loop (h * 3 + scast (of_nat (of_char ch) :: 8 word)) s"

definition hashstr :: "string \<Rightarrow> 64 word" where
  "hashstr s = hashstr_loop 0 s"

definition string_ll_add :: "string list \<Rightarrow> string \<Rightarrow> string list" where
  "string_ll_add ll s = s # ll"

fun string_ll_find :: "string list \<Rightarrow> string \<Rightarrow> bool" where
  "string_ll_find [] s = False"
| "string_ll_find (str # ll) s = (if strcmp str s = 0 then True else string_ll_find ll s)"

section \<open>Times\<close>

record timeval =
  tv_sec :: int
  tv_usec :: int

definition timeval_add :: "timeval \<Rightarrow> timeval \<Rightarrow> timeval" where
  "timeval_add dst src =
     (let dst = dst\<lparr>tv_sec := tv_sec dst + tv_sec src\<rparr>;
          dst = dst\<lparr>tv_usec := tv_usec dst + tv_usec src\<rparr>
      in if tv_usec dst \<ge> 1000000
         then dst\<lparr>tv_sec := tv_sec dst + 1, tv_usec := tv_usec dst - 1000000\<rparr> else dst)"

definition timeval_subtract :: "timeval \<Rightarrow> timeval \<Rightarrow> timeval" where
  "timeval_subtract dst src =
     (let dst = dst\<lparr>tv_sec := tv_sec dst - tv_sec src\<rparr>;
          dst = (if tv_usec dst < tv_usec src
                 then dst\<lparr>tv_sec := tv_sec dst - 1, tv_usec := tv_usec dst + 1000000\<rparr> else dst)
      in dst\<lparr>tv_usec := tv_usec dst - tv_usec src\<rparr>)"

text \<open>The comparison asserts that both times are normalised.\<close>

definition timeval_ok :: "timeval \<Rightarrow> bool" where
  "timeval_ok t = (tv_usec t \<ge> 0 \<and> tv_usec t < 1000000)"

definition timeval_compare :: "timeval \<Rightarrow> timeval \<Rightarrow> fault + int" where
  "timeval_compare src1 src2 =
     (if \<not> timeval_ok src1 \<or> \<not> timeval_ok src2 then Inl AssertFail
      else if tv_sec src1 > tv_sec src2 then Inr 1
      else if tv_sec src1 < tv_sec src2 then Inr (-1)
      else if tv_usec src1 > tv_usec src2 then Inr 1
      else if tv_usec src1 < tv_usec src2 then Inr (-1)
      else Inr 0)"

definition timeval_is_zero :: "timeval \<Rightarrow> bool" where
  "timeval_is_zero src = (tv_sec src = 0 \<and> tv_usec src = 0)"

definition timeval_set_to_max :: "timeval \<Rightarrow> timeval \<Rightarrow> fault + timeval" where
  "timeval_set_to_max dst src =
     (if timeval_is_zero src then Inr dst
      else if timeval_is_zero dst then Inr src
      else ebind (timeval_compare dst src) (\<lambda>r. Inr (if r < 0 then src else dst)))"

definition timeval_set_to_min :: "timeval \<Rightarrow> timeval \<Rightarrow> fault + timeval" where
  "timeval_set_to_min dst src =
     (if timeval_is_zero src then Inr dst
      else if timeval_is_zero dst then Inr src
      else ebind (timeval_compare dst src) (\<lambda>r. Inr (if r > 0 then src else dst)))"

section \<open>Checked allocation\<close>

type_synonym ptr = "64 word"

record meminfo =
  mi_ptr :: ptr
  mi_count :: "64 word"
  mi_size :: "64 word"
  mi_type :: string
  mi_file :: string
  mi_line :: int

record meminfo_summary =
  count_ptr :: "64 word"
  count_type :: "64 word"
  sum_size :: "64 word"
  sum_type :: string
  sum_file :: string
  sum_line :: int

definition HASHTABLE_SIZE :: nat where "HASHTABLE_SIZE = 262144"
definition SUMMARY_COUNT :: nat where "SUMMARY_COUNT = 4096"

definition hashptr :: "ptr \<Rightarrow> nat" where
  "hashptr p = unat (drop_bit 4 (ucast p :: 32 word)) mod HASHTABLE_SIZE"

text \<open>
  The memory state: the allocation table, whether the allocator still has room for the
  table's own records, and what was done to the blocks.
\<close>

datatype heap_event = Scribbled ptr "64 word" | Freed ptr

record heap_debug =
  allocs :: "meminfo chains"
  meta_room :: bool
  heap_events :: "heap_event list"

definition meminfo_find :: "ptr \<Rightarrow> heap_debug \<Rightarrow> meminfo option" where
  "meminfo_find p s = table_find mi_ptr hashptr (allocs s) p"

definition meminfo_register ::
    "ptr \<Rightarrow> 64 word \<Rightarrow> 64 word \<Rightarrow> string \<Rightarrow> string \<Rightarrow> int \<Rightarrow> heap_debug \<Rightarrow> (unit, heap_debug) outcome" where
  "meminfo_register p cnt sz type fil line s =
     (if p = 0 then Ret () s
      else case meminfo_find p s of
        Some mi \<Rightarrow> Fault (Panic ''pointer previously allocated'') s
      | None \<Rightarrow>
          if \<not> meta_room s then Fault (Panic ''meminfo allocation failed'') s
          else Ret () (s\<lparr>allocs := table_add mi_ptr hashptr
                 \<lparr>mi_ptr = p, mi_count = cnt, mi_size = sz, mi_type = type, mi_file = fil, mi_line = line\<rparr>
                 (allocs s)\<rparr>))"

definition meminfo_unregister :: "ptr \<Rightarrow> heap_debug \<Rightarrow> (meminfo option, heap_debug) outcome" where
  "meminfo_unregister p s =
     (if p = 0 then Ret None s
      else case meminfo_find p s of
        None \<Rightarrow> Fault (Panic ''pointer not previously allocated'') s
      | Some mi \<Rightarrow> Ret (Some mi) (s\<lparr>allocs := table_remove mi_ptr hashptr p (allocs s)\<rparr>))"

definition checkptr :: "ptr \<Rightarrow> heap_debug \<Rightarrow> (unit, heap_debug) outcome" where
  "checkptr p s =
     (if meminfo_find p s = None then Fault (Panic ''pointer not previously allocated'') s else Ret () s)"

definition alloc_error :: "heap_debug \<Rightarrow> ('v, heap_debug) outcome" where
  "alloc_error s = Fault (Panic ''could not allocate'') s"

definition alloc_multiply :: "64 word \<Rightarrow> 64 word \<Rightarrow> heap_debug \<Rightarrow> (64 word, heap_debug) outcome" where
  "alloc_multiply cnt sz s =
     (let result = cnt * sz in if result div sz \<noteq> cnt then alloc_error s else Ret result s)"

text \<open>The checked functions; the first argument is what the C library's allocator returns.\<close>

definition calloc_checked ::
    "ptr \<Rightarrow> 64 word \<Rightarrow> 64 word \<Rightarrow> string \<Rightarrow> string \<Rightarrow> int \<Rightarrow> heap_debug \<Rightarrow> (ptr, heap_debug) outcome" where
  "calloc_checked r cnt sz type fil line s =
     (if cnt = 0 \<or> sz = 0 then Ret 0 s
      else if r = 0 then alloc_error s
      else obind (meminfo_register r cnt sz type fil line s) (\<lambda>_ s. Ret r s))"

definition malloc_checked ::
    "ptr \<Rightarrow> 64 word \<Rightarrow> 64 word \<Rightarrow> string \<Rightarrow> string \<Rightarrow> int \<Rightarrow> heap_debug \<Rightarrow> (ptr, heap_debug) outcome" where
  "malloc_checked r cnt sz type fil line s =
     (if cnt = 0 \<or> sz = 0 then Ret 0 s
      else obind (alloc_multiply cnt sz s) (\<lambda>_ s.
        if r = 0 then alloc_error s
        else obind (meminfo_register r cnt sz type fil line s) (\<lambda>_ s. Ret r s)))"

definition free_checked :: "ptr \<Rightarrow> heap_debug \<Rightarrow> (unit, heap_debug) outcome" where
  "free_checked p s =
     obind (meminfo_unregister p s) (\<lambda>mi s.
       let s = (case mi of
                  None \<Rightarrow> s
                | Some mi \<Rightarrow> if mi_count mi > 0 \<or> mi_size mi > 0
                             then s\<lparr>heap_events := heap_events s @ [Scribbled p (mi_count mi * mi_size mi)]\<rparr>
                             else s)
       in if p = 0 then Ret () s else Ret () (s\<lparr>heap_events := heap_events s @ [Freed p]\<rparr>))"

definition realloc_checked ::
    "ptr \<Rightarrow> ptr \<Rightarrow> 64 word \<Rightarrow> 64 word \<Rightarrow> string \<Rightarrow> string \<Rightarrow> int \<Rightarrow> heap_debug \<Rightarrow> (ptr, heap_debug) outcome" where
  "realloc_checked r p cnt sz type fil line s =
     (if cnt = 0 \<or> sz = 0 then
        (if p \<noteq> 0 then obind (free_checked p s) (\<lambda>_ s. Ret 0 s) else Ret 0 s)
      else obind (meminfo_unregister p s) (\<lambda>_ s.
        obind (alloc_multiply cnt sz s) (\<lambda>_ s.
          if r = 0 then alloc_error s
          else obind (meminfo_register r cnt sz type fil line s) (\<lambda>_ s. Ret r s))))"

definition strdup_checked ::
    "ptr \<Rightarrow> string option \<Rightarrow> string \<Rightarrow> int \<Rightarrow> heap_debug \<Rightarrow> (ptr, heap_debug) outcome" where
  "strdup_checked r str fil line s =
     (case str of
        None \<Rightarrow> Ret 0 s
      | Some str \<Rightarrow>
          if r = 0 then alloc_error s
          else obind (meminfo_register r (of_nat (length str) + 1) 1 ''char'' fil line s) (\<lambda>_ s. Ret r s))"

text \<open>The report of what is allocated, summed up per allocation site.\<close>

definition same_site :: "meminfo \<Rightarrow> meminfo_summary \<Rightarrow> bool" where
  "same_site mi sm =
     (sum_size sm = mi_size mi \<and> strcmp (sum_type sm) (mi_type mi) = 0 \<and>
      strcmp (sum_file sm) (mi_file mi) = 0 \<and> sum_line sm = mi_line mi)"

fun summary_bump :: "meminfo \<Rightarrow> meminfo_summary list \<Rightarrow> meminfo_summary list option" where
  "summary_bump mi [] = None"
| "summary_bump mi (sm # sms) =
     (if same_site mi sm
      then Some (sm\<lparr>count_ptr := count_ptr sm + 1, count_type := count_type sm + mi_count mi\<rparr> # sms)
      else map_option ((#) sm) (summary_bump mi sms))"

definition meminfo_summarize_add :: "meminfo \<Rightarrow> meminfo_summary list \<Rightarrow> meminfo_summary list" where
  "meminfo_summarize_add mi sms =
     (case summary_bump mi sms of
        Some sms' \<Rightarrow> sms'
      | None \<Rightarrow>
          if length sms \<ge> SUMMARY_COUNT then sms
          else sms @ [\<lparr>count_ptr = 1, count_type = mi_count mi, sum_size = mi_size mi,
                       sum_type = mi_type mi, sum_file = mi_file mi, sum_line = mi_line mi\<rparr>])"

definition meminfo_summarize :: "heap_debug \<Rightarrow> meminfo_summary list" where
  "meminfo_summarize s = fold meminfo_summarize_add (concat (allocs s)) []"

section \<open>The line counter\<close>

record linepath =
  lp_path :: "string option"
  lp_pathFixed :: "string option"
  lp_line :: int
  lp_hash :: "64 word"

definition LINECOUNTER_HASHTABLE_SIZE :: nat where "LINECOUNTER_HASHTABLE_SIZE = 65536"

text \<open>
  An entry is a path, a line and, to find its chain again, the hash it was added with; the
  counter is a C int, which a table of more than two thousand million lines would overflow.
\<close>

record linecounter_state =
  lc_count :: int
  lc_hashtable :: "(string \<times> int) chains"

definition linecounter_init :: linecounter_state where
  "linecounter_init = \<lparr>lc_count = 0, lc_hashtable = replicate LINECOUNTER_HASHTABLE_SIZE []\<rparr>"

definition linecounter_add :: "linepath \<Rightarrow> linecounter_state \<Rightarrow> linecounter_state" where
  "linecounter_add lp s =
     (case lp_path lp of
        None \<Rightarrow> s
      | Some p \<Rightarrow>
          let b = unat (lp_hash lp) mod LINECOUNTER_HASHTABLE_SIZE;
              chain = lc_hashtable s ! b
          in if chain_find id (p, lp_line lp) chain \<noteq> None then s
             else s\<lparr>lc_hashtable := (lc_hashtable s)[b := chain @ [(p, lp_line lp)]],
                    lc_count := lc_count s + 1\<rparr>)"

section \<open>Specification of the checked heap\<close>

text \<open>What is live: the map from pointers to their records.\<close>

definition live :: "heap_debug \<Rightarrow> ptr \<rightharpoonup> meminfo" where
  "live s p = meminfo_find p s"

definition heap_ok :: "heap_debug \<Rightarrow> bool" where
  "heap_ok s = (table_wf mi_ptr hashptr HASHTABLE_SIZE (allocs s) \<and> live s 0 = None \<and> meta_room s)"

definition heap_init :: heap_debug where
  "heap_init = \<lparr>allocs = replicate HASHTABLE_SIZE [], meta_room = True, heap_events = []\<rparr>"

datatype heap_op =
    Op_calloc ptr "64 word" "64 word" string string int
  | Op_malloc ptr "64 word" "64 word" string string int
  | Op_realloc ptr ptr "64 word" "64 word" string string int
  | Op_free ptr
  | Op_strdup ptr "string option" string int

primrec run_op :: "heap_op \<Rightarrow> heap_debug \<Rightarrow> (ptr, heap_debug) outcome" where
  "run_op (Op_calloc r c sz ty f l) s = calloc_checked r c sz ty f l s"
| "run_op (Op_malloc r c sz ty f l) s = malloc_checked r c sz ty f l s"
| "run_op (Op_realloc r p c sz ty f l) s = realloc_checked r p c sz ty f l s"
| "run_op (Op_free p) s = obind (free_checked p s) (\<lambda>_ s. Ret 0 s)"
| "run_op (Op_strdup r str f l) s = strdup_checked r str f l s"

definition info :: "ptr \<Rightarrow> 64 word \<Rightarrow> 64 word \<Rightarrow> string \<Rightarrow> string \<Rightarrow> int \<Rightarrow> meminfo" where
  "info r c sz ty f l =
     \<lparr>mi_ptr = r, mi_count = c, mi_size = sz, mi_type = ty, mi_file = f, mi_line = l\<rparr>"

definition fits :: "64 word \<Rightarrow> 64 word \<Rightarrow> bool" where
  "fits c sz = (unat c * unat sz < 2 ^ 64)"

text \<open>The operations on the map of live blocks; None is a stopped program.\<close>

definition release :: "ptr \<Rightarrow> (ptr \<rightharpoonup> meminfo) \<Rightarrow> (ptr \<rightharpoonup> meminfo) option" where
  "release p m = (if p = 0 then Some m else if m p = None then None else Some (m(p := None)))"

primrec spec_op :: "heap_op \<Rightarrow> (ptr \<rightharpoonup> meminfo) \<Rightarrow> (ptr \<rightharpoonup> meminfo) option" where
  "spec_op (Op_calloc r c sz ty f l) m =
     (if c = 0 \<or> sz = 0 then Some m else Some (m(r \<mapsto> info r c sz ty f l)))"
| "spec_op (Op_malloc r c sz ty f l) m =
     (if c = 0 \<or> sz = 0 then Some m
      else if \<not> fits c sz then None else Some (m(r \<mapsto> info r c sz ty f l)))"
| "spec_op (Op_realloc r p c sz ty f l) m =
     (case release p m of
        None \<Rightarrow> None
      | Some m' \<Rightarrow>
          if c = 0 \<or> sz = 0 then Some m'
          else if \<not> fits c sz then None else Some (m'(r \<mapsto> info r c sz ty f l)))"
| "spec_op (Op_free p) m = release p m"
| "spec_op (Op_strdup r str f l) m =
     (case str of
        None \<Rightarrow> Some m
      | Some s \<Rightarrow> Some (m(r \<mapsto> info r (of_nat (length s) + 1) 1 ''char'' f l)))"

text \<open>The C library returns a block that is not live, and does not run out of memory.\<close>

primrec allocator_ok :: "heap_op \<Rightarrow> (ptr \<rightharpoonup> meminfo) \<Rightarrow> bool" where
  "allocator_ok (Op_calloc r c sz ty f l) m = (r \<noteq> 0 \<and> m r = None)"
| "allocator_ok (Op_malloc r c sz ty f l) m = (r \<noteq> 0 \<and> m r = None)"
| "allocator_ok (Op_realloc r p c sz ty f l) m = (r \<noteq> 0 \<and> (m r = None \<or> r = p))"
| "allocator_ok (Op_free p) m = True"
| "allocator_ok (Op_strdup r str f l) m = (r \<noteq> 0 \<and> m r = None)"

fun run_ops :: "heap_op list \<Rightarrow> heap_debug \<Rightarrow> (unit, heap_debug) outcome" where
  "run_ops [] s = Ret () s"
| "run_ops (x # xs) s = obind (run_op x s) (\<lambda>_ s. run_ops xs s)"

fun spec_ops :: "heap_op list \<Rightarrow> (ptr \<rightharpoonup> meminfo) \<Rightarrow> (ptr \<rightharpoonup> meminfo) option" where
  "spec_ops [] m = Some m"
| "spec_ops (x # xs) m = (case spec_op x m of None \<Rightarrow> None | Some m' \<Rightarrow> spec_ops xs m')"

fun allocator_ok_ops :: "heap_op list \<Rightarrow> (ptr \<rightharpoonup> meminfo) \<Rightarrow> bool" where
  "allocator_ok_ops [] m = True"
| "allocator_ok_ops (x # xs) m =
     (allocator_ok x m \<and> (case spec_op x m of None \<Rightarrow> True | Some m' \<Rightarrow> allocator_ok_ops xs m'))"

section \<open>Lemmas: strings and times\<close>

lemma of_char_nonneg [simp]: "(0 :: int) \<le> of_char ch"
  by (simp add: of_char_def)

lemma of_char_eq_0 [simp]: "(of_char ch :: int) = 0 \<longleftrightarrow> ch = NUL"
proof
  assume "(of_char ch :: int) = 0"
  then have "(of_char ch :: int) = of_char NUL" by (simp add: of_char_def)
  then show "ch = NUL" by (simp only: of_char_eq_iff)
qed (simp add: of_char_def)

lemma strcmp_refl [simp]: "strcmp s s = 0"
  by (induction s) auto

lemma strcmp_eq_0: "NUL \<notin> set s \<Longrightarrow> NUL \<notin> set t \<Longrightarrow> strcmp s t = 0 \<longleftrightarrow> s = t"
  by (induction s t rule: strcmp.induct) auto

lemma strcmp_swap: "strcmp s t = - strcmp t s"
  by (induction s t rule: strcmp.induct) auto

lemma of_char_pos: "ch \<noteq> NUL \<Longrightarrow> (0 :: int) < of_char ch"
  using of_char_nonneg [of ch] of_char_eq_0 [of ch] by linarith

lemma strcmp_trans:
  assumes "NUL \<notin> set s" "NUL \<notin> set t" "NUL \<notin> set u" "strcmp s t \<le> 0" "strcmp t u \<le> 0"
  shows "strcmp s u \<le> 0"
  using assms
proof (induction s arbitrary: t u)
  case Nil
  then show ?case by (cases u) auto
next
  case (Cons a s)
  obtain b t' where t: "t = b # t'" using Cons.prems of_char_pos [of a] by (cases t) auto
  obtain d u' where u: "u = d # u'" using Cons.prems t of_char_pos [of b] by (cases u) auto
  have ab: "a \<noteq> b \<Longrightarrow> (of_char a :: int) < of_char b" and bd: "b \<noteq> d \<Longrightarrow> (of_char b :: int) < of_char d"
    using Cons.prems(4,5) by (auto simp: t u less_le)
  show ?case
  proof (cases "a = b \<and> b = d")
    case True
    then show ?thesis using Cons.IH [of t' u'] Cons.prems by (simp add: t u)
  next
    case False
    then have "(of_char a :: int) < of_char d" using ab bd by fastforce
    then show ?thesis by (auto simp: u)
  qed
qed

definition usecs :: "timeval \<Rightarrow> int" where
  "usecs t = tv_sec t * 1000000 + tv_usec t"

lemma timeval_add_usecs: "usecs (timeval_add a b) = usecs a + usecs b"
  by (simp add: timeval_add_def usecs_def Let_def)

lemma timeval_subtract_usecs: "usecs (timeval_subtract a b) = usecs a - usecs b"
  by (simp add: timeval_subtract_def usecs_def Let_def)

lemma timeval_ok_arith:
  assumes "timeval_ok a" "timeval_ok b"
  shows "timeval_ok (timeval_add a b)" "timeval_ok (timeval_subtract a b)"
  using assms by (auto simp: timeval_ok_def timeval_add_def timeval_subtract_def Let_def)

lemma timeval_usecs_inject:
  fixes a b :: timeval
  assumes "timeval_ok a" "timeval_ok b" "usecs a = usecs b"
  shows "a = b"
proof -
  have m: "tv_usec t = usecs t mod 1000000" "tv_sec t = usecs t div 1000000" if "timeval_ok t" for t :: timeval
    using that by (simp_all add: usecs_def timeval_ok_def mod_pos_pos_trivial div_pos_pos_trivial)
  have "tv_usec a = tv_usec b" "tv_sec a = tv_sec b"
    by (simp_all only: m [OF assms(1)] m [OF assms(2)] assms(3))
  then show ?thesis by simp
qed

lemma timeval_compare_usecs:
  assumes "timeval_ok a" "timeval_ok b"
  shows "timeval_compare a b = Inr (sgn (usecs a - usecs b))"
proof -
  have "tv_sec a < tv_sec b \<Longrightarrow> usecs a < usecs b" "tv_sec b < tv_sec a \<Longrightarrow> usecs b < usecs a"
    using assms by (auto simp: usecs_def timeval_ok_def)
  moreover have "tv_sec a = tv_sec b \<Longrightarrow> usecs a - usecs b = tv_usec a - tv_usec b"
    by (simp add: usecs_def)
  ultimately show ?thesis
    using assms unfolding timeval_compare_def
    by (cases "tv_sec a" "tv_sec b" rule: linorder_cases) (auto simp: sgn_if)
qed

text \<open>The earliest and the latest of a log's timestamps, as the tools accumulate them.\<close>

definition time_range :: "timeval list \<Rightarrow> timeval \<times> timeval \<Rightarrow> fault + (timeval \<times> timeval)" where
  "time_range ts = fold (\<lambda>t r. ebind r (\<lambda>(lo, hi). ebind (timeval_set_to_min lo t) (\<lambda>lo.
     ebind (timeval_set_to_max hi t) (\<lambda>hi. Inr (lo, hi))))) ts \<circ> Inr"

definition bounds_of :: "timeval list \<Rightarrow> timeval \<times> timeval \<Rightarrow> bool" where
  "bounds_of ts = (\<lambda>(lo, hi).
     let ts' = filter (\<lambda>t. \<not> timeval_is_zero t) ts in
     if ts' = [] then timeval_is_zero lo \<and> timeval_is_zero hi
     else lo \<in> set ts' \<and> hi \<in> set ts' \<and> (\<forall>t \<in> set ts'. usecs lo \<le> usecs t \<and> usecs t \<le> usecs hi))"

lemma bounds_of_snoc:
  assumes "bounds_of ts (lo, hi)" "\<forall>t \<in> set ts. timeval_ok t" "timeval_ok t"
  shows "\<exists>lo' hi'. timeval_set_to_min lo t = Inr lo' \<and> timeval_set_to_max hi t = Inr hi' \<and>
    bounds_of (ts @ [t]) (lo', hi')"
proof (cases "timeval_is_zero t")
  case True
  then show ?thesis using assms(1) by (simp add: timeval_set_to_min_def timeval_set_to_max_def bounds_of_def)
next
  case nz: False
  let ?ts = "filter (\<lambda>t. \<not> timeval_is_zero t) ts"
  show ?thesis
  proof (cases "?ts = []")
    case True
    then show ?thesis using assms(1) nz
      by (simp add: timeval_set_to_min_def timeval_set_to_max_def bounds_of_def)
  next
    case False
    then have b: "lo \<in> set ?ts" "hi \<in> set ?ts" "\<forall>u \<in> set ?ts. usecs lo \<le> usecs u \<and> usecs u \<le> usecs hi"
      using assms(1) by (simp_all add: bounds_of_def Let_def)
    have c: "timeval_compare lo t = Inr (sgn (usecs lo - usecs t))" "timeval_compare hi t = Inr (sgn (usecs hi - usecs t))"
      using timeval_compare_usecs assms(2,3) b(1,2) by auto
    have "timeval_set_to_min lo t = Inr (if usecs t < usecs lo then t else lo)"
      "timeval_set_to_max hi t = Inr (if usecs hi < usecs t then t else hi)"
      using b(1,2) c nz by (auto simp: timeval_set_to_min_def timeval_set_to_max_def sgn_if)
    moreover have "bounds_of (ts @ [t]) (if usecs t < usecs lo then t else lo, if usecs hi < usecs t then t else hi)"
      using b nz False by (fastforce simp: bounds_of_def Let_def)
    ultimately show ?thesis by simp
  qed
qed

lemma time_range_bounds:
  assumes "\<forall>t \<in> set ts. timeval_ok t" "timeval_is_zero z"
  shows "\<exists>lo hi. time_range ts (z, z) = Inr (lo, hi) \<and> bounds_of ts (lo, hi)"
  using assms(1)
proof (induction ts rule: rev_induct)
  case Nil
  then show ?case using assms(2) by (simp add: time_range_def bounds_of_def)
next
  case (snoc t ts)
  then obtain lo hi where "time_range ts (z, z) = Inr (lo, hi)" "bounds_of ts (lo, hi)" by auto
  with bounds_of_snoc [of ts lo hi t] snoc.prems show ?case
    by (auto simp: time_range_def)
qed

section \<open>Lemmas: the checked heap\<close>

interpretation ptab: chained_table "mi_ptr :: meminfo \<Rightarrow> ptr" hashptr HASHTABLE_SIZE
  by unfold_locales (simp add: hashptr_def HASHTABLE_SIZE_def)

lemma heap_ok_init: "heap_ok heap_init"
  using ptab.wf_empty ptab.find_empty by (simp add: heap_ok_def heap_init_def live_def meminfo_find_def)

lemma live_init [simp]: "live heap_init = Map.empty"
  using ptab.find_empty by (simp add: fun_eq_iff heap_init_def live_def meminfo_find_def)

lemma heap_ok_events [simp]: "heap_ok (s\<lparr>heap_events := es\<rparr>) = heap_ok s"
  by (simp add: heap_ok_def live_def meminfo_find_def)

lemma live_events [simp]: "live (s\<lparr>heap_events := es\<rparr>) = live s"
  by (simp add: fun_eq_iff live_def meminfo_find_def)

lemma live_allocs: "live s = table_find mi_ptr hashptr (allocs s)"
  by (simp add: fun_eq_iff live_def meminfo_find_def)

lemma register_refines:
  assumes "heap_ok s" "r \<noteq> 0" "live s r = None"
  shows "\<exists>t. meminfo_register r c sz ty f l s = Ret () t \<and> heap_ok t \<and> live t = (live s)(r \<mapsto> info r c sz ty f l)"
proof -
  let ?e = "info r c sz ty f l" and ?a = "table_add mi_ptr hashptr (info r c sz ty f l) (allocs s)"
  have wf: "table_wf mi_ptr hashptr HASHTABLE_SIZE (allocs s)" and none: "table_find mi_ptr hashptr (allocs s) (mi_ptr ?e) = None"
    using assms by (simp_all add: heap_ok_def live_allocs info_def)
  have "table_find mi_ptr hashptr ?a = (table_find mi_ptr hashptr (allocs s))(r \<mapsto> ?e)"
    using ptab.find_add [OF wf none] by (simp add: info_def)
  moreover have "table_wf mi_ptr hashptr HASHTABLE_SIZE ?a" by (rule ptab.add_wf [OF wf none])
  ultimately have "heap_ok (s\<lparr>allocs := ?a\<rparr>) \<and> live (s\<lparr>allocs := ?a\<rparr>) = (live s)(r \<mapsto> ?e)"
    using assms by (simp add: heap_ok_def live_allocs)
  moreover have "meminfo_register r c sz ty f l s = Ret () (s\<lparr>allocs := ?a\<rparr>)"
    using assms by (simp add: meminfo_register_def info_def heap_ok_def live_def)
  ultimately show ?thesis by simp
qed

lemma unregister_refines:
  assumes "heap_ok s"
  shows "case release p (live s) of
      None \<Rightarrow> \<not> returns (meminfo_unregister p s)
    | Some m \<Rightarrow> \<exists>mi t. meminfo_unregister p s = Ret mi t \<and> heap_ok t \<and> live t = m"
proof -
  let ?t = "s\<lparr>allocs := table_remove mi_ptr hashptr p (allocs s)\<rparr>"
  have wf: "table_wf mi_ptr hashptr HASHTABLE_SIZE (allocs s)" using assms by (simp add: heap_ok_def)
  have "live ?t = (live s)(p := None)" using ptab.find_remove [OF wf] by (simp add: live_allocs)
  moreover have "heap_ok ?t" using assms ptab.remove_wf [OF wf] calculation by (simp add: heap_ok_def)
  ultimately show ?thesis
    using assms by (auto simp: release_def meminfo_unregister_def live_def split: option.splits)
qed

lemma alloc_multiply_fits:
  assumes "sz \<noteq> 0"
  shows "alloc_multiply c sz s = (if fits c sz then Ret (c * sz) s else alloc_error s)"
proof -
  have pos: "unat sz > 0" using assms by (simp add: unat_gt_0)
  have "c * sz div sz = c \<longleftrightarrow> fits c sz"
  proof
    assume "fits c sz"
    then have "unat (c * sz) = unat c * unat sz" using unat_mult_lem [of c sz] by (simp add: fits_def)
    then have "unat (c * sz div sz) = unat c" using pos by (simp add: unat_div)
    then show "c * sz div sz = c" by (simp only: word_unat_eq_iff)
  next
    assume "c * sz div sz = c"
    then have "unat (c * sz) div unat sz = unat c" by (metis unat_div)
    then have "unat c * unat sz \<le> unat (c * sz)" by (metis div_times_less_eq_dividend)
    then show "fits c sz" using unsigned_less [where ?'a = nat, of "c * sz"] by (simp add: fits_def)
  qed
  then show ?thesis by (simp add: alloc_multiply_def Let_def)
qed

lemma free_refines:
  assumes "heap_ok s"
  shows "case release p (live s) of
      None \<Rightarrow> \<not> returns (free_checked p s)
    | Some m \<Rightarrow> \<exists>t. free_checked p s = Ret () t \<and> heap_ok t \<and> live t = m"
proof (cases "release p (live s)")
  case None
  then show ?thesis using unregister_refines [OF assms, of p]
    by (cases "meminfo_unregister p s") (auto simp: free_checked_def)
next
  case (Some m)
  then obtain mi t where "meminfo_unregister p s = Ret mi t" "heap_ok t" "live t = m"
    using unregister_refines [OF assms, of p] by auto
  then show ?thesis using Some by (auto simp: free_checked_def Let_def split: option.splits)
qed

lemma op_refines:
  assumes "heap_ok s" "allocator_ok x (live s)"
  shows "case spec_op x (live s) of
      None \<Rightarrow> \<not> returns (run_op x s)
    | Some m \<Rightarrow> \<exists>r t. run_op x s = Ret r t \<and> heap_ok t \<and> live t = m"
proof (cases x)
  case (Op_calloc r c sz ty f l)
  then show ?thesis
    using register_refines [OF assms(1), of r c sz ty f l] assms by (auto simp: calloc_checked_def)
next
  case (Op_malloc r c sz ty f l)
  then show ?thesis
    using register_refines [OF assms(1), of r c sz ty f l] assms
    by (auto simp: malloc_checked_def alloc_multiply_fits alloc_error_def)
next
  case (Op_free p)
  then show ?thesis using free_refines [OF assms(1), of p]
    by (cases "free_checked p s") (auto split: option.splits)
next
  case (Op_strdup r str f l)
  then show ?thesis
    using register_refines [OF assms(1), of r "of_nat (length (the str)) + 1" 1 "''char''" f l] assms
    by (cases str) (auto simp: strdup_checked_def)
next
  case (Op_realloc r p c sz ty f l)
  show ?thesis
  proof (cases "release p (live s)")
    case None
    then have "\<not> returns (meminfo_unregister p s)" "p \<noteq> 0"
      using unregister_refines [OF assms(1), of p] by (auto simp: release_def split: if_splits)
    then show ?thesis using None Op_realloc
      by (auto simp: realloc_checked_def free_checked_def returns_iff obind_eq_Ret)
  next
    case (Some m)
    then obtain mi t where t: "meminfo_unregister p s = Ret mi t" "heap_ok t" "live t = m"
      using unregister_refines [OF assms(1), of p] by auto
    have "r \<noteq> 0" "live t r = None"
      using assms(2) Some unfolding t(3) Op_realloc by (auto simp: release_def split: if_splits)
    note reg = register_refines [OF t(2) this, of c sz ty f l]
    show ?thesis
    proof (cases "c = 0 \<or> sz = 0")
      case True
      then show ?thesis using Some free_refines [OF assms(1), of p] Op_realloc assms(1)
        by (auto simp: realloc_checked_def release_def split: if_splits)
    next
      case False
      then show ?thesis using Some t Op_realloc reg \<open>r \<noteq> 0\<close>
        by (auto simp: realloc_checked_def alloc_multiply_fits alloc_error_def)
    qed
  qed
qed

lemma ops_refine:
  assumes "heap_ok s" "allocator_ok_ops xs (live s)"
  shows "case spec_ops xs (live s) of
      None \<Rightarrow> \<not> returns (run_ops xs s)
    | Some m \<Rightarrow> \<exists>t. run_ops xs s = Ret () t \<and> heap_ok t \<and> live t = m"
  using assms
proof (induction xs arbitrary: s)
  case (Cons x xs)
  have step: "case spec_op x (live s) of None \<Rightarrow> \<not> returns (run_op x s)
    | Some m \<Rightarrow> \<exists>r t. run_op x s = Ret r t \<and> heap_ok t \<and> live t = m"
    using op_refines Cons.prems by simp
  show ?case
  proof (cases "spec_op x (live s)")
    case None
    then show ?thesis using step by (cases "run_op x s") auto
  next
    case (Some m)
    then obtain r t where "run_op x s = Ret r t" "heap_ok t" "live t = m" using step by auto
    then show ?thesis using Cons.IH [of t] Cons.prems Some by (auto split: option.splits)
  qed
qed simp

section \<open>Lemmas: the allocation report\<close>

text \<open>The allocation site of a block and of a summary.\<close>

definition site_of :: "meminfo \<Rightarrow> 64 word \<times> string \<times> string \<times> int" where
  "site_of mi = (mi_size mi, mi_type mi, mi_file mi, mi_line mi)"

definition sum_site :: "meminfo_summary \<Rightarrow> 64 word \<times> string \<times> string \<times> int" where
  "sum_site sm = (sum_size sm, sum_type sm, sum_file sm, sum_line sm)"

definition site_entry :: "meminfo list \<Rightarrow> 64 word \<times> string \<times> string \<times> int \<Rightarrow> meminfo_summary" where
  "site_entry mis = (\<lambda>(sz, ty, f, l).
     let here = filter (\<lambda>mi. site_of mi = (sz, ty, f, l)) mis in
     \<lparr>count_ptr = of_nat (length here), count_type = sum_list (map mi_count here),
      sum_size = sz, sum_type = ty, sum_file = f, sum_line = l\<rparr>)"

definition c_strings :: "meminfo \<Rightarrow> bool" where
  "c_strings mi = (NUL \<notin> set (mi_type mi) \<and> NUL \<notin> set (mi_file mi))"

text \<open>The sites in the order of their first blocks.\<close>

fun sites :: "meminfo list \<Rightarrow> (64 word \<times> string \<times> string \<times> int) list" where
  "sites [] = []"
| "sites (mi # mis) = site_of mi # filter (\<lambda>x. x \<noteq> site_of mi) (sites mis)"

lemma set_sites: "set (sites mis) = site_of ` set mis"
  by (induction mis) auto

lemma sites_snoc: "sites (mis @ [mi]) = (if site_of mi \<in> site_of ` set mis then sites mis else sites mis @ [site_of mi])"
  by (induction mis) (auto simp: set_sites)

lemma distinct_sites: "distinct (sites mis)"
  by (induction mis) auto

lemma same_site_iff:
  "c_strings mi \<Longrightarrow> NUL \<notin> set (sum_type sm) \<Longrightarrow> NUL \<notin> set (sum_file sm) \<Longrightarrow>
   same_site mi sm \<longleftrightarrow> sum_site sm = site_of mi"
  by (auto simp: same_site_def strcmp_eq_0 c_strings_def site_of_def sum_site_def)

lemma sum_site_entry [simp]: "sum_site (site_entry mis x) = x"
  by (cases x) (simp add: site_entry_def sum_site_def Let_def)

lemma site_entry_snoc:
  "site_entry (mis @ [mi]) x =
    (let sm = site_entry mis x in
     if site_of mi = x then sm\<lparr>count_ptr := count_ptr sm + 1, count_type := count_type sm + mi_count mi\<rparr> else sm)"
  by (cases x) (simp add: site_entry_def Let_def add.commute)

lemma summary_bump_entries:
  assumes "c_strings mi" "\<forall>x \<in> set xs. \<exists>mi'. c_strings mi' \<and> site_of mi' = x" "distinct xs"
  shows "summary_bump mi (map (site_entry mis) xs) =
    (if site_of mi \<in> set xs then Some (map (site_entry (mis @ [mi])) xs) else None)"
  using assms(2,3)
proof (induction xs)
  case (Cons x xs)
  then obtain mi' where mi': "c_strings mi'" "site_of mi' = x" by auto
  have same: "same_site mi (site_entry mis x) \<longleftrightarrow> x = site_of mi"
    using mi' assms(1) sum_site_entry [of mis x]
    by (subst same_site_iff) (auto simp: c_strings_def site_of_def sum_site_def)
  show ?case
  proof (cases "x = site_of mi")
    case True
    then have "map (site_entry (mis @ [mi])) xs = map (site_entry mis) xs"
      using Cons.prems by (auto simp: site_entry_snoc Let_def)
    then show ?thesis using same True by (simp add: site_entry_snoc Let_def)
  next
    case False
    then show ?thesis using Cons same by (auto simp: site_entry_snoc Let_def)
  qed
qed simp

lemma summarize_sites:
  assumes "\<forall>mi \<in> set mis. c_strings mi" "length (sites mis) \<le> SUMMARY_COUNT"
  shows "fold meminfo_summarize_add mis [] = map (site_entry mis) (sites mis)"
  using assms
proof (induction mis rule: rev_induct)
  case (snoc mi mis)
  have le: "length (sites mis) \<le> SUMMARY_COUNT"
    using snoc.prems by (simp add: sites_snoc split: if_splits)
  have IH: "fold meminfo_summarize_add mis [] = map (site_entry mis) (sites mis)"
    using snoc le by simp
  have bump: "summary_bump mi (map (site_entry mis) (sites mis)) =
      (if site_of mi \<in> set (sites mis) then Some (map (site_entry (mis @ [mi])) (sites mis)) else None)"
    using snoc.prems by (intro summary_bump_entries distinct_sites) (auto simp: set_sites)
  show ?case
  proof (cases "site_of mi \<in> site_of ` set mis")
    case True
    then show ?thesis using IH bump by (simp add: meminfo_summarize_add_def [of mi] sites_snoc set_sites)
  next
    case False
    then have "filter (\<lambda>m. site_of m = site_of mi) mis = []" by (force simp: filter_empty_conv image_iff)
    moreover have "map (site_entry (mis @ [mi])) (sites mis) = map (site_entry mis) (sites mis)"
      using False by (auto simp: site_entry_snoc Let_def set_sites)
    ultimately show ?thesis
      using IH bump False snoc.prems(2)
      by (simp add: meminfo_summarize_add_def [of mi] sites_snoc set_sites site_entry_def site_of_def)
  qed
qed simp

section \<open>Lemmas: the line counter\<close>

text \<open>The hash with which the tools add a line.\<close>

definition line_hash :: "string \<times> int \<Rightarrow> 64 word" where
  "line_hash = (\<lambda>(p, l). hashstr p + word_of_int l)"

definition line_bucket :: "string \<times> int \<Rightarrow> nat" where
  "line_bucket k = unat (line_hash k) mod LINECOUNTER_HASHTABLE_SIZE"

definition hashed :: "linepath \<Rightarrow> bool" where
  "hashed lp = (\<forall>p \<in> set_option (lp_path lp). lp_hash lp = line_hash (p, lp_line lp))"

definition keys_of :: "linepath list \<Rightarrow> (string \<times> int) set" where
  "keys_of lps = {(p, l). \<exists>lp \<in> set lps. lp_path lp = Some p \<and> lp_line lp = l}"

interpretation ltab: chained_table "id :: string \<times> int \<Rightarrow> string \<times> int" line_bucket LINECOUNTER_HASHTABLE_SIZE
  by unfold_locales (simp add: line_bucket_def LINECOUNTER_HASHTABLE_SIZE_def)

definition lc_inv :: "(string \<times> int) set \<Rightarrow> linecounter_state \<Rightarrow> bool" where
  "lc_inv ks s = (table_wf id line_bucket LINECOUNTER_HASHTABLE_SIZE (lc_hashtable s) \<and>
     set (concat (lc_hashtable s)) = ks \<and> lc_count s = int (card ks))"

lemma lc_inv_init: "lc_inv {} linecounter_init"
  using ltab.wf_empty by (simp add: lc_inv_def linecounter_init_def)

lemma lc_inv_add:
  assumes "lc_inv ks s" "hashed lp"
  shows "lc_inv (ks \<union> keys_of [lp]) (linecounter_add lp s)"
proof (cases "lp_path lp")
  case None
  then show ?thesis using assms by (simp add: linecounter_add_def keys_of_def)
next
  case (Some p)
  let ?k = "(p, lp_line lp)" and ?t = "lc_hashtable s"
  have wf: "table_wf id line_bucket LINECOUNTER_HASHTABLE_SIZE ?t" and ks: "set (concat ?t) = ks" "finite ks"
    using assms(1) by (auto simp: lc_inv_def)
  have b: "unat (lp_hash lp) mod LINECOUNTER_HASHTABLE_SIZE = line_bucket ?k"
    using assms(2) Some by (simp add: hashed_def line_bucket_def)
  have key: "keys_of [lp] = {?k}" using Some by (auto simp: keys_of_def)
  have found: "chain_find id ?k (?t ! line_bucket ?k) = table_find id line_bucket ?t ?k"
    by (simp add: table_find_def)
  show ?thesis
  proof (cases "table_find id line_bucket ?t ?k")
    case None
    then have new: "?k \<notin> ks" using ltab.find_None_iff [OF wf, of ?k] ks(1) by (simp del: set_concat)
    have "linecounter_add lp s = s\<lparr>lc_hashtable := table_add id line_bucket ?k ?t, lc_count := lc_count s + 1\<rparr>"
      using None Some b found by (simp add: linecounter_add_def table_add_def Let_def)
    moreover have "table_wf id line_bucket LINECOUNTER_HASHTABLE_SIZE (table_add id line_bucket ?k ?t)"
      using ltab.add_wf [OF wf] None by simp
    moreover have "set (concat (table_add id line_bucket ?k ?t)) = insert ?k ks"
      using arg_cong [OF ltab.entries_add [OF wf, of ?k], of set_mset] ks by (simp only: set_mset_mset set_mset_add_mset_insert)
    ultimately show ?thesis using assms(1) ks new key by (simp add: lc_inv_def)
  next
    case (Some e)
    then have "?k \<in> ks" using ltab.find_iff [OF wf, of ?k e] ks by auto
    moreover have "linecounter_add lp s = s"
      using Some \<open>lp_path lp = Some p\<close> b found by (simp add: linecounter_add_def Let_def)
    ultimately show ?thesis using assms(1) key by (simp add: insert_absorb)
  qed
qed

lemma keys_of_append: "keys_of (xs @ ys) = keys_of xs \<union> keys_of ys"
  by (auto simp: keys_of_def)

lemma lc_inv_fold:
  "lc_inv ks s \<Longrightarrow> \<forall>lp \<in> set lps. hashed lp \<Longrightarrow> lc_inv (ks \<union> keys_of lps) (fold linecounter_add lps s)"
proof (induction lps arbitrary: ks s)
  case (Cons lp lps)
  then have "lc_inv (ks \<union> keys_of [lp] \<union> keys_of lps) (fold linecounter_add lps (linecounter_add lp s))"
    using lc_inv_add by simp
  moreover have "keys_of (lp # lps) = keys_of [lp] \<union> keys_of lps"
    using keys_of_append [of "[lp]" lps] by simp
  ultimately show ?case by (simp add: Un_assoc)
qed (simp add: keys_of_def)

section \<open>Properties\<close>

text \<open>
  C25 (refinement): a program that allocates and frees only through the checked functions is
  stopped by them exactly where it frees or reallocates a pointer that is not live (a double
  free, or a pointer from elsewhere) or asks for more bytes than a size can express; until
  then the allocation table is the map of live blocks with their sizes and sites. The C
  library is assumed to return blocks that are not live.
\<close>
theorem checked_heap_tracks_live_blocks:
  assumes "allocator_ok_ops xs Map.empty"
  shows "case spec_ops xs Map.empty of
      None \<Rightarrow> \<not> returns (run_ops xs heap_init)
    | Some m \<Rightarrow> \<exists>t. run_ops xs heap_init = Ret () t \<and> (\<forall>p. meminfo_find p t = m p)"
  using ops_refine [OF heap_ok_init, of xs] assms
  by (auto simp: live_def fun_eq_iff split: option.splits)

definition ex_ops :: "heap_op list" where
  "ex_ops = [Op_malloc 0x1000 2 8 ''int'' ''a.c'' 3, Op_realloc 0x2000 0x1000 4 8 ''int'' ''a.c'' 5]"

theorem checked_heap_tracks_live_blocks_witness:
  "(\<exists>t. run_ops ex_ops heap_init = Ret () t \<and> meminfo_find 0x1000 t = None \<and>
      meminfo_find 0x2000 t = Some (info 0x2000 4 8 ''int'' ''a.c'' 5)) \<and>
   \<not> returns (run_ops (ex_ops @ [Op_free 0x1000]) heap_init)"
proof -
  have "\<exists>t. run_ops ex_ops heap_init = Ret () t \<and> meminfo_find 0x1000 t = None \<and>
      meminfo_find 0x2000 t = Some (info 0x2000 4 8 ''int'' ''a.c'' 5)"
    using checked_heap_tracks_live_blocks [of ex_ops]
    by (auto simp: ex_ops_def fits_def release_def)
  moreover have "\<not> returns (run_ops (ex_ops @ [Op_free 0x1000]) heap_init)"
    using checked_heap_tracks_live_blocks [of "ex_ops @ [Op_free 0x1000]"]
    by (simp add: ex_ops_def fits_def release_def)
  ultimately show ?thesis by blast
qed

text \<open>
  The allocation report has one line per allocation site, in the order of
  the table, with the number of blocks of the site and the sum of their element counts, as
  long as there are at most 4096 sites.
\<close>
theorem allocation_report_sums_sites:
  assumes "\<forall>mi \<in> set (concat (allocs s)). c_strings mi" "length (sites (concat (allocs s))) \<le> SUMMARY_COUNT"
  shows "meminfo_summarize s = map (site_entry (concat (allocs s))) (sites (concat (allocs s)))"
  unfolding meminfo_summarize_def using assms by (rule summarize_sites)

definition ex_heap :: heap_debug where
  "ex_heap = \<lparr>allocs = [[info 16 2 8 ''int'' ''a.c'' 3, info 32 5 1 ''char'' ''b.c'' 9],
     [info 48 7 8 ''int'' ''a.c'' 3]], meta_room = True, heap_events = []\<rparr>"

theorem allocation_report_sums_sites_witness:
  "meminfo_summarize ex_heap =
     [\<lparr>count_ptr = 2, count_type = 9, sum_size = 8, sum_type = ''int'', sum_file = ''a.c'', sum_line = 3\<rparr>,
      \<lparr>count_ptr = 1, count_type = 5, sum_size = 1, sum_type = ''char'', sum_file = ''b.c'', sum_line = 9\<rparr>]"
  by (subst allocation_report_sums_sites)
    (simp_all add: ex_heap_def info_def c_strings_def site_of_def site_entry_def SUMMARY_COUNT_def)

text \<open>
  The line counter counts the distinct lines it is given, whatever
  collisions their hashes have, and ignores lines without a path.
\<close>
theorem linecounter_counts_distinct_lines:
  assumes "\<forall>lp \<in> set lps. hashed lp"
  shows "lc_count (fold linecounter_add lps linecounter_init) = int (card (keys_of lps))"
  using lc_inv_fold [OF lc_inv_init assms] by (simp add: lc_inv_def)

definition mk_line :: "string \<Rightarrow> int \<Rightarrow> linepath" where
  "mk_line p l = \<lparr>lp_path = Some p, lp_pathFixed = None, lp_line = l, lp_hash = hashstr p + word_of_int l\<rparr>"

theorem linecounter_counts_distinct_lines_witness:
  "lc_count (fold linecounter_add [mk_line ''a'' 1, mk_line ''a'' 2, mk_line ''a'' 1] linecounter_init) = 2"
proof -
  have "keys_of [mk_line ''a'' 1, mk_line ''a'' 2, mk_line ''a'' 1] = {(''a'', 1), (''a'', 2)}"
    by (auto simp: keys_of_def mk_line_def)
  then show ?thesis
    using linecounter_counts_distinct_lines [of "[mk_line ''a'' 1, mk_line ''a'' 2, mk_line ''a'' 1]"]
    by (simp add: hashed_def mk_line_def line_hash_def)
qed

text \<open>
  From zero, accumulating times with set\_to\_min and set\_to\_max never
  fails an assertion and yields the earliest and the latest of the times that are not zero;
  durations computed from them are exact, since subtracting and adding normalised times are
  inverse to each other.
\<close>
theorem time_range_and_duration:
  assumes "\<forall>t \<in> set ts. timeval_ok t" "timeval_ok a" "timeval_ok b"
  shows "(\<exists>r. time_range ts (\<lparr>tv_sec = 0, tv_usec = 0\<rparr>, \<lparr>tv_sec = 0, tv_usec = 0\<rparr>) = Inr r \<and> bounds_of ts r) \<and>
    timeval_add (timeval_subtract a b) b = a \<and> timeval_subtract (timeval_add a b) b = a"
proof -
  have "timeval_add (timeval_subtract a b) b = a" "timeval_subtract (timeval_add a b) b = a"
    using timeval_ok_arith assms(2,3)
    by (auto intro!: timeval_usecs_inject simp: timeval_add_usecs timeval_subtract_usecs)
  with time_range_bounds [OF assms(1), of "\<lparr>tv_sec = 0, tv_usec = 0\<rparr>"] show ?thesis
    by (auto simp: timeval_is_zero_def)
qed

definition tv :: "int \<Rightarrow> int \<Rightarrow> timeval" where
  "tv s u = \<lparr>tv_sec = s, tv_usec = u\<rparr>"

theorem time_range_and_duration_witness:
  "(\<exists>r. time_range [tv 5 1, tv 0 0, tv 4 999999] (tv 0 0, tv 0 0) = Inr r \<and>
      bounds_of [tv 5 1, tv 0 0, tv 4 999999] r) \<and>
   timeval_subtract (tv 5 1) (tv 4 999999) = tv 0 2 \<and> timeval_add (tv 0 2) (tv 4 999999) = tv 5 1"
proof -
  have "timeval_subtract (tv 5 1) (tv 4 999999) = tv 0 2"
    by (simp add: timeval_subtract_def tv_def)
  then show ?thesis
    using time_range_and_duration [of "[tv 5 1, tv 0 0, tv 4 999999]" "tv 5 1" "tv 4 999999"]
    by (simp add: timeval_ok_def tv_def)
qed

end
