(* ===== verification/Mapfile.thy ===== *)
theory Mapfile
  imports Prelude
begin

text \<open>
  The map file the fault-injection pass writes (\<^verbatim>\<open>passes/edfi/MapFile.cpp\<close>) and the
  analysis tools read (\<^verbatim>\<open>tools/mapprint/mapparse.c\<close>). A file is its list of bytes; the
  reader's callbacks are the list of records it delivers, in order. Every exit of the reader
  is an error value.
\<close>

section \<open>Records and bytes\<close>

datatype map_record =
    Rec_module_name string
  | Rec_function string string
  | Rec_basic_block
  | Rec_instruction
  | Rec_dinstruction string "32 word"
  | Rec_fault_candidate string
  | Rec_fault_injected string

datatype map_error =
    EOF_in_string
  | EOF_in_integer
  | Undefined_shift
  | Invalid_string_ref "32 word" nat
  | Unknown_record byte

definition byte_of :: "char \<Rightarrow> byte" where
  "byte_of ch = of_nat (of_char ch)"

definition char_at :: "byte \<Rightarrow> char" where
  "char_at b = char_of (unat b)"

definition MAPFILE_STRING :: byte where "MAPFILE_STRING = 1"
definition MAPFILE_FUNCTION :: byte where "MAPFILE_FUNCTION = 2"
definition MAPFILE_BASIC_BLOCK :: byte where "MAPFILE_BASIC_BLOCK = 3"
definition MAPFILE_INSTRUCTION :: byte where "MAPFILE_INSTRUCTION = 4"
definition MAPFILE_DINSTRUCTION :: byte where "MAPFILE_DINSTRUCTION = 5"
definition MAPFILE_FAULT_CANDIDATE :: byte where "MAPFILE_FAULT_CANDIDATE = 6"
definition MAPFILE_FAULT_INJECTED :: byte where "MAPFILE_FAULT_INJECTED = 7"
definition MAPFILE_MODULE_NAME :: byte where "MAPFILE_MODULE_NAME = 8"

lemmas mapfile_types = MAPFILE_STRING_def MAPFILE_FUNCTION_def MAPFILE_BASIC_BLOCK_def
  MAPFILE_INSTRUCTION_def MAPFILE_DINSTRUCTION_def MAPFILE_FAULT_CANDIDATE_def
  MAPFILE_FAULT_INJECTED_def MAPFILE_MODULE_NAME_def

section \<open>The writer\<close>

record map_file =
  mf_file :: "byte list"
  strings :: "string \<rightharpoonup> 32 word"
  stringRefNext :: "32 word"

definition put :: "byte \<Rightarrow> map_file \<Rightarrow> map_file" where
  "put b f = f\<lparr>mf_file := mf_file f @ [b]\<rparr>"

definition getStringRef :: "string \<Rightarrow> map_file \<Rightarrow> 32 word \<times> map_file" where
  "getStringRef s f =
     (case strings f s of
        Some r \<Rightarrow> (r, f)
      | None \<Rightarrow>
          let f = put MAPFILE_STRING f;
              f = f\<lparr>mf_file := mf_file f @ map byte_of s @ [0]\<rparr>;
              f = f\<lparr>strings := (strings f)(s \<mapsto> stringRefNext f)\<rparr>
          in (stringRefNext f, f\<lparr>stringRefNext := stringRefNext f + 1\<rparr>))"

text \<open>The bytes \<^verbatim>\<open>writeInt\<close> puts: seven bits each, the lowest first, the top bit set on all but the last.\<close>

function writeInt_bytes :: "64 word \<Rightarrow> byte list" where
  "writeInt_bytes v =
     (let b = ucast (v AND 0x7f) :: byte; v' = drop_bit 7 v
      in if v' = 0 then [b] else (b OR 0x80) # writeInt_bytes v')"
  by pat_completeness auto
termination
proof (relation "measure unat")
  fix b :: byte and v v' :: "64 word"
  assume v: "v' = drop_bit 7 v" "v' \<noteq> 0"
  have "unat v' = unat v div 128"
    using v(1) by (simp add: drop_bit_eq_div unat_div)
  moreover have "v \<noteq> 0" using v by auto
  then have "unat v \<noteq> 0" by (simp add: unat_eq_0)
  ultimately show "(v', v) \<in> measure unat" by simp
qed simp

declare writeInt_bytes.simps [simp del]

definition writeInt :: "64 word \<Rightarrow> map_file \<Rightarrow> map_file" where
  "writeInt v f = f\<lparr>mf_file := mf_file f @ writeInt_bytes v\<rparr>"

definition writeStringRef :: "32 word \<Rightarrow> map_file \<Rightarrow> map_file" where
  "writeStringRef r f = writeInt (ucast r) f"

definition writeModuleName :: "string \<Rightarrow> map_file \<Rightarrow> map_file" where
  "writeModuleName name f =
     (let (r, f) = getStringRef name f in writeStringRef r (put MAPFILE_MODULE_NAME f))"

definition writeBasicBlock :: "map_file \<Rightarrow> map_file" where
  "writeBasicBlock f = put MAPFILE_BASIC_BLOCK f"

definition writeInstruction :: "map_file \<Rightarrow> map_file" where
  "writeInstruction f = put MAPFILE_INSTRUCTION f"

definition writeDInstruction :: "string \<Rightarrow> 32 word \<Rightarrow> map_file \<Rightarrow> map_file" where
  "writeDInstruction path line f =
     (let (r, f) = getStringRef path f
      in writeInt (ucast line) (writeStringRef r (put MAPFILE_DINSTRUCTION f)))"

definition writeFaultCandidate :: "string \<Rightarrow> map_file \<Rightarrow> map_file" where
  "writeFaultCandidate name f =
     (let (r, f) = getStringRef name f in writeStringRef r (put MAPFILE_FAULT_CANDIDATE f))"

definition writeFaultInjected :: "string \<Rightarrow> map_file \<Rightarrow> map_file" where
  "writeFaultInjected name f =
     (let (r, f) = getStringRef name f in writeStringRef r (put MAPFILE_FAULT_INJECTED f))"

definition writeFunction :: "string \<Rightarrow> string \<Rightarrow> map_file \<Rightarrow> map_file" where
  "writeFunction name relPath f =
     (let (rn, f) = getStringRef name f;
          (rp, f) = getStringRef relPath f
      in writeStringRef rp (writeStringRef rn (put MAPFILE_FUNCTION f)))"

text \<open>The constructor opens an empty file and writes the module name.\<close>

definition MapFile_new :: "string \<Rightarrow> map_file" where
  "MapFile_new moduleName =
     writeModuleName moduleName \<lparr>mf_file = [], strings = Map.empty, stringRefNext = 0\<rparr>"

primrec write_record :: "map_record \<Rightarrow> map_file \<Rightarrow> map_file" where
  "write_record (Rec_module_name s) f = writeModuleName s f"
| "write_record (Rec_function s p) f = writeFunction s p f"
| "write_record Rec_basic_block f = writeBasicBlock f"
| "write_record Rec_instruction f = writeInstruction f"
| "write_record (Rec_dinstruction p l) f = writeDInstruction p l f"
| "write_record (Rec_fault_candidate s) f = writeFaultCandidate s f"
| "write_record (Rec_fault_injected s) f = writeFaultInjected s f"

section \<open>The reader\<close>

fun string_read :: "byte list \<Rightarrow> map_error + (string \<times> byte list)" where
  "string_read [] = Inl EOF_in_string"
| "string_read (b # bs) =
     (if b = 0 then Inr ([], bs)
      else ebind (string_read bs) (\<lambda>(s, rest). Inr (char_at b # s, rest)))"

text \<open>
  The shifted value is an int: 32 bits, sign-extended into the unsigned long; a shift of 32
  or more is undefined. A shift into the sign bit is what GCC defines it to be, the shift of the
  unsigned bits: the fifth byte of a number above 2 to the 31 relies on it.
\<close>

fun int_read_loop :: "64 word \<Rightarrow> nat \<Rightarrow> byte list \<Rightarrow> map_error + (64 word \<times> byte list)" where
  "int_read_loop val shift [] = Inl EOF_in_integer"
| "int_read_loop val shift (b # bs) =
     (if shift \<ge> 32 then Inl Undefined_shift
      else let val = val OR scast (push_bit shift (ucast (b AND 0x7f) :: 32 word))
           in if b AND 0x80 \<noteq> 0 then int_read_loop val (shift + 7) bs else Inr (val, bs))"

definition int_read :: "byte list \<Rightarrow> map_error + (64 word \<times> byte list)" where
  "int_read bs = int_read_loop 0 0 bs"

definition stringref_read :: "byte list \<Rightarrow> map_error + (32 word \<times> byte list)" where
  "stringref_read bs = ebind (int_read bs) (\<lambda>(v, rest). Inr (ucast v, rest))"

definition stringref_get :: "32 word \<Rightarrow> string list \<Rightarrow> map_error + string" where
  "stringref_get ref strs =
     (if unat ref \<ge> length strs then Inl (Invalid_string_ref ref (length strs))
      else Inr (strs ! unat ref))"

text \<open>A record that is one string reference.\<close>

definition read_name :: "string list \<Rightarrow> byte list \<Rightarrow> map_error + (string \<times> byte list)" where
  "read_name strs bs =
     ebind (stringref_read bs) (\<lambda>(ref, bs). ebind (stringref_get ref strs) (\<lambda>s. Inr (s, bs)))"

text \<open>In files of the older format the function record's path is read and ignored.\<close>

definition read_function :: "bool \<Rightarrow> string list \<Rightarrow> byte list \<Rightarrow> map_error + (map_record \<times> byte list)" where
  "read_function hase2014 strs bs =
     ebind (read_name strs bs) (\<lambda>(name, bs).
     ebind (stringref_read bs) (\<lambda>(ref, bs).
     ebind (if hase2014 then Inr [] else stringref_get ref strs) (\<lambda>relPath.
     Inr (Rec_function name relPath, bs))))"

definition read_dinstruction :: "string list \<Rightarrow> byte list \<Rightarrow> map_error + (map_record \<times> byte list)" where
  "read_dinstruction strs bs =
     ebind (read_name strs bs) (\<lambda>(path, bs).
     ebind (int_read bs) (\<lambda>(line, bs). Inr (Rec_dinstruction path (ucast line), bs)))"

definition read_record :: "bool \<Rightarrow> string list \<Rightarrow> byte \<Rightarrow> byte list \<Rightarrow> map_error + (map_record \<times> byte list)" where
  "read_record hase2014 strs type bs =
     (if type = MAPFILE_FUNCTION then read_function hase2014 strs bs
      else if type = MAPFILE_BASIC_BLOCK then Inr (Rec_basic_block, bs)
      else if type = MAPFILE_INSTRUCTION then Inr (Rec_instruction, bs)
      else if type = MAPFILE_DINSTRUCTION then read_dinstruction strs bs
      else if type = MAPFILE_FAULT_CANDIDATE then
        ebind (read_name strs bs) (\<lambda>(s, bs). Inr (Rec_fault_candidate s, bs))
      else if type = MAPFILE_FAULT_INJECTED then
        ebind (read_name strs bs) (\<lambda>(s, bs). Inr (Rec_fault_injected s, bs))
      else if type = MAPFILE_MODULE_NAME then
        ebind (read_name strs bs) (\<lambda>(s, bs). Inr (Rec_module_name s, bs))
      else Inl (Unknown_record type))"

section \<open>Lemmas: the reader consumes its input\<close>

lemma string_read_shorter: "string_read bs = Inr (s, rest) \<Longrightarrow> length rest < length bs"
proof (induction bs arbitrary: s)
  case (Cons b bs)
  show ?case
  proof (cases "b = 0")
    case False
    with Cons.prems obtain s' where "string_read bs = Inr (s', rest)"
      by (cases "string_read bs") auto
    from Cons.IH [OF this] show ?thesis by simp
  qed (use Cons.prems in auto)
qed simp

lemma int_read_loop_shorter: "int_read_loop v k bs = Inr (w, rest) \<Longrightarrow> length rest < length bs"
  by (induction v k bs rule: int_read_loop.induct) (auto simp: Let_def split: if_splits)

lemma stringref_read_shorter: "stringref_read bs = Inr (r, rest) \<Longrightarrow> length rest < length bs"
  by (cases "int_read bs") (auto simp: stringref_read_def int_read_def dest: int_read_loop_shorter)

lemma read_name_shorter: "read_name strs bs = Inr (s, rest) \<Longrightarrow> length rest < length bs"
  by (auto simp: read_name_def ebind_eq_Inr dest: stringref_read_shorter)

lemma read_record_shorter: "read_record h strs type bs = Inr (r, rest) \<Longrightarrow> length rest \<le> length bs"
  by (auto simp: read_record_def read_function_def read_dinstruction_def ebind_eq_Inr int_read_def
      dest!: read_name_shorter stringref_read_shorter int_read_loop_shorter split: if_splits)

section \<open>The reader's main loop\<close>

function mapparse_loop :: "bool \<Rightarrow> string list \<Rightarrow> byte list \<Rightarrow> map_error + map_record list" where
  "mapparse_loop h strs [] = Inr []"
| "mapparse_loop h strs (type # bs) =
     (if type = MAPFILE_STRING then
        ebind (string_read bs) (\<lambda>r. mapparse_loop h (strs @ [fst r]) (snd r))
      else
        ebind (read_record h strs type bs) (\<lambda>r.
          ebind (mapparse_loop h strs (snd r)) (\<lambda>recs. Inr (fst r # recs))))"
  by pat_completeness auto
termination
  by (relation "measure (\<lambda>(h, strs, bs). length bs)")
    (auto dest: string_read_shorter read_record_shorter)

definition mapparse_file :: "bool \<Rightarrow> byte list \<Rightarrow> map_error + map_record list" where
  "mapparse_file hase2014 bs = mapparse_loop hase2014 [] bs"

section \<open>Lemmas: integers\<close>

lemma push_split:
  "push_bit s (v :: 32 word) = push_bit s (v AND 0x7f) OR push_bit (s + 7) (drop_bit 7 v)"
proof (rule bit_word_eqI)
  fix n assume "n < LENGTH(32)"
  have m: "(0x7f :: 32 word) = mask 7" by (simp add: mask_eq_exp_minus_1)
  show "bit (push_bit s v) n = bit (push_bit s (v AND 0x7f) OR push_bit (s + 7) (drop_bit 7 v)) n"
    unfolding m using \<open>n < LENGTH(32)\<close> by (cases "n < s"; cases "n < s + 7") (auto simp: bit_simps)
qed

lemma ucast_scast_32: "(ucast (scast (w :: 32 word) :: 64 word) :: 32 word) = w"
  by (rule bit_word_eqI) (simp add: bit_simps)

lemma ucast_or: "(ucast (a OR b :: 64 word) :: 32 word) = ucast a OR ucast b"
  by (rule bit_word_eqI) (simp add: bit_simps)

lemma low_bits:
  fixes v :: "32 word"
  shows "(ucast ((ucast ((ucast v :: 64 word) AND 0x7f) :: byte) AND 0x7f) :: 32 word) = v AND 0x7f"
    "(ucast ((ucast ((ucast v :: 64 word) AND 0x7f) OR 0x80 :: byte) AND 0x7f) :: 32 word) = v AND 0x7f"
    "(ucast ((ucast v :: 64 word) AND 0x7f) :: byte) AND 0x80 = 0"
    "((ucast ((ucast v :: 64 word) AND 0x7f) :: byte) OR 0x80) AND 0x80 \<noteq> 0"
proof -
  have m: "(0x7f :: 32 word) = mask 7" "(0x7f :: 64 word) = mask 7" "(0x7f :: byte) = mask 7"
    by (simp_all add: mask_eq_exp_minus_1)
  have top [simp]: "bit (0x80 :: byte) n \<longleftrightarrow> n = 7" for n
    using bit_exp_iff [where ?'a = byte, of 7 n] by auto
  have top_int [simp]: "bit (0x80 :: int) n \<longleftrightarrow> n = 7" for n
    using bit_exp_iff [where ?'a = int, of 7 n] by auto
  show "(ucast ((ucast ((ucast v :: 64 word) AND 0x7f) :: byte) AND 0x7f) :: 32 word) = v AND 0x7f"
    unfolding m by (rule bit_word_eqI) (auto simp: bit_simps)
  show "(ucast ((ucast ((ucast v :: 64 word) AND 0x7f) OR 0x80 :: byte) AND 0x7f) :: 32 word) = v AND 0x7f"
    unfolding m by (rule bit_word_eqI) (auto simp: bit_simps)
  show "(ucast ((ucast v :: 64 word) AND 0x7f) :: byte) AND 0x80 = 0"
    unfolding m by (rule bit_word_eqI) (auto simp: bit_simps)
  have "bit (((ucast ((ucast v :: 64 word) AND 0x7f) :: byte) OR 0x80) AND 0x80) 7"
    unfolding m by (simp add: bit_simps)
  then show "((ucast ((ucast v :: 64 word) AND 0x7f) :: byte) OR 0x80) AND 0x80 \<noteq> 0" by auto
qed

lemma drop_ucast: "drop_bit 7 (ucast (v :: 32 word) :: 64 word) = ucast (drop_bit 7 v)"
  by (rule bit_word_eqI) (auto simp: bit_simps dest: bit_imp_le_length)

text \<open>
  Reading back a written 32-bit value. The bound says that the value has no bits beyond the
  width that is left, which the shift of the reader relies on.
\<close>

lemma int_read_loop_write:
  fixes v :: "32 word"
  assumes "shift < 32" "unat v < 2 ^ (32 - shift)"
  shows "\<exists>w. int_read_loop acc shift (writeInt_bytes (ucast v) @ rest) = Inr (w, rest) \<and>
    ucast w = ucast acc OR push_bit shift v"
  using assms
proof (induction "unat v" arbitrary: v acc shift rule: less_induct)
  case less
  let ?d = "drop_bit 7 v"
  have d: "unat ?d = unat v div 128" by (simp add: drop_bit_eq_div unat_div)
  show ?case
  proof (cases "?d = 0")
    case True
    then have "(drop_bit 7 (ucast v :: 64 word)) = 0" by (simp only: drop_ucast) simp
    then have w: "writeInt_bytes (ucast v) = [ucast ((ucast v :: 64 word) AND 0x7f)]"
      by (subst writeInt_bytes.simps) (simp only: Let_def simp_thms if_True)
    have "push_bit shift v = push_bit shift (v AND 0x7f)"
      using push_split [of shift v] True by simp
    then show ?thesis
      using less.prems(1) by (simp only: w append_Cons append_Nil int_read_loop.simps Let_def low_bits ucast_or ucast_scast_32)
        (simp add: ucast_or ucast_scast_32)
  next
    case False
    then have "128 \<le> unat v" using d by (metis div_less not_less unat_0_iff)
    then have smaller: "unat ?d < unat v" using d by simp
    have bound: "2 ^ (32 - shift) > (128 :: nat)" using less.prems(2) \<open>128 \<le> unat v\<close> by linarith
    have s7: "shift + 7 < 32"
    proof (rule ccontr)
      assume "\<not> shift + 7 < 32"
      then have "32 - shift \<le> 7" using less.prems(1) by simp
      then have "(2 :: nat) ^ (32 - shift) \<le> 2 ^ 7" by (rule power_increasing) simp
      then show False using bound by simp
    qed
    have "(2 :: nat) ^ (32 - shift) = 128 * 2 ^ (32 - (shift + 7))"
    proof -
      have "32 - shift = 7 + (32 - (shift + 7))" using s7 by simp
      then have "(2 :: nat) ^ (32 - shift) = 2 ^ 7 * 2 ^ (32 - (shift + 7))" by (simp only: power_add)
      then show ?thesis by simp
    qed
    then have "unat ?d < 2 ^ (32 - (shift + 7))"
      using less.prems(2) d by (simp add: div_less_iff_less_mult mult.commute)
    note IH = less.hyps [OF smaller s7 this]
    have nz: "drop_bit 7 (ucast v :: 64 word) \<noteq> 0"
    proof -
      have "unat (ucast ?d :: 64 word) = unat ?d"
        using unat_addr_bound [of ?d] by (simp add: unsigned_ucast_eq take_bit_eq_mod)
      then show ?thesis using False by (metis drop_ucast unat_0 unat_eq_0)
    qed
    have w: "writeInt_bytes (ucast v) =
        (ucast ((ucast v :: 64 word) AND 0x7f) OR 0x80) # writeInt_bytes (ucast ?d)"
      using nz by (subst writeInt_bytes.simps) (simp only: Let_def if_False drop_ucast)
    let ?acc = "acc OR scast (push_bit shift (v AND 0x7f))"
    have "int_read_loop acc shift (writeInt_bytes (ucast v) @ rest) =
        int_read_loop ?acc (shift + 7) (writeInt_bytes (ucast ?d) @ rest)"
      using less.prems(1) low_bits(4) [of v]
      by (simp only: w append_Cons int_read_loop.simps Let_def low_bits not_le if_True if_False)
        (simp add: not_le)
    moreover obtain x where "int_read_loop ?acc (shift + 7) (writeInt_bytes (ucast ?d) @ rest) = Inr (x, rest)"
      "ucast x = ucast ?acc OR push_bit (shift + 7) ?d"
      using IH [of ?acc] by blast
    moreover have "ucast ?acc OR push_bit (shift + 7) ?d = ucast acc OR push_bit shift v"
      by (simp only: push_split [of shift v] ucast_or ucast_scast_32 or.assoc)
    ultimately show ?thesis by auto
  qed
qed

lemma int_read_write:
  fixes v :: "32 word"
  shows "\<exists>w. int_read (writeInt_bytes (ucast v) @ rest) = Inr (w, rest) \<and> ucast w = v"
  using int_read_loop_write [of 0 v 0 rest] unat_addr_bound [of v] by (simp add: int_read_def)

lemma stringref_read_write: "stringref_read (writeInt_bytes (ucast r) @ rest) = Inr (r, rest)"
  using int_read_write [of r rest] by (auto simp: stringref_read_def)

section \<open>Lemmas: strings and the writer's state\<close>

lemma char_at_byte_of [simp]: "char_at (byte_of ch) = ch"
proof -
  have "(of_char ch :: nat) < 256" by (cases ch) (simp add: of_char_def)
  then show ?thesis by (simp add: char_at_def byte_of_def unat_of_nat)
qed

lemma byte_of_eq_0 [simp]: "byte_of ch = 0 \<longleftrightarrow> ch = NUL"
proof
  assume "byte_of ch = 0"
  then have "char_at (byte_of ch) = char_at 0" by simp
  then show "ch = NUL" unfolding char_at_byte_of by (simp add: char_at_def char_of_def)
qed (simp add: byte_of_def)

lemma string_read_write: "NUL \<notin> set s \<Longrightarrow> string_read (map byte_of s @ 0 # rest) = Inr (s, rest)"
  by (induction s) auto

text \<open>
  What the bytes written so far mean to the reader: it delivers the records written so far
  and goes on with a string table that agrees with the writer's.
\<close>

definition reads_as :: "map_file \<Rightarrow> string list \<Rightarrow> map_record list \<Rightarrow> bool" where
  "reads_as f tbl recs =
     ((\<forall>rest. mapparse_loop False [] (mf_file f @ rest) =
         ebind (mapparse_loop False tbl rest) (\<lambda>rs. Inr (recs @ rs))) \<and>
      (\<forall>s r. strings f s = Some r \<longleftrightarrow> unat r < length tbl \<and> tbl ! unat r = s) \<and>
      stringRefNext f = of_nat (length tbl))"

lemma reads_as_empty: "reads_as \<lparr>mf_file = [], strings = Map.empty, stringRefNext = 0\<rparr> [] []"
proof -
  have "ebind x (\<lambda>rs. Inr rs) = x" for x :: "map_error + map_record list" by (cases x) auto
  then show ?thesis by (simp add: reads_as_def)
qed

lemma getStringRef_reads:
  assumes "reads_as f tbl recs" "NUL \<notin> set s" "length tbl < 2 ^ 32 - 1" "getStringRef s f = (r, f')"
  shows "\<exists>tbl'. reads_as f' tbl' recs \<and> unat r < length tbl' \<and> tbl' ! unat r = s \<and>
    (tbl' = tbl \<or> tbl' = tbl @ [s])"
proof (cases "strings f s")
  case (Some q)
  then have "r = q" "f' = f" using assms(4) by (simp_all add: getStringRef_def)
  then show ?thesis using assms(1) Some by (auto simp: reads_as_def)
next
  case None
  let ?n = "length tbl"
  have r: "r = of_nat ?n" "f' = f\<lparr>mf_file := mf_file f @ MAPFILE_STRING # map byte_of s @ [0],
      strings := (strings f)(s \<mapsto> of_nat ?n), stringRefNext := of_nat ?n + 1\<rparr>"
    using assms(1,4) None by (auto simp: getStringRef_def put_def Let_def reads_as_def)
  have u: "unat (of_nat ?n :: 32 word) = ?n" using assms(3) by (intro unat_of_nat_small) simp
  have new: "s \<noteq> tbl ! k" if "k < ?n" for k
  proof
    assume "s = tbl ! k"
    moreover have "unat (of_nat k :: 32 word) = k" using assms(3) that by (intro unat_of_nat_small) simp
    ultimately have "strings f s = Some (of_nat k)" using assms(1) that by (simp add: reads_as_def)
    then show False using None by simp
  qed
  have "mapparse_loop False tbl (MAPFILE_STRING # map byte_of s @ 0 # rest) = mapparse_loop False (tbl @ [s]) rest" for rest
    using string_read_write [OF assms(2), of rest] by simp
  moreover have "((strings f)(s \<mapsto> of_nat ?n)) t = Some q \<longleftrightarrow> unat q < Suc ?n \<and> (tbl @ [s]) ! unat q = t" for t q
    using assms(1) None new u
    by (auto simp: reads_as_def nth_append less_Suc_eq word_unat_eq_iff split: if_splits)
  ultimately have "reads_as f' (tbl @ [s]) recs"
    using assms(1) r by (simp add: reads_as_def)
  then show ?thesis using r(1) u by auto
qed

lemma record_reads:
  assumes "reads_as f tbl recs" "type \<noteq> MAPFILE_STRING"
    "\<And>rest. read_record False tbl type (payload @ rest) = Inr (rec, rest)"
  shows "reads_as (f\<lparr>mf_file := mf_file f @ type # payload\<rparr>) tbl (recs @ [rec])"
proof -
  have "mapparse_loop False tbl (type # payload @ rest) =
      ebind (mapparse_loop False tbl rest) (\<lambda>rs. Inr (rec # rs))" for rest
    using assms(2,3) by simp
  moreover have "ebind (ebind x (\<lambda>rs. Inr (rec # rs))) (\<lambda>rs. Inr (recs @ rs)) = ebind x (\<lambda>rs. Inr (recs @ rec # rs))"
    for x :: "map_error + map_record list" by (cases x) auto
  ultimately show ?thesis using assms(1) by (simp add: reads_as_def)
qed

lemma read_name_write:
  fixes r :: "32 word"
  shows "unat r < length tbl \<Longrightarrow> read_name tbl (writeInt_bytes (ucast r) @ rest) = Inr (tbl ! unat r, rest)"
  by (simp add: read_name_def stringref_read_write stringref_get_def)

primrec record_strings :: "map_record \<Rightarrow> string list" where
  "record_strings (Rec_module_name s) = [s]"
| "record_strings (Rec_function s p) = [s, p]"
| "record_strings Rec_basic_block = []"
| "record_strings Rec_instruction = []"
| "record_strings (Rec_dinstruction p l) = [p]"
| "record_strings (Rec_fault_candidate s) = [s]"
| "record_strings (Rec_fault_injected s) = [s]"

lemma write_name_reads:
  assumes "reads_as f tbl recs" "NUL \<notin> set s" "length tbl < 2 ^ 32 - 1" "getStringRef s f = (r, f')"
    "type \<noteq> MAPFILE_STRING"
    "\<And>strs bs. read_record False strs type bs = ebind (read_name strs bs) (\<lambda>(x, bs). Inr (mk x, bs))"
  shows "\<exists>tbl'. reads_as (writeStringRef r (put type f')) tbl' (recs @ [mk s]) \<and> length tbl' \<le> length tbl + 1"
proof -
  obtain tbl' where t: "reads_as f' tbl' recs" "unat r < length tbl'" "tbl' ! unat r = s"
    "tbl' = tbl \<or> tbl' = tbl @ [s]"
    using getStringRef_reads [OF assms(1-4)] by blast
  have "read_record False tbl' type (writeInt_bytes (ucast r) @ rest) = Inr (mk s, rest)" for rest
    using t(2,3) by (simp add: assms(6) read_name_write)
  from record_reads [OF t(1) assms(5) this] t(4) show ?thesis
    by (auto simp: writeStringRef_def writeInt_def put_def)
qed

lemma write_function_reads:
  assumes "reads_as f tbl recs" "NUL \<notin> set s" "NUL \<notin> set p" "length tbl < 2 ^ 32 - 2"
  shows "\<exists>tbl'. reads_as (writeFunction s p f) tbl' (recs @ [Rec_function s p]) \<and> length tbl' \<le> length tbl + 2"
proof -
  obtain rn f1 where g1: "getStringRef s f = (rn, f1)" by fastforce
  obtain rp f2 where g2: "getStringRef p f1 = (rp, f2)" by fastforce
  obtain t1 where t1: "reads_as f1 t1 recs" "unat rn < length t1" "t1 ! unat rn = s" "t1 = tbl \<or> t1 = tbl @ [s]"
    using getStringRef_reads [OF assms(1,2) _ g1] assms(4) by auto
  obtain t2 where t2: "reads_as f2 t2 recs" "unat rp < length t2" "t2 ! unat rp = p" "t2 = t1 \<or> t2 = t1 @ [p]"
    using getStringRef_reads [OF t1(1) assms(3) _ g2] assms(4) t1(4) by auto
  have n: "unat rn < length t2" "t2 ! unat rn = s" using t1(2,3) t2(4) by (auto simp: nth_append)
  have "read_record False t2 MAPFILE_FUNCTION ((writeInt_bytes (ucast rn) @ writeInt_bytes (ucast rp)) @ rest) =
      Inr (Rec_function s p, rest)" for rest
    using n t2(2,3)
    by (simp add: read_record_def read_function_def read_name_write stringref_read_write stringref_get_def)
  from record_reads [OF t2(1) _ this] g1 g2 t1(4) t2(4) show ?thesis
    by (auto simp: writeFunction_def writeStringRef_def writeInt_def put_def mapfile_types)
qed

lemma write_dinstruction_reads:
  assumes "reads_as f tbl recs" "NUL \<notin> set p" "length tbl < 2 ^ 32 - 1"
  shows "\<exists>tbl'. reads_as (writeDInstruction p l f) tbl' (recs @ [Rec_dinstruction p l]) \<and> length tbl' \<le> length tbl + 1"
proof -
  obtain r f1 where g: "getStringRef p f = (r, f1)" by fastforce
  obtain t where t: "reads_as f1 t recs" "unat r < length t" "t ! unat r = p" "t = tbl \<or> t = tbl @ [p]"
    using getStringRef_reads [OF assms(1,2,3) g] by blast
  have "read_record False t MAPFILE_DINSTRUCTION ((writeInt_bytes (ucast r) @ writeInt_bytes (ucast l)) @ rest) =
      Inr (Rec_dinstruction p l, rest)" for rest
    using t(2,3) int_read_write [of l rest]
    by (auto simp: read_record_def read_dinstruction_def read_name_write mapfile_types)
  from record_reads [OF t(1) _ this] g t(4) show ?thesis
    by (auto simp: writeDInstruction_def writeStringRef_def writeInt_def put_def mapfile_types)
qed

lemma write_record_reads:
  assumes "reads_as f tbl recs" "\<forall>s \<in> set (record_strings r). NUL \<notin> set s" "length tbl < 2 ^ 32 - 2"
  shows "\<exists>tbl'. reads_as (write_record r f) tbl' (recs @ [r]) \<and> length tbl' \<le> length tbl + 2"
proof -
  have named: "\<exists>tbl'. reads_as (writeStringRef (fst (getStringRef s f)) (put type (snd (getStringRef s f)))) tbl' (recs @ [mk s]) \<and>
      length tbl' \<le> length tbl + 2"
    if "NUL \<notin> set s" "type \<noteq> MAPFILE_STRING"
      "\<And>strs bs. read_record False strs type bs = ebind (read_name strs bs) (\<lambda>(x, bs). Inr (mk x, bs))" for s type mk
    using write_name_reads [OF assms(1) that(1) _ prod.collapse [symmetric] that(2,3)] assms(3) by fastforce
  show ?thesis
  proof (cases r)
    case (Rec_module_name s)
    then show ?thesis using named [of s MAPFILE_MODULE_NAME Rec_module_name] assms(2)
      by (simp add: writeModuleName_def split_beta read_record_def mapfile_types)
  next
    case (Rec_function s p)
    then show ?thesis using write_function_reads [OF assms(1)] assms(2,3) by simp
  next
    case Rec_basic_block
    then show ?thesis using record_reads [OF assms(1), of MAPFILE_BASIC_BLOCK "[]" Rec_basic_block]
      by (auto simp: writeBasicBlock_def put_def read_record_def mapfile_types)
  next
    case Rec_instruction
    then show ?thesis using record_reads [OF assms(1), of MAPFILE_INSTRUCTION "[]" Rec_instruction]
      by (auto simp: writeInstruction_def put_def read_record_def mapfile_types)
  next
    case (Rec_dinstruction p l)
    then show ?thesis using write_dinstruction_reads [OF assms(1), of p l] assms(2,3) by fastforce
  next
    case (Rec_fault_candidate s)
    then show ?thesis using named [of s MAPFILE_FAULT_CANDIDATE Rec_fault_candidate] assms(2)
      by (simp add: writeFaultCandidate_def split_beta read_record_def mapfile_types)
  next
    case (Rec_fault_injected s)
    then show ?thesis using named [of s MAPFILE_FAULT_INJECTED Rec_fault_injected] assms(2)
      by (simp add: writeFaultInjected_def split_beta read_record_def mapfile_types)
  qed
qed

lemma write_records_read:
  assumes "reads_as f tbl recs" "\<forall>r \<in> set rs. \<forall>s \<in> set (record_strings r). NUL \<notin> set s"
    "length tbl + 2 * length rs < 2 ^ 32"
  shows "\<exists>tbl'. reads_as (fold write_record rs f) tbl' (recs @ rs)"
  using assms
proof (induction rs arbitrary: f tbl recs)
  case (Cons r rs)
  obtain tbl' where "reads_as (write_record r f) tbl' (recs @ [r])" "length tbl' \<le> length tbl + 2"
    using write_record_reads [OF Cons.prems(1), of r] Cons.prems(2,3) by auto
  with Cons.IH [of "write_record r f" tbl' "recs @ [r]"] Cons.prems(2,3) show ?case by auto
qed auto

lemma mapparse_written:
  assumes "NUL \<notin> set moduleName"
    and "\<forall>r \<in> set rs. \<forall>s \<in> set (record_strings r). NUL \<notin> set s"
    and "2 * length rs + 1 < 2 ^ 31"
  shows "mapparse_file False (mf_file (fold write_record rs (MapFile_new moduleName))) =
    Inr (Rec_module_name moduleName # rs)"
proof -
  have new: "fold write_record rs (MapFile_new moduleName) = fold write_record (Rec_module_name moduleName # rs)
      \<lparr>mf_file = [], strings = Map.empty, stringRefNext = 0\<rparr>"
    by (simp add: MapFile_new_def)
  obtain tbl where "reads_as (fold write_record rs (MapFile_new moduleName)) tbl (Rec_module_name moduleName # rs)"
    unfolding new using write_records_read [OF reads_as_empty, of "Rec_module_name moduleName # rs"] assms by auto
  then have "mapparse_loop False [] (mf_file (fold write_record rs (MapFile_new moduleName)) @ []) =
      ebind (mapparse_loop False tbl []) (\<lambda>xs. Inr ((Rec_module_name moduleName # rs) @ xs))"
    unfolding reads_as_def by blast
  then show ?thesis by (simp add: mapparse_file_def)
qed

section \<open>Properties\<close>

text \<open>
  C16 (round trip): the reader delivers exactly the records the pass wrote, in order and with
  their strings and line numbers, after the module name. The strings hold no NUL, and there
  are few enough of them for the reader's signed counter.
\<close>
theorem map_file_round_trip:
  assumes "NUL \<notin> set moduleName"
    and "\<forall>r \<in> set rs. \<forall>s \<in> set (record_strings r). NUL \<notin> set s"
    and "2 * length rs + 1 < 2 ^ 31"
  shows "mapparse_file False (mf_file (fold write_record rs (MapFile_new moduleName))) =
    Inr (Rec_module_name moduleName # rs)"
  using assms by (rule mapparse_written)

definition ex_records :: "map_record list" where
  "ex_records = [Rec_function ''main'' ''a.c'', Rec_basic_block, Rec_dinstruction ''a.c'' 300,
     Rec_fault_candidate ''swap'', Rec_fault_injected ''swap'', Rec_instruction]"

theorem map_file_round_trip_witness:
  "mapparse_file False (mf_file (fold write_record ex_records (MapFile_new ''pm''))) =
    Inr (Rec_module_name ''pm'' # ex_records)"
  by (rule map_file_round_trip) (simp_all add: ex_records_def)

end
