(* ===== verification/Modules.thy ===== *)
theory Modules
  imports Helper Mapfile
begin

text \<open>
  Modules as the analysis tools see them (\<^verbatim>\<open>hypermemloganalyze/common/module.c\<close>): loading a
  module from its map file in three passes, repairing source paths, and finding modules and
  basic blocks by name and number. A pointer into a module's arrays is the index of the
  element; a NULL pointer is None; an access past the end of an array or of a string and a
  failed assertion are faults.
\<close>

section \<open>Data\<close>

record module_bb =
  faultcand_count :: nat
  faultinj_count :: nat
  instr_count :: nat
  bb_lines :: "linepath list"
  fault_path :: "string option"
  fault_line :: int
  fault_type :: "string option"

record module_func =
  fn_name :: "string option"
  fn_path :: "string option"
  fn_pathFixed :: "string option"
  bb_index_first :: nat
  bb_count :: nat
  bbs :: "module_bb list option"
  global_func :: "(string \<times> string) option"

record module =
  m_name :: "string option"
  func_count :: nat
  funcs :: "module_func list option"

definition bb_zero :: module_bb where
  "bb_zero = \<lparr>faultcand_count = 0, faultinj_count = 0, instr_count = 0, bb_lines = [],
     fault_path = None, fault_line = 0, fault_type = None\<rparr>"

definition func_zero :: module_func where
  "func_zero = \<lparr>fn_name = None, fn_path = None, fn_pathFixed = None, bb_index_first = 0,
     bb_count = 0, bbs = None, global_func = None\<rparr>"

definition module_zero :: module where
  "module_zero = \<lparr>m_name = None, func_count = 0, funcs = None\<rparr>"

text \<open>CALLOC: zeroed elements, NULL when there are none.\<close>

definition CALLOC :: "nat \<Rightarrow> 'a \<Rightarrow> 'a list option" where
  "CALLOC n x = (if n = 0 then None else Some (replicate n x))"

section \<open>Paths\<close>

text \<open>The suffix of a path that starts at its first double slash.\<close>

fun strstr_slashes :: "string \<Rightarrow> string option" where
  "strstr_slashes [] = None"
| "strstr_slashes (ch # s) =
     (if ch = CHR ''/'' \<and> s \<noteq> [] \<and> hd s = CHR ''/'' then Some (ch # s) else strstr_slashes s)"

text \<open>Going back from the current end of the output to the slash before the last element.\<close>

definition unwind :: "string \<Rightarrow> string" where
  "unwind out = rev (dropWhile (\<lambda>ch. ch \<noteq> CHR ''/'') (rev (butlast out)))"

text \<open>
  The copying loop. Behind a skipped element the loop steps over the slash that ends it; at
  the end of the path it steps over the terminating NUL and reads on behind the string.
\<close>

function fixPath_loop :: "string \<Rightarrow> string \<Rightarrow> fault + string" where
  "fixPath_loop path out =
     (if path = [] then Inr out
      else
        let slash = (hd path = CHR ''/'');
            out = (if slash then out @ ''/'' else out);
            path = (if slash then dropWhile (\<lambda>ch. ch = CHR ''/'') path else path);
            pathElem = takeWhile (\<lambda>ch. ch \<noteq> CHR ''/'') path;
            path = dropWhile (\<lambda>ch. ch \<noteq> CHR ''/'') path
        in if pathElem = ''.'' then
             (if path = [] then Inl OutOfBounds else fixPath_loop (tl path) out)
           else if pathElem = ''..'' \<and> length out > 1 then
             (if path = [] then Inl OutOfBounds else fixPath_loop (tl path) (unwind out))
           else fixPath_loop path (out @ pathElem))"
  by pat_completeness auto
termination
proof (relation "measure (length \<circ> fst)", goal_cases)
  case (2 path out slash out' path' pathElem path'')
  then have "length path' \<le> length path" "path'' \<noteq> []" "length path'' \<le> length path'"
    by (auto simp: length_dropWhile_le split: if_splits)
  then show ?case by (cases path'') auto
next
  case (3 path out slash out' path' pathElem path'')
  then have "length path' \<le> length path" "path'' \<noteq> []" "length path'' \<le> length path'"
    by (auto simp: length_dropWhile_le split: if_splits)
  then show ?case by (cases path'') auto
next
  case (4 path out slash out' path' pathElem path'')
  obtain ch rest where path: "path = ch # rest" using 4(1) by (cases path) auto
  show ?case
  proof (cases "ch = CHR ''/''")
    case True
    then have "length path'' \<le> length (dropWhile (\<lambda>ch. ch = CHR ''/'') rest)"
      using 4 path by (simp add: length_dropWhile_le)
    then show ?thesis using length_dropWhile_le [of "\<lambda>ch. ch = CHR ''/''" rest] path by simp
  next
    case False
    then have "path'' = dropWhile (\<lambda>ch. ch \<noteq> CHR ''/'') rest" using 4 path by simp
    then show ?thesis using length_dropWhile_le [of "\<lambda>ch. ch \<noteq> CHR ''/''" rest] path by simp
  qed
qed simp

declare fixPath_loop.simps [simp del]

definition fixPath :: "string option \<Rightarrow> fault + string option" where
  "fixPath path =
     (case path of
        None \<Rightarrow> Inr None
      | Some path \<Rightarrow>
          let path = (if path \<noteq> [] \<and> hd path = CHR ''/'' then
                        (case strstr_slashes path of None \<Rightarrow> path | Some dirEnd \<Rightarrow> tl dirEnd)
                      else path)
          in ebind (fixPath_loop path []) (\<lambda>p. Inr (Some p)))"

section \<open>Loading a module\<close>

record load_state =
  ls_module :: module
  ls_func :: "nat option"
  func_index :: nat
  ls_bb :: "(nat \<times> nat) option"
  bb_line_p :: "(nat \<times> nat) option"
  abs_bb_index :: nat
  func_bb_index :: nat
  ins_path :: "string option"
  ins_line :: int

definition load_init :: "module \<Rightarrow> load_state" where
  "load_init m = \<lparr>ls_module = m, ls_func = None, func_index = 0, ls_bb = None, bb_line_p = None,
     abs_bb_index = 0, func_bb_index = 0, ins_path = None, ins_line = 0\<rparr>"

text \<open>Updating a function or a basic block in place.\<close>

definition upd_func :: "nat \<Rightarrow> (module_func \<Rightarrow> module_func) \<Rightarrow> load_state \<Rightarrow> load_state" where
  "upd_func i f s = s\<lparr>ls_module := (ls_module s)\<lparr>funcs :=
     map_option (\<lambda>fs. fs[i := f (fs ! i)]) (funcs (ls_module s))\<rparr>\<rparr>"

definition upd_bb :: "nat \<times> nat \<Rightarrow> (module_bb \<Rightarrow> module_bb) \<Rightarrow> load_state \<Rightarrow> load_state" where
  "upd_bb = (\<lambda>(i, j) f. upd_func i (\<lambda>fn. fn\<lparr>bbs := map_option (\<lambda>bs. bs[j := f (bs ! j)]) (bbs fn)\<rparr>))"

definition upd_cur_bb :: "(module_bb \<Rightarrow> module_bb) \<Rightarrow> load_state \<Rightarrow> load_state" where
  "upd_cur_bb f s = (case ls_bb s of None \<Rightarrow> s | Some b \<Rightarrow> upd_bb b f s)"

definition process_basic_block :: "load_state \<Rightarrow> (unit, load_state) outcome" where
  "process_basic_block s =
     (let s = s\<lparr>ls_bb := None, bb_line_p := None\<rparr>
      in case ls_func s of
           None \<Rightarrow> Ret () s
         | Some i \<Rightarrow>
             (case bbs (the (funcs (ls_module s)) ! i) of
                None \<Rightarrow> Ret () (upd_func i (\<lambda>fn. fn\<lparr>bb_count := bb_count fn + 1\<rparr>) s)
              | Some bs \<Rightarrow>
                  let j = func_bb_index s;
                      s = s\<lparr>func_bb_index := j + 1\<rparr>
                  in if j \<ge> length bs then Fault OutOfBounds s
                     else let s = s\<lparr>ls_bb := Some (i, j), bb_line_p := Some (i, j),
                                    abs_bb_index := abs_bb_index s + 1\<rparr>
                          in if bb_lines (bs ! j) \<noteq> [] then Fault AssertFail s else Ret () s))"

definition process_dinstruction :: "string \<Rightarrow> 32 word \<Rightarrow> load_state \<Rightarrow> (unit, load_state) outcome" where
  "process_dinstruction p l s =
     (let s = s\<lparr>ins_path := Some p, ins_line := sint l\<rparr>;
          s = upd_cur_bb (\<lambda>bb. bb\<lparr>instr_count := instr_count bb + 1\<rparr>) s
      in case bb_line_p s of
           None \<Rightarrow> Ret () s
         | Some b \<Rightarrow>
             (case fixPath (Some p) of
                Inl e \<Rightarrow> Fault e s
              | Inr pf \<Rightarrow>
                  Ret () (upd_bb b (\<lambda>bb. bb\<lparr>bb_lines := bb_lines bb @
                    [\<lparr>lp_path = Some p, lp_pathFixed = pf, lp_line = sint l,
                      lp_hash = hashstr p + ucast l\<rparr>]\<rparr>) s)))"

definition process_fault_candidate :: "string \<Rightarrow> load_state \<Rightarrow> (unit, load_state) outcome" where
  "process_fault_candidate nm s =
     Ret () (upd_cur_bb (\<lambda>bb. bb\<lparr>faultcand_count := faultcand_count bb + 1\<rparr>) s)"

definition process_fault_injected :: "string \<Rightarrow> load_state \<Rightarrow> (unit, load_state) outcome" where
  "process_fault_injected nm s =
     Ret () (upd_cur_bb (\<lambda>bb. bb\<lparr>faultinj_count := faultinj_count bb + 1, fault_path := ins_path s,
       fault_line := ins_line s, fault_type := Some nm\<rparr>) s)"

definition process_function :: "string \<Rightarrow> string \<Rightarrow> load_state \<Rightarrow> (unit, load_state) outcome" where
  "process_function nm relPath s =
     (case funcs (ls_module s) of
        None \<Rightarrow> Ret () (s\<lparr>ls_module := (ls_module s)\<lparr>func_count := func_count (ls_module s) + 1\<rparr>\<rparr>)
      | Some fs \<Rightarrow>
          let i = func_index s;
              s = s\<lparr>ls_func := Some i, func_index := i + 1\<rparr>
          in if i \<ge> length fs then Fault OutOfBounds s
             else
               let fn = fs ! i;
                   fn = (if fn_name fn = None then fn\<lparr>fn_name := Some nm\<rparr> else fn);
                   fn = (if fn_path fn = None then fn\<lparr>fn_path := Some relPath\<rparr> else fn)
               in case (if fn_pathFixed fn = None then fixPath (fn_path fn) else Inr (fn_pathFixed fn)) of
                    Inl e \<Rightarrow> Fault e (upd_func i (\<lambda>_. fn) s)
                  | Inr pf \<Rightarrow>
                      let fn = fn\<lparr>fn_pathFixed := pf, bb_index_first := abs_bb_index s\<rparr>
                      in Ret () ((upd_func i (\<lambda>_. fn) s)\<lparr>ls_bb := None, func_bb_index := 0\<rparr>))"

definition process_instruction :: "load_state \<Rightarrow> (unit, load_state) outcome" where
  "process_instruction s =
     (let s = s\<lparr>ins_path := None, ins_line := 0\<rparr>
      in Ret () (upd_cur_bb (\<lambda>bb. bb\<lparr>instr_count := instr_count bb + 1\<rparr>) s))"

definition process_module_name :: "string \<Rightarrow> load_state \<Rightarrow> (unit, load_state) outcome" where
  "process_module_name nm s =
     Ret () (if m_name (ls_module s) = None
             then s\<lparr>ls_module := (ls_module s)\<lparr>m_name := Some nm\<rparr>\<rparr> else s)"

text \<open>The callbacks, by the record that triggers them.\<close>

primrec process_record :: "map_record \<Rightarrow> load_state \<Rightarrow> (unit, load_state) outcome" where
  "process_record (Rec_module_name nm) s = process_module_name nm s"
| "process_record (Rec_function nm p) s = process_function nm p s"
| "process_record Rec_basic_block s = process_basic_block s"
| "process_record Rec_instruction s = process_instruction s"
| "process_record (Rec_dinstruction p l) s = process_dinstruction p l s"
| "process_record (Rec_fault_candidate nm) s = process_fault_candidate nm s"
| "process_record (Rec_fault_injected nm) s = process_fault_injected nm s"

fun process_records :: "map_record list \<Rightarrow> load_state \<Rightarrow> (unit, load_state) outcome" where
  "process_records [] s = Ret () s"
| "process_records (r # rs) s = obind (process_record r s) (\<lambda>_ s. process_records rs s)"

text \<open>One run of the parser over the file, from a cleared state.\<close>

definition load_pass :: "map_record list \<Rightarrow> module \<Rightarrow> (unit, module) outcome" where
  "load_pass rs m =
     (case process_records rs (load_init m) of
        Ret u s \<Rightarrow> Ret u (ls_module s)
      | Fault e s \<Rightarrow> Fault e (ls_module s))"

definition alloc_bbs :: "module_func \<Rightarrow> module_func" where
  "alloc_bbs fn = fn\<lparr>bbs := CALLOC (bb_count fn) bb_zero\<rparr>"

text \<open>Count the functions; store them and count their blocks; fill the blocks.\<close>

definition load_records :: "map_record list \<Rightarrow> (unit, module) outcome" where
  "load_records rs =
     obind (load_pass rs module_zero) (\<lambda>_ m.
     obind (load_pass rs (m\<lparr>funcs := CALLOC (func_count m) func_zero\<rparr>)) (\<lambda>_ m.
     load_pass rs (m\<lparr>funcs := map_option (map alloc_bbs) (funcs m)\<rparr>)))"

datatype load_error = Map_error map_error | Load_fault fault

definition module_load_from_map :: "byte list \<Rightarrow> load_error + module" where
  "module_load_from_map mapfile =
     (case mapparse_file False mapfile of
        Inl e \<Rightarrow> Inl (Map_error e)
      | Inr rs \<Rightarrow> (case load_records rs of Ret u m \<Rightarrow> Inr m | Fault e m \<Rightarrow> Inl (Load_fault e)))"

section \<open>Modules and basic blocks by name and number\<close>

definition modules_count_functions :: "module list \<Rightarrow> nat" where
  "modules_count_functions ms = fold (\<lambda>m n. n + func_count m) ms 0"

text \<open>A name of a module against a name of a given length: the compared bytes, no terminator.\<close>

definition namecmp :: "string \<Rightarrow> string \<Rightarrow> nat \<Rightarrow> bool" where
  "namecmp name1 name2 name2len = (if name2len \<noteq> length name1 then True else take name2len name1 \<noteq> take name2len name2)"

fun module_find_with_namelen :: "module list \<Rightarrow> string \<Rightarrow> nat \<Rightarrow> fault + module option" where
  "module_find_with_namelen [] nm namelen = Inr None"
| "module_find_with_namelen (m # ms) nm namelen =
     (case m_name m of
        None \<Rightarrow> Inl AssertFail
      | Some n \<Rightarrow> if \<not> namecmp n nm namelen then Inr (Some m) else module_find_with_namelen ms nm namelen)"

definition module_find :: "module list \<Rightarrow> string \<Rightarrow> fault + module option" where
  "module_find ms nm = module_find_with_namelen ms nm (length nm)"

fun module_find_duplicate :: "module list \<Rightarrow> fault + module option" where
  "module_find_duplicate [] = Inr None"
| "module_find_duplicate (m # ms) =
     (case m_name m of
        None \<Rightarrow> Inl NullDeref
      | Some nm \<Rightarrow> ebind (module_find ms nm) (\<lambda>r.
          if r \<noteq> None then Inr (Some m) else module_find_duplicate ms))"

text \<open>The scan for a one-based block number; the function's index stands for its pointer.\<close>

fun get_bb_scan :: "nat \<Rightarrow> module_func list \<Rightarrow> int \<Rightarrow> fault + (nat \<times> module_bb) option" where
  "get_bb_scan i [] k = Inr None"
| "get_bb_scan i (fn # fns) k =
     (if k \<le> int (bb_count fn) then
        (case bbs fn of
           None \<Rightarrow> Inl NullDeref
         | Some bs \<Rightarrow> if nat (k - 1) \<ge> length bs then Inl OutOfBounds else Inr (Some (i, bs ! nat (k - 1))))
      else get_bb_scan (i + 1) fns (k - int (bb_count fn)))"

definition module_get_bb_by_index :: "module \<Rightarrow> int \<Rightarrow> fault + (nat \<times> module_bb) option" where
  "module_get_bb_by_index m bb_index =
     (if bb_index \<le> 0 then Inl AssertFail
      else get_bb_scan 0 (case funcs m of None \<Rightarrow> [] | Some fs \<Rightarrow> take (func_count m) fs) bb_index)"

text \<open>The list is rebuilt in the order in which the C library sorts its nodes by name.\<close>

definition module_sort_compare :: "module \<Rightarrow> module \<Rightarrow> int" where
  "module_sort_compare m1 m2 = strcmp (the (m_name m1)) (the (m_name m2))"

definition modules_sort :: "((module \<Rightarrow> module \<Rightarrow> int) \<Rightarrow> module list \<Rightarrow> module list) \<Rightarrow> module list \<Rightarrow> module list" where
  "modules_sort qsort ms = (if ms = [] then [] else qsort module_sort_compare ms)"

section \<open>Specification of a loaded module\<close>

text \<open>
  The records of a map file, cut into functions and their basic blocks: a function record
  opens a function, a basic-block record a block of it, everything else belongs to the
  last block.
\<close>

type_synonym parsed = "(string \<times> string \<times> map_record list list) list"

definition on_last :: "('a \<Rightarrow> 'a) \<Rightarrow> 'a list \<Rightarrow> 'a list" where
  "on_last f xs = (if xs = [] then [] else butlast xs @ [f (last xs)])"

definition parse_step :: "parsed \<Rightarrow> map_record \<Rightarrow> parsed" where
  "parse_step fs r =
     (case r of
        Rec_function n p \<Rightarrow> fs @ [(n, p, [])]
      | Rec_module_name n \<Rightarrow> fs
      | Rec_basic_block \<Rightarrow> on_last (\<lambda>(n, p, bs). (n, p, bs @ [[]])) fs
      | _ \<Rightarrow> on_last (\<lambda>(n, p, bs). (n, p, on_last (\<lambda>b. b @ [r]) bs)) fs)"

definition parse :: "map_record list \<Rightarrow> parsed" where
  "parse rs = foldl parse_step [] rs"

text \<open>What a block's records say of it: its counters, its lines, and its last injected fault.\<close>

definition fixed :: "string \<Rightarrow> string option" where
  "fixed p = (case fixPath (Some p) of Inl e \<Rightarrow> None | Inr q \<Rightarrow> q)"

definition line_of :: "string \<Rightarrow> 32 word \<Rightarrow> linepath" where
  "line_of p l = \<lparr>lp_path = Some p, lp_pathFixed = fixed p, lp_line = sint l, lp_hash = hashstr p + ucast l\<rparr>"

definition bb_step :: "(string option \<times> int) \<times> module_bb \<Rightarrow> map_record \<Rightarrow> (string option \<times> int) \<times> module_bb" where
  "bb_step = (\<lambda>(loc, bb) r.
     (case r of
        Rec_instruction \<Rightarrow> ((None, 0), bb\<lparr>instr_count := instr_count bb + 1\<rparr>)
      | Rec_dinstruction p l \<Rightarrow>
          ((Some p, sint l), bb\<lparr>instr_count := instr_count bb + 1, bb_lines := bb_lines bb @ [line_of p l]\<rparr>)
      | Rec_fault_candidate n \<Rightarrow> (loc, bb\<lparr>faultcand_count := faultcand_count bb + 1\<rparr>)
      | Rec_fault_injected n \<Rightarrow>
          (loc, bb\<lparr>faultinj_count := faultinj_count bb + 1, fault_path := fst loc, fault_line := snd loc, fault_type := Some n\<rparr>)
      | _ \<Rightarrow> (loc, bb)))"

definition bb_run :: "map_record list \<Rightarrow> (string option \<times> int) \<times> module_bb" where
  "bb_run b = foldl bb_step ((None, 0), bb_zero) b"

definition bb_of :: "map_record list \<Rightarrow> module_bb" where
  "bb_of b = snd (bb_run b)"

fun funcs_of :: "nat \<Rightarrow> parsed \<Rightarrow> module_func list" where
  "funcs_of k [] = []"
| "funcs_of k ((n, p, bs) # fs) =
     \<lparr>fn_name = Some n, fn_path = Some p, fn_pathFixed = fixed p, bb_index_first = k, bb_count = length bs,
      bbs = (if bs = [] then None else Some (map bb_of bs)), global_func = None\<rparr> # funcs_of (k + length bs) fs"

fun first_name :: "map_record list \<Rightarrow> string option" where
  "first_name [] = None"
| "first_name (r # rs) = (case r of Rec_module_name n \<Rightarrow> Some n | _ \<Rightarrow> first_name rs)"

definition module_of :: "map_record list \<Rightarrow> module" where
  "module_of rs =
     \<lparr>m_name = first_name rs, func_count = length (parse rs),
      funcs = (if parse rs = [] then None else Some (funcs_of 0 (parse rs)))\<rparr>"

text \<open>
  The order in which the fault-injection pass emits records: a function, its blocks, in a
  block instructions, behind an instruction the faults it can have and has. The phase is 0
  before the first function, 1 in a function, 2 in a block, 3 behind an instruction.
\<close>

definition phase_step :: "nat option \<Rightarrow> map_record \<Rightarrow> nat option" where
  "phase_step ph r =
     (case ph of
        None \<Rightarrow> None
      | Some k \<Rightarrow>
          (case r of
             Rec_module_name n \<Rightarrow> Some k
           | Rec_function n p \<Rightarrow> Some 1
           | Rec_basic_block \<Rightarrow> if k \<ge> 1 then Some 2 else None
           | Rec_instruction \<Rightarrow> if k \<ge> 2 then Some 3 else None
           | Rec_dinstruction p l \<Rightarrow> if k \<ge> 2 then Some 3 else None
           | Rec_fault_candidate n \<Rightarrow> if k = 3 then Some 3 else None
           | Rec_fault_injected n \<Rightarrow> if k = 3 then Some 3 else None))"

definition phase :: "map_record list \<Rightarrow> nat option" where
  "phase rs = foldl phase_step (Some 0) rs"

primrec record_paths :: "map_record \<Rightarrow> string list" where
  "record_paths (Rec_module_name n) = []"
| "record_paths (Rec_function n p) = [p]"
| "record_paths Rec_basic_block = []"
| "record_paths Rec_instruction = []"
| "record_paths (Rec_dinstruction p l) = [p]"
| "record_paths (Rec_fault_candidate n) = []"
| "record_paths (Rec_fault_injected n) = []"

definition fixable :: "map_record list \<Rightarrow> bool" where
  "fixable rs = (\<forall>r \<in> set rs. \<forall>p \<in> set (record_paths r). fixed p \<noteq> None)"

section \<open>Lemmas: loading\<close>

lemma parse_Nil [simp]: "parse [] = []" by (simp add: parse_def)
lemma parse_snoc: "parse (rs @ [r]) = parse_step (parse rs) r" by (simp add: parse_def)
lemma phase_Nil [simp]: "phase [] = Some 0" by (simp add: phase_def)
lemma phase_snoc: "phase (rs @ [r]) = phase_step (phase rs) r" by (simp add: phase_def)
lemma bb_run_snoc: "bb_run (b @ [r]) = bb_step (bb_run b) r" by (simp add: bb_run_def)
lemma first_name_snoc:
  "first_name (rs @ [r]) = (case first_name rs of Some n \<Rightarrow> Some n | None \<Rightarrow> first_name [r])"
  by (induction rs) (auto split: map_record.splits)

lemma process_records_append:
  "process_records (xs @ ys) s = obind (process_records xs s) (\<lambda>_. process_records ys)"
proof (induction xs arbitrary: s)
  case (Cons x xs)
  then show ?case by (cases "process_record x s") simp_all
qed simp

lemma process_records_snoc:
  "process_records (xs @ [r]) s = obind (process_records xs s) (\<lambda>_. process_record r)"
proof (cases "process_records xs s")
  case (Ret u t)
  then show ?thesis by (cases "process_record r t") (simp_all add: process_records_append)
qed (simp add: process_records_append)

lemma fixed_Some: "fixed p = Some q \<Longrightarrow> fixPath (Some p) = Inr (Some q)"
  by (simp add: fixed_def split: sum.splits)

text \<open>The first pass counts the functions.\<close>

lemma pass1:
  assumes "funcs m = None"
  shows "\<exists>s. process_records rs (load_init m) = Ret () s \<and> ls_func s = None \<and> ls_bb s = None \<and> bb_line_p s = None \<and>
    ls_module s = \<lparr>m_name = (if m_name m = None then first_name rs else m_name m),
      func_count = func_count m + length (parse rs), funcs = None\<rparr>"
proof (induction rs rule: rev_induct)
  case (snoc r rs)
  then obtain s where s: "process_records rs (load_init m) = Ret () s" "ls_func s = None" "ls_bb s = None"
    "bb_line_p s = None" "ls_module s = \<lparr>m_name = (if m_name m = None then first_name rs else m_name m),
      func_count = func_count m + length (parse rs), funcs = None\<rparr>" by blast
  have len: "length (on_last f xs) = length xs" for f and xs :: "'a list" by (simp add: on_last_def)
  show ?case
    using s by (cases r)
      (auto simp: process_records_snoc parse_snoc first_name_snoc parse_step_def process_module_name_def
        process_function_def process_basic_block_def process_instruction_def process_dinstruction_def
        process_fault_candidate_def process_fault_injected_def upd_cur_bb_def Let_def len
        split: option.splits)
next
  case Nil
  then show ?case using assms by (cases m) (simp add: load_init_def)
qed

text \<open>Updating the element behind the last one of a filled prefix, and the last one.\<close>

lemma on_last_Nil [simp]: "on_last f [] = []" by (simp add: on_last_def)
lemma on_last_snoc [simp]: "on_last f (xs @ [x]) = xs @ [f x]" by (simp add: on_last_def)
lemma length_on_last [simp]: "length (on_last f xs) = length xs" by (simp add: on_last_def)

lemma list_update_last: "(xs @ [x] @ ys)[length xs := f ((xs @ [x] @ ys) ! length xs)] = xs @ [f x] @ ys"
  by (simp add: list_update_append)

text \<open>The second pass stores the functions and counts their blocks.\<close>

definition func2 :: "string \<times> string \<times> map_record list list \<Rightarrow> module_func" where
  "func2 = (\<lambda>(n, p, bs). \<lparr>fn_name = Some n, fn_path = Some p, fn_pathFixed = fixed p, bb_index_first = 0,
     bb_count = length bs, bbs = None, global_func = None\<rparr>)"

definition state2 :: "nat \<Rightarrow> string option \<Rightarrow> map_record list \<Rightarrow> load_state \<Rightarrow> bool" where
  "state2 N nm rs s =
     (ls_module s = \<lparr>m_name = nm, func_count = N,
        funcs = Some (map func2 (parse rs) @ replicate (N - length (parse rs)) func_zero)\<rparr> \<and>
      ls_func s = (if parse rs = [] then None else Some (length (parse rs) - 1)) \<and>
      func_index s = length (parse rs) \<and> ls_bb s = None \<and> bb_line_p s = None \<and> abs_bb_index s = 0)"

lemma state2_block:
  assumes "state2 N nm rs s" "parse rs = fs @ [(n, p, bs)]"
  shows "\<exists>t. process_basic_block s = Ret () t \<and> state2 N nm (rs @ [Rec_basic_block]) t"
proof -
  let ?rest = "replicate (N - Suc (length fs)) func_zero"
  have f: "funcs (ls_module s) = Some (map func2 fs @ [func2 (n, p, bs)] @ ?rest)" "ls_func s = Some (length fs)"
    using assms by (simp_all add: state2_def)
  have nth: "(map func2 fs @ [func2 (n, p, bs)] @ ?rest) ! length fs = func2 (n, p, bs)"
    using nth_append_length [of "map func2 fs"] by simp
  let ?t = "upd_func (length fs) (\<lambda>fn. fn\<lparr>bb_count := bb_count fn + 1\<rparr>) (s\<lparr>ls_bb := None, bb_line_p := None\<rparr>)"
  have "process_basic_block s = Ret () ?t"
    using f nth by (simp add: process_basic_block_def Let_def func2_def)
  moreover have "parse (rs @ [Rec_basic_block]) = fs @ [(n, p, bs @ [[]])]"
    using assms(2) by (simp add: parse_snoc parse_step_def)
  moreover have "(map func2 fs @ [func2 (n, p, bs)] @ ?rest)[length fs :=
      (func2 (n, p, bs))\<lparr>bb_count := bb_count (func2 (n, p, bs)) + 1\<rparr>] = map func2 fs @ [func2 (n, p, bs @ [[]])] @ ?rest"
    using list_update_length [of "map func2 fs"] by (simp add: func2_def)
  ultimately show ?thesis using assms f nth
    by (auto simp: state2_def upd_func_def)
qed

lemma state2_function:
  assumes "state2 N nm rs s" "length (parse rs) < N" "fixed p \<noteq> None"
  shows "\<exists>t. process_function n p s = Ret () t \<and> state2 N nm (rs @ [Rec_function n p]) t"
proof -
  obtain q where q: "fixed p = Some q" using assms(3) by blast
  obtain k where k: "N - length (parse rs) = Suc k" using assms(2) by (metis Suc_diff_Suc)
  have f: "funcs (ls_module s) = Some (map func2 (parse rs) @ [func_zero] @ replicate k func_zero)"
    "func_index s = length (parse rs)" "abs_bb_index s = 0"
    using assms(1) k by (simp_all add: state2_def)
  have nth: "(map func2 (parse rs) @ [func_zero] @ replicate k func_zero) ! length (parse rs) = func_zero"
    using nth_append_length [of "map func2 (parse rs)"] by simp
  have upd: "(map func2 (parse rs) @ [func_zero] @ replicate k func_zero)[length (parse rs) := x] =
      map func2 (parse rs) @ [x] @ replicate k func_zero" for x
    using list_update_length [of "map func2 (parse rs)"] by simp
  have "N - Suc (length (parse rs)) = k" using k by simp
  moreover have "parse (rs @ [Rec_function n p]) = parse rs @ [(n, p, [])]" by (simp add: parse_snoc parse_step_def)
  ultimately show ?thesis
    using f nth upd assms(1) fixed_Some [OF q] q
    by (simp add: process_function_def Let_def upd_func_def state2_def func_zero_def func2_def)
qed

lemma state2_other:
  assumes "state2 N nm rs s" "nm \<noteq> None \<or> first_name [r] = None"
    "r \<noteq> Rec_basic_block" "\<forall>n p. r \<noteq> Rec_function n p"
  shows "\<exists>t. process_record r s = Ret () t \<and> state2 N nm (rs @ [r]) t"
proof -
  have "map func2 (on_last (\<lambda>(n, p, bs). (n, p, on_last g bs)) fs) = map func2 fs" for g fs
    by (cases fs rule: rev_cases) (auto simp: func2_def split: prod.splits)
  moreover have "on_last g fs = [] \<longleftrightarrow> fs = []" for g :: "string \<times> string \<times> map_record list list \<Rightarrow> _" and fs
    by (simp add: on_last_def)
  ultimately show ?thesis using assms
    by (cases r) (auto simp: state2_def parse_snoc parse_step_def process_module_name_def process_instruction_def
        process_dinstruction_def process_fault_candidate_def process_fault_injected_def upd_cur_bb_def Let_def)
qed

text \<open>Later records leave finished functions alone and only add blocks to the last one.\<close>

lemma parse_step_last:
  "\<exists>bs' post. parse_step (pre @ [(n, p, bs)]) r = pre @ [(n, p, bs')] @ post \<and> length bs \<le> length bs'"
  by (cases r) (auto simp: parse_step_def)

lemma foldl_parse_step:
  "\<exists>bs' post. foldl parse_step (pre @ [(n, p, bs)]) rs = pre @ [(n, p, bs')] @ post \<and> length bs \<le> length bs'"
proof (induction rs arbitrary: pre n p bs)
  case (Cons r rs)
  obtain bs' post where 1: "parse_step (pre @ [(n, p, bs)]) r = pre @ [(n, p, bs')] @ post" "length bs \<le> length bs'"
    using parse_step_last by blast
  show ?case
  proof (cases post rule: rev_cases)
    case Nil
    then show ?thesis using 1 Cons.IH [of pre n p bs'] by fastforce
  next
    case (snoc post' x)
    then show ?thesis using 1 Cons.IH [of "pre @ (n, p, bs') # post'" "fst x" "fst (snd x)" "snd (snd x)"] by auto
  qed
qed simp

lemma parse_prefix:
  assumes "parse rs = pre @ [(n, p, bs)]"
  shows "\<exists>bs' post. parse (rs @ qs) = pre @ [(n, p, bs')] @ post \<and> length bs \<le> length bs'"
  using foldl_parse_step [of pre n p bs qs] assms by (simp add: parse_def)

lemma parse_length_mono: "length (parse rs) \<le> length (parse (rs @ qs))"
proof (cases "parse rs" rule: rev_cases)
  case (snoc pre x)
  then show ?thesis using parse_prefix [of rs pre "fst x" "fst (snd x)" "snd (snd x)" qs] by auto
qed simp

lemma phase_prefix: "phase (rs @ qs) \<noteq> None \<Longrightarrow> phase rs \<noteq> None"
proof (induction qs rule: rev_induct)
  case (snoc q qs)
  then have "phase ((rs @ qs) @ [q]) \<noteq> None" by simp
  then have "phase (rs @ qs) \<noteq> None" unfolding phase_snoc by (cases "phase (rs @ qs)") (auto simp: phase_step_def)
  then show ?case by (rule snoc.IH)
qed simp

lemma phase_parse:
  "phase rs = Some k \<Longrightarrow> (if k = 0 then parse rs = [] else parse rs \<noteq> []) \<and>
    (k \<ge> 2 \<longrightarrow> snd (snd (last (parse rs))) \<noteq> []) \<and> k \<le> 3"
proof (induction rs arbitrary: k rule: rev_induct)
  case (snoc r rs)
  obtain j where j: "phase rs = Some j" using snoc.prems by (auto simp: phase_snoc phase_step_def split: option.splits)
  note IH = snoc.IH [OF j]
  have ne: "on_last f xs = [] \<longleftrightarrow> xs = []" for f and xs :: "'a list" by (simp add: on_last_def)
  show ?case
    using IH snoc.prems j
    by (cases "parse rs" rule: rev_cases; cases r)
      (auto simp: phase_snoc phase_step_def parse_snoc parse_step_def ne split: if_splits)
qed simp

lemma pass2:
  assumes "phase rs \<noteq> None" "fixable rs" "N = length (parse rs)" "rs = ps @ qs"
  shows "\<exists>s. process_records ps (load_init \<lparr>m_name = first_name rs, func_count = N, funcs = Some (replicate N func_zero)\<rparr>) =
    Ret () s \<and> state2 N (first_name rs) ps s"
  using assms(4)
proof (induction ps arbitrary: qs rule: rev_induct)
  case Nil
  then show ?case by (simp add: state2_def load_init_def)
next
  case (snoc r ps)
  then obtain s where s: "process_records ps (load_init \<lparr>m_name = first_name rs, func_count = N,
      funcs = Some (replicate N func_zero)\<rparr>) = Ret () s" "state2 N (first_name rs) ps s"
    by force
  have in_rs: "r \<in> set rs" using snoc.prems by simp
  have "\<exists>t. process_record r s = Ret () t \<and> state2 N (first_name rs) (ps @ [r]) t"
  proof (cases "r = Rec_basic_block \<or> (\<exists>n p. r = Rec_function n p)")
    case False
    have "first_name rs \<noteq> None \<or> first_name [r] = None"
    proof -
      have "first_name [r] = None \<or> first_name xs \<noteq> None" if "r \<in> set xs" for xs
        using that by (induction xs) (auto split: map_record.splits)
      from this [OF in_rs] show ?thesis by (simp only: disj_commute)
    qed
    then show ?thesis using state2_other [OF s(2)] False by simp
  next
    case True
    then show ?thesis
    proof
      assume r: "r = Rec_basic_block"
      have "phase (ps @ [r]) \<noteq> None" using phase_prefix [of "ps @ [r]" qs] assms(1) snoc.prems by simp
      then have "parse ps \<noteq> []" using phase_parse [of ps] r by (fastforce simp: phase_snoc phase_step_def split: option.splits if_splits)
      then obtain fs n p bs where "parse ps = fs @ [(n, p, bs)]" by (cases "parse ps" rule: rev_cases) auto
      then show ?thesis using state2_block [OF s(2)] r by simp
    next
      assume "\<exists>n p. r = Rec_function n p"
      then obtain n p where r: "r = Rec_function n p" by blast
      have "length (parse (ps @ [r])) \<le> N" using parse_length_mono [of "ps @ [r]" qs] assms(3) snoc.prems by simp
      then have "length (parse ps) < N" using r by (simp add: parse_snoc parse_step_def)
      moreover have "fixed p \<noteq> None" using assms(2) in_rs r by (force simp: fixable_def)
      ultimately show ?thesis using state2_function [OF s(2)] r by simp
    qed
  qed
  then show ?case using s(1) by (simp add: process_records_snoc)
qed

text \<open>The third pass numbers the functions and fills their blocks.\<close>

definition total_blocks :: "parsed \<Rightarrow> nat" where
  "total_blocks fs = sum_list (map (\<lambda>(n, p, bs). length bs) fs)"

definition func3 :: "nat \<Rightarrow> string \<Rightarrow> string \<Rightarrow> map_record list list \<Rightarrow> nat \<Rightarrow> module_func" where
  "func3 k n p bs m = \<lparr>fn_name = Some n, fn_path = Some p, fn_pathFixed = fixed p, bb_index_first = k,
     bb_count = m, bbs = (if m = 0 then None else Some (map bb_of bs @ replicate (m - length bs) bb_zero)),
     global_func = None\<rparr>"

definition empty3 :: "string \<times> string \<times> map_record list list \<Rightarrow> module_func" where
  "empty3 = (\<lambda>(n, p, bs). func3 0 n p [] (length bs))"

definition in3 :: "map_record list \<Rightarrow> nat \<Rightarrow> parsed \<Rightarrow> string \<Rightarrow> string \<Rightarrow> map_record list list \<Rightarrow> load_state \<Rightarrow> bool" where
  "in3 rs k pre n p bs s =
     (\<exists>bs' post. parse rs = pre @ [(n, p, bs')] @ post \<and> length bs \<le> length bs' \<and>
        ls_module s = \<lparr>m_name = first_name rs, func_count = length (parse rs),
          funcs = Some (funcs_of 0 pre @ [func3 (total_blocks pre) n p bs (length bs')] @ map empty3 post)\<rparr> \<and>
        ls_func s = Some (length pre) \<and> func_index s = Suc (length pre) \<and> func_bb_index s = length bs \<and>
        abs_bb_index s = total_blocks pre + length bs \<and>
        (if k \<ge> 2 then bs \<noteq> [] \<and> ls_bb s = Some (length pre, length bs - 1) \<and> bb_line_p s = ls_bb s else ls_bb s = None) \<and>
        (k = 3 \<longrightarrow> (ins_path s, ins_line s) = fst (bb_run (last bs))))"

definition before3 :: "map_record list \<Rightarrow> load_state \<Rightarrow> bool" where
  "before3 rs s =
     (ls_module s = \<lparr>m_name = first_name rs, func_count = length (parse rs), funcs = Some (map empty3 (parse rs))\<rparr> \<and>
      ls_func s = None \<and> func_index s = 0 \<and> ls_bb s = None \<and> bb_line_p s = None \<and> abs_bb_index s = 0)"

definition state3 :: "map_record list \<Rightarrow> map_record list \<Rightarrow> load_state \<Rightarrow> bool" where
  "state3 rs ps s =
     (if parse ps = [] then before3 rs s
      else case last (parse ps) of (n, p, bs) \<Rightarrow> in3 rs (the (phase ps)) (butlast (parse ps)) n p bs s)"

lemma length_funcs_of [simp]: "length (funcs_of k fs) = length fs"
  by (induction k fs rule: funcs_of.induct) auto

lemma funcs_of_snoc:
  "funcs_of k (fs @ [(n, p, bs)]) = funcs_of k fs @ [func3 (k + total_blocks fs) n p bs (length bs)]"
  by (induction k fs rule: funcs_of.induct) (auto simp: func3_def total_blocks_def add.assoc)

lemma bb_of_Nil: "bb_of [] = bb_zero" by (simp add: bb_of_def bb_run_def)

lemma block3:
  assumes "in3 rs k pre n p bs s" "\<exists>bs' post. parse rs = pre @ [(n, p, bs')] @ post \<and> length bs < length bs'"
  shows "\<exists>t. process_basic_block s = Ret () t \<and> in3 rs 2 pre n p (bs @ [[]]) t"
proof -
  obtain bs' post where s: "parse rs = pre @ [(n, p, bs')] @ post" "length bs \<le> length bs'"
    "funcs (ls_module s) = Some (funcs_of 0 pre @ [func3 (total_blocks pre) n p bs (length bs')] @ map empty3 post)"
    "ls_module s = \<lparr>m_name = first_name rs, func_count = length (parse rs), funcs = funcs (ls_module s)\<rparr>"
    "ls_func s = Some (length pre)" "func_index s = Suc (length pre)" "func_bb_index s = length bs"
    "abs_bb_index s = total_blocks pre + length bs"
    using assms(1) by (auto simp: in3_def)
  have lt: "length bs < length bs'" using assms(2) s(1) by auto
  then obtain d where d: "length bs' - length bs = Suc d" by (metis Suc_diff_Suc)
  then have d': "length bs' - Suc (length bs) = d" by simp
  let ?fs = "funcs_of 0 pre @ [func3 (total_blocks pre) n p bs (length bs')] @ map empty3 post"
  have nth: "?fs ! length pre = func3 (total_blocks pre) n p bs (length bs')"
    using nth_append_length [of "funcs_of 0 pre"] by simp
  have same: "func3 (total_blocks pre) n p bs (length bs') = func3 (total_blocks pre) n p (bs @ [[]]) (length bs')"
    by (simp add: func3_def d d' bb_of_Nil)
  have bs: "bbs (?fs ! length pre) = Some (map bb_of bs @ bb_zero # replicate d bb_zero)"
    unfolding nth using lt d by (auto simp: func3_def)
  have len: "length bs < length (map bb_of bs @ bb_zero # replicate d bb_zero)" by simp
  have zero: "(map bb_of bs @ bb_zero # replicate d bb_zero) ! length bs = bb_zero"
    using nth_append_length [of "map bb_of bs" bb_zero] by simp
  let ?t = "s\<lparr>ls_bb := Some (length pre, length bs), bb_line_p := Some (length pre, length bs),
    func_bb_index := Suc (length bs), abs_bb_index := Suc (total_blocks pre + length bs)\<rparr>"
  have "process_basic_block s = Ret () ?t"
    using s(3,5,7,8) bs len zero by (simp add: process_basic_block_def Let_def bb_zero_def)
  moreover have "in3 rs 2 pre n p (bs @ [[]]) ?t"
    unfolding in3_def using s lt same by (intro exI [of _ bs'] exI [of _ post]) (simp add: Suc_le_eq)
  ultimately show ?thesis by blast
qed

lemma upd_bb3:
  assumes "in3 rs k pre n p (ini @ [b]) s" "f (bb_of b) = bb_of b'" "k \<ge> 2"
  shows "in3 rs 2 pre n p (ini @ [b']) (upd_bb (length pre, length ini) f s)"
proof -
  obtain bs' post where s: "parse rs = pre @ [(n, p, bs')] @ post" "Suc (length ini) \<le> length bs'"
    "funcs (ls_module s) = Some (funcs_of 0 pre @ [func3 (total_blocks pre) n p (ini @ [b]) (length bs')] @ map empty3 post)"
    "ls_module s = \<lparr>m_name = first_name rs, func_count = length (parse rs), funcs = funcs (ls_module s)\<rparr>"
    "ls_func s = Some (length pre)" "func_index s = Suc (length pre)" "func_bb_index s = Suc (length ini)"
    "abs_bb_index s = total_blocks pre + Suc (length ini)" "ls_bb s = Some (length pre, length ini)" "bb_line_p s = ls_bb s"
    using assms(1,3) by (auto simp: in3_def)
  let ?rest = "replicate (length bs' - Suc (length ini)) bb_zero"
  have upd: "(map bb_of ini @ [bb_of b] @ ?rest)[length ini := f ((map bb_of ini @ [bb_of b] @ ?rest) ! length ini)] =
      map bb_of ini @ [bb_of b'] @ ?rest"
    using list_update_last [of "map bb_of ini" "bb_of b" ?rest f] assms(2) by simp
  define g where "g = (\<lambda>fn. fn\<lparr>bbs := map_option (\<lambda>bs. bs[length ini := f (bs ! length ini)]) (bbs fn)\<rparr> :: module_func)"
  have g: "g (func3 (total_blocks pre) n p (ini @ [b]) (length bs')) = func3 (total_blocks pre) n p (ini @ [b']) (length bs')"
    using s(2) upd by (simp add: func3_def g_def)
  have fs: "(funcs_of 0 pre @ [func3 (total_blocks pre) n p (ini @ [b]) (length bs')] @ map empty3 post)[length pre :=
      g ((funcs_of 0 pre @ [func3 (total_blocks pre) n p (ini @ [b]) (length bs')] @ map empty3 post) ! length pre)] =
      funcs_of 0 pre @ [func3 (total_blocks pre) n p (ini @ [b']) (length bs')] @ map empty3 post"
    using list_update_last [of "funcs_of 0 pre" _ "map empty3 post" g] g by simp
  have "upd_bb (length pre, length ini) f s = upd_func (length pre) g s"
    by (simp add: upd_bb_def g_def)
  moreover have "funcs (ls_module (upd_func (length pre) g s)) =
      Some (funcs_of 0 pre @ [func3 (total_blocks pre) n p (ini @ [b']) (length bs')] @ map empty3 post)"
    using s(3) fs by (simp add: upd_func_def)
  moreover have "ls_module (upd_func (length pre) g s) = \<lparr>m_name = first_name rs, func_count = length (parse rs),
      funcs = funcs (ls_module (upd_func (length pre) g s))\<rparr>"
    using s(4) by (cases "ls_module s") (simp add: upd_func_def)
  ultimately show ?thesis
    unfolding in3_def using s(1,2,5-10)
    by (intro exI [of _ bs'] exI [of _ post]) (simp add: upd_func_def)
qed

lemma function3:
  assumes "parse rs = pre @ [(n, p, bs')] @ post" "fixed p \<noteq> None"
    "ls_module s = \<lparr>m_name = first_name rs, func_count = length (parse rs),
       funcs = Some (funcs_of 0 pre @ [empty3 (n, p, bs')] @ map empty3 post)\<rparr>"
    "func_index s = length pre" "abs_bb_index s = total_blocks pre"
  shows "\<exists>t. process_function n p s = Ret () t \<and> in3 rs 1 pre n p [] t"
proof -
  let ?fs = "funcs_of 0 pre @ [empty3 (n, p, bs')] @ map empty3 post"
  have nth: "?fs ! length pre = func3 0 n p [] (length bs')"
    using nth_append_length [of "funcs_of 0 pre"] by (simp add: empty3_def)
  have upd: "?fs[length pre := x] = funcs_of 0 pre @ [x] @ map empty3 post" for x
    using list_update_length [of "funcs_of 0 pre"] by simp
  have new: "(func3 0 n p [] (length bs'))\<lparr>fn_pathFixed := fixed p, bb_index_first := total_blocks pre\<rparr> =
      func3 (total_blocks pre) n p [] (length bs')" by (simp add: func3_def)
  have fields: "fn_name (func3 0 n p [] m) = Some n" "fn_path (func3 0 n p [] m) = Some p"
    "fn_pathFixed (func3 0 n p [] m) = fixed p" for m by (simp_all add: func3_def)
  have lt: "length pre < length ?fs" by simp
  let ?t = "(upd_func (length pre) (\<lambda>_. func3 (total_blocks pre) n p [] (length bs'))
      (s\<lparr>ls_func := Some (length pre), func_index := Suc (length pre)\<rparr>))\<lparr>ls_bb := None, func_bb_index := 0\<rparr>"
  obtain q where q: "fixed p = Some q" using assms(2) by blast
  have "process_function n p s = Ret () ?t"
    using assms(3-5) nth lt new q by (simp add: process_function_def Let_def fields)
  moreover have "in3 rs 1 pre n p [] ?t"
    unfolding in3_def using assms(1,3,5) upd [of "func3 (total_blocks pre) n p [] (length bs')"]
    by (intro exI [of _ bs'] exI [of _ post]) (simp add: upd_func_def)
  ultimately show ?thesis by blast
qed

lemma list_update_twice: "xs[i := h (xs[i := y] ! i)] = xs[i := h y]"
  by (cases "i < length xs") (simp_all add: list_update_beyond)

lemma upd_func_twice: "upd_func i g (upd_func i f s) = upd_func i (\<lambda>fn. g (f fn)) s"
  by (cases "funcs (ls_module s)") (simp_all add: upd_func_def list_update_twice [where h = g])

lemma upd_bb_twice: "upd_bb x g (upd_bb x f s) = upd_bb x (\<lambda>bb. g (f bb)) s"
proof (cases x)
  case (Pair i j)
  have "map_option (\<lambda>bs. bs[j := g (bs ! j)]) (map_option (\<lambda>bs. bs[j := f (bs ! j)]) z) =
      map_option (\<lambda>bs. bs[j := g (f (bs ! j))]) z" for z
    by (cases z) (simp_all add: list_update_twice [where h = g])
  then show ?thesis unfolding Pair by (simp add: upd_bb_def upd_func_twice)
qed

lemma advance3:
  assumes "in3 rs k pre n p (ini @ [b]) s" "k \<ge> 2" "bb_run (b @ [r]) = ((q, l), f (bb_of b))"
  shows "in3 rs 3 pre n p (ini @ [b @ [r]]) (upd_bb (length pre, length ini) f (s\<lparr>ins_path := q, ins_line := l\<rparr>))"
proof -
  have "in3 rs 2 pre n p (ini @ [b]) (s\<lparr>ins_path := q, ins_line := l\<rparr>)"
    using assms(1,2) by (auto simp: in3_def)
  moreover have "f (bb_of b) = bb_of (b @ [r])" using assms(3) by (simp add: bb_of_def)
  ultimately have "in3 rs 2 pre n p (ini @ [b @ [r]]) (upd_bb (length pre, length ini) f (s\<lparr>ins_path := q, ins_line := l\<rparr>))"
    by (rule upd_bb3) simp
  moreover have "ins_path (upd_bb x f t) = ins_path t" "ins_line (upd_bb x f t) = ins_line t" for x t
    by (cases x; simp add: upd_bb_def upd_func_def)+
  ultimately show ?thesis using assms(3) by (auto simp: in3_def)
qed

lemma other3:
  assumes "in3 rs k pre n p (ini @ [b]) s" "k \<ge> 2" "k = 3 \<or> r = Rec_instruction \<or> (\<exists>q l. r = Rec_dinstruction q l)"
    "r \<noteq> Rec_basic_block" "\<forall>n p. r \<noteq> Rec_function n p" "\<forall>n. r \<noteq> Rec_module_name n"
    "\<forall>q \<in> set (record_paths r). fixed q \<noteq> None"
  shows "\<exists>t. process_record r s = Ret () t \<and> in3 rs 3 pre n p (ini @ [b @ [r]]) t"
proof -
  have cur: "ls_bb s = Some (length pre, length ini)" "bb_line_p s = Some (length pre, length ini)"
    using assms(1,2) by (auto simp: in3_def)
  have run: "bb_run (b @ [r]) = bb_step (fst (bb_run b), bb_of b) r" by (simp add: bb_run_snoc bb_of_def)
  have loc: "k = 3 \<Longrightarrow> fst (bb_run b) = (ins_path s, ins_line s)" using assms(1) by (auto simp: in3_def)
  note adv = advance3 [OF assms(1,2)]
  have upd_line: "bb_line_p (upd_bb x f t) = bb_line_p t" for x f t by (cases x) (simp add: upd_bb_def upd_func_def)
  show ?thesis
  proof (cases r)
    case Rec_instruction
    show ?thesis using adv [of r None 0 "\<lambda>bb. bb\<lparr>instr_count := instr_count bb + 1\<rparr>"] run cur
      unfolding Rec_instruction by (simp add: bb_step_def process_instruction_def upd_cur_bb_def)
  next
    case (Rec_dinstruction q l)
    obtain pf where pf: "fixed q = Some pf" using assms(7) Rec_dinstruction by auto
    have q: "fixPath (Some q) = Inr (fixed q)" using fixed_Some [OF pf] pf by simp
    show ?thesis
      using adv [of r "Some q" "sint l" "\<lambda>bb. bb\<lparr>instr_count := instr_count bb + 1, bb_lines := bb_lines bb @ [line_of q l]\<rparr>"] run cur
      unfolding Rec_dinstruction
      by (simp add: bb_step_def process_dinstruction_def upd_cur_bb_def upd_line q upd_bb_twice line_of_def)
  next
    case (Rec_fault_candidate f)
    then have "k = 3" using assms(3) by simp
    show ?thesis
      using adv [of r "ins_path s" "ins_line s" "\<lambda>bb. bb\<lparr>faultcand_count := faultcand_count bb + 1\<rparr>"] run cur loc [OF \<open>k = 3\<close>]
      unfolding Rec_fault_candidate by (simp add: bb_step_def process_fault_candidate_def upd_cur_bb_def)
  next
    case (Rec_fault_injected f)
    then have "k = 3" using assms(3) by simp
    show ?thesis
      using adv [of r "ins_path s" "ins_line s" "\<lambda>bb. bb\<lparr>faultinj_count := faultinj_count bb + 1, fault_path := ins_path s,
          fault_line := ins_line s, fault_type := Some f\<rparr>"] run cur loc [OF \<open>k = 3\<close>]
      unfolding Rec_fault_injected by (simp add: bb_step_def process_fault_injected_def upd_cur_bb_def)
  qed (use assms in auto)
qed

lemma state3_in_block:
  assumes "state3 rs ps s" "phase ps = Some k" "phase (ps @ [r]) = Some k'"
    "\<forall>q \<in> set (record_paths r). fixed q \<noteq> None"
    "r \<noteq> Rec_basic_block" "\<forall>n p. r \<noteq> Rec_function n p" "\<forall>n. r \<noteq> Rec_module_name n"
  shows "\<exists>t. process_record r s = Ret () t \<and> state3 rs (ps @ [r]) t"
proof -
  have k: "k \<ge> 2" "k' = 3" "k = 3 \<or> r = Rec_instruction \<or> (\<exists>q l. r = Rec_dinstruction q l)"
    using assms(2,3,5-7) by (cases r; auto simp: phase_snoc phase_step_def split: if_splits)+
  then have "parse ps \<noteq> []" "snd (snd (last (parse ps))) \<noteq> []"
    using phase_parse [OF assms(2)] by (auto split: if_splits)
  then obtain pre n p ini b where ps: "parse ps = pre @ [(n, p, ini @ [b])]"
    by (cases "parse ps" rule: rev_cases; cases "snd (snd (last (parse ps)))" rule: rev_cases) auto
  then have new: "parse (ps @ [r]) = pre @ [(n, p, ini @ [b @ [r]])]"
    using assms(5-7) by (cases r) (auto simp: parse_snoc parse_step_def)
  have "in3 rs k pre n p (ini @ [b]) s" using assms(1,2) ps by (simp add: state3_def)
  from other3 [OF this k(1,3) assms(5-7,4)] show ?thesis using new assms(3) k(2) by (auto simp: state3_def)
qed

lemma state3_step:
  assumes "phase rs \<noteq> None" "fixable rs" "rs = ps @ r # qs" "state3 rs ps s"
  shows "\<exists>t. process_record r s = Ret () t \<and> state3 rs (ps @ [r]) t"
proof -
  have "phase (ps @ [r]) \<noteq> None" using phase_prefix [of "ps @ [r]" qs] assms(1,3) by simp
  then obtain k k' where k: "phase ps = Some k" "phase (ps @ [r]) = Some k'"
    by (cases "phase ps") (auto simp: phase_snoc phase_step_def)
  note step = k(2) [unfolded phase_snoc k(1) phase_step_def, simplified]
  have in_rs: "r \<in> set rs" using assms(3) by simp
  then have paths: "\<forall>q \<in> set (record_paths r). fixed q \<noteq> None" using assms(2) by (simp add: fixable_def)
  show ?thesis
  proof (cases r)
    case (Rec_module_name nm)
    have "first_name xs \<noteq> None" if "r \<in> set xs" for xs
      using that Rec_module_name by (induction xs) (auto split: map_record.splits)
    then have "first_name rs \<noteq> None" using in_rs by blast
    then obtain nm' where "m_name (ls_module s) = Some nm'"
      using assms(4) by (auto simp: state3_def before3_def in3_def split: if_splits prod.splits)
    then have "process_record r s = Ret () s" by (simp add: Rec_module_name process_module_name_def)
    moreover have "parse (ps @ [r]) = parse ps" "k' = k"
      using Rec_module_name step by (simp_all add: parse_snoc parse_step_def)
    moreover have "state3 rs (ps @ [r]) s = state3 rs ps s"
      unfolding state3_def by (simp only: calculation k)
    ultimately show ?thesis using assms(4) by simp
  next
    case (Rec_function n p)
    have new: "parse (ps @ [r]) = parse ps @ [(n, p, [])]" using Rec_function by (simp add: parse_snoc parse_step_def)
    obtain bs' post where rs: "parse rs = parse ps @ [(n, p, bs')] @ post"
      using parse_prefix [OF new, of qs] assms(3) by auto
    have "ls_module s = \<lparr>m_name = first_name rs, func_count = length (parse rs),
        funcs = Some (funcs_of 0 (parse ps) @ [empty3 (n, p, bs')] @ map empty3 post)\<rparr> \<and>
        func_index s = length (parse ps) \<and> abs_bb_index s = total_blocks (parse ps)"
    proof (cases "parse ps" rule: rev_cases)
      case Nil
      then show ?thesis using assms(4) rs by (simp add: state3_def before3_def total_blocks_def)
    next
      case (snoc pre x)
      obtain a c bs where x: "x = (a, c, bs)" by (cases x)
      have "in3 rs k pre a c bs s" using assms(4) k(1) snoc x by (simp add: state3_def)
      then show ?thesis using rs snoc x
        by (auto simp: in3_def funcs_of_snoc total_blocks_def)
    qed
    then have "\<exists>t. process_function n p s = Ret () t \<and> in3 rs 1 (parse ps) n p [] t"
      using function3 [OF rs] paths Rec_function by simp
    then show ?thesis using new Rec_function k step by (auto simp: state3_def)
  next
    case Rec_basic_block
    then have "k \<ge> 1" "k' = 2" using step by (auto split: if_splits)
    then obtain pre n p bs where ps: "parse ps = pre @ [(n, p, bs)]"
      using phase_parse [OF k(1)] by (cases "parse ps" rule: rev_cases) (auto split: if_splits)
    then have new: "parse (ps @ [r]) = pre @ [(n, p, bs @ [[]])]"
      using Rec_basic_block by (simp add: parse_snoc parse_step_def)
    have "\<exists>bs' post. parse rs = pre @ [(n, p, bs')] @ post \<and> length bs < length bs'"
      using parse_prefix [OF new, of qs] assms(3) by (auto simp: Suc_le_eq)
    then have "\<exists>t. process_basic_block s = Ret () t \<and> in3 rs 2 pre n p (bs @ [[]]) t"
      using block3 assms(4) k(1) ps by (simp add: state3_def)
    then show ?thesis using new Rec_basic_block k \<open>k' = 2\<close> by (auto simp: state3_def)
  qed (rule state3_in_block [OF assms(4) k paths]; simp)+
qed

lemma pass3:
  assumes "phase rs \<noteq> None" "fixable rs" "rs = ps @ qs"
  shows "\<exists>s. process_records ps (load_init \<lparr>m_name = first_name rs, func_count = length (parse rs),
      funcs = Some (map empty3 (parse rs))\<rparr>) = Ret () s \<and> state3 rs ps s"
  using assms(3)
proof (induction ps arbitrary: qs rule: rev_induct)
  case Nil
  then show ?case by (simp add: state3_def before3_def load_init_def)
next
  case (snoc r ps)
  then obtain s where s: "process_records ps (load_init \<lparr>m_name = first_name rs, func_count = length (parse rs),
      funcs = Some (map empty3 (parse rs))\<rparr>) = Ret () s" "state3 rs ps s" by force
  from state3_step [OF assms(1,2) _ s(2), of r qs] snoc.prems s(1) show ?case
    by (auto simp: process_records_snoc)
qed

lemma state3_final:
  assumes "state3 rs rs s" "parse rs \<noteq> []"
  shows "ls_module s = module_of rs"
proof -
  obtain pre n p bs where rs: "parse rs = pre @ [(n, p, bs)]" using assms(2) by (cases "parse rs" rule: rev_cases) auto
  then have "in3 rs (the (phase rs)) pre n p bs s" using assms(1) by (simp add: state3_def)
  then show ?thesis using rs by (auto simp: in3_def module_of_def funcs_of_snoc)
qed

lemma load_records_module:
  assumes "phase rs \<noteq> None" "fixable rs"
  shows "load_records rs = Ret () (module_of rs)"
proof (cases "parse rs = []")
  case True
  let ?m = "\<lparr>m_name = first_name rs, func_count = 0, funcs = None\<rparr>"
  have "load_pass rs module_zero = Ret () ?m" "load_pass rs ?m = Ret () ?m"
    using pass1 [of module_zero rs] pass1 [of ?m rs] True by (auto simp: load_pass_def module_zero_def)
  then show ?thesis using True by (simp add: load_records_def CALLOC_def module_of_def)
next
  case False
  let ?N = "length (parse rs)"
  let ?m2 = "\<lparr>m_name = first_name rs, func_count = ?N, funcs = Some (replicate ?N func_zero)\<rparr>"
  let ?m3 = "\<lparr>m_name = first_name rs, func_count = ?N, funcs = Some (map empty3 (parse rs))\<rparr>"
  have p1: "load_pass rs module_zero = Ret () \<lparr>m_name = first_name rs, func_count = ?N, funcs = None\<rparr>"
    using pass1 [of module_zero rs] by (auto simp: load_pass_def module_zero_def)
  have p2: "load_pass rs ?m2 = Ret () \<lparr>m_name = first_name rs, func_count = ?N, funcs = Some (map func2 (parse rs))\<rparr>"
    using pass2 [OF assms refl, of rs "[]"] by (auto simp: load_pass_def state2_def)
  have p3: "load_pass rs ?m3 = Ret () (module_of rs)"
    using pass3 [OF assms, of rs "[]"] state3_final False by (auto simp: load_pass_def)
  have "alloc_bbs \<circ> func2 = empty3"
    by (auto simp: fun_eq_iff alloc_bbs_def func2_def empty3_def func3_def CALLOC_def)
  then show ?thesis using p1 p2 p3 False by (simp add: load_records_def CALLOC_def)
qed

section \<open>Lemmas: blocks by number\<close>

lemma total_blocks_Cons [simp]: "total_blocks ((n, p, bs) # fs) = length bs + total_blocks fs"
  by (simp add: total_blocks_def)

lemma get_bb_scan_beyond:
  "total_blocks fs \<le> x \<Longrightarrow> get_bb_scan i (funcs_of k fs) (int x + 1) = Inr None"
proof (induction fs arbitrary: i k x)
  case (Cons f fs)
  obtain n p bs where f: "f = (n, p, bs)" by (cases f)
  have "int x + 1 - int (length bs) = int (x - length bs) + 1" using Cons.prems f by simp
  moreover have "get_bb_scan (i + 1) (funcs_of (k + length bs) fs) (int (x - length bs) + 1) = Inr None"
    using Cons.IH [of "x - length bs"] Cons.prems f by simp
  ultimately have "get_bb_scan (i + 1) (funcs_of (k + length bs) fs) (int x + 1 - int (length bs)) = Inr None"
    by (simp only:)
  then show ?case using Cons.prems f by simp
qed simp

lemma get_bb_scan_found:
  "x < total_blocks fs \<Longrightarrow>
   \<exists>j fn bs. j < length fs \<and> funcs_of k fs ! j = fn \<and> bbs fn = Some bs \<and> bb_index_first fn \<le> k + x \<and>
     k + x < bb_index_first fn + bb_count fn \<and>
     get_bb_scan i (funcs_of k fs) (int x + 1) = Inr (Some (i + j, bs ! (k + x - bb_index_first fn)))"
proof (induction fs arbitrary: i k x)
  case (Cons f fs)
  obtain n p bs where f: "f = (n, p, bs)" by (cases f)
  show ?case
  proof (cases "x < length bs")
    case True
    then show ?thesis using f by (intro exI [of _ 0] exI [of _ "funcs_of k (f # fs) ! 0"]) auto
  next
    case False
    then have x: "x - length bs < total_blocks fs" using Cons.prems f by simp
    have x': "int x + 1 - int (length bs) = int (x - length bs) + 1" "k + length bs + (x - length bs) = k + x"
      using False by simp_all
    obtain j fn cs where "j < length fs" "funcs_of (k + length bs) fs ! j = fn" "bbs fn = Some cs"
      "bb_index_first fn \<le> k + x" "k + x < bb_index_first fn + bb_count fn"
      "get_bb_scan (i + 1) (funcs_of (k + length bs) fs) (int (x - length bs) + 1) =
        Inr (Some (i + 1 + j, cs ! (k + x - bb_index_first fn)))"
      using Cons.IH [OF x, of "k + length bs" "i + 1"] unfolding x' by blast
    moreover from this(6) have "get_bb_scan (i + 1) (funcs_of (k + length bs) fs) (int x + 1 - int (length bs)) =
        Inr (Some (i + Suc j, cs ! (k + x - bb_index_first fn)))"
      by (simp only: x') simp
    ultimately show ?thesis using False f
      by (intro exI [of _ "Suc j"] exI [of _ fn] exI [of _ cs]) simp
  qed
qed (simp add: total_blocks_def)

section \<open>Lemmas: paths\<close>

text \<open>A path as its elements, and their resolution on a stack; None where the loop runs off the path.\<close>

fun join :: "string list \<Rightarrow> string" where
  "join [] = []"
| "join [c] = c"
| "join (c # cs) = c @ ''/'' @ join cs"

fun resolve :: "string list \<Rightarrow> string list \<Rightarrow> string list option" where
  "resolve st [] = Some st"
| "resolve st [c] = (if c = ''.'' \<or> c = ''..'' \<and> st \<noteq> [] then None else Some (st @ [c]))"
| "resolve st (c # cs) =
     (if c = ''.'' then resolve st cs
      else if c = ''..'' \<and> st \<noteq> [] then resolve (butlast st) cs
      else resolve (st @ [c]) cs)"

definition elems :: "string list \<Rightarrow> bool" where
  "elems cs = (\<forall>c \<in> set cs. c \<noteq> [] \<and> CHR ''/'' \<notin> set c)"

definition dirs :: "string list \<Rightarrow> string" where
  "dirs st = concat (map (\<lambda>c. c @ ''/'') st)"

lemma join_dirs: "join (st @ [c]) = dirs st @ c"
proof (induction st)
  case (Cons d st)
  then show ?case by (cases "st @ [c]") (auto simp: dirs_def)
qed (simp add: dirs_def)

lemma dirs_snoc [simp]: "dirs (st @ [c]) = dirs st @ c @ ''/''" by (simp add: dirs_def)

lemma dropWhile_elem:
  "CHR ''/'' \<notin> set c \<Longrightarrow> dropWhile (\<lambda>ch. ch \<noteq> CHR ''/'') (c @ s) = dropWhile (\<lambda>ch. ch \<noteq> CHR ''/'') s"
  "CHR ''/'' \<notin> set c \<Longrightarrow> takeWhile (\<lambda>ch. ch \<noteq> CHR ''/'') (c @ s) = c @ takeWhile (\<lambda>ch. ch \<noteq> CHR ''/'') s"
  by (induction c) auto

lemma unwind_dirs:
  assumes "elems (st @ [c])" "base = '''' \<or> base = ''/''"
  shows "unwind (base @ dirs (st @ [c])) = base @ dirs st"
proof -
  have c: "CHR ''/'' \<notin> set (rev c)" using assms(1) by (simp add: elems_def)
  have b: "butlast (base @ dirs (st @ [c])) = base @ dirs st @ c"
    using butlast_append [of "base @ dirs st @ c" "''/''"] by simp
  have "dropWhile (\<lambda>ch. ch \<noteq> CHR ''/'') (rev (base @ dirs st @ c)) = rev (base @ dirs st)"
  proof (cases st rule: rev_cases)
    case Nil
    then show ?thesis using dropWhile_elem(1) [OF c, of "rev base"] assms(2) by (auto simp: dirs_def)
  next
    case (snoc st' d)
    then show ?thesis using dropWhile_elem(1) [OF c] by simp
  qed
  then show ?thesis unfolding unwind_def b by simp
qed

lemma fixPath_elem:
  assumes "c \<noteq> []" "CHR ''/'' \<notin> set c" "s = [] \<or> hd s = CHR ''/''"
  shows "fixPath_loop (c @ s) out =
    (if c = ''.'' then (if s = [] then Inl OutOfBounds else fixPath_loop (tl s) out)
     else if c = ''..'' \<and> length out > 1 then (if s = [] then Inl OutOfBounds else fixPath_loop (tl s) (unwind out))
     else fixPath_loop s (out @ c))"
proof -
  have hd: "hd (c @ s) \<noteq> CHR ''/''" using assms(1,2) by (cases c) auto
  have s: "takeWhile (\<lambda>ch. ch \<noteq> CHR ''/'') s = []" "dropWhile (\<lambda>ch. ch \<noteq> CHR ''/'') s = s"
    using assms(3) by (cases s; auto)+
  have ne: "c @ s \<noteq> []" using assms(1) by simp
  have cut: "takeWhile (\<lambda>ch. ch \<noteq> CHR ''/'') (c @ s) = c" "dropWhile (\<lambda>ch. ch \<noteq> CHR ''/'') (c @ s) = s"
    by (simp_all add: dropWhile_elem [OF assms(2)] s)
  show ?thesis
    unfolding fixPath_loop.simps [of "c @ s" out] Let_def
    by (simp only: ne hd cut if_False)
qed

lemma fixPath_slash:
  assumes "s \<noteq> []" "hd s \<noteq> CHR ''/''"
  shows "fixPath_loop (CHR ''/'' # s) out = fixPath_loop s (out @ ''/'')"
proof -
  have cut: "dropWhile (\<lambda>ch. ch = CHR ''/'') (CHR ''/'' # s) = s" using assms by (cases s) auto
  have hd: "(hd s = CHR ''/'') = False" "(s = []) = False" using assms by simp_all
  show ?thesis
    unfolding fixPath_loop.simps [of "CHR ''/'' # s" out] fixPath_loop.simps [of s "out @ ''/''"] Let_def
    by (simp only: cut hd if_False list.sel if_True list.distinct refl)
qed

lemma join_start: "elems (c # cs) \<Longrightarrow> join (c # cs) \<noteq> [] \<and> hd (join (c # cs)) \<noteq> CHR ''/''"
  by (cases cs; cases c) (auto simp: elems_def)

lemma long_dirs:
  "elems st \<Longrightarrow> base = '''' \<or> base = ''/'' \<Longrightarrow> length (base @ dirs st) > 1 \<longleftrightarrow> st \<noteq> []"
  by (cases st) (auto simp: elems_def dirs_def)

lemma fixPath_loop_resolve:
  assumes "elems st" "elems cs" "cs \<noteq> []" "base = '''' \<or> base = ''/''"
  shows "fixPath_loop (join cs) (base @ dirs st) =
    (case resolve st cs of None \<Rightarrow> Inl OutOfBounds | Some st' \<Rightarrow> Inr (base @ join st'))"
  using assms
proof (induction st cs rule: resolve.induct)
  case (2 st c)
  have c: "c \<noteq> []" "CHR ''/'' \<notin> set c" using 2 by (simp_all add: elems_def)
  show ?case
    using fixPath_elem [OF c, of "[]" "base @ dirs st"] long_dirs [OF 2(1,4)] fixPath_loop.simps [of "[]"]
    by (simp add: join_dirs)
next
  case (3 st c d cs)
  have c: "c \<noteq> []" "CHR ''/'' \<notin> set c" and el: "elems (d # cs)" using 3(5) by (simp_all add: elems_def)
  have step: "fixPath_loop (join (c # d # cs)) out =
    (if c = ''.'' then fixPath_loop (join (d # cs)) out
     else if c = ''..'' \<and> length out > 1 then fixPath_loop (join (d # cs)) (unwind out)
     else fixPath_loop (join (d # cs)) (out @ c @ ''/''))" for out
    using fixPath_elem [OF c, of "CHR ''/'' # join (d # cs)" out] fixPath_slash [of "join (d # cs)" "out @ c"]
      join_start [OF el] by simp
  show ?case
  proof (cases "c = ''.''")
    case True
    then show ?thesis using 3(1) step 3(4) el 3(7) by simp
  next
    case dot: False
    show ?thesis
    proof (cases "c = ''..'' \<and> st \<noteq> []")
      case True
      then obtain st' e where st: "st = st' @ [e]" by (cases st rule: rev_cases) auto
      have "elems st'" using 3(4) st by (simp add: elems_def)
      then show ?thesis
        using 3(2) [OF dot True] True dot step [of "base @ dirs st"] long_dirs [OF 3(4,7)] unwind_dirs [of st' e base] 3(4,7) el st
        by simp
    next
      case False
      have "elems (st @ [c])" using 3(4) c by (simp add: elems_def)
      then show ?thesis
        using 3(3) [OF dot False] dot False step [of "base @ dirs st"] long_dirs [OF 3(4,7)] 3(7) el by auto
    qed
  qed
qed simp

lemma no_double_slash: "elems (c # cs) \<Longrightarrow> strstr_slashes (join (c # cs)) = None"
proof (induction cs arbitrary: c)
  case Nil
  have "CHR ''/'' \<notin> set s \<Longrightarrow> strstr_slashes s = None" for s by (induction s) auto
  then show ?case using Nil by (simp add: elems_def)
next
  case (Cons d cs)
  have d: "elems (d # cs)" using Cons.prems by (simp add: elems_def)
  have "CHR ''/'' \<notin> set s \<Longrightarrow> strstr_slashes (s @ CHR ''/'' # join (d # cs)) = None" for s
    using Cons.IH [OF d] join_start [OF d] by (induction s) auto
  then show ?case using Cons.prems by (simp add: elems_def)
qed

lemma fixPath_resolve:
  assumes "elems (c # cs)" "base = '''' \<or> base = ''/''"
  shows "fixPath (Some (base @ join (c # cs))) =
    (case resolve [] (c # cs) of None \<Rightarrow> Inl OutOfBounds | Some st \<Rightarrow> Inr (Some (base @ join st)))"
proof -
  note start = join_start [OF assms(1)] and none = no_double_slash [OF assms(1)]
  have loop: "fixPath_loop (join (c # cs)) base =
      (case resolve [] (c # cs) of None \<Rightarrow> Inl OutOfBounds | Some st' \<Rightarrow> Inr (base @ join st'))"
    using fixPath_loop_resolve [of "[]" "c # cs" base] assms by (simp add: elems_def dirs_def)
  have "fixPath (Some (base @ join (c # cs))) = ebind (fixPath_loop (join (c # cs)) base) (\<lambda>p. Inr (Some p))"
    using assms(2)
  proof
    assume "base = ''''"
    then show ?thesis using start by (simp add: fixPath_def del: join.simps)
  next
    assume "base = ''/''"
    then show ?thesis using start none fixPath_slash [of "join (c # cs)" "[]"] by (simp add: fixPath_def del: join.simps)
  qed
  then show ?thesis unfolding loop by (simp split: option.splits)
qed

section \<open>Properties\<close>

text \<open>
  C26 (equivalence): for records in the order in which the fault-injection pass emits them,
  the loader's three passes over the file (count functions, count blocks, fill in) never
  leave their arrays or fail an assertion, and yield the module that a single reading of
  the records describes: the first module name, every function with its path, the number
  of its first block and its blocks with their counters, lines and last injected fault.
\<close>
theorem three_passes_load_module:
  assumes "phase rs \<noteq> None" "fixable rs"
  shows "load_records rs = Ret () (module_of rs)"
  using assms by (rule load_records_module)

lemma fixed_simple: "c \<noteq> [] \<Longrightarrow> CHR ''/'' \<notin> set c \<Longrightarrow> c \<noteq> ''.'' \<Longrightarrow> fixed c = Some c"
  using fixPath_resolve [of c "[]" "''''"] by (simp add: fixed_def elems_def)

definition ex_map :: "map_record list" where
  "ex_map = [Rec_module_name ''pm'', Rec_function ''f'' ''a.c'', Rec_basic_block,
     Rec_dinstruction ''a.c'' 7, Rec_fault_candidate ''swap'', Rec_fault_injected ''swap'',
     Rec_basic_block, Rec_instruction, Rec_function ''g'' ''b.c'', Rec_function ''h'' ''b.c'', Rec_basic_block]"

lemma ex_map_ok: "phase ex_map \<noteq> None" "fixable ex_map"
  by (simp_all add: ex_map_def phase_def phase_step_def fixable_def fixed_simple)

theorem three_passes_load_module_witness:
  "load_records ex_map = Ret () (module_of ex_map) \<and>
   map bb_index_first (the (funcs (module_of ex_map))) = [0, 2, 2] \<and>
   fault_line (the (bbs (the (funcs (module_of ex_map)) ! 0)) ! 0) = 7"
  using three_passes_load_module [OF ex_map_ok]
  by (simp add: module_of_def ex_map_def parse_def parse_step_def on_last_def bb_of_def bb_run_def bb_step_def)

text \<open>
  C27 (functional): in a loaded module the lookup of a one-based block number finds, for a
  number within the module, the function whose range of numbers contains it and the block
  at that offset, and nothing beyond the last block; it never reads outside an array.
\<close>
theorem block_number_lookup:
  assumes "phase rs \<noteq> None" "fixable rs" "load_records rs = Ret () m"
  shows "(if x < total_blocks (parse rs)
     then \<exists>fs i bs. funcs m = Some fs \<and> i < length fs \<and> bbs (fs ! i) = Some bs \<and>
       bb_index_first (fs ! i) \<le> x \<and> x < bb_index_first (fs ! i) + bb_count (fs ! i) \<and>
       module_get_bb_by_index m (int x + 1) = Inr (Some (i, bs ! (x - bb_index_first (fs ! i))))
     else module_get_bb_by_index m (int x + 1) = Inr None)"
proof -
  have m: "m = module_of rs" using load_records_module [OF assms(1,2)] assms(3) by simp
  show ?thesis
  proof (cases "x < total_blocks (parse rs)")
    case True
    then have ne: "parse rs \<noteq> []" by (auto simp: total_blocks_def)
    show ?thesis using get_bb_scan_found [OF True, of 0 0] True ne
      by (auto simp: m module_get_bb_by_index_def module_of_def)
  next
    case False
    then show ?thesis using get_bb_scan_beyond [of "parse rs" x 0 0]
      by (simp add: m module_get_bb_by_index_def module_of_def)
  qed
qed

theorem block_number_lookup_witness:
  "module_get_bb_by_index (module_of ex_map) 4 = Inr None \<and>
   (\<exists>i bb. module_get_bb_by_index (module_of ex_map) 3 = Inr (Some (i, bb)))"
proof -
  have t: "total_blocks (parse ex_map) = 3"
    by (simp add: ex_map_def parse_def parse_step_def on_last_def total_blocks_def)
  note look = block_number_lookup [OF ex_map_ok load_records_module [OF ex_map_ok]]
  show ?thesis using look [of 3] look [of 2] t by auto
qed

text \<open>
  C28 (equivalence): path repair resolves a path element by element on a stack: a single dot
  vanishes, a double dot removes the element before it, and a leading slash stays. On a path
  that ends in an element it removes it steps over the end of the string.
\<close>
theorem fix_path_resolves_elements:
  assumes "elems (c # cs)" "base = [] \<or> base = ''/''"
  shows "fixPath (Some (base @ join (c # cs))) =
    (case resolve [] (c # cs) of None \<Rightarrow> Inl OutOfBounds | Some st \<Rightarrow> Inr (Some (base @ join st)))"
  using assms by (rule fixPath_resolve)

theorem fix_path_resolves_elements_witness:
  "fixPath (Some ''/usr/./src/../a.c'') = Inr (Some ''/usr/a.c'') \<and> fixPath (Some ''src/..'') = Inl OutOfBounds"
  using fix_path_resolves_elements [of "''usr''" "[''.'', ''src'', ''..'', ''a.c'']" "''/''"]
    fix_path_resolves_elements [of "''src''" "[''..'']" "[]"]
  by (simp add: elems_def)

text \<open>
  A relative path that starts with two double dots loses both of them: it is
  repaired to a path below the current directory instead of one two levels above.
\<close>
theorem fix_path_drops_leading_parents:
  assumes "elems (c # cs)" "resolve [] (c # cs) \<noteq> None"
  shows "fixPath (Some (''../../'' @ join (c # cs))) = fixPath (Some (join (c # cs)))"
proof -
  have "elems (''..'' # ''..'' # c # cs)" using assms(1) by (simp add: elems_def)
  from fixPath_resolve [OF this, of "[]"] show ?thesis
    using fixPath_resolve [OF assms(1), of "[]"] by simp
qed

theorem fix_path_drops_leading_parents_witness:
  "fixPath (Some ''../../lib/a.c'') = fixPath (Some ''lib/a.c'')"
  using fix_path_drops_leading_parents [of "''lib''" "[''a.c'']"] by (simp add: elems_def)

end
