(* ===== verification/Functions.thy ===== *)
theory Functions
  imports Modules
begin

text \<open>
  The table of functions (\<^verbatim>\<open>hypermemloganalyze/common/function.c\<close>): the functions of all
  modules, those with the same name and path merged, in a chained hash table, and the
  numbering of their basic blocks over all modules. A pointer to a function of the table is
  its name and path, which are unique in the table; a pointer to a module's function is the
  position of the module in the list and of the function in the module.
\<close>

section \<open>Data\<close>

type_synonym func_key = "string \<times> string"
type_synonym func_pos = "nat \<times> nat"

record function_bb =
  fb_faultcand_count :: nat
  fb_faultinj_count :: nat
  fb_instr_count :: nat
  fb_lines :: "linepath list"
  fb_fault_path :: "string option"
  fb_fault_line :: int
  fb_fault_type :: "string option"
  global_bb_index :: nat

record func =
  f_name :: string
  f_path :: string
  f_pathFixed :: "string option"
  f_bb_count :: nat
  f_bbs :: "function_bb list option"
  f_refs :: "func_pos list"
  global_func_index :: nat

record function_hashtable =
  entry_count :: nat
  entries :: "func chains"
  global_bb_count :: nat
  global_bbs :: "(func_key \<times> nat) list option"
  global_func_count :: nat
  global_funcs :: "func_key list option"

section \<open>Operations\<close>

text \<open>Doubling an int past its maximum is a signed overflow.\<close>

function round_up_loop :: "int \<Rightarrow> int \<Rightarrow> fault + int" where
  "round_up_loop value result =
     (if result < value \<and> 0 < result then
        if result * 2 \<ge> 2 ^ 31 then Inl SignedOverflow else round_up_loop value (result * 2)
      else Inr result)"
  by pat_completeness auto
termination
  by (relation "measure (\<lambda>(v, r). nat (v - r))") auto

declare round_up_loop.simps [simp del]

definition round_up_to_2n :: "int \<Rightarrow> fault + int" where
  "round_up_to_2n value = (if value < 0 then Inl AssertFail else round_up_loop value 1)"

definition hashfunc :: "string \<Rightarrow> string \<Rightarrow> 32 word" where
  "hashfunc nm p = ucast (hashstr nm + 5 * hashstr p)"

definition func_bucket :: "nat \<Rightarrow> func_key \<Rightarrow> nat" where
  "func_bucket n = (\<lambda>(nm, p). unat (hashfunc nm p) mod n)"

definition func_key_of :: "func \<Rightarrow> func_key" where
  "func_key_of f = (f_name f, f_path f)"

definition functions_find :: "nat \<Rightarrow> func chains \<Rightarrow> string \<Rightarrow> string \<Rightarrow> func option" where
  "functions_find n t nm p = table_find func_key_of (func_bucket n) t (nm, p)"

text \<open>The same blocks in both modules, apart from their lines.\<close>

definition bb_differs :: "function_bb \<Rightarrow> module_bb \<Rightarrow> bool" where
  "bb_differs bbf bbm =
     (fb_faultcand_count bbf \<noteq> faultcand_count bbm \<or>
      fb_faultinj_count bbf \<noteq> faultinj_count bbm \<or>
      fb_instr_count bbf \<noteq> instr_count bbm \<or>
      safestrcmp (fb_fault_path bbf) (fault_path bbm) \<noteq> 0 \<or>
      fb_fault_line bbf \<noteq> fault_line bbm \<or>
      safestrcmp (fb_fault_type bbf) (fault_type bbm) \<noteq> 0)"

definition functions_add_function_match :: "func_pos \<Rightarrow> module_func \<Rightarrow> func \<Rightarrow> fault + func" where
  "functions_add_function_match pos mf f =
     (if f_bb_count f \<noteq> bb_count mf then Inl (Panic ''different number of basic blocks'')
      else if \<exists>i < f_bb_count f. bb_differs (the (f_bbs f) ! i) (the (bbs mf) ! i)
      then Inl (Panic ''basic block differs between modules'')
      else Inr (f\<lparr>f_refs := f_refs f @ [pos]\<rparr>))"

definition copy_bb_line :: "linepath \<Rightarrow> linepath" where
  "copy_bb_line l = \<lparr>lp_path = lp_path l, lp_pathFixed = None, lp_line = lp_line l, lp_hash = lp_hash l\<rparr>"

definition function_bb_init :: "module_bb \<Rightarrow> function_bb" where
  "function_bb_init bb =
     \<lparr>fb_faultcand_count = faultcand_count bb, fb_faultinj_count = faultinj_count bb,
      fb_instr_count = instr_count bb, fb_lines = map copy_bb_line (bb_lines bb),
      fb_fault_path = fault_path bb, fb_fault_line = fault_line bb, fb_fault_type = fault_type bb,
      global_bb_index = 0\<rparr>"

definition functions_add_function_new :: "string \<Rightarrow> string \<Rightarrow> func_pos \<Rightarrow> module_func \<Rightarrow> func" where
  "functions_add_function_new nm p pos mf =
     \<lparr>f_name = nm, f_path = p, f_pathFixed = fn_pathFixed mf, f_bb_count = bb_count mf,
      f_bbs = (if bb_count mf = 0 then None
               else Some (map function_bb_init (take (bb_count mf) (the (bbs mf))))),
      f_refs = [pos], global_func_index = 0\<rparr>"

text \<open>The table under construction and the modules, whose functions get a link into it.\<close>

record build_state =
  bs_entries :: "func chains"
  bs_modules :: "module list"

definition func_at :: "module list \<Rightarrow> func_pos \<Rightarrow> module_func" where
  "func_at ms = (\<lambda>(i, j). the (funcs (ms ! i)) ! j)"

definition link_func :: "func_pos \<Rightarrow> func_key \<Rightarrow> module list \<Rightarrow> module list" where
  "link_func = (\<lambda>(i, j) k ms. ms[i := (ms ! i)\<lparr>funcs :=
     map_option (\<lambda>fs. fs[j := (fs ! j)\<lparr>global_func := Some k\<rparr>]) (funcs (ms ! i))\<rparr>])"

definition functions_add_function :: "nat \<Rightarrow> func_pos \<Rightarrow> build_state \<Rightarrow> (unit, build_state) outcome" where
  "functions_add_function n pos s =
     (let mf = func_at (bs_modules s) pos
      in case (fn_name mf, fn_path mf) of
           (Some nm, Some p) \<Rightarrow>
             (let linked = (\<lambda>s. if global_func mf \<noteq> None then Fault AssertFail s
                else Ret () (s\<lparr>bs_modules := link_func pos (nm, p) (bs_modules s)\<rparr>))
              in case functions_find n (bs_entries s) nm p of
                   Some f \<Rightarrow>
                     (case functions_add_function_match pos mf f of
                        Inl e \<Rightarrow> Fault e s
                      | Inr f' \<Rightarrow> linked (s\<lparr>bs_entries :=
                          table_change func_key_of (func_bucket n) (nm, p) (\<lambda>_. f') (bs_entries s)\<rparr>))
                 | None \<Rightarrow> linked (s\<lparr>bs_entries := table_add func_key_of (func_bucket n)
                     (functions_add_function_new nm p pos mf) (bs_entries s)\<rparr>))
         | _ \<Rightarrow> Fault AssertFail s)"

fun add_positions :: "nat \<Rightarrow> func_pos list \<Rightarrow> build_state \<Rightarrow> (unit, build_state) outcome" where
  "add_positions n [] s = Ret () s"
| "add_positions n (pos # ps) s = obind (functions_add_function n pos s) (\<lambda>_ s. add_positions n ps s)"

definition functions_add_module :: "nat \<Rightarrow> nat \<Rightarrow> build_state \<Rightarrow> (unit, build_state) outcome" where
  "functions_add_module n i s = add_positions n (map (Pair i) [0..<func_count (bs_modules s ! i)]) s"

fun add_modules_from :: "nat \<Rightarrow> nat list \<Rightarrow> build_state \<Rightarrow> (unit, build_state) outcome" where
  "add_modules_from n [] s = Ret () s"
| "add_modules_from n (i # is) s = obind (functions_add_module n i s) (\<lambda>_ s. add_modules_from n is s)"

definition functions_add_modules :: "nat \<Rightarrow> build_state \<Rightarrow> (unit, build_state) outcome" where
  "functions_add_modules n s = add_modules_from n [0..<length (bs_modules s)] s"

text \<open>
  Numbering the blocks. The first traversal only counts; the second one, when there are
  blocks at all, numbers each block and enters it into the array of all blocks.
\<close>

fun number_bbs :: "nat \<Rightarrow> function_bb list \<Rightarrow> function_bb list" where
  "number_bbs c [] = []"
| "number_bbs c (bb # bs) = bb\<lparr>global_bb_index := c\<rparr> # number_bbs (c + 1) bs"

definition number_function :: "nat \<Rightarrow> func \<Rightarrow> func" where
  "number_function c f = f\<lparr>f_bbs := map_option (number_bbs c) (f_bbs f)\<rparr>"

fun number_chain :: "nat \<Rightarrow> func list \<Rightarrow> func list" where
  "number_chain c [] = []"
| "number_chain c (f # fs) = number_function c f # number_chain (c + f_bb_count f) fs"

fun number_chains :: "nat \<Rightarrow> func chains \<Rightarrow> func chains" where
  "number_chains c [] = []"
| "number_chains c (fs # t) = number_chain c fs # number_chains (c + sum_list (map f_bb_count fs)) t"

definition bb_refs :: "func list \<Rightarrow> (func_key \<times> nat) list" where
  "bb_refs fs = concat (map (\<lambda>f. map (Pair (func_key_of f)) [0..<f_bb_count f]) fs)"

definition functions_init_global_bbs :: "nat \<Rightarrow> func chains \<Rightarrow> function_hashtable" where
  "functions_init_global_bbs n t =
     (let fs = concat t;
          bb_total = sum_list (map f_bb_count fs);
          func_total = length fs
      in \<lparr>entry_count = n,
          entries = (if bb_total = 0 then t else number_chains 0 t),
          global_bb_count = bb_total,
          global_bbs = (if bb_total = 0 then None else Some (bb_refs fs)),
          global_func_count = func_total,
          global_funcs = (if func_total = 0 then None else Some (map func_key_of fs))\<rparr>)"

definition functions_build_table :: "module list \<Rightarrow> fault + (function_hashtable \<times> module list)" where
  "functions_build_table ms =
     ebind (round_up_to_2n (int (modules_count_functions ms))) (\<lambda>n.
       case functions_add_modules (nat n) \<lparr>bs_entries = replicate (nat n) [], bs_modules = ms\<rparr> of
         Fault e s \<Rightarrow> Inl e
       | Ret u s \<Rightarrow> Inr (functions_init_global_bbs (nat n) (bs_entries s), bs_modules s))"

text \<open>From a block number of a module (zero-based) to the number over all modules, or -1.\<close>

fun to_global_scan :: "function_hashtable \<Rightarrow> module_func list \<Rightarrow> int \<Rightarrow> fault + int" where
  "to_global_scan ft [] x = Inr (-1)"
| "to_global_scan ft (fn # fns) x =
     (if x < int (bb_count fn) then
        (case global_func fn of
           None \<Rightarrow> Inl NullDeref
         | Some k \<Rightarrow>
             (case functions_find (entry_count ft) (entries ft) (fst k) (snd k) of
                None \<Rightarrow> Inl NullDeref
              | Some f \<Rightarrow>
                  if f_bb_count f \<noteq> bb_count fn then Inl AssertFail
                  else Inr (int (global_bb_index (the (f_bbs f) ! nat x)))))
      else to_global_scan ft fns (x - int (bb_count fn)))"

definition module_bbindex_to_global :: "function_hashtable \<Rightarrow> module \<Rightarrow> int \<Rightarrow> fault + int" where
  "module_bbindex_to_global ft m x =
     (if x < 0 then Inl AssertFail
      else to_global_scan ft (case funcs m of None \<Rightarrow> [] | Some fs \<Rightarrow> take (func_count m) fs) x)"

section \<open>Specification\<close>

text \<open>All functions of the modules, in the order in which the table is built.\<close>

definition positions :: "module list \<Rightarrow> func_pos list" where
  "positions ms = concat (map (\<lambda>i. map (Pair i) [0..<func_count (ms ! i)]) [0..<length ms])"

definition key_at :: "module list \<Rightarrow> func_pos \<Rightarrow> func_key" where
  "key_at ms pos = (the (fn_name (func_at ms pos)), the (fn_path (func_at ms pos)))"

definition members :: "module list \<Rightarrow> func_pos list \<Rightarrow> func_key \<Rightarrow> func_pos list" where
  "members ms ps k = filter (\<lambda>pos. key_at ms pos = k) ps"

text \<open>Two modules' versions of a function agree; every version agrees with the first one.\<close>

definition agrees :: "module_func \<Rightarrow> module_func \<Rightarrow> bool" where
  "agrees a b = (bb_count a = bb_count b \<and>
     (\<forall>i < bb_count a. \<not> bb_differs (function_bb_init (the (bbs a) ! i)) (the (bbs b) ! i)))"

definition consistent :: "module list \<Rightarrow> func_pos list \<Rightarrow> bool" where
  "consistent ms ps =
     (\<forall>pos \<in> set ps. agrees (func_at ms (hd (members ms ps (key_at ms pos)))) (func_at ms pos))"

definition wf_func :: "module_func \<Rightarrow> bool" where
  "wf_func fn = (fn_name fn \<noteq> None \<and> fn_path fn \<noteq> None \<and> global_func fn = None \<and>
     (bb_count fn = 0 \<or> bbs fn \<noteq> None \<and> length (the (bbs fn)) = bb_count fn))"

definition wf_module :: "module \<Rightarrow> bool" where
  "wf_module m = ((func_count m = 0 \<or> funcs m \<noteq> None \<and> length (the (funcs m)) = func_count m) \<and>
     (\<forall>fs. funcs m = Some fs \<longrightarrow> list_all wf_func fs))"

section \<open>Lemmas: the size of the table\<close>

lemma round_up_loop_power:
  assumes "v \<le> 2 ^ 30" "j \<le> 30" "j = 0 \<or> 2 ^ (j - 1) < v"
  shows "\<exists>k. round_up_loop v (2 ^ j) = Inr (2 ^ k) \<and> v \<le> 2 ^ k \<and> (k = 0 \<or> 2 ^ (k - 1) < v)"
  using assms(2,3)
proof (induction "30 - j" arbitrary: j)
  case 0
  then have "j = 30" by simp
  then show ?case using assms(1) 0 by (intro exI [of _ 30]) (simp add: round_up_loop.simps [of v])
next
  case (Suc d)
  show ?case
  proof (cases "2 ^ j < v")
    case True
    have j: "Suc j \<le> 30" "d = 30 - Suc j" using Suc.hyps(2) by simp_all
    have "(2 :: int) ^ Suc j \<le> 2 ^ 30" using j by (intro power_increasing) simp_all
    then have "round_up_loop v (2 ^ j) = round_up_loop v (2 ^ Suc j)"
      using True by (simp add: round_up_loop.simps [of v "2 ^ j"] mult.commute)
    then show ?thesis using Suc.hyps(1) [OF j(2) j(1)] True by simp
  next
    case False
    then show ?thesis using Suc.prems by (intro exI [of _ j]) (simp add: round_up_loop.simps [of v])
  qed
qed

lemma round_up_power:
  assumes "0 \<le> v" "v \<le> 2 ^ 30"
  shows "\<exists>k. round_up_to_2n v = Inr (2 ^ k) \<and> v \<le> 2 ^ k \<and> (k = 0 \<or> 2 ^ (k - 1) < v)"
  using round_up_loop_power [of v 0] assms by (simp add: round_up_to_2n_def)

section \<open>Lemmas: building the table\<close>

lemma func_table: "0 < n \<Longrightarrow> chained_table (func_bucket n) n"
  by unfold_locales (simp add: func_bucket_def split: prod.splits)

lemma safestrcmp_refl [simp]: "safestrcmp s s = 0"
  by (simp add: safestrcmp_def split: option.splits)

lemma agrees_refl [simp]: "agrees a a"
  by (simp add: agrees_def bb_differs_def function_bb_init_def)

lemma add_positions_append:
  "add_positions n (xs @ ys) s = obind (add_positions n xs s) (\<lambda>_. add_positions n ys)"
proof (induction xs arbitrary: s)
  case (Cons x xs)
  then show ?case by (cases "functions_add_function n x s") simp_all
qed simp

lemma add_positions_snoc:
  "add_positions n (xs @ [x]) s = obind (add_positions n xs s) (\<lambda>_. functions_add_function n x)"
proof (cases "add_positions n xs s")
  case (Ret u t)
  then show ?thesis by (cases "functions_add_function n x t") (simp_all add: add_positions_append)
qed (simp add: add_positions_append)

definition valid_pos :: "module list \<Rightarrow> func_pos \<Rightarrow> bool" where
  "valid_pos ms = (\<lambda>(i, j). i < length ms \<and> funcs (ms ! i) \<noteq> None \<and> j < length (the (funcs (ms ! i))))"

lemma func_at_link:
  assumes "valid_pos ms pos" "valid_pos ms pos'"
  shows "func_at (link_func pos k ms) pos' =
    (if pos' = pos then (func_at ms pos)\<lparr>global_func := Some k\<rparr> else func_at ms pos')"
    "valid_pos (link_func pos k ms) pos'"
  using assms by (auto simp: func_at_def link_func_def valid_pos_def nth_list_update split: prod.splits)

text \<open>The modules after some functions have been linked.\<close>

definition linked :: "module list \<Rightarrow> func_pos list \<Rightarrow> module list \<Rightarrow> bool" where
  "linked ms ps ms' = (\<forall>pos. valid_pos ms pos \<longrightarrow> valid_pos ms' pos \<and>
     func_at ms' pos = (if pos \<in> set ps then (func_at ms pos)\<lparr>global_func := Some (key_at ms pos)\<rparr> else func_at ms pos))"

definition merged :: "module list \<Rightarrow> func_pos list \<Rightarrow> func" where
  "merged ms ps = (functions_add_function_new (fst (key_at ms (hd ps))) (snd (key_at ms (hd ps))) (hd ps)
     (func_at ms (hd ps)))\<lparr>f_refs := ps\<rparr>"

definition table_of :: "nat \<Rightarrow> module list \<Rightarrow> func_pos list \<Rightarrow> func chains \<Rightarrow> bool" where
  "table_of n ms ps t = (table_wf func_key_of (func_bucket n) n t \<and>
     (\<forall>k. table_find func_key_of (func_bucket n) t k =
        (if members ms ps k = [] then None else Some (merged ms (members ms ps k)))))"

lemma key_merged: "ps \<noteq> [] \<Longrightarrow> func_key_of (merged ms ps) = key_at ms (hd ps)"
  by (simp add: merged_def func_key_of_def functions_add_function_new_def)

lemma hd_members: "members ms ps k \<noteq> [] \<Longrightarrow> key_at ms (hd (members ms ps k)) = k"
  using hd_in_set [of "members ms ps k"] by (simp add: members_def)

lemma members_snoc: "members ms (ps @ [p]) k = (if key_at ms p = k then members ms ps k @ [p] else members ms ps k)"
  by (simp add: members_def)

lemma consistent_snoc:
  "consistent ms (ps @ [p]) \<longleftrightarrow> consistent ms ps \<and>
    (members ms ps (key_at ms p) = [] \<or> agrees (func_at ms (hd (members ms ps (key_at ms p)))) (func_at ms p))"
proof -
  have first: "hd (members ms (ps @ [p]) (key_at ms q)) = hd (members ms ps (key_at ms q))" if "q \<in> set ps" for q
  proof -
    have "members ms ps (key_at ms q) \<noteq> []" using that by (auto simp: members_def filter_empty_conv)
    then show ?thesis by (simp add: members_snoc)
  qed
  show ?thesis
    unfolding consistent_def using first
    by (cases "members ms ps (key_at ms p)") (auto simp: members_snoc [of ms ps p "key_at ms p"])
qed

lemma merged_match:
  assumes "ps \<noteq> []" "wf_func (func_at ms (hd ps))"
  shows "functions_add_function_match pos mf (merged ms ps) =
    (if agrees (func_at ms (hd ps)) mf then Inr ((merged ms ps)\<lparr>f_refs := ps @ [pos]\<rparr>)
     else Inl (if bb_count (func_at ms (hd ps)) \<noteq> bb_count mf then Panic ''different number of basic blocks''
               else Panic ''basic block differs between modules''))"
proof -
  let ?a = "func_at ms (hd ps)"
  have "the (f_bbs (merged ms ps)) ! i = function_bb_init (the (bbs ?a) ! i)" if "i < bb_count ?a" for i
    using that assms(2) by (auto simp: merged_def functions_add_function_new_def wf_func_def)
  moreover have "f_bb_count (merged ms ps) = bb_count ?a" "f_refs (merged ms ps) = ps"
    by (simp_all add: merged_def functions_add_function_new_def)
  ultimately show ?thesis by (auto simp: functions_add_function_match_def agrees_def)
qed

lemma table_ofD:
  assumes "table_of n ms ps t"
  shows "table_wf func_key_of (func_bucket n) n t"
    "table_find func_key_of (func_bucket n) t k =
      (if members ms ps k = [] then None else Some (merged ms (members ms ps k)))"
  using assms unfolding table_of_def by blast+

lemma table_ofI:
  assumes "table_wf func_key_of (func_bucket n) n t"
    "\<And>k. table_find func_key_of (func_bucket n) t k =
      (if members ms ps k = [] then None else Some (merged ms (members ms ps k)))"
  shows "table_of n ms ps t"
  using assms unfolding table_of_def by blast

lemma table_of_new:
  assumes "0 < n" "table_of n ms ps t" "members ms ps (key_at ms pos) = []"
  shows "table_of n ms (ps @ [pos]) (table_add func_key_of (func_bucket n) (merged ms [pos]) t)"
proof (rule table_ofI)
  note t = table_ofD [OF assms(2)]
  have key: "func_key_of (merged ms [pos]) = key_at ms pos" by (simp add: key_merged)
  have none: "table_find func_key_of (func_bucket n) t (func_key_of (merged ms [pos])) = None"
    using t(2) [of "key_at ms pos"] assms(3) key by simp
  show "table_wf func_key_of (func_bucket n) n (table_add func_key_of (func_bucket n) (merged ms [pos]) t)"
    by (rule chained_table.add_wf [OF func_table [OF assms(1)] t(1) none])
  fix k
  show "table_find func_key_of (func_bucket n) (table_add func_key_of (func_bucket n) (merged ms [pos]) t) k =
      (if members ms (ps @ [pos]) k = [] then None else Some (merged ms (members ms (ps @ [pos]) k)))"
    unfolding chained_table.find_add [OF func_table [OF assms(1)] t(1) none]
    using t(2) [of k] key assms(3) by (auto simp: members_snoc)
qed

lemma table_of_old:
  assumes "0 < n" "table_of n ms ps t" "members ms ps (key_at ms pos) \<noteq> []"
    "f' = (merged ms (members ms ps (key_at ms pos)))\<lparr>f_refs := members ms ps (key_at ms pos) @ [pos]\<rparr>"
  shows "table_of n ms (ps @ [pos]) (table_change func_key_of (func_bucket n) (key_at ms pos) (\<lambda>_. f') t)"
proof (rule table_ofI)
  let ?k = "key_at ms pos"
  note t = table_ofD [OF assms(2)]
  have f': "f' = merged ms (members ms ps ?k @ [pos])" using assms(3,4) by (simp add: merged_def)
  have key: "func_key_of f' = ?k" using key_merged hd_members [OF assms(3)] assms(3) by (simp add: f')
  show "table_wf func_key_of (func_bucket n) n (table_change func_key_of (func_bucket n) ?k (\<lambda>_. f') t)"
    by (rule chained_table.change_wf [OF func_table [OF assms(1)] t(1)]) (rule key)
  fix k
  have "table_find func_key_of (func_bucket n) (table_change func_key_of (func_bucket n) ?k (\<lambda>_. f') t) k =
      (if k = ?k then map_option (\<lambda>_. f') (table_find func_key_of (func_bucket n) t k)
       else table_find func_key_of (func_bucket n) t k)"
    by (rule chained_table.find_change [OF func_table [OF assms(1)] t(1)]) (rule key)
  then show "table_find func_key_of (func_bucket n) (table_change func_key_of (func_bucket n) ?k (\<lambda>_. f') t) k =
      (if members ms (ps @ [pos]) k = [] then None else Some (merged ms (members ms (ps @ [pos]) k)))"
    using t(2) [of k] assms(3) f' by (auto simp: members_snoc)
qed

lemma linkedD:
  assumes "linked ms ps ms'" "valid_pos ms pos"
  shows "valid_pos ms' pos"
    "func_at ms' pos = (if pos \<in> set ps then (func_at ms pos)\<lparr>global_func := Some (key_at ms pos)\<rparr> else func_at ms pos)"
  using assms unfolding linked_def by blast+

lemma linked_snoc:
  assumes "linked ms ps ms'" "valid_pos ms pos" "pos \<notin> set ps"
  shows "linked ms (ps @ [pos]) (link_func pos (key_at ms pos) ms')"
  unfolding linked_def
proof (intro allI impI)
  fix q assume q: "valid_pos ms q"
  note p' = linkedD [OF assms(1,2)] and q' = linkedD [OF assms(1) q]
  from func_at_link [OF p'(1) q'(1), of "key_at ms pos"] p'(2) q'(2) assms(3)
  show "valid_pos (link_func pos (key_at ms pos) ms') q \<and> func_at (link_func pos (key_at ms pos) ms') q =
      (if q \<in> set (ps @ [pos]) then (func_at ms q)\<lparr>global_func := Some (key_at ms q)\<rparr> else func_at ms q)"
    by auto
qed

lemma add_function_step:
  assumes "0 < n" "table_of n ms ps (bs_entries s)" "linked ms ps (bs_modules s)" "valid_pos ms pos" "pos \<notin> set ps"
    "\<forall>q \<in> set (ps @ [pos]). wf_func (func_at ms q)" "consistent ms ps"
  shows "if consistent ms (ps @ [pos])
    then \<exists>t. functions_add_function n pos s = Ret () t \<and> table_of n ms (ps @ [pos]) (bs_entries t) \<and> linked ms (ps @ [pos]) (bs_modules t)
    else \<not> returns (functions_add_function n pos s)"
proof -
  have at: "func_at (bs_modules s) pos = func_at ms pos" using linkedD(2) [OF assms(3,4)] assms(5) by simp
  obtain nm p where np: "fn_name (func_at ms pos) = Some nm" "fn_path (func_at ms pos) = Some p" "global_func (func_at ms pos) = None"
    using assms(6) by (auto simp: wf_func_def)
  then have k: "key_at ms pos = (nm, p)" by (simp add: key_at_def)
  note lnk = linked_snoc [OF assms(3-5), unfolded k] and find = table_ofD(2) [OF assms(2), of "(nm, p)"]
  show ?thesis
  proof (cases "members ms ps (nm, p) = []")
    case True
    have new: "merged ms [pos] = functions_add_function_new nm p pos (func_at ms pos)"
      by (simp add: merged_def k functions_add_function_new_def)
    show ?thesis
      using True find at np lnk table_of_new [OF assms(1,2), of pos] assms(7) k
      by (simp add: functions_add_function_def functions_find_def consistent_snoc new)
  next
    case False
    let ?m = "members ms ps (nm, p)"
    have "hd ?m \<in> set ps" using False hd_in_set [of ?m] by (simp add: members_def)
    then have wf: "wf_func (func_at ms (hd ?m))" using assms(6) by simp
    show ?thesis
      using False find at np lnk table_of_old [OF assms(1,2), of pos, OF _ refl] assms(7) k merged_match [OF False wf, of pos]
      by (simp add: functions_add_function_def functions_find_def consistent_snoc)
  qed
qed

lemma consistent_prefix: "consistent ms (ps @ qs) \<Longrightarrow> consistent ms ps"
proof (induction qs rule: rev_induct)
  case (snoc q qs)
  then show ?case using consistent_snoc [of ms "ps @ qs" q] by simp
qed simp

lemma add_positions_table:
  assumes "0 < n" "distinct ps" "\<forall>q \<in> set ps. valid_pos ms q \<and> wf_func (func_at ms q)"
  shows "if consistent ms ps
    then \<exists>t. add_positions n ps \<lparr>bs_entries = replicate n [], bs_modules = ms\<rparr> = Ret () t \<and>
      table_of n ms ps (bs_entries t) \<and> linked ms ps (bs_modules t)
    else \<not> returns (add_positions n ps \<lparr>bs_entries = replicate n [], bs_modules = ms\<rparr>)"
  using assms(2,3)
proof (induction ps rule: rev_induct)
  case Nil
  have "table_of n ms [] (replicate n [])"
    using chained_table.wf_empty [OF func_table [OF assms(1)]] chained_table.find_empty [OF func_table [OF assms(1)]]
    by (intro table_ofI) (simp_all add: members_def)
  then show ?case by (simp add: consistent_def linked_def)
next
  case (snoc p ps)
  let ?s = "\<lparr>bs_entries = replicate n [], bs_modules = ms\<rparr>"
  show ?case
  proof (cases "consistent ms ps")
    case True
    then obtain t where t: "add_positions n ps ?s = Ret () t" "table_of n ms ps (bs_entries t)" "linked ms ps (bs_modules t)"
      using snoc by auto
    have "if consistent ms (ps @ [p])
      then \<exists>u. functions_add_function n p t = Ret () u \<and> table_of n ms (ps @ [p]) (bs_entries u) \<and> linked ms (ps @ [p]) (bs_modules u)
      else \<not> returns (functions_add_function n p t)"
      using snoc.prems True by (intro add_function_step [OF assms(1) t(2,3)]) auto
    then show ?thesis using t(1) by (simp add: add_positions_snoc)
  next
    case False
    then have "\<not> returns (add_positions n ps ?s)" "\<not> consistent ms (ps @ [p])"
      using snoc consistent_prefix by auto
    then show ?thesis by (cases "add_positions n ps ?s") (auto simp: add_positions_snoc)
  qed
qed

text \<open>Linking functions changes nothing else of a module.\<close>

definition unlinked_view :: "(module \<Rightarrow> 'a) \<Rightarrow> bool" where
  "unlinked_view h = (\<forall>m fs. h (m\<lparr>funcs := fs\<rparr>) = h m)"

lemma unlinked_views [simp]: "unlinked_view func_count" "unlinked_view m_name"
  by (simp_all add: unlinked_view_def)

lemma link_func_view:
  assumes "unlinked_view h"
  shows "map h (link_func pos k ms) = map h ms"
proof (cases pos)
  case (Pair i j)
  show ?thesis unfolding Pair link_func_def using assms
    by (cases "i < length ms") (simp_all add: unlinked_view_def map_update list_update_beyond, metis list_update_id nth_map)
qed

lemma add_function_view:
  "unlinked_view h \<Longrightarrow> functions_add_function n pos s = Ret () t \<Longrightarrow> map h (bs_modules t) = map h (bs_modules s)"
  by (auto simp: functions_add_function_def Let_def link_func_view split: option.splits sum.splits if_splits)

lemma add_positions_view:
  "unlinked_view h \<Longrightarrow> add_positions n ps s = Ret () t \<Longrightarrow> map h (bs_modules t) = map h (bs_modules s)"
proof (induction ps arbitrary: s)
  case (Cons p ps)
  then obtain u where "functions_add_function n p s = Ret () u" "add_positions n ps u = Ret () t"
    by (cases "functions_add_function n p s") auto
  then show ?case using Cons add_function_view by metis
qed simp

lemmas add_positions_counts = add_positions_view [OF unlinked_views(1)]

lemma add_modules_positions:
  assumes "\<forall>i \<in> set is. i < length (bs_modules s)"
  shows "add_modules_from n is s =
    add_positions n (concat (map (\<lambda>i. map (Pair i) [0..<func_count (bs_modules s ! i)]) is)) s"
  using assms
proof (induction "is" arbitrary: s)
  case (Cons i "is")
  show ?case
  proof (cases "functions_add_module n i s")
    case (Ret u t)
    then have c: "map func_count (bs_modules t) = map func_count (bs_modules s)"
      using add_positions_counts by (simp add: functions_add_module_def)
    then have len: "length (bs_modules t) = length (bs_modules s)" by (metis length_map)
    have "func_count (bs_modules t ! j) = func_count (bs_modules s ! j)" if "j \<in> set is" for j
      using that Cons.prems len arg_cong [OF c, of "\<lambda>xs. xs ! j"] by simp
    then have "concat (map (\<lambda>i. map (Pair i) [0..<func_count (bs_modules t ! i)]) is) =
        concat (map (\<lambda>i. map (Pair i) [0..<func_count (bs_modules s ! i)]) is)"
      by (intro arg_cong [where f = concat] map_cong) auto
    then show ?thesis
      using Cons.IH [of t] Cons.prems len Ret by (simp add: add_positions_append functions_add_module_def)
  next
    case (Fault e t)
    then show ?thesis by (simp add: add_positions_append functions_add_module_def)
  qed
qed simp

lemma add_modules_eq: "functions_add_modules n s = add_positions n (positions (bs_modules s)) s"
  unfolding functions_add_modules_def positions_def by (rule add_modules_positions) simp

lemma distinct_positions: "distinct (positions ms)"
proof -
  have "distinct (concat (map (\<lambda>i. map (Pair i) [0..<f i]) is))" if "distinct is" for f :: "nat \<Rightarrow> nat" and "is" :: "nat list"
    using that by (induction "is") (auto simp: distinct_map inj_on_def)
  then show ?thesis unfolding positions_def by simp
qed

lemma mem_positions: "(i, j) \<in> set (positions ms) \<longleftrightarrow> i < length ms \<and> j < func_count (ms ! i)"
  by (auto simp: positions_def image_iff)

lemma positions_valid:
  assumes "list_all wf_module ms" "pos \<in> set (positions ms)"
  shows "valid_pos ms pos \<and> wf_func (func_at ms pos)"
proof -
  obtain i j where ij: "pos = (i, j)" "i < length ms" "j < func_count (ms ! i)"
    using assms(2) by (auto simp: positions_def)
  have m: "wf_module (ms ! i)" using assms(1) ij(2) by (simp add: list_all_length)
  then obtain fs where fs: "funcs (ms ! i) = Some fs" "length fs = func_count (ms ! i)" "list_all wf_func fs"
    using ij(3) by (auto simp: wf_module_def)
  then show ?thesis using ij by (simp add: valid_pos_def func_at_def list_all_length)
qed

section \<open>Lemmas: numbering the blocks\<close>

lemma key_number [simp]: "func_key_of (number_function c f) = func_key_of f"
  by (simp add: func_key_of_def number_function_def)

lemma map_key_number_chain [simp]: "map func_key_of (number_chain c fs) = map func_key_of fs"
  by (induction c fs rule: number_chain.induct) auto

lemma length_number_bbs [simp]: "length (number_bbs c bs) = length bs"
  by (induction c bs rule: number_bbs.induct) auto

lemma length_number_chains [simp]: "length (number_chains c t) = length t"
  by (induction c t rule: number_chains.induct) auto

lemma nth_number_bbs: "i < length bs \<Longrightarrow> number_bbs c bs ! i = (bs ! i)\<lparr>global_bb_index := c + i\<rparr>"
proof (induction bs arbitrary: c i)
  case (Cons b bs)
  then show ?case by (cases i) auto
qed simp

lemma number_chain_append:
  "number_chain c (fs @ gs) = number_chain c fs @ number_chain (c + sum_list (map f_bb_count fs)) gs"
  by (induction c fs rule: number_chain.induct) (auto simp: add.assoc)

lemma concat_number_chains: "concat (number_chains c t) = number_chain c (concat t)"
  by (induction c t rule: number_chains.induct) (auto simp: number_chain_append)

lemma nth_number_chains:
  "i < length t \<Longrightarrow> \<exists>c'. number_chains c t ! i = number_chain c' (t ! i)"
proof (induction t arbitrary: c i)
  case (Cons fs t)
  then show ?case by (cases i) auto
qed simp

lemma number_wf:
  assumes "table_wf func_key_of (func_bucket n) n t"
  shows "table_wf func_key_of (func_bucket n) n (number_chains c t)"
  unfolding table_wf_def
proof (intro conjI allI impI)
  show "length (number_chains c t) = n" using assms by (simp add: table_wf_def)
  fix i assume i: "i < n"
  then obtain c' where c': "number_chains c t ! i = number_chain c' (t ! i)"
    using nth_number_chains [of i t c] assms by (auto simp: table_wf_def)
  show "distinct (map func_key_of (number_chains c t ! i))" using assms i by (simp add: c' table_wf_def)
  have "set (map func_key_of (number_chain c' (t ! i))) = set (map func_key_of (t ! i))" by simp
  then show "\<forall>e \<in> set (number_chains c t ! i). func_bucket n (func_key_of e) = i"
    using assms i unfolding c' table_wf_def by (metis (no_types, lifting) imageE image_eqI list.set_map)
qed

lemma number_chain_member:
  "f \<in> set (number_chain c fs) \<Longrightarrow>
   \<exists>pre g post. fs = pre @ g # post \<and> f = number_function (c + sum_list (map f_bb_count pre)) g"
proof (induction c fs rule: number_chain.induct)
  case (2 c g fs)
  show ?case
  proof (cases "f = number_function c g")
    case True
    then show ?thesis by (intro exI [of _ "[]"]) simp
  next
    case False
    then obtain pre h post where "fs = pre @ h # post" "f = number_function (c + f_bb_count g + sum_list (map f_bb_count pre)) h"
      using 2 by auto
    then show ?thesis by (intro exI [of _ "g # pre"]) (simp add: add.assoc)
  qed
qed simp

lemma nth_bb_refs:
  "i < f_bb_count g \<Longrightarrow>
   bb_refs (pre @ g # post) ! (sum_list (map f_bb_count pre) + i) = (func_key_of g, i) \<and>
   sum_list (map f_bb_count pre) + i < sum_list (map f_bb_count (pre @ g # post))"
proof (induction pre)
  case Nil
  then show ?case by (simp add: bb_refs_def nth_append)
next
  case (Cons h pre)
  then show ?case by (simp add: bb_refs_def nth_append add.assoc)
qed

lemma distinct_bb_refs: "distinct (map func_key_of fs) \<Longrightarrow> distinct (bb_refs fs)"
proof (induction fs)
  case (Cons f fs)
  have "k \<in> func_key_of ` set fs" if "(k, i) \<in> set (bb_refs fs)" for k i
    using that by (auto simp: bb_refs_def)
  then have "set (map (Pair (func_key_of f)) [0..<f_bb_count f]) \<inter> set (bb_refs fs) = {}"
    using Cons.prems by fastforce
  moreover have "bb_refs (f # fs) = map (Pair (func_key_of f)) [0..<f_bb_count f] @ bb_refs fs" by (simp add: bb_refs_def)
  ultimately show ?case using Cons by (simp add: distinct_map inj_on_def)
qed (simp add: bb_refs_def)

lemma length_bb_refs: "length (bb_refs fs) = sum_list (map f_bb_count fs)"
  by (induction fs) (auto simp: bb_refs_def)

lemma merged_bb_count: "f_bb_count (merged ms ps) = bb_count (func_at ms (hd ps))"
  by (simp add: merged_def functions_add_function_new_def)

lemma number_merged_empty: "f_bb_count (merged ms ps) = 0 \<Longrightarrow> number_function c (merged ms ps) = merged ms ps"
  by (simp add: number_function_def merged_def functions_add_function_new_def)

lemma built_find:
  assumes "0 < n" "table_of n ms ps t" "ft = functions_init_global_bbs n t"
  shows "if members ms ps (nm, p) = [] then functions_find n (entries ft) nm p = None
    else \<exists>c. functions_find n (entries ft) nm p = Some (number_function c (merged ms (members ms ps (nm, p)))) \<and>
      (\<forall>i < f_bb_count (merged ms (members ms ps (nm, p))). c + i < global_bb_count ft \<and> the (global_bbs ft) ! (c + i) = ((nm, p), i))"
proof -
  let ?k = "(nm, p)"
  note t = table_ofD(1) [OF assms(2)] and find = table_ofD(2) [OF assms(2), of ?k]
  note tab = func_table [OF assms(1)]
  let ?t' = "number_chains 0 t"
  have wf': "table_wf func_key_of (func_bucket n) n ?t'" by (rule number_wf [OF t])
  show ?thesis
  proof (cases "members ms ps ?k = []")
    case True
    then have "?k \<notin> func_key_of ` set (concat t)" using find chained_table.find_None_iff [OF tab t, of ?k] by simp
    moreover have "func_key_of ` set (concat ?t') = func_key_of ` set (concat t)"
      unfolding concat_number_chains by (metis list.set_map map_key_number_chain)
    ultimately have "table_find func_key_of (func_bucket n) ?t' ?k = None"
      using chained_table.find_None_iff [OF tab wf', of ?k] by simp
    then show ?thesis using True find assms(3) by (simp add: functions_init_global_bbs_def functions_find_def Let_def)
  next
    case False
    let ?m = "merged ms (members ms ps ?k)"
    have m: "?m \<in> set (concat t)" "func_key_of ?m = ?k"
      using find False chained_table.find_iff [OF tab t, of ?k ?m] by auto
    then obtain pre post where split: "concat t = pre @ ?m # post" by (meson split_list)
    let ?c = "sum_list (map f_bb_count pre)"
    have "number_function ?c ?m \<in> set (concat ?t')"
      unfolding concat_number_chains split by (simp add: number_chain_append)
    then have found: "table_find func_key_of (func_bucket n) ?t' ?k = Some (number_function ?c ?m)"
      using chained_table.find_iff [OF tab wf', of ?k "number_function ?c ?m"] m(2) by simp
    have refs: "?c + i < sum_list (map f_bb_count (concat t)) \<and> bb_refs (concat t) ! (?c + i) = (?k, i)" if "i < f_bb_count ?m" for i
      using nth_bb_refs [OF that, of pre post] m(2) split by simp
    show ?thesis
    proof (cases "sum_list (map f_bb_count (concat t)) = 0")
      case True
      then have "f_bb_count ?m = 0" using split by simp
      then show ?thesis using True False find assms(3)
        by (auto simp: functions_init_global_bbs_def functions_find_def Let_def number_merged_empty)
    next
      case nz: False
      then show ?thesis using False found refs assms(3)
        by (auto simp: functions_init_global_bbs_def functions_find_def Let_def simp del: sum_list_eq_0_iff)
    qed
  qed
qed

lemma build_table_cases:
  assumes "list_all wf_module ms" "int (modules_count_functions ms) \<le> 2 ^ 30"
  shows "if consistent ms (positions ms)
    then \<exists>n t ms'. 0 < n \<and> functions_build_table ms = Inr (functions_init_global_bbs n t, ms') \<and>
      table_of n ms (positions ms) t \<and> linked ms (positions ms) ms' \<and> map func_count ms' = map func_count ms
    else \<exists>e. functions_build_table ms = Inl e"
proof -
  obtain k where k: "round_up_to_2n (int (modules_count_functions ms)) = Inr (2 ^ k)"
    using round_up_power [of "int (modules_count_functions ms)"] assms(2) by auto
  let ?n = "nat (2 ^ k)" and ?s = "\<lparr>bs_entries = replicate (nat (2 ^ k)) [], bs_modules = ms\<rparr>"
  have n: "0 < ?n" by simp
  have add: "if consistent ms (positions ms)
    then \<exists>t. add_positions ?n (positions ms) ?s = Ret () t \<and> table_of ?n ms (positions ms) (bs_entries t) \<and>
      linked ms (positions ms) (bs_modules t)
    else \<not> returns (add_positions ?n (positions ms) ?s)"
    using positions_valid [OF assms(1)] by (intro add_positions_table [OF n distinct_positions]) blast
  show ?thesis
  proof (cases "consistent ms (positions ms)")
    case True
    then obtain t where "add_positions ?n (positions ms) ?s = Ret () t" "table_of ?n ms (positions ms) (bs_entries t)"
      "linked ms (positions ms) (bs_modules t)" using add by auto
    moreover from this(1) have "functions_build_table ms = Inr (functions_init_global_bbs ?n (bs_entries t), bs_modules t)"
      by (simp add: functions_build_table_def k add_modules_eq)
    moreover have "map func_count (bs_modules t) = map func_count ms"
      using add_positions_counts [OF \<open>add_positions ?n (positions ms) ?s = Ret () t\<close>] by simp
    ultimately show ?thesis unfolding if_P [OF True] using n by blast
  next
    case False
    then obtain e t where "add_positions ?n (positions ms) ?s = Fault e t"
      using add by (cases "add_positions ?n (positions ms) ?s") auto
    then show ?thesis using False k by (simp add: functions_build_table_def add_modules_eq)
  qed
qed

lemma build_table_names:
  assumes "functions_build_table ms = Inr (ft, ms')"
  shows "map m_name ms' = map m_name ms"
proof -
  obtain n where n: "round_up_to_2n (int (modules_count_functions ms)) = Inr n"
    using assms by (auto simp: functions_build_table_def ebind_eq_Inr)
  let ?r = "add_positions (nat n) (positions ms) \<lparr>bs_entries = replicate (nat n) [], bs_modules = ms\<rparr>"
  obtain t where t: "?r = Ret () t" "ms' = bs_modules t"
    using assms n by (cases ?r) (simp_all add: functions_build_table_def add_modules_eq)
  show ?thesis using add_positions_view [OF unlinked_views(2) t(1)] t(2) by simp
qed

section \<open>Lemmas: block numbers of a module\<close>

text \<open>The blocks that a loop over a function visits.\<close>

definition func_bbs :: "func \<Rightarrow> function_bb list" where
  "func_bbs f = (case f_bbs f of None \<Rightarrow> [] | Some bs \<Rightarrow> take (f_bb_count f) bs)"

text \<open>A module's function whose blocks are found in the table under their numbers.\<close>

definition numbered :: "function_hashtable \<Rightarrow> module_func \<Rightarrow> bool" where
  "numbered ft fn = (\<exists>k f. global_func fn = Some k \<and>
     functions_find (entry_count ft) (entries ft) (fst k) (snd k) = Some f \<and> f_bb_count f = bb_count fn \<and>
     length (func_bbs f) = bb_count fn \<and> global_func_index f = 0 \<and> 0 < global_func_count ft \<and>
     (\<forall>y < bb_count fn. let r = global_bb_index (the (f_bbs f) ! y) in
        r < global_bb_count ft \<and> the (global_bbs ft) ! r = (k, y)))"

lemma to_global_scan_found:
  "\<forall>fn \<in> set fns. numbered ft fn \<Longrightarrow> x < sum_list (map bb_count fns) \<Longrightarrow>
   \<exists>pre fn post k r. fns = pre @ fn # post \<and> global_func fn = Some k \<and>
     sum_list (map bb_count pre) \<le> x \<and> x < sum_list (map bb_count pre) + bb_count fn \<and>
     to_global_scan ft fns (int x) = Inr (int r) \<and> r < global_bb_count ft \<and>
     the (global_bbs ft) ! r = (k, x - sum_list (map bb_count pre))"
proof (induction fns arbitrary: x)
  case (Cons fn fns)
  show ?case
  proof (cases "x < bb_count fn")
    case True
    obtain k f where "global_func fn = Some k" "functions_find (entry_count ft) (entries ft) (fst k) (snd k) = Some f"
      "f_bb_count f = bb_count fn" "\<forall>y < bb_count fn. global_bb_index (the (f_bbs f) ! y) < global_bb_count ft \<and>
        the (global_bbs ft) ! global_bb_index (the (f_bbs f) ! y) = (k, y)"
      using Cons.prems(1) by (auto simp: numbered_def Let_def)
    then show ?thesis using True by (intro exI [of _ "[]"] exI [of _ fn] exI [of _ fns] exI [of _ k]
          exI [of _ "global_bb_index (the (f_bbs f) ! x)"]) simp
  next
    case False
    then have "x - bb_count fn < sum_list (map bb_count fns)" "\<forall>fn \<in> set fns. numbered ft fn" using Cons.prems by auto
    from Cons.IH [OF this(2,1)] obtain pre g post k r where g: "fns = pre @ g # post" "global_func g = Some k"
      "sum_list (map bb_count pre) \<le> x - bb_count fn" "x - bb_count fn < sum_list (map bb_count pre) + bb_count g"
      "to_global_scan ft fns (int (x - bb_count fn)) = Inr (int r)" "r < global_bb_count ft"
      "the (global_bbs ft) ! r = (k, x - bb_count fn - sum_list (map bb_count pre))"
      by blast
    have "to_global_scan ft (fn # fns) (int x) = Inr (int r)"
      using False g(5) by (simp add: of_nat_diff)
    then show ?thesis using False g
      by (intro exI [of _ "fn # pre"] exI [of _ g] exI [of _ post] exI [of _ k] exI [of _ r]) auto
  qed
qed simp

lemma to_global_scan_beyond:
  "sum_list (map bb_count fns) \<le> x \<Longrightarrow> to_global_scan ft fns (int x) = Inr (-1)"
proof (induction fns arbitrary: x)
  case (Cons fn fns)
  have "to_global_scan ft fns (int (x - bb_count fn)) = Inr (-1)"
    by (rule Cons.IH) (use Cons.prems in simp)
  then show ?case using Cons.prems by (simp add: of_nat_diff)
qed simp

lemma member_numbered:
  assumes "0 < n" "table_of n ms ps t" "linked ms ps ms'" "consistent ms ps" "ft = functions_init_global_bbs n t"
    "\<forall>q \<in> set ps. valid_pos ms q \<and> wf_func (func_at ms q)" "pos \<in> set ps"
  shows "numbered ft (func_at ms' pos) \<and> global_func (func_at ms' pos) = Some (key_at ms pos) \<and>
    bb_count (func_at ms' pos) = bb_count (func_at ms pos)"
proof -
  obtain nm p where k: "key_at ms pos = (nm, p)" by (cases "key_at ms pos")
  let ?m = "members ms ps (nm, p)"
  have ne: "?m \<noteq> []" using assms(7) k by (auto simp: members_def filter_empty_conv)
  have hd: "wf_func (func_at ms (hd ?m))" using hd_in_set [OF ne] assms(6) by (simp add: members_def)
  have cnt: "f_bb_count (merged ms ?m) = bb_count (func_at ms pos)"
    using assms(4,7) k by (auto simp: consistent_def agrees_def merged_bb_count)
  have at: "func_at ms' pos = (func_at ms pos)\<lparr>global_func := Some (nm, p)\<rparr>"
    using linkedD(2) [OF assms(3)] assms(6,7) k by simp
  obtain c where c: "functions_find n (entries ft) nm p = Some (number_function c (merged ms ?m))"
    "\<forall>i < bb_count (func_at ms pos). c + i < global_bb_count ft \<and> the (global_bbs ft) ! (c + i) = ((nm, p), i)"
    using built_find [OF assms(1,2,5), of nm p] ne cnt by auto
  let ?a = "func_at ms (hd ?m)"
  have bbs: "f_bbs (merged ms ?m) = (if bb_count ?a = 0 then None else Some (map function_bb_init (the (bbs ?a))))"
    "bb_count ?a \<noteq> 0 \<Longrightarrow> length (the (bbs ?a)) = bb_count ?a" "bb_count ?a = bb_count (func_at ms pos)"
    using hd cnt by (auto simp: merged_def functions_add_function_new_def wf_func_def)
  have "global_bb_index (the (f_bbs (number_function c (merged ms ?m))) ! y) = c + y" if "y < bb_count (func_at ms pos)" for y
    using that bbs by (simp add: number_function_def nth_number_bbs)
  moreover have "length (func_bbs (number_function c (merged ms ?m))) = bb_count (func_at ms pos)"
    using bbs cnt by (simp add: func_bbs_def number_function_def)
  moreover have "global_func_index (number_function c (merged ms ?m)) = 0"
    by (simp add: number_function_def merged_def functions_add_function_new_def)
  moreover have "0 < global_func_count ft"
  proof -
    have "merged ms ?m \<in> set (concat t)"
      using table_ofD(2) [OF assms(2), of "(nm, p)"] ne
        chained_table.find_iff [OF func_table [OF assms(1)] table_ofD(1) [OF assms(2)], of "(nm, p)" "merged ms ?m"] by simp
    then have "concat t \<noteq> []" by force
    then show ?thesis by (simp add: assms(5) functions_init_global_bbs_def Let_def del: concat_eq_Nil_conv)
  qed
  moreover have "entry_count ft = n" using assms(5) by (simp add: functions_init_global_bbs_def Let_def)
  moreover have "f_bb_count (number_function c (merged ms ?m)) = bb_count (func_at ms pos)"
    using cnt by (simp add: number_function_def)
  ultimately show ?thesis using c k at by (simp add: numbered_def Let_def)
qed

lemma linked_funcs:
  assumes "list_all wf_module ms" "linked ms (positions ms) ms'" "map func_count ms' = map func_count ms" "i < length ms"
  shows "(case funcs (ms' ! i) of None \<Rightarrow> [] | Some fs \<Rightarrow> take (func_count (ms' ! i)) fs) =
    map (\<lambda>j. func_at ms' (i, j)) [0..<func_count (ms ! i)]"
proof -
  have cnt: "func_count (ms' ! i) = func_count (ms ! i)"
    using assms(3,4) by (metis length_map nth_map)
  show ?thesis
  proof (cases "func_count (ms ! i) = 0")
    case True
    then show ?thesis using cnt by (simp split: option.splits)
  next
    case False
    have "(i, j) \<in> set (positions ms)" if "j < func_count (ms ! i)" for j
      using that assms(4) by (simp add: mem_positions)
    then have v: "valid_pos ms' (i, j)" if "j < func_count (ms ! i)" for j
      using that linkedD(1) [OF assms(2)] positions_valid [OF assms(1)] by blast
    then obtain fs where fs: "funcs (ms' ! i) = Some fs" using False by (fastforce simp: valid_pos_def)
    have "func_count (ms ! i) \<le> length fs"
      using v [of "func_count (ms ! i) - 1"] False fs by (auto simp: valid_pos_def)
    then show ?thesis using fs cnt by (auto intro!: nth_equalityI simp: func_at_def)
  qed
qed

section \<open>Properties\<close>

text \<open>
  C29 (refinement): building the function table succeeds exactly when the modules agree on
  the functions they share, and stops with an error otherwise. The table then holds one
  function for every name and path that occurs in a module, found under that name and path
  whatever collisions the hash has, with the blocks of its first occurrence and references
  to all its occurrences in the order of the modules.
\<close>
theorem function_table_merges_modules:
  assumes "list_all wf_module ms" "int (modules_count_functions ms) \<le> 2 ^ 30"
  shows "case functions_build_table ms of
      Inl e \<Rightarrow> \<not> consistent ms (positions ms)
    | Inr (ft, ms') \<Rightarrow> consistent ms (positions ms) \<and>
        (\<forall>nm p. case functions_find (entry_count ft) (entries ft) nm p of
           None \<Rightarrow> members ms (positions ms) (nm, p) = []
         | Some f \<Rightarrow> f_refs f = members ms (positions ms) (nm, p) \<and> f_refs f \<noteq> [] \<and>
             (\<forall>pos \<in> set (f_refs f). f_bb_count f = bb_count (func_at ms pos)))"
proof (cases "consistent ms (positions ms)")
  case True
  then obtain n t ms' where b: "0 < n" "functions_build_table ms = Inr (functions_init_global_bbs n t, ms')"
    "table_of n ms (positions ms) t"
    using build_table_cases [OF assms] by auto
  have "case functions_find n (entries (functions_init_global_bbs n t)) nm p of
           None \<Rightarrow> members ms (positions ms) (nm, p) = []
         | Some f \<Rightarrow> f_refs f = members ms (positions ms) (nm, p) \<and> f_refs f \<noteq> [] \<and>
             (\<forall>pos \<in> set (f_refs f). f_bb_count f = bb_count (func_at ms pos))" for nm p
  proof (cases "members ms (positions ms) (nm, p) = []")
    case True
    then show ?thesis using built_find [OF b(1,3) refl, of nm p] by simp
  next
    case False
    then obtain c where c: "functions_find n (entries (functions_init_global_bbs n t)) nm p =
        Some (number_function c (merged ms (members ms (positions ms) (nm, p))))"
      using built_find [OF b(1,3) refl, of nm p] by auto
    moreover have "bb_count (func_at ms (hd (members ms (positions ms) (nm, p)))) = bb_count (func_at ms pos)"
      if "pos \<in> set (members ms (positions ms) (nm, p))" for pos
      using that True by (auto simp: consistent_def agrees_def members_def)
    ultimately show ?thesis using False
      by (auto simp: number_function_def merged_def functions_add_function_new_def)
  qed
  moreover have "entry_count (functions_init_global_bbs n t) = n" by (simp add: functions_init_global_bbs_def Let_def)
  ultimately show ?thesis using b(2) True by simp
next
  case False
  then show ?thesis using build_table_cases [OF assms] by auto
qed

definition ex_bb :: "nat \<Rightarrow> module_bb" where
  "ex_bb n = bb_zero\<lparr>instr_count := n\<rparr>"

definition ex_func :: "string \<Rightarrow> module_bb list \<Rightarrow> module_func" where
  "ex_func nm bs = \<lparr>fn_name = Some nm, fn_path = Some ''a.c'', fn_pathFixed = Some ''a.c'', bb_index_first = 0,
     bb_count = length bs, bbs = (if bs = [] then None else Some bs), global_func = None\<rparr>"

definition ex_modules :: "module list" where
  "ex_modules =
     [\<lparr>m_name = Some ''pm'', func_count = 2, funcs = Some [ex_func ''f'' [ex_bb 1, ex_bb 2], ex_func ''g'' [ex_bb 3]]\<rparr>,
      \<lparr>m_name = Some ''vfs'', func_count = 2, funcs = Some [ex_func ''h'' [], ex_func ''f'' [ex_bb 1, ex_bb 2]]\<rparr>]"

lemma ex_modules_ok:
  "list_all wf_module ex_modules" "int (modules_count_functions ex_modules) \<le> 2 ^ 30"
  by (simp_all add: ex_modules_def wf_module_def wf_func_def ex_func_def modules_count_functions_def)

lemma ex_consistent: "consistent ex_modules (positions ex_modules)"
proof -
  have "positions ex_modules = [(0, 0), (0, 1), (1, 0), (1, 1)]"
    by (simp add: positions_def ex_modules_def upt_rec)
  moreover have "key_at ex_modules (0, 0) = (''f'', ''a.c'')" "key_at ex_modules (0, 1) = (''g'', ''a.c'')"
    "key_at ex_modules (1, 0) = (''h'', ''a.c'')" "key_at ex_modules (1, 1) = (''f'', ''a.c'')"
    "func_at ex_modules (0, 0) = func_at ex_modules (1, 1)"
    by (simp_all add: key_at_def func_at_def ex_modules_def ex_func_def)
  ultimately show ?thesis by (simp add: consistent_def members_def)
qed

theorem function_table_merges_modules_witness:
  "\<exists>ft ms' f. functions_build_table ex_modules = Inr (ft, ms') \<and>
     functions_find (entry_count ft) (entries ft) ''f'' ''a.c'' = Some f \<and> f_refs f = [(0, 0), (1, 1)]"
proof -
  have pos: "positions ex_modules = [(0, 0), (0, 1), (1, 0), (1, 1)]"
    by (simp add: positions_def ex_modules_def upt_rec)
  have m: "members ex_modules (positions ex_modules) (''f'', ''a.c'') = [(0, 0), (1, 1)]"
    unfolding pos by (simp add: members_def key_at_def func_at_def ex_modules_def ex_func_def)
  obtain ft ms' where b: "functions_build_table ex_modules = Inr (ft, ms')"
    using build_table_cases [OF ex_modules_ok] ex_consistent by auto
  have "case functions_find (entry_count ft) (entries ft) ''f'' ''a.c'' of
      None \<Rightarrow> members ex_modules (positions ex_modules) (''f'', ''a.c'') = []
    | Some f \<Rightarrow> f_refs f = members ex_modules (positions ex_modules) (''f'', ''a.c'') \<and> f_refs f \<noteq> [] \<and>
        (\<forall>pos \<in> set (f_refs f). f_bb_count f = bb_count (func_at ex_modules pos))"
    using function_table_merges_modules [OF ex_modules_ok] unfolding b by simp
  then show ?thesis using b m by (auto split: option.splits)
qed

text \<open>
  C30 (functional): the numbering of basic blocks over all modules identifies them. A block
  number within a module is mapped to a number below the total, under which the array of all
  blocks has the function of that module which contains the block, at the block's offset in
  the function; numbers beyond the module's blocks are mapped to -1; and no block has two
  numbers.
\<close>
theorem global_block_numbers:
  assumes "list_all wf_module ms" "int (modules_count_functions ms) \<le> 2 ^ 30"
    "functions_build_table ms = Inr (ft, ms')" "i < length ms"
  shows "(if x < sum_list (map (\<lambda>j. bb_count (func_at ms (i, j))) [0..<func_count (ms ! i)])
     then \<exists>j < func_count (ms ! i). \<exists>y r. y < bb_count (func_at ms (i, j)) \<and>
       x = sum_list (map (\<lambda>j. bb_count (func_at ms (i, j))) [0..<j]) + y \<and>
       module_bbindex_to_global ft (ms' ! i) (int x) = Inr (int r) \<and>
       r < global_bb_count ft \<and> the (global_bbs ft) ! r = (key_at ms (i, j), y)
     else module_bbindex_to_global ft (ms' ! i) (int x) = Inr (-1)) \<and>
    (\<forall>bs. global_bbs ft = Some bs \<longrightarrow> distinct bs \<and> length bs = global_bb_count ft)"
proof -
  have cons: "consistent ms (positions ms)"
    using build_table_cases [OF assms(1,2)] assms(3) by (auto split: if_splits)
  obtain n t where b: "0 < n" "ft = functions_init_global_bbs n t" "table_of n ms (positions ms) t"
    "linked ms (positions ms) ms'" "map func_count ms' = map func_count ms"
    using build_table_cases [OF assms(1,2)] cons assms(3) by auto
  let ?N = "func_count (ms ! i)"
  have num: "numbered ft (func_at ms' (i, j)) \<and> global_func (func_at ms' (i, j)) = Some (key_at ms (i, j)) \<and>
      bb_count (func_at ms' (i, j)) = bb_count (func_at ms (i, j))" if "j < ?N" for j
    using member_numbered [OF b(1,3,4) cons b(2), of "(i, j)"] positions_valid [OF assms(1)] that assms(4)
    by (auto simp: mem_positions)
  let ?fns = "map (\<lambda>j. func_at ms' (i, j)) [0..<?N]"
  have scan: "module_bbindex_to_global ft (ms' ! i) (int x) = to_global_scan ft ?fns (int x)"
    unfolding module_bbindex_to_global_def linked_funcs [OF assms(1) b(4,5) assms(4)] by simp
  have counts: "map bb_count (map (\<lambda>j. func_at ms' (i, j)) js) = map (\<lambda>j. bb_count (func_at ms (i, j))) js"
    if "\<forall>j \<in> set js. j < ?N" for js using that num by simp
  have tot: "sum_list (map bb_count ?fns) = sum_list (map (\<lambda>j. bb_count (func_at ms (i, j))) [0..<?N])"
    by (subst counts) auto
  have "distinct (bb_refs (concat t))"
    using distinct_bb_refs chained_table.distinct_keys [OF func_table [OF b(1)] table_ofD(1) [OF b(3)]] by blast
  then have dist: "\<forall>bs. global_bbs ft = Some bs \<longrightarrow> distinct bs \<and> length bs = global_bb_count ft"
    by (auto simp: b(2) functions_init_global_bbs_def Let_def length_bb_refs)
  show ?thesis
  proof (cases "x < sum_list (map (\<lambda>j. bb_count (func_at ms (i, j))) [0..<?N])")
    case True
    have "\<forall>fn \<in> set ?fns. numbered ft fn" using num by auto
    then obtain pre fn post k r where f: "?fns = pre @ fn # post" "global_func fn = Some k"
      "sum_list (map bb_count pre) \<le> x" "x < sum_list (map bb_count pre) + bb_count fn"
      "to_global_scan ft ?fns (int x) = Inr (int r)" "r < global_bb_count ft"
      "the (global_bbs ft) ! r = (k, x - sum_list (map bb_count pre))"
      using to_global_scan_found [of ?fns ft x] True tot by (metis (no_types, lifting))
    let ?j = "length pre"
    have j: "?j < ?N" using arg_cong [OF f(1), of length] by simp
    have fn: "fn = func_at ms' (i, ?j)" using arg_cong [OF f(1), of "\<lambda>xs. xs ! ?j"] j by simp
    have "pre = take ?j ?fns" using f(1) by simp
    also have "\<dots> = map (\<lambda>j. func_at ms' (i, j)) [0..<?j]" using j by (simp add: take_map take_upt)
    finally have pre: "map bb_count pre = map (\<lambda>j. bb_count (func_at ms (i, j))) [0..<?j]"
      using counts [of "[0..<?j]"] j by (metis (no_types, lifting) atLeastLessThan_iff less_trans set_upt)
    have "k = key_at ms (i, ?j)" "bb_count fn = bb_count (func_at ms (i, ?j))" using num [OF j] f(2) fn by simp_all
    then show ?thesis using True dist scan f(3-7) j pre
      by (simp, intro conjI exI [of _ ?j] exI [of _ "x - sum_list (map bb_count pre)"] exI [of _ r]) auto
  next
    case False
    then have "sum_list (map bb_count ?fns) \<le> x" using tot by simp
    from to_global_scan_beyond [OF this] show ?thesis using False dist scan by simp
  qed
qed

theorem global_block_numbers_witness:
  "\<exists>ft ms' r. functions_build_table ex_modules = Inr (ft, ms') \<and>
     module_bbindex_to_global ft (ms' ! 1) 1 = Inr (int r) \<and> the (global_bbs ft) ! r = ((''f'', ''a.c''), 1) \<and>
     module_bbindex_to_global ft (ms' ! 1) 2 = Inr (-1)"
proof -
  obtain ft ms' where b: "functions_build_table ex_modules = Inr (ft, ms')"
    using build_table_cases [OF ex_modules_ok] ex_consistent by auto
  have i: "1 < length ex_modules" by (simp add: ex_modules_def)
  note num = global_block_numbers [OF ex_modules_ok b i]
  have f: "func_count (ex_modules ! 1) = 2" "bb_count (func_at ex_modules (1, 0)) = 0" "bb_count (func_at ex_modules (1, 1)) = 2"
    "key_at ex_modules (1, 1) = (''f'', ''a.c'')"
    by (simp_all add: ex_modules_def func_at_def ex_func_def key_at_def)
  have upt: "[0..<2::nat] = [0, 1]" by (simp add: upt_rec)
  have "\<exists>r. module_bbindex_to_global ft (ms' ! 1) 1 = Inr (int r) \<and> the (global_bbs ft) ! r = ((''f'', ''a.c''), 1)"
    using num [of 1] f upt by (auto simp: less_2_cases_iff)
  moreover have "module_bbindex_to_global ft (ms' ! 1) 2 = Inr (-1)"
    using num [of 2] f upt by simp
  ultimately show ?thesis using b by blast
qed

end
