(* ===== verification/Coverage.thy ===== *)
theory Coverage
  imports Functions
begin

text \<open>
  Execution counts and coverage: the lists of per-module counts read from logs
  (\<^verbatim>\<open>common/logexeccounts.c\<close>) and their accumulation over the function table
  (\<^verbatim>\<open>common/coverage.c\<close>). Exits of the tools are faults; an array that was allocated with no
  elements is None.
\<close>

section \<open>Execution counts\<close>

record module_execcount =
  ec_name :: string
  ec_bbs :: "64 word list"

definition execcounts_concat :: "module_execcount list \<Rightarrow> module_execcount list \<Rightarrow> module_execcount list" where
  "execcounts_concat list1 list2 =
     (if list1 = [] then list2 else if list2 = [] then list1 else list1 @ list2)"

fun execcounts_find :: "module_execcount list \<Rightarrow> string \<Rightarrow> module_execcount option" where
  "execcounts_find [] nm = None"
| "execcounts_find (e # es) nm = (if strcmp (ec_name e) nm = 0 then Some e else execcounts_find es nm)"

definition execcounts_add :: "module_execcount \<Rightarrow> module_execcount \<Rightarrow> fault + module_execcount" where
  "execcounts_add dst src =
     (if strcmp (ec_name dst) (ec_name src) \<noteq> 0 then Inl AssertFail
      else if length (ec_bbs dst) \<noteq> length (ec_bbs src) then Inl (Panic ''bb count mismatch between logs'')
      else Inr (dst\<lparr>ec_bbs := map2 (+) (ec_bbs dst) (ec_bbs src)\<rparr>))"

text \<open>Adding into the entry that the search finds.\<close>

fun add_to_first :: "module_execcount \<Rightarrow> module_execcount list \<Rightarrow> fault + module_execcount list" where
  "add_to_first src [] = Inr []"
| "add_to_first src (e # es) =
     (if strcmp (ec_name e) (ec_name src) = 0 then ebind (execcounts_add e src) (\<lambda>e'. Inr (e' # es))
      else ebind (add_to_first src es) (\<lambda>es'. Inr (e # es')))"

lemma add_to_first_length [simp]: "add_to_first src es = Inr es' \<Longrightarrow> length es' = length es"
  by (induction es arbitrary: es') (auto simp: ebind_eq_Inr split: if_splits)

function execcounts_deduplicate :: "bool \<Rightarrow> module_execcount list \<Rightarrow> fault + module_execcount list" where
  "execcounts_deduplicate add [] = Inr []"
| "execcounts_deduplicate add (e # es) =
     (if execcounts_find es (ec_name e) = None then
        ebind (execcounts_deduplicate add es) (\<lambda>r. Inr (e # r))
      else if add then ebind (add_to_first e es) (\<lambda>es'. execcounts_deduplicate add es')
      else execcounts_deduplicate add es)"
  by pat_completeness auto
termination
  by (relation "measure (\<lambda>(a, es). length es)") auto

text \<open>
  The runs of equal counts that the dump prints: first and last block, one-based, and the
  count. The scan ends with the count -1 behind the last block.
\<close>

fun dump_runs :: "nat \<Rightarrow> 64 word \<Rightarrow> nat \<Rightarrow> 64 word list \<Rightarrow> (nat \<times> nat \<times> 64 word) list" where
  "dump_runs i countrep repeats [] = []"
| "dump_runs i countrep repeats (cnt # cs) =
     (if countrep = cnt then dump_runs (i + 1) countrep (repeats + 1) cs
      else (if repeats > 0 then [(i - repeats + 1, i, countrep)] else []) @ dump_runs (i + 1) cnt 1 cs)"

definition execcounts_dump_bbs :: "module_execcount \<Rightarrow> (nat \<times> nat \<times> 64 word) list" where
  "execcounts_dump_bbs m = dump_runs 0 0 0 (ec_bbs m @ [-1])"

text \<open>A module's counts as the log reader delivers them, the name cut at the last at-sign.\<close>

fun cut_at_sign :: "string \<Rightarrow> string option" where
  "cut_at_sign [] = None"
| "cut_at_sign (ch # s) =
     (case cut_at_sign s of
        Some p \<Rightarrow> Some (ch # p)
      | None \<Rightarrow> if ch = CHR ''@'' then Some [] else None)"

definition edfi_dump_stats_module ::
    "string \<Rightarrow> 64 word list option \<Rightarrow> module_execcount list \<Rightarrow> module_execcount list" where
  "edfi_dump_stats_module nm counts es =
     (case counts of
        None \<Rightarrow> es
      | Some bs \<Rightarrow> es @ [\<lparr>ec_name = (case cut_at_sign nm of None \<Rightarrow> nm | Some p \<Rightarrow> p), ec_bbs = bs\<rparr>])"

section \<open>Coverage\<close>

record coverage_per_bb =
  cov_bbs :: "64 word list option"
  cov_funcs :: "8 word list option"
  cov_modules :: "module list"

definition coverage_init :: "function_hashtable \<Rightarrow> coverage_per_bb" where
  "coverage_init ft = \<lparr>cov_bbs = CALLOC (global_bb_count ft) 0, cov_funcs = CALLOC (global_func_count ft) 0,
     cov_modules = []\<rparr>"

definition coverage_get_bb :: "function_hashtable \<Rightarrow> coverage_per_bb \<Rightarrow> function_bb \<Rightarrow> fault + 64 word" where
  "coverage_get_bb ft c bb =
     (if global_bb_index bb \<ge> global_bb_count ft then Inl AssertFail
      else case cov_bbs c of None \<Rightarrow> Inl NullDeref | Some bs \<Rightarrow> Inr (bs ! global_bb_index bb))"

definition coverage_get_func :: "coverage_per_bb \<Rightarrow> func \<Rightarrow> fault + 8 word" where
  "coverage_get_func c f =
     (case cov_funcs c of
        None \<Rightarrow> Inl NullDeref
      | Some fs \<Rightarrow> if global_func_index f \<ge> length fs then Inl OutOfBounds else Inr (fs ! global_func_index f))"

fun add_func_loop ::
    "function_hashtable \<Rightarrow> 64 word list \<Rightarrow> function_bb list \<Rightarrow> nat \<Rightarrow> bool \<Rightarrow> 64 word list \<Rightarrow> fault + (nat \<times> bool \<times> 64 word list)" where
  "add_func_loop ft counts [] bb_index covered cov = Inr (bb_index, covered, cov)"
| "add_func_loop ft counts (bb # bs) bb_index covered cov =
     (if bb_index < length counts then
        let ec = counts ! bb_index; g = global_bb_index bb
        in if g \<ge> global_bb_count ft then Inl AssertFail
           else add_func_loop ft counts bs (bb_index + 1) (covered \<or> ec > 0) (cov[g := cov ! g + ec])
      else add_func_loop ft counts bs (bb_index + 1) covered cov)"

definition coverage_add_execcount_function ::
    "function_hashtable \<Rightarrow> 64 word list \<Rightarrow> func \<Rightarrow> nat \<Rightarrow> coverage_per_bb \<Rightarrow> fault + (nat \<times> coverage_per_bb)" where
  "coverage_add_execcount_function ft counts f bb_index c =
     (case (cov_bbs c, cov_funcs c) of
        (Some cov, Some flags) \<Rightarrow>
          ebind (add_func_loop ft counts (func_bbs f) bb_index False cov)
            (\<lambda>(bb_index, covered, cov).
              let c = c\<lparr>cov_bbs := Some cov\<rparr>
              in if \<not> covered then Inr (bb_index, c)
                 else if global_func_index f \<ge> global_func_count ft then Inl AssertFail
                 else Inr (bb_index, c\<lparr>cov_funcs := Some (flags[global_func_index f := 1])\<rparr>))
      | _ \<Rightarrow> Inl AssertFail)"

text \<open>The list of modules that counts were added for; the nodes are pointers to modules.\<close>

definition module_find_const :: "module list \<Rightarrow> string \<Rightarrow> fault + module option" where
  "module_find_const ms nm = module_find_with_namelen ms nm (length nm)"

definition coverage_add_module_to_list :: "module \<Rightarrow> coverage_per_bb \<Rightarrow> fault + coverage_per_bb" where
  "coverage_add_module_to_list m c =
     (case m_name m of
        None \<Rightarrow> Inl AssertFail
      | Some nm \<Rightarrow> ebind (module_find_const (cov_modules c) nm) (\<lambda>r.
          if r \<noteq> None then Inr c else Inr (c\<lparr>cov_modules := m # cov_modules c\<rparr>)))"

fun add_funcs_loop ::
    "function_hashtable \<Rightarrow> 64 word list \<Rightarrow> module_func list \<Rightarrow> nat \<Rightarrow> coverage_per_bb \<Rightarrow> fault + (nat \<times> coverage_per_bb)" where
  "add_funcs_loop ft counts [] bb_index c = Inr (bb_index, c)"
| "add_funcs_loop ft counts (mf # mfs) bb_index c =
     (case (fn_name mf, fn_path mf) of
        (Some nm, Some p) \<Rightarrow>
          (case functions_find (entry_count ft) (entries ft) nm p of
             None \<Rightarrow> Inl (Panic ''function not found in the function table'')
           | Some f \<Rightarrow>
               ebind (coverage_add_execcount_function ft counts f bb_index c)
                 (\<lambda>r. add_funcs_loop ft counts mfs (fst r) (snd r)))
      | _ \<Rightarrow> Inl AssertFail)"

definition module_funcs :: "module \<Rightarrow> module_func list" where
  "module_funcs m = (case funcs m of None \<Rightarrow> [] | Some fs \<Rightarrow> take (func_count m) fs)"

definition coverage_add_execcount_module ::
    "function_hashtable \<Rightarrow> module \<Rightarrow> 64 word list \<Rightarrow> coverage_per_bb \<Rightarrow> fault + coverage_per_bb" where
  "coverage_add_execcount_module ft m counts c =
     (if counts = [] then Inl AssertFail
      else ebind (coverage_add_module_to_list m c) (\<lambda>c.
           ebind (add_funcs_loop ft counts (module_funcs m) 0 c) (\<lambda>(bb_index, c).
             if bb_index \<noteq> length counts then Inl (Panic ''number of basic blocks in logs is inconsistent'')
             else Inr c)))"

definition coverage_add_execcount_module_ec ::
    "function_hashtable \<Rightarrow> module_execcount \<Rightarrow> module \<Rightarrow> coverage_per_bb \<Rightarrow> fault + coverage_per_bb" where
  "coverage_add_execcount_module_ec ft e m c =
     (if ec_bbs e = [] then Inl AssertFail
      else case m_name m of
        None \<Rightarrow> Inl NullDeref
      | Some nm \<Rightarrow> if strcmp nm (ec_name e) \<noteq> 0 then Inl AssertFail
                   else coverage_add_execcount_module ft m (ec_bbs e) c)"

fun coverage_add_execcount_list ::
    "function_hashtable \<Rightarrow> module list \<Rightarrow> module_execcount list \<Rightarrow> coverage_per_bb \<Rightarrow> fault + coverage_per_bb" where
  "coverage_add_execcount_list ft ms [] c = Inr c"
| "coverage_add_execcount_list ft ms (e # es) c =
     ebind (module_find ms (ec_name e)) (\<lambda>r.
       case r of
         Some m \<Rightarrow> ebind (coverage_add_execcount_module_ec ft e m c) (coverage_add_execcount_list ft ms es)
       | None \<Rightarrow> coverage_add_execcount_list ft ms es c)"

text \<open>A function is used if one of the modules that refer to it is.\<close>

definition module_is_used :: "coverage_per_bb \<Rightarrow> module \<Rightarrow> fault + bool" where
  "module_is_used c m =
     (case m_name m of
        None \<Rightarrow> Inl AssertFail
      | Some nm \<Rightarrow> ebind (module_find_const (cov_modules c) nm) (\<lambda>r. Inr (r \<noteq> None)))"

fun used_scan :: "coverage_per_bb \<Rightarrow> module list \<Rightarrow> func_pos list \<Rightarrow> fault + bool" where
  "used_scan c ms [] = Inr False"
| "used_scan c ms (pos # ps) =
     ebind (module_is_used c (ms ! fst pos)) (\<lambda>u. if u then Inr True else used_scan c ms ps)"

definition function_is_in_used_module :: "coverage_per_bb \<Rightarrow> module list \<Rightarrow> func \<Rightarrow> fault + bool" where
  "function_is_in_used_module c ms f = used_scan c ms (f_refs f)"

record coverage_stats =
  cov_func :: nat
  cov_bb :: nat
  cov_ins :: nat
  cov_fc :: nat
  cov_inj :: nat
  cov_loc :: int
  tot_func :: nat
  tot_bb :: nat
  tot_ins :: nat
  tot_fc :: nat
  tot_inj :: nat
  tot_loc :: int

definition stats_zero :: coverage_stats where
  "stats_zero = \<lparr>cov_func = 0, cov_bb = 0, cov_ins = 0, cov_fc = 0, cov_inj = 0, cov_loc = 0,
     tot_func = 0, tot_bb = 0, tot_ins = 0, tot_fc = 0, tot_inj = 0, tot_loc = 0\<rparr>"

text \<open>The statistics with the two line counters they end in.\<close>

record stats_state =
  st_stats :: coverage_stats
  lines_cov :: linecounter_state
  lines_tot :: linecounter_state

definition functions_get_coverage_lines :: "linepath list \<Rightarrow> linecounter_state \<Rightarrow> linecounter_state" where
  "functions_get_coverage_lines ls counter = fold linecounter_add ls counter"

definition count_covered :: "function_bb \<Rightarrow> stats_state \<Rightarrow> stats_state" where
  "count_covered bb s =
     (let t = st_stats s
      in s\<lparr>st_stats := t\<lparr>cov_bb := cov_bb t + 1, cov_ins := cov_ins t + fb_instr_count bb,
             cov_fc := cov_fc t + fb_faultcand_count bb, cov_inj := cov_inj t + fb_faultinj_count bb\<rparr>,
           lines_cov := functions_get_coverage_lines (fb_lines bb) (lines_cov s)\<rparr>)"

definition count_total :: "function_bb \<Rightarrow> stats_state \<Rightarrow> stats_state" where
  "count_total bb s =
     (let t = st_stats s
      in s\<lparr>st_stats := t\<lparr>tot_bb := tot_bb t + 1, tot_ins := tot_ins t + fb_instr_count bb,
             tot_fc := tot_fc t + fb_faultcand_count bb, tot_inj := tot_inj t + fb_faultinj_count bb\<rparr>,
           lines_tot := functions_get_coverage_lines (fb_lines bb) (lines_tot s)\<rparr>)"

text \<open>The loop over a function's blocks; the flags tell whether one was covered, or excluded.\<close>

fun compute_bbs ::
    "function_hashtable \<Rightarrow> coverage_per_bb \<Rightarrow> coverage_per_bb option \<Rightarrow> function_bb list \<Rightarrow> bool \<times> bool \<times> stats_state \<Rightarrow>
     fault + (bool \<times> bool \<times> stats_state)" where
  "compute_bbs ft c ex [] r = Inr r"
| "compute_bbs ft c ex (bb # bs) (cf, ef, s) =
     ebind (case ex of None \<Rightarrow> Inr False | Some x \<Rightarrow> ebind (coverage_get_bb ft x bb) (\<lambda>n. Inr (n > 0))) (\<lambda>excluded.
       if excluded then compute_bbs ft c ex bs (cf, True, s)
       else ebind (coverage_get_bb ft c bb) (\<lambda>n.
         compute_bbs ft c ex bs (cf \<or> n > 0, ef, count_total bb (if n > 0 then count_covered bb s else s))))"

definition coverage_compute_func ::
    "function_hashtable \<Rightarrow> module list \<Rightarrow> coverage_per_bb \<Rightarrow> coverage_per_bb option \<Rightarrow> bool \<Rightarrow> func \<Rightarrow> stats_state \<Rightarrow> fault + stats_state" where
  "coverage_compute_func ft ms c ex only_used_modules f s =
     ebind (if only_used_modules then function_is_in_used_module c ms f else Inr True) (\<lambda>used.
       if \<not> used then Inr s
       else ebind (compute_bbs ft c ex (func_bbs f) (False, False, s))
         (\<lambda>(cf, ef, s).
           if ef then Inr s
           else let t = st_stats s
                in Inr (s\<lparr>st_stats := t\<lparr>cov_func := cov_func t + (if cf then 1 else 0), tot_func := tot_func t + 1\<rparr>\<rparr>)))"

definition path_match :: "string \<Rightarrow> string \<Rightarrow> nat \<Rightarrow> bool" where
  "path_match p mat matchlen =
     (if length p < matchlen then False
      else if take matchlen p \<noteq> take matchlen mat then False
      else if length p = matchlen \<or> matchlen < 1 then True
      else mat ! (matchlen - 1) = CHR ''/'')"

fun compute_funcs ::
    "function_hashtable \<Rightarrow> module list \<Rightarrow> coverage_per_bb \<Rightarrow> coverage_per_bb option \<Rightarrow> bool \<Rightarrow> (string \<times> nat) option \<Rightarrow>
     func list \<Rightarrow> stats_state \<Rightarrow> fault + stats_state" where
  "compute_funcs ft ms c ex used pth [] s = Inr s"
| "compute_funcs ft ms c ex used pth (f # fs) s =
     (case pth of
        None \<Rightarrow> ebind (coverage_compute_func ft ms c ex used f s) (compute_funcs ft ms c ex used pth fs)
      | Some (mat, len) \<Rightarrow>
          (case f_pathFixed f of
             None \<Rightarrow> Inl AssertFail
           | Some p \<Rightarrow>
               if path_match p mat len
               then ebind (coverage_compute_func ft ms c ex used f s) (compute_funcs ft ms c ex used pth fs)
               else compute_funcs ft ms c ex used pth fs s))"

definition finish_stats :: "stats_state \<Rightarrow> coverage_stats" where
  "finish_stats s = (st_stats s)\<lparr>cov_loc := lc_count (lines_cov s), tot_loc := lc_count (lines_tot s)\<rparr>"

definition stats_init :: stats_state where
  "stats_init = \<lparr>st_stats = stats_zero, lines_cov = linecounter_init, lines_tot = linecounter_init\<rparr>"

definition coverage_compute_total ::
    "function_hashtable \<Rightarrow> module list \<Rightarrow> coverage_per_bb \<Rightarrow> coverage_per_bb option \<Rightarrow> bool \<Rightarrow> (string \<times> nat) option \<Rightarrow> fault + coverage_stats" where
  "coverage_compute_total ft ms c ex used pth =
     ebind (compute_funcs ft ms c ex used pth (concat (entries ft)) stats_init) (\<lambda>s. Inr (finish_stats s))"

fun compute_module_funcs ::
    "function_hashtable \<Rightarrow> module list \<Rightarrow> coverage_per_bb \<Rightarrow> coverage_per_bb option \<Rightarrow> module_func list \<Rightarrow> stats_state \<Rightarrow> fault + stats_state" where
  "compute_module_funcs ft ms c ex [] s = Inr s"
| "compute_module_funcs ft ms c ex (mf # mfs) s =
     (case global_func mf of
        None \<Rightarrow> Inl AssertFail
      | Some k \<Rightarrow>
          (case functions_find (entry_count ft) (entries ft) (fst k) (snd k) of
             None \<Rightarrow> Inl NullDeref
           | Some f \<Rightarrow> ebind (coverage_compute_func ft ms c ex False f s) (compute_module_funcs ft ms c ex mfs)))"

definition coverage_compute_module ::
    "function_hashtable \<Rightarrow> module list \<Rightarrow> coverage_per_bb \<Rightarrow> coverage_per_bb option \<Rightarrow> module \<Rightarrow> fault + coverage_stats" where
  "coverage_compute_module ft ms c ex m =
     ebind (compute_module_funcs ft ms c ex (module_funcs m) stats_init) (\<lambda>s. Inr (finish_stats s))"

section \<open>Specification of the merged counts\<close>

definition named :: "string \<Rightarrow> module_execcount list \<Rightarrow> module_execcount list" where
  "named nm es = filter (\<lambda>e. ec_name e = nm) es"

definition shape :: "module_execcount \<Rightarrow> string \<times> nat" where
  "shape e = (ec_name e, length (ec_bbs e))"

text \<open>Entries of the same module have the same number of blocks.\<close>

definition same_sizes :: "module_execcount list \<Rightarrow> bool" where
  "same_sizes es = (\<forall>a \<in> shape ` set es. \<forall>b \<in> shape ` set es. fst a = fst b \<longrightarrow> snd a = snd b)"

definition summed :: "module_execcount list \<Rightarrow> string \<Rightarrow> module_execcount" where
  "summed es nm =
     \<lparr>ec_name = nm, ec_bbs = map (\<lambda>i. \<Sum>e\<leftarrow>named nm es. ec_bbs e ! i) [0..<length (ec_bbs (hd (named nm es)))]\<rparr>"

definition c_names :: "module_execcount list \<Rightarrow> bool" where
  "c_names es = (\<forall>e \<in> set es. NUL \<notin> set (ec_name e))"

section \<open>Lemmas: merging the counts\<close>

lemma find_None:
  "c_names es \<Longrightarrow> NUL \<notin> set nm \<Longrightarrow> execcounts_find es nm = None \<longleftrightarrow> nm \<notin> ec_name ` set es"
  by (induction es) (auto simp: c_names_def strcmp_eq_0)

lemma add_to_first_split:
  assumes "c_names (e # pre @ f # post)" "ec_name f = ec_name e" "ec_name e \<notin> ec_name ` set pre"
  shows "add_to_first e (pre @ f # post) =
    (if length (ec_bbs f) = length (ec_bbs e)
     then Inr (pre @ f\<lparr>ec_bbs := map2 (+) (ec_bbs f) (ec_bbs e)\<rparr> # post)
     else Inl (Panic ''bb count mismatch between logs''))"
  using assms(1,3)
proof (induction pre)
  case Nil
  then show ?case using assms(2) by (simp add: execcounts_add_def)
next
  case (Cons g pre)
  have "strcmp (ec_name g) (ec_name e) \<noteq> 0"
    using Cons.prems strcmp_eq_0 [of "ec_name g" "ec_name e"] by (auto simp: c_names_def)
  moreover have "c_names (e # pre @ f # post)" using Cons.prems by (simp add: c_names_def)
  ultimately show ?case using Cons by simp
qed

lemma split_first_named:
  assumes "nm \<in> ec_name ` set es"
  shows "\<exists>pre f post. es = pre @ f # post \<and> ec_name f = nm \<and> nm \<notin> ec_name ` set pre"
proof -
  obtain pre f post where "es = pre @ f # post" "ec_name f = nm" "\<forall>g \<in> set pre. ec_name g \<noteq> nm"
    using split_list_first_prop [of es "\<lambda>g. ec_name g = nm"] assms by auto
  then show ?thesis by (intro exI [of _ pre] exI [of _ f] exI [of _ post]) auto
qed

lemma same_sizes_insert:
  "same_sizes (e # es) \<longleftrightarrow> same_sizes es \<and> (\<forall>f \<in> set es. ec_name f = ec_name e \<longrightarrow> length (ec_bbs f) = length (ec_bbs e))"
  by (auto simp: same_sizes_def shape_def)

lemma same_sizes_shapes: "shape ` set es = shape ` set es' \<Longrightarrow> same_sizes es = same_sizes es'"
  by (simp add: same_sizes_def)

lemma named_fresh [simp]: "nm \<notin> ec_name ` set es \<Longrightarrow> named nm es = []"
  by (auto simp: named_def filter_empty_conv)

lemma named_Cons: "named nm (e # es) = (if ec_name e = nm then e # named nm es else named nm es)"
  by (simp add: named_def)

lemma named_append: "named nm (es @ fs) = named nm es @ named nm fs"
  by (simp add: named_def)

lemma summed_add:
  assumes "ec_name f = ec_name e" "length (ec_bbs f) = length (ec_bbs e)" "ec_name e \<notin> ec_name ` set pre"
  shows "summed (pre @ f\<lparr>ec_bbs := map2 (+) (ec_bbs f) (ec_bbs e)\<rparr> # post) nm = summed (e # pre @ f # post) nm"
proof (cases "nm = ec_name e")
  case True
  then show ?thesis using assms by (auto simp: summed_def named_Cons named_append add.assoc intro: add.left_commute)
next
  case False
  then show ?thesis using assms by (simp add: summed_def named_Cons named_append)
qed

lemma summed_single:
  assumes "ec_name e \<notin> ec_name ` set es"
  shows "summed (e # es) (ec_name e) = e"
proof -
  have "map (\<lambda>i. ec_bbs e ! i) [0..<length (ec_bbs e)] = ec_bbs e" by (rule map_nth)
  then show ?thesis using assms by (simp add: summed_def named_Cons)
qed

lemma dedup_add:
  "c_names es \<Longrightarrow> execcounts_deduplicate True es =
    (if same_sizes es then Inr (map (summed es) (remdups (map ec_name es)))
     else Inl (Panic ''bb count mismatch between logs''))"
proof (induction "length es" arbitrary: es)
  case (Suc n)
  obtain e es' where es: "es = e # es'" "n = length es'" using Suc.hyps(2) by (cases es) auto
  have c: "c_names es'" "NUL \<notin> set (ec_name e)" using Suc.prems es by (auto simp: c_names_def)
  show ?case
  proof (cases "ec_name e \<in> ec_name ` set es'")
    case False
    have "map (summed es) (remdups (map ec_name es')) = map (summed es') (remdups (map ec_name es'))"
      using False by (auto simp: es summed_def named_Cons)
    moreover have "\<forall>f \<in> set es'. ec_name f \<noteq> ec_name e" using False by (metis imageI)
    then have "same_sizes es = same_sizes es'" by (simp add: es same_sizes_insert)
    moreover have "execcounts_find es' (ec_name e) = None" using find_None [OF c] False by simp
    ultimately show ?thesis using Suc.hyps(1) [OF es(2) c(1)] False summed_single [OF False] by (simp add: es)
  next
    case True
    then obtain pre f post where s: "es' = pre @ f # post" "ec_name f = ec_name e" "ec_name e \<notin> ec_name ` set pre"
      using split_first_named by blast
    have found: "execcounts_find es' (ec_name e) \<noteq> None" using find_None [OF c] True by simp
    have first: "add_to_first e es' = (if length (ec_bbs f) = length (ec_bbs e)
        then Inr (pre @ f\<lparr>ec_bbs := map2 (+) (ec_bbs f) (ec_bbs e)\<rparr> # post)
        else Inl (Panic ''bb count mismatch between logs''))"
      unfolding s(1) by (rule add_to_first_split) (use Suc.prems es s in simp_all)
    show ?thesis
    proof (cases "length (ec_bbs f) = length (ec_bbs e)")
      case False
      then have "\<not> same_sizes es" using s by (auto simp: es same_sizes_insert)
      then show ?thesis using False found first by (auto simp: es)
    next
      case len: True
      let ?n = "pre @ f\<lparr>ec_bbs := map2 (+) (ec_bbs f) (ec_bbs e)\<rparr> # post"
      have "n = length ?n" "c_names ?n" using es(2) s(1) c(1) by (simp_all add: c_names_def)
      note IH = Suc.hyps(1) [OF this]
      have "shape ` set ?n = shape ` set es" using len s by (auto simp: es shape_def)
      then have "same_sizes ?n = same_sizes es" by (rule same_sizes_shapes)
      moreover have "remdups (map ec_name ?n) = remdups (map ec_name es)" using True s by (simp add: es)
      moreover have "summed ?n = summed es" using summed_add [OF s(2) len s(3)] by (simp add: fun_eq_iff es s(1))
      moreover have "execcounts_deduplicate True es = execcounts_deduplicate True ?n"
        using found first len by (auto simp: es)
      ultimately show ?thesis using IH by simp
    qed
  qed
qed (simp add: same_sizes_def)

lemma dedup_last:
  "c_names es \<Longrightarrow>
    execcounts_deduplicate False es = Inr (map (\<lambda>nm. last (named nm es)) (remdups (map ec_name es)))"
proof (induction es)
  case (Cons e es)
  have c: "c_names es" "NUL \<notin> set (ec_name e)" using Cons.prems by (auto simp: c_names_def)
  have "last (named nm (e # es)) = last (named nm es)" if "nm \<in> ec_name ` set es" for nm
    using that by (auto simp: named_def filter_empty_conv)
  then show ?case using Cons.IH [OF c(1)] find_None [OF c] by (auto simp: named_Cons)
qed simp

section \<open>Lemmas: adding counts\<close>

text \<open>What a stretch of counts adds to one global block, given the global blocks of the stretch.\<close>

definition added :: "64 word list \<Rightarrow> nat \<Rightarrow> nat \<Rightarrow> (nat \<Rightarrow> bool) \<Rightarrow> 64 word" where
  "added counts bb_index n hit =
     (\<Sum>x\<leftarrow>[0..<n]. if bb_index + x < length counts \<and> hit x then counts ! (bb_index + x) else 0)"

lemma added_0 [simp]: "added counts i 0 hit = 0"
  by (simp add: added_def)

lemma added_append:
  "added counts i (m + n) hit = added counts i m hit + added counts (i + m) n (\<lambda>x. hit (m + x))"
proof -
  have "[0..<m + n] = [0..<m] @ map (\<lambda>x. m + x) [0..<n]"
    using upt_add_eq_append [of 0 m n] map_add_upt [of m n] by (simp add: add.commute)
  then show ?thesis by (simp add: added_def o_def add.assoc cong: if_cong)
qed

lemma added_cong: "(\<And>x. x < n \<Longrightarrow> hit x = hit' x) \<Longrightarrow> added counts i n hit = added counts i n hit'"
  unfolding added_def by (rule arg_cong [where f = sum_list]) auto

lemma added_Suc:
  "added counts i (Suc n) hit = (if i < length counts \<and> hit 0 then counts ! i else 0) + added counts (Suc i) n (\<lambda>x. hit (Suc x))"
  using added_append [of counts i 1 n hit] by (simp add: added_def)

lemma add_func_loop_counts:
  "\<forall>bb \<in> set bs. global_bb_index bb < global_bb_count ft \<Longrightarrow> length cov = global_bb_count ft \<Longrightarrow>
   \<exists>covered' cov'. add_func_loop ft counts bs i covered cov = Inr (i + length bs, covered', cov') \<and>
     length cov' = length cov \<and>
     (\<forall>g < length cov. cov' ! g = cov ! g + added counts i (length bs) (\<lambda>x. global_bb_index (bs ! x) = g))"
proof (induction bs arbitrary: i covered cov)
  case (Cons bb bs)
  let ?g = "global_bb_index bb"
  let ?cov = "if i < length counts then cov[?g := cov ! ?g + counts ! i] else cov"
  have len: "length ?cov = global_bb_count ft" using Cons.prems by simp
  have "\<exists>covered''. add_func_loop ft counts (bb # bs) i covered cov = add_func_loop ft counts bs (i + 1) covered'' ?cov"
    using Cons.prems by (auto simp: Let_def)
  then obtain covered'' where
    step: "add_func_loop ft counts (bb # bs) i covered cov = add_func_loop ft counts bs (i + 1) covered'' ?cov" ..
  have "\<forall>bb \<in> set bs. global_bb_index bb < global_bb_count ft" using Cons.prems by simp
  from Cons.IH [OF this len, of "i + 1" covered''] obtain covered' cov' where
    r: "add_func_loop ft counts bs (i + 1) covered'' ?cov = Inr (i + 1 + length bs, covered', cov')" "length cov' = length cov"
    "\<forall>g < length cov. cov' ! g = ?cov ! g + added counts (i + 1) (length bs) (\<lambda>x. global_bb_index (bs ! x) = g)"
    by auto
  have "?cov ! g = cov ! g + (if i < length counts \<and> ?g = g then counts ! i else 0)" if "g < length cov" for g
    using that Cons.prems by (simp add: nth_list_update)
  then show ?case using r step
    by (intro exI [of _ covered'] exI [of _ cov']) (simp add: added_Suc add.assoc)
qed simp

text \<open>The coverage arrays have the sizes of the function table.\<close>

definition cov_ok :: "function_hashtable \<Rightarrow> coverage_per_bb \<Rightarrow> bool" where
  "cov_ok ft c = (\<exists>bs fs. cov_bbs c = Some bs \<and> length bs = global_bb_count ft \<and>
     cov_funcs c = Some fs \<and> length fs = global_func_count ft)"

definition count_of :: "coverage_per_bb \<Rightarrow> nat \<Rightarrow> 64 word" where
  "count_of c g = the (cov_bbs c) ! g"

lemma add_function_counts_ok:
  assumes "cov_ok ft c" "\<forall>bb \<in> set (func_bbs f). global_bb_index bb < global_bb_count ft"
    "global_func_index f < global_func_count ft"
  shows "\<exists>c'. coverage_add_execcount_function ft counts f i c = Inr (i + length (func_bbs f), c') \<and> cov_ok ft c' \<and>
    cov_modules c' = cov_modules c \<and>
    (\<forall>g < global_bb_count ft. count_of c' g =
      count_of c g + added counts i (length (func_bbs f)) (\<lambda>x. global_bb_index (func_bbs f ! x) = g))"
proof -
  obtain cov fs where c: "cov_bbs c = Some cov" "length cov = global_bb_count ft" "cov_funcs c = Some fs"
    "length fs = global_func_count ft" using assms(1) by (auto simp: cov_ok_def)
  obtain covered' cov' where r: "add_func_loop ft counts (func_bbs f) i False cov = Inr (i + length (func_bbs f), covered', cov')"
     "length cov' = length cov" "\<forall>g < length cov. cov' ! g =
       cov ! g + added counts i (length (func_bbs f)) (\<lambda>x. global_bb_index (func_bbs f ! x) = g)"
    using add_func_loop_counts [OF assms(2) c(2), of counts i False] by blast
  then show ?thesis using assms(3) c
    by (cases covered') (simp_all add: coverage_add_execcount_function_def Let_def cov_ok_def count_of_def)
qed

text \<open>A linked function of a module is found in the table under its own name and path.\<close>

definition own_link :: "module_func \<Rightarrow> bool" where
  "own_link fn = (fn_name fn \<noteq> None \<and> fn_path fn \<noteq> None \<and> global_func fn = Some (the (fn_name fn), the (fn_path fn)))"

lemma add_funcs_loop_counts:
  "\<forall>fn \<in> set fns. numbered ft fn \<and> own_link fn \<Longrightarrow> cov_ok ft c \<Longrightarrow>
   \<exists>c'. add_funcs_loop ft counts fns i c = Inr (i + sum_list (map bb_count fns), c') \<and> cov_ok ft c' \<and>
     cov_modules c' = cov_modules c \<and>
     (\<forall>g < global_bb_count ft. count_of c' g = count_of c g +
       added counts i (sum_list (map bb_count fns)) (\<lambda>x. to_global_scan ft fns (int x) = Inr (int g)))"
proof (induction fns arbitrary: i c)
  case (Cons fn fns)
  have own: "own_link fn" and num: "numbered ft fn" using Cons.prems(1) by simp_all
  obtain nm p f where f: "fn_name fn = Some nm" "fn_path fn = Some p" "global_func fn = Some (nm, p)"
    "functions_find (entry_count ft) (entries ft) nm p = Some f" "f_bb_count f = bb_count fn"
    "length (func_bbs f) = bb_count fn" "global_func_index f < global_func_count ft"
    "\<forall>y < bb_count fn. global_bb_index (the (f_bbs f) ! y) < global_bb_count ft"
    using own num by (fastforce simp: own_link_def numbered_def Let_def)
  have nth: "func_bbs f ! y = the (f_bbs f) ! y" if "y < bb_count fn" for y
    using that f(5,6) by (cases "f_bbs f") (auto simp: func_bbs_def)
  have "\<forall>bb \<in> set (func_bbs f). global_bb_index bb < global_bb_count ft"
    using f(6,8) nth by (metis in_set_conv_nth)
  from add_function_counts_ok [OF Cons.prems(2) this f(7), of counts i] obtain c1 where
    c1: "coverage_add_execcount_function ft counts f i c = Inr (i + bb_count fn, c1)" "cov_ok ft c1"
      "cov_modules c1 = cov_modules c" "\<forall>g < global_bb_count ft. count_of c1 g =
        count_of c g + added counts i (bb_count fn) (\<lambda>x. global_bb_index (func_bbs f ! x) = g)"
    unfolding f(6) by blast
  have "\<forall>fn \<in> set fns. numbered ft fn \<and> own_link fn" using Cons.prems(1) by simp
  from Cons.IH [OF this c1(2), of "i + bb_count fn"] obtain c2 where
    c2: "add_funcs_loop ft counts fns (i + bb_count fn) c1 = Inr (i + bb_count fn + sum_list (map bb_count fns), c2)"
      "cov_ok ft c2" "cov_modules c2 = cov_modules c1" "\<forall>g < global_bb_count ft. count_of c2 g = count_of c1 g +
        added counts (i + bb_count fn) (sum_list (map bb_count fns)) (\<lambda>x. to_global_scan ft fns (int x) = Inr (int g))"
    by blast
  have here: "added counts i (bb_count fn) (\<lambda>x. to_global_scan ft (fn # fns) (int x) = Inr (int g)) =
      added counts i (bb_count fn) (\<lambda>x. global_bb_index (func_bbs f ! x) = g)" for g
    by (rule added_cong) (use f nth in simp)
  have there: "(\<lambda>x. to_global_scan ft (fn # fns) (int (bb_count fn + x)) = Inr (int g)) =
      (\<lambda>x. to_global_scan ft fns (int x) = Inr (int g))" for g
    by (simp add: fun_eq_iff)
  have "added counts i (bb_count fn + sum_list (map bb_count fns)) (\<lambda>x. to_global_scan ft (fn # fns) (int x) = Inr (int g)) =
      added counts i (bb_count fn) (\<lambda>x. global_bb_index (func_bbs f ! x) = g) +
      added counts (i + bb_count fn) (sum_list (map bb_count fns)) (\<lambda>x. to_global_scan ft fns (int x) = Inr (int g))" for g
    unfolding added_append here there ..
  moreover have "add_funcs_loop ft counts (fn # fns) i c = add_funcs_loop ft counts fns (i + bb_count fn) c1"
    using f c1(1) by simp
  ultimately show ?case using c1 c2 by (intro exI [of _ c2]) (simp add: add.assoc del: to_global_scan.simps)
qed simp

section \<open>Lemmas: statistics\<close>

lemma find_const_total:
  "\<forall>m \<in> set ms. m_name m \<noteq> None \<Longrightarrow>
   \<exists>r. module_find_const ms nm = Inr r \<and> (r \<noteq> None \<longleftrightarrow> Some nm \<in> m_name ` set ms)"
proof (induction ms)
  case (Cons m ms)
  obtain n where n: "m_name m = Some n" using Cons.prems by auto
  have "namecmp n nm (length nm) \<longleftrightarrow> n \<noteq> nm" by (auto simp: namecmp_def)
  then show ?case using Cons n by (auto simp: module_find_const_def)
qed (simp add: module_find_const_def)

text \<open>The blocks that the statistics look at, and those of them that were executed.\<close>

definition visible :: "coverage_per_bb option \<Rightarrow> function_bb list \<Rightarrow> function_bb list" where
  "visible ex bs = filter (\<lambda>bb. case ex of None \<Rightarrow> True | Some x \<Rightarrow> count_of x (global_bb_index bb) = 0) bs"

definition executed :: "coverage_per_bb \<Rightarrow> function_bb list \<Rightarrow> function_bb list" where
  "executed c bs = filter (\<lambda>bb. count_of c (global_bb_index bb) > 0) bs"

definition lines_of :: "function_bb list \<Rightarrow> (string \<times> int) set" where
  "lines_of bs = keys_of (concat (map fb_lines bs))"

text \<open>The statistics of lists of executed and of all visible blocks, and of numbers of functions.\<close>

definition stats_of :: "nat \<Rightarrow> function_bb list \<Rightarrow> nat \<Rightarrow> function_bb list \<Rightarrow> coverage_stats" where
  "stats_of fh hs ft ts =
     \<lparr>cov_func = fh, cov_bb = length hs, cov_ins = sum_list (map fb_instr_count hs),
      cov_fc = sum_list (map fb_faultcand_count hs), cov_inj = sum_list (map fb_faultinj_count hs),
      cov_loc = int (card (lines_of hs)),
      tot_func = ft, tot_bb = length ts, tot_ins = sum_list (map fb_instr_count ts),
      tot_fc = sum_list (map fb_faultcand_count ts), tot_inj = sum_list (map fb_faultinj_count ts),
      tot_loc = int (card (lines_of ts))\<rparr>"

definition counted :: "nat \<Rightarrow> function_bb list \<Rightarrow> nat \<Rightarrow> function_bb list \<Rightarrow> stats_state \<Rightarrow> bool" where
  "counted fh hs ft ts s = (st_stats s = (stats_of fh hs ft ts)\<lparr>cov_loc := 0, tot_loc := 0\<rparr> \<and>
     lc_inv (lines_of hs) (lines_cov s) \<and> lc_inv (lines_of ts) (lines_tot s))"

lemma counted_init: "counted 0 [] 0 [] stats_init"
  using lc_inv_init by (simp add: counted_def stats_of_def stats_init_def stats_zero_def lines_of_def keys_of_def)

lemma counted_finish: "counted fh hs ft ts s \<Longrightarrow> finish_stats s = stats_of fh hs ft ts"
  by (simp add: counted_def finish_stats_def stats_of_def lc_inv_def)

lemma lines_of_snoc: "lines_of (bs @ [bb]) = lines_of bs \<union> keys_of (fb_lines bb)"
  by (auto simp: lines_of_def keys_of_def)

lemma counted_covered:
  "counted fh hs ft ts s \<Longrightarrow> \<forall>l \<in> set (fb_lines bb). hashed l \<Longrightarrow> counted fh (hs @ [bb]) ft ts (count_covered bb s)"
  by (simp add: counted_def count_covered_def stats_of_def Let_def lines_of_snoc functions_get_coverage_lines_def lc_inv_fold)

lemma counted_total:
  "counted fh hs ft ts s \<Longrightarrow> \<forall>l \<in> set (fb_lines bb). hashed l \<Longrightarrow> counted fh hs ft (ts @ [bb]) (count_total bb s)"
  by (simp add: counted_def count_total_def stats_of_def Let_def lines_of_snoc functions_get_coverage_lines_def lc_inv_fold)

definition bb_ok :: "function_hashtable \<Rightarrow> function_bb \<Rightarrow> bool" where
  "bb_ok ft bb = (global_bb_index bb < global_bb_count ft \<and> (\<forall>l \<in> set (fb_lines bb). hashed l))"

lemma get_bb: "cov_ok ft c \<Longrightarrow> bb_ok ft bb \<Longrightarrow> coverage_get_bb ft c bb = Inr (count_of c (global_bb_index bb))"
  by (auto simp: coverage_get_bb_def cov_ok_def bb_ok_def count_of_def)

lemma compute_bbs_counts:
  assumes "cov_ok ft c" "\<forall>x \<in> set_option ex. cov_ok ft x"
  shows "\<forall>bb \<in> set bs. bb_ok ft bb \<Longrightarrow> counted fh hs n ts s \<Longrightarrow>
    \<exists>s'. compute_bbs ft c ex bs (cf, ef, s) =
      Inr (cf \<or> executed c (visible ex bs) \<noteq> [], ef \<or> visible ex bs \<noteq> bs, s') \<and>
      counted fh (hs @ executed c (visible ex bs)) n (ts @ visible ex bs) s'"
proof (induction bs arbitrary: hs ts cf ef s)
  case Nil
  then show ?case by (simp add: visible_def executed_def)
next
  case (Cons bb bs)
  let ?excluded = "case ex of None \<Rightarrow> False | Some x \<Rightarrow> count_of x (global_bb_index bb) > 0"
  have bb: "bb_ok ft bb" "\<forall>bb \<in> set bs. bb_ok ft bb" "\<forall>l \<in> set (fb_lines bb). hashed l"
    using Cons.prems(1) by (simp_all add: bb_ok_def)
  have ex: "(case ex of None \<Rightarrow> Inr False | Some x \<Rightarrow> ebind (coverage_get_bb ft x bb) (\<lambda>n. Inr (n > 0))) = Inr ?excluded"
    using assms(2) get_bb [OF _ bb(1)] by (cases ex) simp_all
  show ?case
  proof (cases ?excluded)
    case True
    then have "visible ex (bb # bs) = visible ex bs" by (cases ex) (simp_all add: visible_def)
    moreover have "visible ex bs \<noteq> bb # bs"
    proof
      assume "visible ex bs = bb # bs"
      then have "length (bb # bs) \<le> length bs" by (metis length_filter_le visible_def)
      then show False by simp
    qed
    moreover have "compute_bbs ft c ex (bb # bs) (cf, ef, s) = compute_bbs ft c ex bs (cf, True, s)"
      using True ex by simp
    ultimately show ?thesis using Cons.IH [OF bb(2) Cons.prems(2), of cf True] by simp
  next
    case False
    then have vis: "visible ex (bb # bs) = bb # visible ex bs" by (cases ex) (simp_all add: visible_def word_gt_0)
    let ?hit = "count_of c (global_bb_index bb) > 0"
    let ?s = "count_total bb (if ?hit then count_covered bb s else s)"
    let ?hs = "hs @ (if ?hit then [bb] else [])"
    have "counted fh ?hs n (ts @ [bb]) ?s"
      using counted_total [OF _ bb(3)] counted_covered [OF Cons.prems(2) bb(3)] Cons.prems(2) by simp
    from Cons.IH [OF bb(2) this, of "cf \<or> ?hit" ef]
    have "\<exists>s'. compute_bbs ft c ex bs (cf \<or> ?hit, ef, ?s) =
        Inr ((cf \<or> ?hit) \<or> executed c (visible ex bs) \<noteq> [], ef \<or> visible ex bs \<noteq> bs, s') \<and>
        counted fh (?hs @ executed c (visible ex bs)) n ((ts @ [bb]) @ visible ex bs) s'" .
    moreover have "compute_bbs ft c ex (bb # bs) (cf, ef, s) = compute_bbs ft c ex bs (cf \<or> ?hit, ef, ?s)"
      using False ex get_bb [OF assms(1) bb(1)] by simp
    moreover have "executed c (visible ex (bb # bs)) = (if ?hit then [bb] else []) @ executed c (visible ex bs)"
      by (simp add: vis executed_def)
    ultimately show ?thesis using vis by (auto split: if_splits)
  qed
qed

text \<open>The functions that the statistics select, and which of them count as functions.\<close>

definition selected :: "module list \<Rightarrow> coverage_per_bb \<Rightarrow> bool \<Rightarrow> (string \<times> nat) option \<Rightarrow> func list \<Rightarrow> func list" where
  "selected ms c used pth fs = filter (\<lambda>f.
     (case pth of None \<Rightarrow> True | Some (mat, len) \<Rightarrow> path_match (the (f_pathFixed f)) mat len) \<and>
     (used \<longrightarrow> (\<exists>pos \<in> set (f_refs f). m_name (ms ! fst pos) \<in> m_name ` set (cov_modules c)))) fs"

definition full_funcs :: "coverage_per_bb option \<Rightarrow> func list \<Rightarrow> func list" where
  "full_funcs ex fs = filter (\<lambda>f. visible ex (func_bbs f) = func_bbs f) fs"

definition hit_funcs :: "coverage_per_bb \<Rightarrow> func list \<Rightarrow> func list" where
  "hit_funcs c fs = filter (\<lambda>f. executed c (func_bbs f) \<noteq> []) fs"

definition vis_bbs :: "coverage_per_bb option \<Rightarrow> func list \<Rightarrow> function_bb list" where
  "vis_bbs ex fs = concat (map (\<lambda>f. visible ex (func_bbs f)) fs)"

lemma used_scan_iff:
  assumes "\<forall>m \<in> set (cov_modules c). m_name m \<noteq> None"
  shows "\<forall>pos \<in> set ps. m_name (ms ! fst pos) \<noteq> None \<Longrightarrow>
    used_scan c ms ps = Inr (\<exists>pos \<in> set ps. m_name (ms ! fst pos) \<in> m_name ` set (cov_modules c))"
proof (induction ps)
  case (Cons pos ps)
  obtain nm where nm: "m_name (ms ! fst pos) = Some nm" using Cons.prems by auto
  have "module_is_used c (ms ! fst pos) = Inr (Some nm \<in> m_name ` set (cov_modules c))"
    using find_const_total [OF assms, of nm] nm by (auto simp: module_is_used_def)
  then show ?case using Cons nm by (simp split: if_splits)
qed simp

text \<open>Functions that the statistics can process.\<close>

definition func_ok :: "function_hashtable \<Rightarrow> module list \<Rightarrow> func \<Rightarrow> bool" where
  "func_ok ft ms f = (f_pathFixed f \<noteq> None \<and> (\<forall>bb \<in> set (func_bbs f). bb_ok ft bb) \<and>
     (\<forall>pos \<in> set (f_refs f). m_name (ms ! fst pos) \<noteq> None))"

definition cov_named :: "coverage_per_bb \<Rightarrow> bool" where
  "cov_named c = (\<forall>m \<in> set (cov_modules c). m_name m \<noteq> None)"

lemma counted_func:
  "counted fh hs n ts s \<Longrightarrow> counted (fh + k) hs (n + l) ts
     (s\<lparr>st_stats := (st_stats s)\<lparr>cov_func := cov_func (st_stats s) + k, tot_func := tot_func (st_stats s) + l\<rparr>\<rparr>)"
  by (simp add: counted_def stats_of_def)

lemma compute_func_counts:
  assumes "cov_ok ft c" "\<forall>x \<in> set_option ex. cov_ok ft x" "func_ok ft ms f" "cov_named c" "counted fh hs n ts s"
  shows "\<exists>s'. coverage_compute_func ft ms c ex used f s = Inr s' \<and>
    (let sel = selected ms c used None [f] in
     counted (fh + length (hit_funcs c (full_funcs ex sel))) (hs @ executed c (vis_bbs ex sel))
       (n + length (full_funcs ex sel)) (ts @ vis_bbs ex sel) s')"
proof (cases "used \<longrightarrow> (\<exists>pos \<in> set (f_refs f). m_name (ms ! fst pos) \<in> m_name ` set (cov_modules c))")
  case True
  let ?b = "func_bbs f"
  have "\<forall>bb \<in> set ?b. bb_ok ft bb" using assms(3) by (simp add: func_ok_def)
  from compute_bbs_counts [OF assms(1,2) this assms(5), of False False] obtain s1 where
    s1: "compute_bbs ft c ex ?b (False, False, s) = Inr (executed c (visible ex ?b) \<noteq> [], visible ex ?b \<noteq> ?b, s1)"
      "counted fh (hs @ executed c (visible ex ?b)) n (ts @ visible ex ?b) s1" by auto
  have use: "(if used then function_is_in_used_module c ms f else Inr True) = Inr True"
    using used_scan_iff [of c "f_refs f" ms] assms(3,4) True
    by (auto simp: function_is_in_used_module_def func_ok_def cov_named_def)
  have sel: "selected ms c used None [f] = [f]" using True by (simp add: selected_def)
  show ?thesis
  proof (cases "visible ex ?b = ?b")
    case full: True
    let ?k = "if executed c ?b \<noteq> [] then 1 else 0 :: nat"
    have "hit_funcs c [f] = (if executed c ?b \<noteq> [] then [f] else [])" "full_funcs ex [f] = [f]"
      using full by (simp_all add: hit_funcs_def full_funcs_def)
    then show ?thesis using counted_func [OF s1(2), of ?k 1] s1(1) use full sel
      by (cases "executed c ?b = []") (simp_all add: coverage_compute_func_def Let_def vis_bbs_def)
  next
    case False
    then have "full_funcs ex [f] = []" by (simp add: full_funcs_def)
    then show ?thesis using s1 use False sel
      by (simp add: coverage_compute_func_def Let_def vis_bbs_def hit_funcs_def)
  qed
next
  case False
  then have "function_is_in_used_module c ms f = Inr False" "used"
    using used_scan_iff [of c "f_refs f" ms] assms(3,4)
    by (auto simp: function_is_in_used_module_def func_ok_def cov_named_def)
  moreover have "selected ms c used None [f] = []" using False by (simp add: selected_def)
  ultimately show ?thesis using assms(5)
    by (simp add: coverage_compute_func_def Let_def vis_bbs_def hit_funcs_def full_funcs_def executed_def)
qed

lemma compute_funcs_counts:
  assumes "cov_ok ft c" "\<forall>x \<in> set_option ex. cov_ok ft x" "cov_named c"
  shows "\<forall>f \<in> set fs. func_ok ft ms f \<Longrightarrow> counted fh hs n ts s \<Longrightarrow>
    \<exists>s'. compute_funcs ft ms c ex used pth fs s = Inr s' \<and>
    (let sel = selected ms c used pth fs in
     counted (fh + length (hit_funcs c (full_funcs ex sel))) (hs @ executed c (vis_bbs ex sel))
       (n + length (full_funcs ex sel)) (ts @ vis_bbs ex sel) s')"
proof (induction fs arbitrary: fh hs n ts s)
  case Nil
  then show ?case by (simp add: selected_def hit_funcs_def full_funcs_def vis_bbs_def executed_def)
next
  case (Cons f fs)
  let ?match = "case pth of None \<Rightarrow> True | Some (mat, len) \<Rightarrow> path_match (the (f_pathFixed f)) mat len"
  have f: "func_ok ft ms f" "\<forall>f \<in> set fs. func_ok ft ms f" using Cons.prems(1) by simp_all
  obtain pf where pf: "f_pathFixed f = Some pf" using f(1) by (auto simp: func_ok_def)
  show ?case
  proof (cases ?match)
    case True
    let ?s = "selected ms c used None [f]"
    obtain s1 where s1: "coverage_compute_func ft ms c ex used f s = Inr s1"
      "counted (fh + length (hit_funcs c (full_funcs ex ?s))) (hs @ executed c (vis_bbs ex ?s))
       (n + length (full_funcs ex ?s)) (ts @ vis_bbs ex ?s) s1"
      using compute_func_counts [OF assms(1,2) f(1) assms(3) Cons.prems(2)] by (auto simp: Let_def)
    have "selected ms c used pth (f # fs) = ?s @ selected ms c used pth fs" using True by (simp add: selected_def)
    moreover have "compute_funcs ft ms c ex used pth (f # fs) s = compute_funcs ft ms c ex used pth fs s1"
      using True s1(1) pf by (cases pth) auto
    ultimately show ?thesis using Cons.IH [OF f(2) s1(2)]
      by (simp add: Let_def hit_funcs_def full_funcs_def vis_bbs_def executed_def add.assoc)
  next
    case False
    then have "selected ms c used pth (f # fs) = selected ms c used pth fs" by (simp add: selected_def)
    moreover have "compute_funcs ft ms c ex used pth (f # fs) s = compute_funcs ft ms c ex used pth fs s"
      using False pf by (cases pth) auto
    ultimately show ?thesis using Cons.IH [OF f(2) Cons.prems(2)] by simp
  qed
qed

section \<open>Properties\<close>

text \<open>
  Merging the execution counts of several logs keeps one entry for every
  module, in the order of the last entries. When counts are to be added, an entry holds for
  each block the sum over all entries of its module, and the tool stops with an error exactly
  when two entries of a module have different numbers of blocks; otherwise the last entry of
  each module is kept.
\<close>
theorem deduplicate_merges_modules:
  assumes "c_names es"
  shows "execcounts_deduplicate True es =
      (if same_sizes es then Inr (map (summed es) (remdups (map ec_name es)))
       else Inl (Panic ''bb count mismatch between logs'')) \<and>
    execcounts_deduplicate False es = Inr (map (\<lambda>nm. last (named nm es)) (remdups (map ec_name es)))"
  using dedup_add [OF assms] dedup_last [OF assms] by simp

definition ex_counts :: "module_execcount list" where
  "ex_counts = [\<lparr>ec_name = ''pm'', ec_bbs = [1, 2]\<rparr>, \<lparr>ec_name = ''vfs'', ec_bbs = [3]\<rparr>, \<lparr>ec_name = ''pm'', ec_bbs = [4, -1]\<rparr>]"

theorem deduplicate_merges_modules_witness:
  "c_names ex_counts \<and>
   execcounts_deduplicate True ex_counts = Inr [\<lparr>ec_name = ''vfs'', ec_bbs = [3]\<rparr>, \<lparr>ec_name = ''pm'', ec_bbs = [5, 1]\<rparr>] \<and>
   execcounts_deduplicate False ex_counts = Inr [\<lparr>ec_name = ''vfs'', ec_bbs = [3]\<rparr>, \<lparr>ec_name = ''pm'', ec_bbs = [4, -1]\<rparr>]"
proof -
  have c: "c_names ex_counts" by (simp add: c_names_def ex_counts_def)
  have "same_sizes ex_counts" by (simp add: same_sizes_def shape_def ex_counts_def)
  moreover have "remdups (map ec_name ex_counts) = [''vfs'', ''pm'']" by (simp add: ex_counts_def)
  ultimately show ?thesis using deduplicate_merges_modules [OF c] c
    by (simp add: summed_def named_def ex_counts_def upt_rec)
qed

text \<open>
  C31 (functional): adding the counts of a module to the coverage adds the count of each of
  the module's blocks to the block that the global numbering assigns to it, so blocks of a
  function that several modules share accumulate, and marks the module as used; it stops with
  an error exactly when the log has another number of blocks than the map file. The coverage
  arrays keep their sizes.
\<close>
theorem coverage_counts_module_blocks:
  assumes "list_all wf_module ms" "int (modules_count_functions ms) \<le> 2 ^ 30"
    "functions_build_table ms = Inr (ft, ms')" "i < length ms" "m_name (ms ! i) \<noteq> None"
    "cov_ok ft c" "cov_named c" "counts \<noteq> []"
  shows "case coverage_add_execcount_module ft (ms' ! i) counts c of
      Inl e \<Rightarrow> length counts \<noteq> sum_list (map (\<lambda>j. bb_count (func_at ms (i, j))) [0..<func_count (ms ! i)])
    | Inr c' \<Rightarrow> length counts = sum_list (map (\<lambda>j. bb_count (func_at ms (i, j))) [0..<func_count (ms ! i)]) \<and>
        cov_ok ft c' \<and> cov_named c' \<and> module_is_used c' (ms' ! i) = Inr True \<and>
        (\<forall>g < global_bb_count ft. count_of c' g = count_of c g +
          (\<Sum>x\<leftarrow>[0..<length counts]. if module_bbindex_to_global ft (ms' ! i) (int x) = Inr (int g) then counts ! x else 0))"
proof -
  have cons: "consistent ms (positions ms)"
    using build_table_cases [OF assms(1,2)] assms(3) by (auto split: if_splits)
  obtain n t where b: "0 < n" "ft = functions_init_global_bbs n t" "table_of n ms (positions ms) t"
    "linked ms (positions ms) ms'" "map func_count ms' = map func_count ms"
    using build_table_cases [OF assms(1,2)] cons assms(3) by auto
  let ?N = "func_count (ms ! i)" and ?m = "ms' ! i"
  let ?fns = "map (\<lambda>j. func_at ms' (i, j)) [0..<?N]"
  have num: "numbered ft (func_at ms' (i, j)) \<and> own_link (func_at ms' (i, j)) \<and>
      bb_count (func_at ms' (i, j)) = bb_count (func_at ms (i, j))" if "j < ?N" for j
  proof -
    have pos: "(i, j) \<in> set (positions ms)" using that assms(4) by (simp add: mem_positions)
    have v: "valid_pos ms (i, j)" "wf_func (func_at ms (i, j))" using positions_valid [OF assms(1)] pos by blast+
    have "func_at ms' (i, j) = (func_at ms (i, j))\<lparr>global_func := Some (key_at ms (i, j))\<rparr>"
      using linkedD(2) [OF b(4) v(1)] pos by simp
    then have "own_link (func_at ms' (i, j))" using v(2) by (simp add: own_link_def key_at_def wf_func_def)
    then show ?thesis
      using member_numbered [OF b(1,3,4) cons b(2) _ pos] positions_valid [OF assms(1)] by blast
  qed
  have fns: "module_funcs ?m = ?fns"
    unfolding module_funcs_def by (rule linked_funcs [OF assms(1) b(4,5) assms(4)])
  have tot: "sum_list (map bb_count ?fns) = sum_list (map (\<lambda>j. bb_count (func_at ms (i, j))) [0..<?N])"
    using num by (intro arg_cong [where f = sum_list]) auto
  have "m_name ?m = m_name (ms ! i)" using build_table_names [OF assms(3)] assms(4) by (metis length_map nth_map)
  then obtain nm where nm: "m_name ?m = Some nm" using assms(5) by auto
  obtain c0 where c0: "coverage_add_module_to_list ?m c = Inr c0" "cov_ok ft c0" "cov_named c0"
    "count_of c0 = count_of c" "Some nm \<in> m_name ` set (cov_modules c0)"
    using find_const_total [of "cov_modules c" nm] assms(6,7) nm
    by (cases "Some nm \<in> m_name ` set (cov_modules c)")
      (fastforce simp: coverage_add_module_to_list_def cov_ok_def cov_named_def count_of_def)+
  have "\<forall>fn \<in> set ?fns. numbered ft fn \<and> own_link fn" using num by auto
  from add_funcs_loop_counts [OF this c0(2), of counts 0] obtain c' where
    c': "add_funcs_loop ft counts ?fns 0 c0 = Inr (sum_list (map bb_count ?fns), c')" "cov_ok ft c'"
      "cov_modules c' = cov_modules c0" "\<forall>g < global_bb_count ft. count_of c' g = count_of c g +
        added counts 0 (sum_list (map bb_count ?fns)) (\<lambda>x. to_global_scan ft ?fns (int x) = Inr (int g))"
    unfolding c0(4) by auto
  have run: "coverage_add_execcount_module ft ?m counts c =
      (if sum_list (map bb_count ?fns) \<noteq> length counts
       then Inl (Panic ''number of basic blocks in logs is inconsistent'') else Inr c')"
    using assms(8) c0(1) c'(1) by (simp add: coverage_add_execcount_module_def fns)
  have used: "module_is_used c' ?m = Inr True"
    using find_const_total [of "cov_modules c'" nm] c0(3,5) c'(3) nm by (auto simp: module_is_used_def cov_named_def)
  have scan: "to_global_scan ft ?fns (int x) = module_bbindex_to_global ft ?m (int x)" for x
    using linked_funcs [OF assms(1) b(4,5) assms(4)] by (simp add: module_bbindex_to_global_def)
  have sum: "added counts 0 (length counts) hit = (\<Sum>x\<leftarrow>[0..<length counts]. if hit x then counts ! x else 0)" for hit
    unfolding added_def by (rule arg_cong [where f = sum_list]) simp
  show ?thesis
  proof (cases "sum_list (map bb_count ?fns) = length counts")
    case True
    then show ?thesis using run c'(2-4) used tot c0(3) by (simp add: scan sum cov_named_def)
  next
    case False
    then show ?thesis using run tot by simp
  qed
qed

text \<open>The table of the example modules, with coverage arrays for its three blocks.\<close>

lemma ex_table:
  "\<exists>ft ms'. functions_build_table ex_modules = Inr (ft, ms') \<and> cov_ok ft (coverage_init ft) \<and> cov_named (coverage_init ft) \<and>
    (\<exists>r < global_bb_count ft. module_bbindex_to_global ft (ms' ! 1) 1 = Inr (int r))"
proof -
  obtain n t ms' where b: "0 < n" "functions_build_table ex_modules = Inr (functions_init_global_bbs n t, ms')"
    "table_of n ex_modules (positions ex_modules) t" "linked ex_modules (positions ex_modules) ms'"
    "map func_count ms' = map func_count ex_modules"
    using build_table_cases [OF ex_modules_ok] ex_consistent by auto
  let ?ft = "functions_init_global_bbs n t"
  have len: "1 < length ex_modules" "func_count (ex_modules ! 1) = 2" by (simp_all add: ex_modules_def)
  have pos: "(1, 0) \<in> set (positions ex_modules)" "(1, 1) \<in> set (positions ex_modules)"
    using len by (simp_all add: mem_positions)
  note num = member_numbered [OF b(1,3,4) ex_consistent refl]
  have n0: "bb_count (func_at ms' (1, 0)) = 0" and n1: "numbered ?ft (func_at ms' (1, 1))" "bb_count (func_at ms' (1, 1)) = 2"
    using num [OF _ pos(1)] num [OF _ pos(2)] positions_valid [OF ex_modules_ok(1)]
    by (simp_all add: ex_modules_def func_at_def ex_func_def)
  obtain k f where f: "global_func (func_at ms' (1, 1)) = Some k" "0 < global_func_count ?ft"
    "functions_find (entry_count ?ft) (entries ?ft) (fst k) (snd k) = Some f" "f_bb_count f = 2"
    "global_bb_index (the (f_bbs f) ! 1) < global_bb_count ?ft"
    using n1 by (auto simp: numbered_def Let_def)
  have "module_bbindex_to_global ?ft (ms' ! 1) 1 = Inr (int (global_bb_index (the (f_bbs f) ! 1)))"
    unfolding module_bbindex_to_global_def linked_funcs [OF ex_modules_ok(1) b(4,5) len(1)]
    using len(2) n0 n1(2) f by (simp add: upt_rec)
  then show ?thesis using b(2) f(2,5) by (auto simp: cov_ok_def cov_named_def coverage_init_def CALLOC_def)
qed

theorem coverage_counts_module_blocks_witness:
  "\<exists>ft ms' c' r. functions_build_table ex_modules = Inr (ft, ms') \<and>
     coverage_add_execcount_module ft (ms' ! 1) [5, 7] (coverage_init ft) = Inr c' \<and>
     module_bbindex_to_global ft (ms' ! 1) 1 = Inr (int r) \<and> module_is_used c' (ms' ! 1) = Inr True \<and>
     (count_of c' r = 7 \<or> count_of c' r = 12)"
proof -
  obtain ft ms' r where t: "functions_build_table ex_modules = Inr (ft, ms')" "cov_ok ft (coverage_init ft)"
    "cov_named (coverage_init ft)" "r < global_bb_count ft" "module_bbindex_to_global ft (ms' ! 1) 1 = Inr (int r)"
    using ex_table by blast
  have f: "1 < length ex_modules" "m_name (ex_modules ! 1) \<noteq> None" "[5, 7 :: 64 word] \<noteq> []"
    "sum_list (map (\<lambda>j. bb_count (func_at ex_modules (1, j))) [0..<func_count (ex_modules ! 1)]) = 2"
    by (simp_all add: ex_modules_def func_at_def ex_func_def upt_rec)
  have "count_of (coverage_init ft) r = 0" using t(4) by (simp add: count_of_def coverage_init_def CALLOC_def)
  moreover note coverage_counts_module_blocks [OF ex_modules_ok t(1) f(1,2) t(2,3) f(3)]
  ultimately show ?thesis using t f(4) by (auto simp: upt_rec split: sum.splits if_splits)
qed

text \<open>
  The coverage statistics are those of the selected functions, that is those
  whose path matches and, on request, that belong to a module with counts. The totals are
  taken over the blocks that the excluded coverage did not execute, the covered numbers over
  those of them with a positive count; source lines are counted once; a function counts only
  if none of its blocks is excluded, and is covered if one of its blocks is.
\<close>
theorem coverage_total_statistics:
  assumes "cov_ok ft c" "\<forall>x \<in> set_option ex. cov_ok ft x" "cov_named c" "\<forall>f \<in> set (concat (entries ft)). func_ok ft ms f"
  shows "coverage_compute_total ft ms c ex used pth =
    (let fs = selected ms c used pth (concat (entries ft)) in
     Inr (stats_of (length (hit_funcs c (full_funcs ex fs))) (executed c (vis_bbs ex fs))
       (length (full_funcs ex fs)) (vis_bbs ex fs)))"
  using compute_funcs_counts [OF assms(1-4) counted_init, of used pth] counted_finish
  by (fastforce simp: coverage_compute_total_def Let_def)

definition ex_fbb :: "nat \<Rightarrow> int \<Rightarrow> function_bb" where
  "ex_fbb g l = \<lparr>fb_faultcand_count = 1, fb_faultinj_count = 0, fb_instr_count = 10, fb_lines = [mk_line ''a.c'' l],
     fb_fault_path = None, fb_fault_line = 0, fb_fault_type = None, global_bb_index = g\<rparr>"

definition ex_ft :: function_hashtable where
  "ex_ft = \<lparr>entry_count = 1, entries = [[\<lparr>f_name = ''f'', f_path = ''a.c'', f_pathFixed = Some ''a.c'', f_bb_count = 3,
     f_bbs = Some [ex_fbb 0 4, ex_fbb 1 5, ex_fbb 2 5], f_refs = [(0, 0)], global_func_index = 0\<rparr>]],
     global_bb_count = 3, global_bbs = None, global_func_count = 1, global_funcs = None\<rparr>"

definition ex_cov :: coverage_per_bb where
  "ex_cov = \<lparr>cov_bbs = Some [0, 3, 1], cov_funcs = Some [1], cov_modules = []\<rparr>"

theorem coverage_total_statistics_witness:
  "\<exists>st. coverage_compute_total ex_ft ex_modules ex_cov None False (Some (''a.c'', 3)) = Inr st \<and>
     cov_func st = 1 \<and> cov_bb st = 2 \<and> cov_ins st = 20 \<and> cov_loc st = 1 \<and> tot_bb st = 3 \<and> tot_loc st = 2"
proof -
  have ok: "cov_ok ex_ft ex_cov" "\<forall>x \<in> set_option None. cov_ok ex_ft x" "cov_named ex_cov"
    "\<forall>f \<in> set (concat (entries ex_ft)). func_ok ex_ft ex_modules f"
    by (simp_all add: cov_ok_def cov_named_def ex_cov_def ex_ft_def func_ok_def func_bbs_def bb_ok_def ex_fbb_def
        hashed_def mk_line_def line_hash_def ex_modules_def)
  let ?fs = "selected ex_modules ex_cov False (Some (''a.c'', 3)) (concat (entries ex_ft))"
  have fs: "?fs = concat (entries ex_ft)" by (simp add: selected_def path_match_def ex_ft_def)
  have v: "vis_bbs None ?fs = [ex_fbb 0 4, ex_fbb 1 5, ex_fbb 2 5]"
    unfolding fs by (simp add: vis_bbs_def visible_def ex_ft_def func_bbs_def)
  have e: "executed ex_cov [ex_fbb 0 4, ex_fbb 1 5, ex_fbb 2 5] = [ex_fbb 1 5, ex_fbb 2 5]"
    by (simp add: executed_def ex_fbb_def ex_cov_def count_of_def)
  have "lines_of [ex_fbb 1 5, ex_fbb 2 5] = {(''a.c'', 5)}" "lines_of [ex_fbb 0 4, ex_fbb 1 5, ex_fbb 2 5] = {(''a.c'', 4), (''a.c'', 5)}"
    by (auto simp: lines_of_def keys_of_def ex_fbb_def mk_line_def)
  moreover have "hit_funcs ex_cov (full_funcs None ?fs) = concat (entries ex_ft)"
    unfolding fs by (simp add: hit_funcs_def full_funcs_def visible_def ex_ft_def func_bbs_def executed_def ex_fbb_def ex_cov_def count_of_def)
  ultimately show ?thesis
    using coverage_total_statistics [OF ok, of False "Some (''a.c'', 3)"] v e
    by (simp add: Let_def stats_of_def ex_ft_def) (simp add: ex_fbb_def)
qed

end
