(* ===== verification/Logparse.thy ===== *)
theory Logparse
  imports Coverage
begin

text \<open>
  The reader of QEMU logs (\<^verbatim>\<open>hypermemloganalyze/common/logparse.c\<close>): time stamps, the table of line
  patterns, one handler per kind of line, and the loop over the file. A callback is an event
  with its arguments; the argument \<open>cbs\<close> tells which callbacks the client has set, and a
  handler that finds its callback unset delivers nothing. The file is the list of its
  characters; warnings that are only printed are left out. The C library's mktime, which
  depends on the time zone, is an argument.
\<close>

section \<open>Callbacks\<close>

datatype minix_test_status = mts_running | mts_passed | mts_failed
datatype ltckpt_closereason = lcr_unknown | lcr_ipc | lcr_writelog_full
datatype ltckpt_method = lm_generic | lm_deadlock | lm_failstop | lm_idempotent | lm_process_specific | lm_service_fi | lm_writelog
datatype ltckpt_status = ls_start | ls_failure | ls_shutdown | ls_success

datatype log_event =
    Ev_edfi_context_release string
  | Ev_edfi_context_reset string
  | Ev_edfi_context_set string
  | Ev_edfi_dump_stats "string option"
  | Ev_edfi_dump_stats_module string "string option" "64 word list option"
  | Ev_edfi_faultindex_get string int
  | Ev_fault string int int
  | Ev_hypermem_error string
  | Ev_hypermem_faultspec string
  | Ev_hypermem_flushlog bool
  | Ev_hypermem_logpath string
  | Ev_hypermem_warning string
  | Ev_nop
  | Ev_qemu_drive int string
  | Ev_qemu_exit
  | Ev_qemu_hypermem_reset
  | Ev_qemu_interrupt int
  | Ev_qemu_powerdown
  | Ev_qemu_reset
  | Ev_qemu_shutdown
  | Ev_qemu_signal int
  | Ev_quit
  | Ev_print_debug string
  | Ev_print_rs_crash string int
  | Ev_print_rs_normal string
  | Ev_print_startup string
  | Ev_print_end
  | Ev_print_sanity bool bool
  | Ev_print_start
  | Ev_print_workload string
  | Ev_print_workload_completed
  | Ev_print_abort_after_restart
  | Ev_print_test string minix_test_status
  | Ev_print_test_output string string
  | Ev_print_tests_completed "string option"
  | Ev_print_tests_starting string
  | Ev_print_ltckpt ltckpt_status ltckpt_method string
  | Ev_print_ltckpt_closed ltckpt_closereason string
  | Ev_print_ltckpt_closed_ipc_callsites string int int "64 word list"

text \<open>The fields of the structure of callbacks.\<close>

datatype callback =
    CB_edfi_context_release | CB_edfi_context_reset | CB_edfi_context_set | CB_edfi_dump_stats
  | CB_edfi_dump_stats_module | CB_edfi_faultindex_get | CB_fault | CB_hypermem_error | CB_hypermem_faultspec
  | CB_hypermem_flushlog | CB_hypermem_logpath | CB_hypermem_warning | CB_nop | CB_qemu_drive | CB_qemu_exit
  | CB_qemu_hypermem_reset | CB_qemu_interrupt | CB_qemu_powerdown | CB_qemu_reset | CB_qemu_shutdown
  | CB_qemu_signal | CB_quit | CB_print_debug | CB_print_rs_crash | CB_print_rs_normal | CB_print_startup
  | CB_print_end | CB_print_sanity | CB_print_start | CB_print_workload | CB_print_workload_completed
  | CB_print_abort_after_restart | CB_print_test | CB_print_test_output | CB_print_tests_completed
  | CB_print_tests_starting | CB_print_ltckpt | CB_print_ltckpt_closed | CB_print_ltckpt_closed_ipc_callsites

fun callback_of :: "log_event \<Rightarrow> callback" where
  "callback_of (Ev_edfi_context_release _) = CB_edfi_context_release"
| "callback_of (Ev_edfi_context_reset _) = CB_edfi_context_reset"
| "callback_of (Ev_edfi_context_set _) = CB_edfi_context_set"
| "callback_of (Ev_edfi_dump_stats _) = CB_edfi_dump_stats"
| "callback_of (Ev_edfi_dump_stats_module _ _ _) = CB_edfi_dump_stats_module"
| "callback_of (Ev_edfi_faultindex_get _ _) = CB_edfi_faultindex_get"
| "callback_of (Ev_fault _ _ _) = CB_fault"
| "callback_of (Ev_hypermem_error _) = CB_hypermem_error"
| "callback_of (Ev_hypermem_faultspec _) = CB_hypermem_faultspec"
| "callback_of (Ev_hypermem_flushlog _) = CB_hypermem_flushlog"
| "callback_of (Ev_hypermem_logpath _) = CB_hypermem_logpath"
| "callback_of (Ev_hypermem_warning _) = CB_hypermem_warning"
| "callback_of Ev_nop = CB_nop"
| "callback_of (Ev_qemu_drive _ _) = CB_qemu_drive"
| "callback_of Ev_qemu_exit = CB_qemu_exit"
| "callback_of Ev_qemu_hypermem_reset = CB_qemu_hypermem_reset"
| "callback_of (Ev_qemu_interrupt _) = CB_qemu_interrupt"
| "callback_of Ev_qemu_powerdown = CB_qemu_powerdown"
| "callback_of Ev_qemu_reset = CB_qemu_reset"
| "callback_of Ev_qemu_shutdown = CB_qemu_shutdown"
| "callback_of (Ev_qemu_signal _) = CB_qemu_signal"
| "callback_of Ev_quit = CB_quit"
| "callback_of (Ev_print_debug _) = CB_print_debug"
| "callback_of (Ev_print_rs_crash _ _) = CB_print_rs_crash"
| "callback_of (Ev_print_rs_normal _) = CB_print_rs_normal"
| "callback_of (Ev_print_startup _) = CB_print_startup"
| "callback_of Ev_print_end = CB_print_end"
| "callback_of (Ev_print_sanity _ _) = CB_print_sanity"
| "callback_of Ev_print_start = CB_print_start"
| "callback_of (Ev_print_workload _) = CB_print_workload"
| "callback_of Ev_print_workload_completed = CB_print_workload_completed"
| "callback_of Ev_print_abort_after_restart = CB_print_abort_after_restart"
| "callback_of (Ev_print_test _ _) = CB_print_test"
| "callback_of (Ev_print_test_output _ _) = CB_print_test_output"
| "callback_of (Ev_print_tests_completed _) = CB_print_tests_completed"
| "callback_of (Ev_print_tests_starting _) = CB_print_tests_starting"
| "callback_of (Ev_print_ltckpt _ _ _) = CB_print_ltckpt"
| "callback_of (Ev_print_ltckpt_closed _ _) = CB_print_ltckpt_closed"
| "callback_of (Ev_print_ltckpt_closed_ipc_callsites _ _ _ _) = CB_print_ltckpt_closed_ipc_callsites"

section \<open>Reading characters\<close>

text \<open>
  The characters from the current one on, with the line number and the size of the line
  buffer, which is NULL while the size is zero. The end of the list is EOF.
\<close>

record logfilestate =
  lf_rest :: string
  lf_lineno :: nat
  linebuf_size :: nat

definition next_char :: "logfilestate \<Rightarrow> logfilestate" where
  "next_char s =
     (let r = tl (lf_rest s)
      in s\<lparr>lf_rest := r, lf_lineno := lf_lineno s + (if r \<noteq> [] \<and> hd r = CHR 0x0A then 1 else 0)\<rparr>)"

definition read_char :: "char \<Rightarrow> logfilestate \<Rightarrow> bool \<times> logfilestate" where
  "read_char ch s = (if lf_rest s = [] \<or> hd (lf_rest s) \<noteq> ch then (False, s) else (True, next_char s))"

definition read_digit :: "int \<Rightarrow> logfilestate \<Rightarrow> int option \<times> logfilestate" where
  "read_digit v s =
     (if lf_rest s = [] \<or> \<not> is_digit (hd (lf_rest s)) then (None, s)
      else (Some (v * 10 + int (digit_val (hd (lf_rest s)))), next_char s))"

definition read_char_or_digit :: "char \<Rightarrow> int \<Rightarrow> logfilestate \<Rightarrow> int option \<times> logfilestate" where
  "read_char_or_digit ch v s =
     (case read_char ch s of
        (True, s) \<Rightarrow> (Some v, s)
      | (False, s) \<Rightarrow> read_digit v s)"

fun read_line_loop :: "string \<Rightarrow> nat \<Rightarrow> nat \<Rightarrow> string \<Rightarrow> fault + (string \<times> nat \<times> string)" where
  "read_line_loop [] linelen sz buf = Inr (buf, sz, [])"
| "read_line_loop (ch # r) linelen sz buf =
     (if ch = CHR 0x0A then Inr (buf, sz, ch # r)
      else let sz = (if linelen + 1 \<ge> sz then if sz > 0 then sz * 2 else 256 else sz)
           in if linelen \<ge> sz then Inl OutOfBounds else read_line_loop r (linelen + 1) sz (buf @ [ch]))"

text \<open>The line as a C string; with no buffer yet and an empty line, the terminator goes to NULL.\<close>

definition read_line :: "logfilestate \<Rightarrow> fault + (string \<times> logfilestate)" where
  "read_line s =
     ebind (read_line_loop (lf_rest s) 0 (linebuf_size s) []) (\<lambda>(buf, sz, r).
       if sz = 0 then Inl NullDeref
       else if length buf \<ge> sz then Inl OutOfBounds
       else Inr (c_str buf, s\<lparr>lf_rest := r, linebuf_size := sz,
              lf_lineno := lf_lineno s + (if r \<noteq> [] \<and> r \<noteq> lf_rest s then 1 else 0)\<rparr>))"

definition skip_line :: "logfilestate \<Rightarrow> logfilestate" where
  "skip_line s =
     (let r = dropWhile (\<lambda>ch. ch \<noteq> CHR 0x0A) (lf_rest s)
      in s\<lparr>lf_rest := r, lf_lineno := lf_lineno s + (if r \<noteq> [] \<and> r \<noteq> lf_rest s then 1 else 0)\<rparr>)"

section \<open>Time stamps\<close>

record tm =
  tm_year :: int
  tm_mon :: int
  tm_mday :: int
  tm_hour :: int
  tm_min :: int
  tm_sec :: int

text \<open>Reading in sequence; a step that fails ends the sequence where it stands.\<close>

type_synonym 'a reader = "logfilestate \<Rightarrow> 'a option \<times> logfilestate"

definition rbind :: "'a reader \<Rightarrow> ('a \<Rightarrow> 'b reader) \<Rightarrow> 'b reader" where
  "rbind r f s = (case r s of (None, s) \<Rightarrow> (None, s) | (Some x, s) \<Rightarrow> f x s)"

definition expect :: "char \<Rightarrow> unit reader" where
  "expect ch s = (case read_char ch s of (ok, s) \<Rightarrow> (if ok then Some () else None, s))"

fun read_digits :: "nat \<Rightarrow> int \<Rightarrow> int reader" where
  "read_digits 0 v s = (Some v, s)"
| "read_digits (Suc n) v s = rbind (read_digit v) (\<lambda>v. read_digits n v) s"

definition logparse_timestamp :: "(tm \<Rightarrow> int) \<Rightarrow> timeval reader" where
  "logparse_timestamp mktime =
     rbind (expect (CHR ''['')) (\<lambda>_.
     rbind (read_digits 4 0) (\<lambda>year.
     rbind (expect (CHR ''-'')) (\<lambda>_.
     rbind (read_digits 2 0) (\<lambda>month.
     rbind (expect (CHR ''-'')) (\<lambda>_.
     rbind (read_digits 2 0) (\<lambda>mday.
     rbind (expect (CHR '' '')) (\<lambda>_.
     rbind (read_char_or_digit (CHR '' '') 0) (\<lambda>hour.
     rbind (read_digit hour) (\<lambda>hour.
     rbind (expect (CHR '':'')) (\<lambda>_.
     rbind (read_digits 2 0) (\<lambda>minute.
     rbind (expect (CHR '':'')) (\<lambda>_.
     rbind (read_digits 2 0) (\<lambda>sec.
     rbind (expect (CHR ''.'')) (\<lambda>_.
     rbind (read_digits 6 0) (\<lambda>microseconds.
     rbind (expect (CHR '']'')) (\<lambda>_.
     rbind (expect (CHR '' '')) (\<lambda>_ s.
       (Some \<lparr>tv_sec = mktime \<lparr>tm_year = year - 1900, tm_mon = month - 1, tm_mday = mday, tm_hour = hour,
                tm_min = minute, tm_sec = sec\<rparr>, tv_usec = microseconds\<rparr>, s))))))))))))))))))"

section \<open>Parameters of a line\<close>

datatype param = P_str string | P_num int

definition is_str :: "param list \<Rightarrow> nat \<Rightarrow> bool" where
  "is_str ps i = (i < length ps \<and> (case ps ! i of P_str s \<Rightarrow> True | P_num n \<Rightarrow> False))"

definition str_of :: "param list \<Rightarrow> nat \<Rightarrow> string" where
  "str_of ps i = (case ps ! i of P_str s \<Rightarrow> s | P_num n \<Rightarrow> [])"

definition num_of :: "param list \<Rightarrow> nat \<Rightarrow> int" where
  "num_of ps i = (case ps ! i of P_num n \<Rightarrow> n | P_str s \<Rightarrow> 0)"

type_synonym handler = "(callback \<Rightarrow> bool) \<Rightarrow> param list \<Rightarrow> fault + log_event list"

definition guarded :: "bool \<Rightarrow> fault + 'a \<Rightarrow> fault + 'a" where
  "guarded b r = (if b then r else Inl AssertFail)"

definition emit :: "(callback \<Rightarrow> bool) \<Rightarrow> log_event \<Rightarrow> fault + log_event list" where
  "emit cbs e = Inr (if cbs (callback_of e) then [e] else [])"

section \<open>Execution counts\<close>

text \<open>Decimal digits in unsigned arithmetic of the width of the result.\<close>

definition udec :: "string \<Rightarrow> 'a :: len word" where
  "udec ds = foldl (\<lambda>v ch. 10 * v + of_nat (digit_val ch)) 0 ds"

lemma dropWhile_le [simp]: "length (dropWhile P xs) \<le> length xs"
  by (induction xs) auto

lemma dropWhile_less: "xs \<noteq> [] \<Longrightarrow> P (hd xs) \<Longrightarrow> length (dropWhile P xs) < length xs"
  by (cases xs) (auto simp: le_imp_less_Suc)

definition rle_item :: "string \<Rightarrow> (64 word \<times> 32 word) \<times> string" where
  "rle_item s =
     (let cnt = udec (takeWhile is_digit s); s = dropWhile is_digit s
      in if s \<noteq> [] \<and> hd s = CHR ''x''
         then ((cnt, udec (takeWhile is_digit (tl s))), dropWhile is_digit (tl s))
         else ((cnt, 1), s))"

lemma rle_item_shorter:
  assumes "s \<noteq> []" "is_digit (hd s)"
  shows "length (snd (rle_item s)) < length s"
proof -
  let ?r = "dropWhile is_digit s"
  have "length ?r < length s" using dropWhile_less assms by blast
  moreover have "length (dropWhile is_digit (tl ?r)) \<le> length (tl ?r)" by (rule dropWhile_le)
  ultimately show ?thesis by (auto simp: rle_item_def Let_def)
qed

lemma rle_item_less:
  assumes "dropWhile P s \<noteq> []" "is_digit (hd (dropWhile P s))"
  shows "length (snd (rle_item (dropWhile P s))) < length s"
  using rle_item_shorter [OF assms] dropWhile_le [of P s] by linarith

function read_execcounts_from_string_internal :: "string \<Rightarrow> 64 word list \<Rightarrow> 64 word list option" where
  "read_execcounts_from_string_internal s out =
     (let t = dropWhile (\<lambda>ch. ch = CHR '' '') s
      in if t = [] then Some out
         else if \<not> is_digit (hd t) then None
         else let item = fst (rle_item t)
              in if snd item = 0 then None
                 else read_execcounts_from_string_internal (snd (rle_item t)) (out @ replicate (unat (snd item)) (fst item)))"
  by pat_completeness auto
termination
  by (relation "measure (\<lambda>(s, out). length s)") (auto intro: rle_item_less)

declare read_execcounts_from_string_internal.simps [simp del]

text \<open>The second pass stores what the first one counted; no counts leave the buffer NULL.\<close>

definition read_execcounts_from_string :: "string \<Rightarrow> 64 word list option option" where
  "read_execcounts_from_string s =
     map_option (\<lambda>bs. if bs = [] then None else Some bs) (read_execcounts_from_string_internal s [])"

section \<open>Call sites\<close>

lemma rest_less:
  assumes "dropWhile P s \<noteq> []" "is_digit (hd (dropWhile P s))"
  shows "length (dropWhile Q (dropWhile is_digit (dropWhile P s))) - Suc 0 < length s"
  using dropWhile_less [OF assms(1), of is_digit] assms(2) dropWhile_le [of P s]
    dropWhile_le [of Q "dropWhile is_digit (dropWhile P s)"] by linarith

function parse_sites_loop :: "nat \<Rightarrow> string \<Rightarrow> 64 word list \<Rightarrow> fault + 64 word list" where
  "parse_sites_loop cap str callsites =
     (let t = dropWhile (\<lambda>ch. ch = CHR '' '') str
      in if t = [] \<or> \<not> is_digit (hd t) then Inr callsites
         else if length callsites \<ge> cap then Inl OutOfBounds
         else let callsites = callsites @ [udec (takeWhile is_digit t)];
                  r = dropWhile (\<lambda>ch. ch = CHR '' '') (dropWhile is_digit t)
              in if r = [] \<or> hd r \<noteq> CHR '','' then Inr callsites
                 else parse_sites_loop cap (tl r) callsites)"
  by pat_completeness auto
termination
  by (relation "measure (\<lambda>(cap, str, cs). length str)") (auto intro: rest_less)

declare parse_sites_loop.simps [simp del]

definition parse_ipc_callsites :: "string \<Rightarrow> fault + 64 word list" where
  "parse_ipc_callsites str = parse_sites_loop ((length str + 1) div 2) str []"

section \<open>Handlers\<close>

definition logparse_line_handler_edfi_dump_stats :: handler where
  "logparse_line_handler_edfi_dump_stats cbs ps = guarded (length ps \<le> 1 \<and> (length ps < 1 \<or> is_str ps 0))
     (emit cbs (Ev_edfi_dump_stats (if length ps \<ge> 1 then Some (str_of ps 0) else None)))"

definition logparse_line_handler_edfi_dump_stats_module :: handler where
  "logparse_line_handler_edfi_dump_stats_module cbs ps =
     guarded (length ps \<ge> 2 \<and> length ps \<le> 3 \<and> is_str ps 0 \<and> is_str ps 1 \<and> (length ps < 3 \<or> is_str ps 2))
       (if \<not> cbs CB_edfi_dump_stats_module then Inr []
        else case read_execcounts_from_string (str_of ps (length ps - 1)) of
               None \<Rightarrow> Inr []
             | Some counts \<Rightarrow> Inr [Ev_edfi_dump_stats_module (str_of ps 0) (if length ps \<ge> 3 then Some (str_of ps 1) else None) counts])"

text \<open>The callback is called exactly when it is not set.\<close>

definition logparse_line_handler_edfi_dump_stats_module_no_context :: handler where
  "logparse_line_handler_edfi_dump_stats_module_no_context cbs ps =
     guarded (length ps \<ge> 1 \<and> length ps \<le> 2 \<and> is_str ps 0 \<and> (length ps < 2 \<or> is_str ps 1))
       (if cbs CB_edfi_dump_stats_module then Inr [] else Inl NullCall)"

definition logparse_line_handler_edfi_faultindex_get :: handler where
  "logparse_line_handler_edfi_faultindex_get cbs ps =
     guarded (length ps \<ge> 1 \<and> length ps \<le> 2 \<and> is_str ps 0 \<and> \<not> is_str ps 1)
       (emit cbs (Ev_edfi_faultindex_get (str_of ps 0) (if length ps < 2 then -1 else num_of ps 1)))"

definition logparse_line_handler_fault :: handler where
  "logparse_line_handler_fault cbs ps =
     guarded (length ps \<ge> 2 \<and> length ps \<le> 3 \<and> is_str ps 0 \<and> \<not> is_str ps 1 \<and> (length ps < 3 \<or> \<not> is_str ps 2))
       (emit cbs (Ev_fault (str_of ps 0) (num_of ps 1) (if length ps < 3 then 1 else num_of ps 2)))"

definition logparse_line_handler_print_ltckpt_closed_ipc_callsites :: handler where
  "logparse_line_handler_print_ltckpt_closed_ipc_callsites cbs ps =
     guarded (length ps = 4 \<and> \<not> is_str ps 0 \<and> \<not> is_str ps 1 \<and> is_str ps 2 \<and> is_str ps 3)
       (if \<not> cbs CB_print_ltckpt_closed_ipc_callsites then Inr []
        else ebind (parse_ipc_callsites (str_of ps 2)) (\<lambda>callsites.
          Inr [Ev_print_ltckpt_closed_ipc_callsites (str_of ps 3) (num_of ps 0) (num_of ps 1) callsites]))"

definition logparse_line_handler_qemu_drive :: handler where
  "logparse_line_handler_qemu_drive cbs ps = guarded (length ps = 2 \<and> \<not> is_str ps 0 \<and> is_str ps 1) (emit cbs (Ev_qemu_drive (num_of ps 0) (str_of ps 1)))"

definition logparse_line_handler_edfi_context_release :: handler where
  "logparse_line_handler_edfi_context_release cbs ps = guarded (length ps = 1 \<and> is_str ps 0) (emit cbs (Ev_edfi_context_release (str_of ps 0)))"

definition logparse_line_handler_edfi_context_reset :: handler where
  "logparse_line_handler_edfi_context_reset cbs ps = guarded (length ps = 1 \<and> is_str ps 0) (emit cbs (Ev_edfi_context_reset (str_of ps 0)))"

definition logparse_line_handler_edfi_context_set :: handler where
  "logparse_line_handler_edfi_context_set cbs ps = guarded (length ps = 1 \<and> is_str ps 0) (emit cbs (Ev_edfi_context_set (str_of ps 0)))"

definition logparse_line_handler_hypermem_error :: handler where
  "logparse_line_handler_hypermem_error cbs ps = guarded (length ps = 1 \<and> is_str ps 0) (emit cbs (Ev_hypermem_error (str_of ps 0)))"

definition logparse_line_handler_hypermem_faultspec :: handler where
  "logparse_line_handler_hypermem_faultspec cbs ps = guarded (length ps = 1 \<and> is_str ps 0) (emit cbs (Ev_hypermem_faultspec (str_of ps 0)))"

definition logparse_line_handler_hypermem_flushlog_false :: handler where
  "logparse_line_handler_hypermem_flushlog_false cbs ps = guarded (length ps = 0) (emit cbs (Ev_hypermem_flushlog False))"

definition logparse_line_handler_hypermem_flushlog_true :: handler where
  "logparse_line_handler_hypermem_flushlog_true cbs ps = guarded (length ps = 0) (emit cbs (Ev_hypermem_flushlog True))"

definition logparse_line_handler_hypermem_logpath :: handler where
  "logparse_line_handler_hypermem_logpath cbs ps = guarded (length ps = 1 \<and> is_str ps 0) (emit cbs (Ev_hypermem_logpath (str_of ps 0)))"

definition logparse_line_handler_hypermem_warning :: handler where
  "logparse_line_handler_hypermem_warning cbs ps = guarded (length ps = 1 \<and> is_str ps 0) (emit cbs (Ev_hypermem_warning (str_of ps 0)))"

definition logparse_line_handler_nop :: handler where
  "logparse_line_handler_nop cbs ps = guarded (length ps = 0) (emit cbs (Ev_nop))"

definition logparse_line_handler_print_abort_after_restart :: handler where
  "logparse_line_handler_print_abort_after_restart cbs ps = guarded (length ps = 0) (emit cbs (Ev_print_abort_after_restart))"

definition logparse_line_handler_print_debug :: handler where
  "logparse_line_handler_print_debug cbs ps = guarded (length ps = 1 \<and> is_str ps 0) (emit cbs (Ev_print_debug (str_of ps 0)))"

definition logparse_line_handler_print_end :: handler where
  "logparse_line_handler_print_end cbs ps = guarded (length ps = 0) (emit cbs (Ev_print_end))"

definition logparse_line_handler_print_ltckpt_closed_ipc :: handler where
  "logparse_line_handler_print_ltckpt_closed_ipc cbs ps = guarded (length ps = 1 \<and> is_str ps 0) (emit cbs (Ev_print_ltckpt_closed lcr_ipc (str_of ps 0)))"

definition logparse_line_handler_print_ltckpt_closed_unknown :: handler where
  "logparse_line_handler_print_ltckpt_closed_unknown cbs ps = guarded (length ps = 1 \<and> is_str ps 0) (emit cbs (Ev_print_ltckpt_closed lcr_unknown (str_of ps 0)))"

definition logparse_line_handler_print_ltckpt_closed_writelog_full :: handler where
  "logparse_line_handler_print_ltckpt_closed_writelog_full cbs ps = guarded (length ps = 1 \<and> is_str ps 0) (emit cbs (Ev_print_ltckpt_closed lcr_writelog_full (str_of ps 0)))"

definition logparse_line_handler_print_ltckpt_failed :: handler where
  "logparse_line_handler_print_ltckpt_failed cbs ps = guarded (length ps = 1 \<and> is_str ps 0) (emit cbs (Ev_print_ltckpt ls_failure lm_generic (str_of ps 0)))"

definition logparse_line_handler_print_ltckpt_failed_message :: handler where
  "logparse_line_handler_print_ltckpt_failed_message cbs ps = guarded (length ps = 2 \<and> \<not> is_str ps 0 \<and> is_str ps 1) (emit cbs (Ev_print_ltckpt ls_failure lm_generic (str_of ps 1)))"

definition logparse_line_handler_print_ltckpt_failed_idempotent :: handler where
  "logparse_line_handler_print_ltckpt_failed_idempotent cbs ps = guarded (length ps = 1 \<and> is_str ps 0) (emit cbs (Ev_print_ltckpt ls_failure lm_idempotent (str_of ps 0)))"

definition logparse_line_handler_print_ltckpt_failed_process_specific :: handler where
  "logparse_line_handler_print_ltckpt_failed_process_specific cbs ps = guarded (length ps = 1 \<and> is_str ps 0) (emit cbs (Ev_print_ltckpt ls_failure lm_process_specific (str_of ps 0)))"

definition logparse_line_handler_print_ltckpt_failed_writelog :: handler where
  "logparse_line_handler_print_ltckpt_failed_writelog cbs ps = guarded (length ps = 1 \<and> is_str ps 0) (emit cbs (Ev_print_ltckpt ls_failure lm_writelog (str_of ps 0)))"

definition logparse_line_handler_print_ltckpt_shutdown :: handler where
  "logparse_line_handler_print_ltckpt_shutdown cbs ps = guarded (length ps = 1 \<and> is_str ps 0) (emit cbs (Ev_print_ltckpt ls_shutdown lm_generic (str_of ps 0)))"

definition logparse_line_handler_print_ltckpt_shutdown_failstop :: handler where
  "logparse_line_handler_print_ltckpt_shutdown_failstop cbs ps = guarded (length ps = 1 \<and> is_str ps 0) (emit cbs (Ev_print_ltckpt ls_shutdown lm_failstop (str_of ps 0)))"

definition logparse_line_handler_print_ltckpt_start :: handler where
  "logparse_line_handler_print_ltckpt_start cbs ps = guarded (length ps = 1 \<and> is_str ps 0) (emit cbs (Ev_print_ltckpt ls_start lm_generic (str_of ps 0)))"

definition logparse_line_handler_print_ltckpt_start_writelog :: handler where
  "logparse_line_handler_print_ltckpt_start_writelog cbs ps = guarded (length ps = 1 \<and> is_str ps 0) (emit cbs (Ev_print_ltckpt ls_start lm_writelog (str_of ps 0)))"

definition logparse_line_handler_print_ltckpt_success_idempotent :: handler where
  "logparse_line_handler_print_ltckpt_success_idempotent cbs ps = guarded (length ps = 1 \<and> is_str ps 0) (emit cbs (Ev_print_ltckpt ls_success lm_idempotent (str_of ps 0)))"

definition logparse_line_handler_print_ltckpt_success_process_specific :: handler where
  "logparse_line_handler_print_ltckpt_success_process_specific cbs ps = guarded (length ps = 1 \<and> is_str ps 0) (emit cbs (Ev_print_ltckpt ls_success lm_process_specific (str_of ps 0)))"

definition logparse_line_handler_print_ltckpt_success_service_fi :: handler where
  "logparse_line_handler_print_ltckpt_success_service_fi cbs ps = guarded (length ps = 1 \<and> is_str ps 0) (emit cbs (Ev_print_ltckpt ls_success lm_service_fi (str_of ps 0)))"

definition logparse_line_handler_print_ltckpt_success_writelog :: handler where
  "logparse_line_handler_print_ltckpt_success_writelog cbs ps = guarded (length ps = 3 \<and> \<not> is_str ps 0 \<and> \<not> is_str ps 1 \<and> is_str ps 2) (emit cbs (Ev_print_ltckpt ls_success lm_writelog (str_of ps 2)))"

definition logparse_line_handler_print_rs_crash :: handler where
  "logparse_line_handler_print_rs_crash cbs ps = guarded (length ps = 2 \<and> \<not> is_str ps 0 \<and> is_str ps 1) (emit cbs (Ev_print_rs_crash (str_of ps 1) (num_of ps 0)))"

definition logparse_line_handler_print_rs_normal :: handler where
  "logparse_line_handler_print_rs_normal cbs ps = guarded (length ps = 1 \<and> is_str ps 0) (emit cbs (Ev_print_rs_normal (str_of ps 0)))"

definition logparse_line_handler_print_rs_shutdown_deadlock :: handler where
  "logparse_line_handler_print_rs_shutdown_deadlock cbs ps = guarded (length ps = 0) (emit cbs (Ev_print_ltckpt ls_shutdown lm_deadlock ''rs''))"

definition logparse_line_handler_print_sanity_pass_pre :: handler where
  "logparse_line_handler_print_sanity_pass_pre cbs ps = guarded (length ps = 2 \<and> is_str ps 0 \<and> is_str ps 1) (emit cbs (Ev_print_sanity True False))"

definition logparse_line_handler_print_sanity_pass_post :: handler where
  "logparse_line_handler_print_sanity_pass_post cbs ps = guarded (length ps = 2 \<and> is_str ps 0 \<and> is_str ps 1) (emit cbs (Ev_print_sanity True True))"

definition logparse_line_handler_print_sanity_fail_pre :: handler where
  "logparse_line_handler_print_sanity_fail_pre cbs ps = guarded (length ps = 2 \<and> is_str ps 0 \<and> is_str ps 1) (emit cbs (Ev_print_sanity False False))"

definition logparse_line_handler_print_sanity_fail_post :: handler where
  "logparse_line_handler_print_sanity_fail_post cbs ps = guarded (length ps = 2 \<and> is_str ps 0 \<and> is_str ps 1) (emit cbs (Ev_print_sanity False True))"

definition logparse_line_handler_print_test_failed :: handler where
  "logparse_line_handler_print_test_failed cbs ps = guarded (length ps = 1 \<and> is_str ps 0) (emit cbs (Ev_print_test (str_of ps 0) mts_failed))"

definition logparse_line_handler_print_test_output :: handler where
  "logparse_line_handler_print_test_output cbs ps = guarded (length ps = 2 \<and> is_str ps 0 \<and> is_str ps 1) (emit cbs (Ev_print_test_output (str_of ps 0) (str_of ps 1)))"

definition logparse_line_handler_print_test_passed :: handler where
  "logparse_line_handler_print_test_passed cbs ps = guarded (length ps = 1 \<and> is_str ps 0) (emit cbs (Ev_print_test (str_of ps 0) mts_passed))"

definition logparse_line_handler_print_test_running :: handler where
  "logparse_line_handler_print_test_running cbs ps = guarded (length ps = 1 \<and> is_str ps 0) (emit cbs (Ev_print_test (str_of ps 0) mts_running))"

definition logparse_line_handler_print_tests_completed :: handler where
  "logparse_line_handler_print_tests_completed cbs ps = guarded (length ps = 0) (emit cbs (Ev_print_tests_completed None))"

definition logparse_line_handler_print_tests_completed_failed :: handler where
  "logparse_line_handler_print_tests_completed_failed cbs ps = guarded (length ps = 1 \<and> is_str ps 0) (emit cbs (Ev_print_tests_completed (Some (str_of ps 0))))"

definition logparse_line_handler_print_tests_starting :: handler where
  "logparse_line_handler_print_tests_starting cbs ps = guarded (length ps = 1 \<and> is_str ps 0) (emit cbs (Ev_print_tests_starting (str_of ps 0)))"

definition logparse_line_handler_print_start :: handler where
  "logparse_line_handler_print_start cbs ps = guarded (length ps = 0) (emit cbs (Ev_print_start))"

definition logparse_line_handler_print_startup :: handler where
  "logparse_line_handler_print_startup cbs ps = guarded (length ps = 1 \<and> is_str ps 0) (emit cbs (Ev_print_startup (str_of ps 0)))"

definition logparse_line_handler_print_workload :: handler where
  "logparse_line_handler_print_workload cbs ps = guarded (length ps = 1 \<and> is_str ps 0) (emit cbs (Ev_print_workload (str_of ps 0)))"

definition logparse_line_handler_print_workload_completed :: handler where
  "logparse_line_handler_print_workload_completed cbs ps = guarded (length ps = 0) (emit cbs (Ev_print_workload_completed))"

definition logparse_line_handler_qemu_exit :: handler where
  "logparse_line_handler_qemu_exit cbs ps = guarded (length ps = 0) (emit cbs (Ev_qemu_exit))"

definition logparse_line_handler_qemu_hypermem_reset :: handler where
  "logparse_line_handler_qemu_hypermem_reset cbs ps = guarded (length ps = 0) (emit cbs (Ev_qemu_hypermem_reset))"

definition logparse_line_handler_qemu_interrupt :: handler where
  "logparse_line_handler_qemu_interrupt cbs ps = guarded (length ps = 1 \<and> \<not> is_str ps 0) (emit cbs (Ev_qemu_interrupt (num_of ps 0)))"

definition logparse_line_handler_qemu_powerdown :: handler where
  "logparse_line_handler_qemu_powerdown cbs ps = guarded (length ps = 0) (emit cbs (Ev_qemu_powerdown))"

definition logparse_line_handler_qemu_reset :: handler where
  "logparse_line_handler_qemu_reset cbs ps = guarded (length ps = 0) (emit cbs (Ev_qemu_reset))"

definition logparse_line_handler_qemu_shutdown :: handler where
  "logparse_line_handler_qemu_shutdown cbs ps = guarded (length ps = 0) (emit cbs (Ev_qemu_shutdown))"

definition logparse_line_handler_qemu_signal :: handler where
  "logparse_line_handler_qemu_signal cbs ps = guarded (length ps = 1 \<and> \<not> is_str ps 0) (emit cbs (Ev_qemu_signal (num_of ps 0)))"

definition logparse_line_handler_quit :: handler where
  "logparse_line_handler_quit cbs ps = guarded (length ps = 0) (emit cbs (Ev_quit))"

section \<open>Patterns\<close>

definition logparse_line_patterns :: "(handler \<times> string) list" where
  "logparse_line_patterns =
     [(logparse_line_handler_edfi_context_release, ''EDFI context release module=*''),
      (logparse_line_handler_edfi_context_reset, ''EDFI context reset module=*''),
      (logparse_line_handler_edfi_context_set, ''EDFI context set module=*''),
      (logparse_line_handler_edfi_dump_stats, ''edfi_dump_stats msg=*''),
      (logparse_line_handler_edfi_dump_stats, ''edfi_dump_stats''),
      (logparse_line_handler_edfi_dump_stats_module_no_context, ''edfi_dump_stats_module name=* msg=* no context known''),
      (logparse_line_handler_edfi_dump_stats_module_no_context, ''edfi_dump_stats_module name=* no context known''),
      (logparse_line_handler_edfi_dump_stats_module, ''edfi_dump_stats_module name=* msg=* bbs=*''),
      (logparse_line_handler_edfi_dump_stats_module, ''edfi_dump_stats_module name=* *''),
      (logparse_line_handler_edfi_faultindex_get, ''edfi_faultindex_get name=* bbindex=#''),
      (logparse_line_handler_edfi_faultindex_get, ''edfi_faultindex_get name=* fault injection disabled''),
      (logparse_line_handler_edfi_faultindex_get, ''edfi_faultindex_get name=* not selected for fault injection''),
      (logparse_line_handler_fault, ''fault name=* bbindex=# count=#''),
      (logparse_line_handler_fault, ''fault name=* bbindex=#''),
      (logparse_line_handler_hypermem_error, ''error: *''),
      (logparse_line_handler_hypermem_faultspec, ''hypermem-faultspec='' @ [CHR 0x22] @ ''*'' @ [CHR 0x22]),
      (logparse_line_handler_hypermem_flushlog_false, ''hypermem-flushlog=false''),
      (logparse_line_handler_hypermem_flushlog_true, ''hypermem-flushlog=true''),
      (logparse_line_handler_hypermem_logpath, ''hypermem-logpath='' @ [CHR 0x22] @ ''*'' @ [CHR 0x22]),
      (logparse_line_handler_hypermem_warning, ''warning: *''),
      (logparse_line_handler_nop, ''nop''),
      (logparse_line_handler_qemu_drive, ''drive[#]={ file: '' @ [CHR 0x22] @ ''*'' @ [CHR 0x22] @ '' }''),
      (logparse_line_handler_qemu_exit, ''QEMU exiting''),
      (logparse_line_handler_qemu_hypermem_reset, ''QEMU hypermem reset''),
      (logparse_line_handler_qemu_interrupt, ''Interrupt #''),
      (logparse_line_handler_qemu_powerdown, ''QEMU powerdown''),
      (logparse_line_handler_qemu_reset, ''QEMU reset''),
      (logparse_line_handler_qemu_shutdown, ''QEMU shutdown''),
      (logparse_line_handler_qemu_signal, ''QEMU signal #''),
      (logparse_line_handler_quit, ''quitting QEMU''),
      (logparse_line_handler_print_debug, ''print DEBUG: *''),
      (logparse_line_handler_print_rs_crash, ''print rs-CRASH: signal [#] sent for *''),
      (logparse_line_handler_print_rs_normal, ''print rs-NORMAL: down sent for *''),
      (logparse_line_handler_print_rs_shutdown_deadlock, ''print RS: shutdown due to deadlock''),
      (logparse_line_handler_print_startup, ''print <EDFI> startup *''),
      (logparse_line_handler_print_end, ''print <END>''),
      (logparse_line_handler_print_sanity_fail_post, ''print Sanity Failed (*:POSTTEST) *''),
      (logparse_line_handler_print_sanity_fail_pre, ''print Sanity Failed (*:PRETEST) *''),
      (logparse_line_handler_print_sanity_pass_post, ''print Sanity Passed (*:POSTTEST) *''),
      (logparse_line_handler_print_sanity_pass_pre, ''print Sanity Passed (*:PRETEST) *''),
      (logparse_line_handler_print_start, ''print <START>''),
      (logparse_line_handler_print_workload, ''print (*) Workload''),
      (logparse_line_handler_print_workload_completed, ''print Workload Completed''),
      (logparse_line_handler_print_workload_completed, ''print Workload Completed *''),
      (logparse_line_handler_print_abort_after_restart, ''print Aborting tests after previous restart''),
      (logparse_line_handler_print_test_failed, ''print Test *: failed''),
      (logparse_line_handler_print_test_output, ''print Test *: output line: *''),
      (logparse_line_handler_print_test_passed, ''print Test *: passed''),
      (logparse_line_handler_print_test_running, ''print Test *: running''),
      (logparse_line_handler_print_tests_completed, ''print Completed tests''),
      (logparse_line_handler_print_tests_completed_failed, ''print Completed tests, these failed: *''),
      (logparse_line_handler_print_tests_starting, ''print Starting tests: *''),
      (logparse_line_handler_print_ltckpt_closed_ipc, ''print ltckpt recovery: window closed: ltckpt_set_fail_stop_recovery; module=*''),
      (logparse_line_handler_print_ltckpt_closed_ipc_callsites, ''print ltckpt recovery: window closed # times from # callsite(s): *; module=*''),
      (logparse_line_handler_print_ltckpt_closed_unknown, ''print ltckpt recovery: window closed: reason unknown; module=*''),
      (logparse_line_handler_print_ltckpt_closed_writelog_full, ''print ltckpt recovery: window closed: writelog full; module=*''),
      (logparse_line_handler_print_ltckpt_failed, ''print ltckpt recovery: failed: bad ltckpt_is_message_replyable result; module=*''),
      (logparse_line_handler_print_ltckpt_failed, ''print ltckpt recovery: failed: havent handled message; module=*''),
      (logparse_line_handler_print_ltckpt_failed_idempotent, ''print ltckpt recovery: failed: idempotent: couldn'' @ [CHR 0x27] @ ''t send error message; module=*''),
      (logparse_line_handler_print_ltckpt_failed_idempotent, ''print ltckpt recovery: failed: idempotent: sef_get_current_message() not available; module=*''),
      (logparse_line_handler_print_ltckpt_failed_idempotent, ''print ltckpt recovery: failed: idempotent: unable to fetch last handled message; module=*''),
      (logparse_line_handler_print_ltckpt_failed_idempotent, ''print ltckpt recovery: failed: idempotent: unreplyable request; module=*''),
      (logparse_line_handler_print_ltckpt_failed, ''print ltckpt recovery: failed: invalid g_recovery_bitmask bitmask; module=*''),
      (logparse_line_handler_print_ltckpt_failed_message, ''print ltckpt recovery: failed: non-replyable message: #; module=*''),
      (logparse_line_handler_print_ltckpt_failed_process_specific, ''print ltckpt recovery: failed: process_specific: error in figuring out whether source was user process; module=*''),
      (logparse_line_handler_print_ltckpt_failed_process_specific, ''print ltckpt recovery: failed: process_specific: unable to fetch last handled message; module=*''),
      (logparse_line_handler_print_ltckpt_failed_process_specific, ''print ltckpt recovery: failed: process_specific: unable to find necessary sef_llvm method; module=*''),
      (logparse_line_handler_print_ltckpt_failed_process_specific, ''print ltckpt recovery: failed: process_specific: unable to kill user process; module=*''),
      (logparse_line_handler_print_ltckpt_failed_process_specific, ''print ltckpt recovery: failed: process_specific: unable to send reply; module=*''),
      (logparse_line_handler_print_ltckpt_failed_writelog, ''print ltckpt recovery: failed: writelog: identity state transfer failed; module=*''),
      (logparse_line_handler_print_ltckpt_failed_writelog, ''print ltckpt recovery: failed: writelog: sys_safecopyfrom addr failed; module=*''),
      (logparse_line_handler_print_ltckpt_failed_writelog, ''print ltckpt recovery: failed: writelog: sys_safecopyfrom region failed; module=*''),
      (logparse_line_handler_print_ltckpt_failed_writelog, ''print ltckpt recovery: failed: writelog: sys_safecopyto failed; module=*''),
      (logparse_line_handler_print_ltckpt_shutdown, ''print ltckpt recovery: shutdown; module=*''),
      (logparse_line_handler_print_ltckpt_shutdown_failstop, ''print ltckpt recovery: shutdown: fail_stop; module=*''),
      (logparse_line_handler_print_ltckpt_start, ''print ltckpt recovery: start recovery attempt; module=*''),
      (logparse_line_handler_print_ltckpt_start_writelog, ''print ltckpt recovery: start: writelog; module=*''),
      (logparse_line_handler_print_ltckpt_success_idempotent, ''print ltckpt recovery: success: idempotent; module=*''),
      (logparse_line_handler_print_ltckpt_success_process_specific, ''print ltckpt recovery: success: killed user process; module=*''),
      (logparse_line_handler_print_ltckpt_success_service_fi, ''print ltckpt recovery: success: RS_FI_CUSTOM; module=*''),
      (logparse_line_handler_print_ltckpt_success_process_specific, ''print ltckpt recovery: success: user process is invalid; module=*''),
      (logparse_line_handler_print_ltckpt_success_writelog, ''print ltckpt recovery: success: writelog: # log entries, # stack entries; module=*'')]"

definition PATTERN_PARAM_COUNT_MAX :: nat where
  "PATTERN_PARAM_COUNT_MAX = 4"

definition convertnumchar :: "char \<Rightarrow> int \<Rightarrow> int option" where
  "convertnumchar ch base =
     (let k = of_char ch :: int;
          v = (if 48 \<le> k \<and> k \<le> 57 then Some (k - 48)
               else if 65 \<le> k \<and> k \<le> 90 then Some (k - 65 + 10)
               else if 97 \<le> k \<and> k \<le> 122 then Some (k - 97 + 10)
               else None)
      in case v of None \<Rightarrow> None | Some x \<Rightarrow> if x < base then Some x else None)"

text \<open>A number; exceeding a long is a signed overflow.\<close>

fun number_loop :: "int \<Rightarrow> int \<Rightarrow> string \<Rightarrow> fault + (int \<times> string)" where
  "number_loop base num [] = Inr (num, [])"
| "number_loop base num (ch # r) =
     (case convertnumchar ch base of
        None \<Rightarrow> Inr (num, ch # r)
      | Some v \<Rightarrow> if num * base + v \<ge> 2 ^ 63 then Inl SignedOverflow else number_loop base (num * base + v) r)"

definition match_number :: "string \<Rightarrow> fault + (int \<times> string) option" where
  "match_number line_curr =
     (let neg = (line_curr \<noteq> [] \<and> hd line_curr = CHR ''-'');
          l = (if neg then tl line_curr else line_curr);
          hex = (length l \<ge> 2 \<and> hd l = CHR ''0'' \<and> (l ! 1 = CHR ''x'' \<or> l ! 1 = CHR ''X''));
          base = (if hex then 16 else 10);
          l = (if hex then drop 2 l else l)
      in if l = [] \<or> convertnumchar (hd l) base = None then Inr None
         else ebind (number_loop base 0 l) (\<lambda>(num, r). Inr (Some (if neg then - num else num, r))))"

fun pattern_match :: "string \<Rightarrow> string \<Rightarrow> param list \<Rightarrow> fault + param list option" where
  "pattern_match line_curr [] ps = Inr (if line_curr = [] then Some ps else None)"
| "pattern_match line_curr (p # pattern) ps =
     (if p = CHR ''*'' then
        if length ps \<ge> PATTERN_PARAM_COUNT_MAX then Inl AssertFail
        else let stop = (\<lambda>ch. pattern \<noteq> [] \<and> ch = hd pattern)
             in pattern_match (dropWhile (\<lambda>ch. \<not> stop ch) line_curr) pattern
                  (ps @ [P_str (takeWhile (\<lambda>ch. \<not> stop ch) line_curr)])
      else if p = CHR ''#'' then
        if length ps \<ge> PATTERN_PARAM_COUNT_MAX then Inl AssertFail
        else ebind (match_number line_curr) (\<lambda>r.
          case r of None \<Rightarrow> Inr None | Some (num, l) \<Rightarrow> pattern_match l pattern (ps @ [P_num num]))
      else if line_curr \<noteq> [] \<and> hd line_curr = p then pattern_match (tl line_curr) pattern ps
      else Inr None)"

fun patterns_match :: "(handler \<times> string) list \<Rightarrow> string \<Rightarrow> fault + (handler \<times> param list) option" where
  "patterns_match [] line = Inr None"
| "patterns_match ((h, pattern) # table) line =
     ebind (pattern_match line pattern []) (\<lambda>r.
       case r of Some ps \<Rightarrow> Inr (Some (h, ps)) | None \<Rightarrow> patterns_match table line)"

section \<open>The file\<close>

text \<open>An event with the time stamp and the number of its line.\<close>

record logged =
  lg_timestamp :: timeval
  lg_lineno :: nat
  lg_event :: log_event

definition handle_line :: "(callback \<Rightarrow> bool) \<Rightarrow> string \<Rightarrow> fault + log_event list" where
  "handle_line cbs line =
     ebind (patterns_match logparse_line_patterns line) (\<lambda>r.
       case r of None \<Rightarrow> Inr [] | Some (h, ps) \<Rightarrow> h cbs ps)"

definition logparse_from_file_line ::
    "(tm \<Rightarrow> int) \<Rightarrow> (callback \<Rightarrow> bool) \<Rightarrow> logfilestate \<Rightarrow> fault + (bool \<times> logged list \<times> logfilestate)" where
  "logparse_from_file_line mktime cbs s =
     (if lf_rest s = [] then Inr (False, [], s)
      else if hd (lf_rest s) = CHR 0x0A then Inr (True, [], next_char s)
      else let lineno = lf_lineno s
           in case logparse_timestamp mktime s of
                (None, s) \<Rightarrow> Inr (True, [], skip_line s)
              | (Some ts, s) \<Rightarrow>
                  ebind (read_line s) (\<lambda>(line, s).
                  ebind (handle_line cbs line) (\<lambda>es.
                    Inr (lf_rest s \<noteq> [], map (\<lambda>e. \<lparr>lg_timestamp = ts, lg_lineno = lineno, lg_event = e\<rparr>) es, s))))"

text \<open>Readers only move forward, so the loop over the lines ends.\<close>

definition moves :: "'a reader \<Rightarrow> bool" where
  "moves r = (\<forall>s. snd (r s) = s \<or> length (lf_rest (snd (r s))) < length (lf_rest s))"

lemma moves_rbind: "moves r \<Longrightarrow> (\<And>x. moves (f x)) \<Longrightarrow> moves (rbind r f)"
  unfolding moves_def rbind_def by (auto split: prod.splits option.splits) (metis less_trans snd_conv)+

lemma moves_const: "moves (\<lambda>s. (x, s))"
  by (simp add: moves_def)

lemma moves_expect: "moves (expect ch)"
  by (auto simp: moves_def expect_def read_char_def next_char_def Let_def)

lemma moves_digit: "moves (read_digit v)"
  by (auto simp: moves_def read_digit_def next_char_def Let_def)

lemma moves_char_or_digit: "moves (read_char_or_digit ch v)"
  using moves_digit [of v] by (auto simp: moves_def read_char_or_digit_def read_char_def next_char_def Let_def)

lemma moves_digits: "moves (read_digits n v)"
proof (induction n arbitrary: v)
  case 0
  then show ?case by (simp add: moves_def)
next
  case (Suc n)
  have "read_digits (Suc n) v = rbind (read_digit v) (\<lambda>v. read_digits n v)" by (simp add: fun_eq_iff)
  then show ?case using moves_rbind [OF moves_digit Suc] by simp
qed

lemma moves_timestamp: "moves (logparse_timestamp mktime)"
  unfolding logparse_timestamp_def
  by (intro moves_rbind moves_expect moves_digits moves_char_or_digit moves_digit moves_const)

lemma timestamp_split: "\<exists>f. logparse_timestamp mktime = rbind (expect (CHR ''['')) f \<and> (\<forall>x. moves (f x))"
  unfolding logparse_timestamp_def
  by (intro exI conjI, rule refl, intro allI moves_rbind moves_expect moves_digits moves_char_or_digit moves_digit moves_const)

lemma timestamp_consumes:
  assumes "logparse_timestamp mktime s = (Some ts, s')"
  shows "length (lf_rest s') < length (lf_rest s)"
proof -
  have "s' = s \<or> length (lf_rest s') < length (lf_rest s)"
    using moves_timestamp [of mktime] assms unfolding moves_def by (metis snd_conv)
  moreover have "s' \<noteq> s"
  proof -
    obtain f where f: "logparse_timestamp mktime = rbind (expect (CHR ''['')) f" "\<And>x. moves (f x)"
      using timestamp_split [of mktime] by blast
    obtain s1 where s1: "expect (CHR ''['') s = (Some (), s1)" "f () s1 = (Some ts, s')"
      using assms unfolding f(1) rbind_def by (auto split: prod.splits option.splits)
    have "length (lf_rest s1) < length (lf_rest s)"
      using s1(1) by (auto simp: expect_def read_char_def next_char_def Let_def split: if_splits)
    moreover have "length (lf_rest s') \<le> length (lf_rest s1)"
      using f(2) [of "()"] s1(2) unfolding moves_def by (metis order_refl less_imp_le snd_conv)
    ultimately show ?thesis by auto
  qed
  ultimately show ?thesis by blast
qed

lemma read_line_loop_rest: "read_line_loop r n sz buf = Inr (buf', sz', r') \<Longrightarrow> length r' \<le> length r"
  by (induction r n sz buf rule: read_line_loop.induct) (auto simp: Let_def split: if_splits)

lemma skip_line_rest: "length (lf_rest (skip_line s)) \<le> length (lf_rest s)"
  by (simp add: skip_line_def Let_def)

lemma file_line_consumes:
  assumes "logparse_from_file_line mktime cbs s = Inr (True, es, s')"
  shows "length (lf_rest s') < length (lf_rest s)"
proof (cases "lf_rest s")
  case Nil
  then show ?thesis using assms by (simp add: logparse_from_file_line_def)
next
  case (Cons ch r)
  show ?thesis
  proof (cases "ch = CHR 0x0A")
    case True
    then show ?thesis using assms Cons by (auto simp: logparse_from_file_line_def next_char_def Let_def)
  next
    case False
    obtain ts s1 where t: "logparse_timestamp mktime s = (ts, s1)" by (cases "logparse_timestamp mktime s")
    show ?thesis
    proof (cases ts)
      case None
      have s': "s' = skip_line s1" using assms Cons False t None by (simp add: logparse_from_file_line_def Let_def)
      have "s1 = s \<or> length (lf_rest s1) < length (lf_rest s)"
        using moves_timestamp [of mktime] t unfolding moves_def by (metis snd_conv)
      then show ?thesis
      proof
        assume "s1 = s"
        then show ?thesis using dropWhile_less [of "lf_rest s" "\<lambda>ch. ch \<noteq> CHR 0x0A"] Cons False
          by (simp add: s' skip_line_def Let_def le_imp_less_Suc)
      next
        assume "length (lf_rest s1) < length (lf_rest s)"
        then show ?thesis using skip_line_rest [of s1] by (simp add: s')
      qed
    next
      case (Some ts')
      obtain line s2 where l: "read_line s1 = Inr (line, s2)" "s' = s2"
        using assms Cons False t Some by (auto simp: logparse_from_file_line_def Let_def ebind_eq_Inr)
      have "length (lf_rest s2) \<le> length (lf_rest s1)"
        using l(1) read_line_loop_rest by (fastforce simp: read_line_def ebind_eq_Inr split: if_splits)
      then show ?thesis using timestamp_consumes t Some l(2) by fastforce
    qed
  qed
qed

function logparse_loop :: "(tm \<Rightarrow> int) \<Rightarrow> (callback \<Rightarrow> bool) \<Rightarrow> logfilestate \<Rightarrow> fault + logged list" where
  "logparse_loop mktime cbs s =
     ebind (logparse_from_file_line mktime cbs s) (\<lambda>r.
       if fst r then ebind (logparse_loop mktime cbs (snd (snd r))) (\<lambda>es. Inr (fst (snd r) @ es))
       else Inr (fst (snd r)))"
  by pat_completeness auto
termination
  by (relation "measure (\<lambda>(mktime, cbs, s). length (lf_rest s))") (auto dest: file_line_consumes)

declare logparse_loop.simps [simp del]

definition logparse_from_file :: "(tm \<Rightarrow> int) \<Rightarrow> (callback \<Rightarrow> bool) \<Rightarrow> string \<Rightarrow> fault + logged list" where
  "logparse_from_file mktime cbs logfile =
     logparse_loop mktime cbs \<lparr>lf_rest = logfile,
       lf_lineno = 1 + (if logfile \<noteq> [] \<and> hd logfile = CHR 0x0A then 1 else 0), linebuf_size = 0\<rparr>"

text \<open>The execution counts of a log.\<close>

definition execcount_event :: "logged \<Rightarrow> module_execcount list \<Rightarrow> module_execcount list" where
  "execcount_event l es =
     (case lg_event l of Ev_edfi_dump_stats_module nm msg counts \<Rightarrow> edfi_dump_stats_module nm counts es | _ \<Rightarrow> es)"

definition execcounts_load_from_log :: "(tm \<Rightarrow> int) \<Rightarrow> string \<Rightarrow> fault + module_execcount list" where
  "execcounts_load_from_log mktime logfile =
     ebind (logparse_from_file mktime (\<lambda>cb. cb = CB_edfi_dump_stats_module) logfile)
       (\<lambda>ls. Inr (fold execcount_event ls []))"

section \<open>Specification of a log\<close>

text \<open>A number in a fixed number of digits.\<close>

fun pad :: "nat \<Rightarrow> nat \<Rightarrow> string" where
  "pad 0 k = []"
| "pad (Suc n) k = pad n (k div 10) @ [digit_char (k mod 10)]"

record stamp =
  ts_year :: nat
  ts_month :: nat
  ts_day :: nat
  ts_hour :: nat
  ts_minute :: nat
  ts_second :: nat
  ts_usec :: nat

definition stamp_ok :: "stamp \<Rightarrow> bool" where
  "stamp_ok t = (ts_year t < 10000 \<and> ts_month t < 100 \<and> ts_day t < 100 \<and> ts_hour t < 100 \<and> ts_minute t < 100 \<and>
     ts_second t < 100 \<and> ts_usec t < 1000000)"

definition stamp_text :: "stamp \<Rightarrow> string" where
  "stamp_text t = CHR ''['' # pad 4 (ts_year t) @ CHR ''-'' # pad 2 (ts_month t) @ CHR ''-'' # pad 2 (ts_day t) @ CHR '' '' #
     pad 2 (ts_hour t) @ CHR '':'' # pad 2 (ts_minute t) @ CHR '':'' # pad 2 (ts_second t) @ CHR ''.'' #
     pad 6 (ts_usec t) @ '']'' @ '' ''"

definition stamp_time :: "(tm \<Rightarrow> int) \<Rightarrow> stamp \<Rightarrow> timeval" where
  "stamp_time mktime t = \<lparr>tv_sec = mktime \<lparr>tm_year = int (ts_year t) - 1900, tm_mon = int (ts_month t) - 1, tm_mday = int (ts_day t),
     tm_hour = int (ts_hour t), tm_min = int (ts_minute t), tm_sec = int (ts_second t)\<rparr>, tv_usec = int (ts_usec t)\<rparr>"

text \<open>A log: stamped messages, one per line.\<close>

definition log_text :: "(stamp \<times> string) list \<Rightarrow> string" where
  "log_text ls = concat (map (\<lambda>(t, msg). stamp_text t @ msg @ [CHR 0x0A]) ls)"

definition message_ok :: "string \<Rightarrow> bool" where
  "message_ok msg = (msg \<noteq> [] \<and> NUL \<notin> set msg \<and> CHR 0x0A \<notin> set msg)"

fun log_events :: "(tm \<Rightarrow> int) \<Rightarrow> (callback \<Rightarrow> bool) \<Rightarrow> nat \<Rightarrow> (stamp \<times> string) list \<Rightarrow> fault + logged list" where
  "log_events mktime cbs lineno [] = Inr []"
| "log_events mktime cbs lineno ((t, msg) # ls) =
     ebind (handle_line cbs msg) (\<lambda>es.
     ebind (log_events mktime cbs (lineno + 1) ls) (\<lambda>r.
       Inr (map (\<lambda>e. \<lparr>lg_timestamp = stamp_time mktime t, lg_lineno = lineno, lg_event = e\<rparr>) es @ r)))"

section \<open>Lemmas: time stamps\<close>

definition at_chars :: "logfilestate \<Rightarrow> string \<Rightarrow> logfilestate" where
  "at_chars s r = s\<lparr>lf_rest := r\<rparr>"

lemma digit_no_newline [simp]: "n < 10 \<Longrightarrow> digit_char n \<noteq> CHR 0x0A"
proof
  assume "n < 10" "digit_char n = CHR 0x0A"
  then have "is_digit (CHR 0x0A)" using is_digit_digit_char by metis
  then show False by (simp add: is_digit_def)
qed

lemma next_at: "r = [] \<or> hd r \<noteq> CHR 0x0A \<Longrightarrow> next_char (at_chars s (ch # r)) = at_chars s r"
  by (auto simp: next_char_def at_chars_def Let_def)

lemma expect_at: "r = [] \<or> hd r \<noteq> CHR 0x0A \<Longrightarrow> expect ch (at_chars s (ch # r)) = (Some (), at_chars s r)"
  using next_at [of r s ch] by (simp add: expect_def read_char_def, simp add: at_chars_def)

lemma read_digit_at:
  "is_digit ch \<Longrightarrow> r = [] \<or> hd r \<noteq> CHR 0x0A \<Longrightarrow>
   read_digit v (at_chars s (ch # r)) = (Some (v * 10 + int (digit_val ch)), at_chars s r)"
  using next_at [of r s ch] by (simp add: read_digit_def, simp add: at_chars_def)

lemma read_digits_at:
  "list_all is_digit ds \<Longrightarrow> r \<noteq> [] \<Longrightarrow> hd r \<noteq> CHR 0x0A \<Longrightarrow>
   read_digits (length ds) v (at_chars s (ds @ r)) = (Some (foldl (\<lambda>v ch. v * 10 + int (digit_val ch)) v ds), at_chars s r)"
proof (induction ds arbitrary: v)
  case (Cons d ds)
  have "hd (ds @ r) \<noteq> CHR 0x0A" using Cons.prems by (cases ds) (auto simp: is_digit_def)
  then show ?case using Cons read_digit_at [of d "ds @ r" v s] by (simp add: rbind_def)
qed simp

lemma length_pad [simp]: "length (pad n k) = n"
  by (induction n k rule: pad.induct) auto

lemma pad_digits [simp]: "list_all is_digit (pad n k)"
  by (induction n k rule: pad.induct) auto

lemma foldl_pad: "foldl (\<lambda>v ch. v * 10 + int (digit_val ch)) v (pad n k) = v * 10 ^ n + int (k mod 10 ^ n)"
proof (induction n k arbitrary: v rule: pad.induct)
  case (2 n k)
  have "k mod 10 ^ Suc n = k div 10 mod 10 ^ n * 10 + k mod 10"
    using mod_mult2_eq [of k 10 "10 ^ n"] by simp
  then show ?case using 2 by (simp add: algebra_simps)
qed simp

lemma read_pad_at:
  "k < 10 ^ n \<Longrightarrow> r \<noteq> [] \<Longrightarrow> hd r \<noteq> CHR 0x0A \<Longrightarrow>
   read_digits n 0 (at_chars s (pad n k @ r)) = (Some (int k), at_chars s r)"
  using read_digits_at [of "pad n k" r 0 s] by (simp add: foldl_pad)

lemma pad2: "k < 100 \<Longrightarrow> pad 2 k = [digit_char (k div 10), digit_char (k mod 10)]"
  by (simp add: numeral_2_eq_2)

lemma hour_at:
  assumes "k < 100"
  shows "read_char_or_digit (CHR '' '') 0 (at_chars s (pad 2 k @ r)) = (Some (int (k div 10)), at_chars s (digit_char (k mod 10) # r))"
proof -
  have d: "k div 10 < 10" "k mod 10 < 10" using assms by simp_all
  have "digit_char (k div 10) \<noteq> CHR '' ''"
  proof
    assume "digit_char (k div 10) = CHR '' ''"
    then have "is_digit (CHR '' '')" using is_digit_digit_char [OF d(1)] by simp
    then show False by (simp add: is_digit_def)
  qed
  then show ?thesis
    using read_digit_at [of "digit_char (k div 10)" "digit_char (k mod 10) # r" 0 s] d assms
    by (simp add: read_char_or_digit_def read_char_def pad2, simp add: at_chars_def)
qed

lemma hour_digit_at:
  assumes "k < 100" "r \<noteq> []" "hd r \<noteq> CHR 0x0A"
  shows "read_digit (int (k div 10)) (at_chars s (digit_char (k mod 10) # r)) = (Some (int k), at_chars s r)"
proof -
  have "int (k div 10) * 10 + int (k mod 10) = int k"
    by (metis div_mult_mod_eq of_nat_add of_nat_mult of_nat_numeral)
  then show ?thesis using read_digit_at [of "digit_char (k mod 10)" r "int (k div 10)" s] assms by simp
qed

lemma hd_pad: "0 < n \<Longrightarrow> hd (pad n k @ r) \<noteq> CHR 0x0A"
proof -
  assume "0 < n"
  then have "pad n k \<noteq> []" using length_pad [of n k] by (metis less_numeral_extra(3) list.size(3))
  then have "is_digit (hd (pad n k @ r))" using pad_digits [of n k] by (metis hd_append2 hd_in_set list_all_iff)
  then show ?thesis by (auto simp: is_digit_def)
qed

lemma timestamp_at:
  assumes "stamp_ok t" "msg \<noteq> []" "hd msg \<noteq> CHR 0x0A"
  shows "logparse_timestamp mktime (at_chars s (stamp_text t @ msg)) = (Some (stamp_time mktime t), at_chars s msg)"
  using assms unfolding logparse_timestamp_def stamp_text_def stamp_time_def stamp_ok_def
  by (simp add: rbind_def expect_at hd_pad read_pad_at hour_at hour_digit_at)

end
