(* ===== verification/Logfile.thy ===== *)
theory Logfile
  imports Logparse
begin

text \<open>
  Properties of the log reader: a file of stamped messages is read line by line, and the
  handlers' assertions hold for whatever their patterns match.
\<close>

section \<open>Lemmas: lines\<close>

lemma read_line_loop_msg:
  "CHR 0x0A \<notin> set msg \<Longrightarrow> n < sz \<or> sz = 0 \<and> n = 0 \<Longrightarrow>
   \<exists>sz'. read_line_loop (msg @ CHR 0x0A # r) n sz buf = Inr (buf @ msg, sz', CHR 0x0A # r) \<and>
     (msg \<noteq> [] \<or> 0 < sz \<longrightarrow> n + length msg < sz')"
proof (induction msg arbitrary: n sz buf)
  case Nil
  then show ?case by auto
next
  case (Cons ch msg)
  let ?sz = "if n + 1 \<ge> sz then if sz > 0 then sz * 2 else 256 else sz"
  have n: "n + 1 < ?sz" using Cons.prems(2) by auto
  then have "n + 1 < ?sz \<or> ?sz = 0 \<and> n + 1 = 0" "CHR 0x0A \<notin> set msg" using Cons.prems(1) by simp_all
  from Cons.IH [OF this(2,1), of "buf @ [ch]"] obtain sz' where
    "read_line_loop (msg @ CHR 0x0A # r) (n + 1) ?sz (buf @ [ch]) = Inr (buf @ [ch] @ msg, sz', CHR 0x0A # r)"
    "n + 1 + length msg < sz'" using n by auto
  moreover have "read_line_loop ((ch # msg) @ CHR 0x0A # r) n sz buf = read_line_loop (msg @ CHR 0x0A # r) (n + 1) ?sz (buf @ [ch])"
    using Cons.prems(1) n by (auto simp: Let_def)
  ultimately show ?case by auto
qed

lemma read_line_msg:
  assumes "message_ok msg"
  shows "\<exists>sz'. read_line (at_chars s (msg @ CHR 0x0A # r)) =
    Inr (msg, s\<lparr>lf_rest := CHR 0x0A # r, lf_lineno := lf_lineno s + 1, linebuf_size := sz'\<rparr>)"
proof -
  have m: "CHR 0x0A \<notin> set msg" "msg \<noteq> []" "c_str msg = msg" using assms c_str_no_NUL by (auto simp: message_ok_def)
  obtain sz' where "read_line_loop (msg @ CHR 0x0A # r) 0 (linebuf_size s) [] = Inr (msg, sz', CHR 0x0A # r)" "length msg < sz'"
    using read_line_loop_msg [OF m(1), of 0 "linebuf_size s" r "[]"] m(2) by auto
  then show ?thesis using m by (intro exI [of _ sz']) (simp add: read_line_def at_chars_def)
qed

lemma log_text_Cons: "log_text ((t, msg) # ls) = stamp_text t @ msg @ CHR 0x0A # log_text ls"
  by (simp add: log_text_def)

lemma log_text_head [simp]: "\<not> (log_text ls \<noteq> [] \<and> hd (log_text ls) = CHR 0x0A)"
  by (cases ls) (auto simp: log_text_def stamp_text_def split: prod.splits)

lemma file_line_msg:
  assumes "stamp_ok t" "message_ok msg" "lf_rest s = log_text ((t, msg) # ls)"
  shows "\<exists>sz'. logparse_from_file_line mktime cbs s = ebind (handle_line cbs msg) (\<lambda>es.
    Inr (True, map (\<lambda>e. \<lparr>lg_timestamp = stamp_time mktime t, lg_lineno = lf_lineno s, lg_event = e\<rparr>) es,
      s\<lparr>lf_rest := CHR 0x0A # log_text ls, lf_lineno := lf_lineno s + 1, linebuf_size := sz'\<rparr>))"
proof -
  have m: "msg \<noteq> []" "hd (msg @ r) \<noteq> CHR 0x0A" for r
    using assms(2) by (cases msg; auto simp: message_ok_def)+
  have s: "s = at_chars s (stamp_text t @ msg @ CHR 0x0A # log_text ls)"
    using assms(3) by (simp add: at_chars_def log_text_Cons)
  have head: "lf_rest s \<noteq> []" "hd (lf_rest s) = CHR ''[''" unfolding assms(3) by (auto simp: log_text_Cons stamp_text_def)
  have "logparse_timestamp mktime s = (Some (stamp_time mktime t), at_chars s (msg @ CHR 0x0A # log_text ls))"
    using timestamp_at [OF assms(1), of "msg @ CHR 0x0A # log_text ls" mktime s] m s by simp
  moreover obtain sz' where "read_line (at_chars s (msg @ CHR 0x0A # log_text ls)) =
      Inr (msg, s\<lparr>lf_rest := CHR 0x0A # log_text ls, lf_lineno := lf_lineno s + 1, linebuf_size := sz'\<rparr>)"
    using read_line_msg [OF assms(2)] by blast
  ultimately show ?thesis using head by (intro exI [of _ sz']) (simp add: logparse_from_file_line_def)
qed

lemma file_line_newline:
  assumes "lf_rest s = CHR 0x0A # log_text ls"
  shows "logparse_from_file_line mktime cbs s = Inr (True, [], s\<lparr>lf_rest := log_text ls\<rparr>)"
  unfolding logparse_from_file_line_def next_char_def Let_def assms list.sel if_not_P [OF log_text_head]
  by (simp add: assms)

lemma ebind_assoc: "ebind (ebind r f) g = ebind r (\<lambda>x. ebind (f x) g)"
  by (cases r) simp_all

lemma loop_log:
  "\<forall>(t, msg) \<in> set ls. stamp_ok t \<and> message_ok msg \<Longrightarrow> lf_rest s = log_text ls \<Longrightarrow>
   logparse_loop mktime cbs s = log_events mktime cbs (lf_lineno s) ls"
proof (induction ls arbitrary: s)
  case Nil
  then show ?case by (simp add: logparse_loop.simps [of mktime cbs s] logparse_from_file_line_def log_text_def)
next
  case (Cons l ls)
  obtain t msg where l: "l = (t, msg)" by (cases l)
  have ok: "stamp_ok t" "message_ok msg" "\<forall>(t, msg) \<in> set ls. stamp_ok t \<and> message_ok msg" using Cons.prems(1) l by auto
  obtain sz' where line: "logparse_from_file_line mktime cbs s = ebind (handle_line cbs msg) (\<lambda>es.
    Inr (True, map (\<lambda>e. \<lparr>lg_timestamp = stamp_time mktime t, lg_lineno = lf_lineno s, lg_event = e\<rparr>) es,
      s\<lparr>lf_rest := CHR 0x0A # log_text ls, lf_lineno := lf_lineno s + 1, linebuf_size := sz'\<rparr>))"
    using file_line_msg [OF ok(1,2)] Cons.prems(2) l by blast
  let ?s1 = "s\<lparr>lf_rest := CHR 0x0A # log_text ls, lf_lineno := lf_lineno s + 1, linebuf_size := sz'\<rparr>"
  let ?s2 = "?s1\<lparr>lf_rest := log_text ls\<rparr>"
  have "logparse_loop mktime cbs ?s1 = logparse_loop mktime cbs ?s2"
  proof -
    have nl: "logparse_from_file_line mktime cbs ?s1 = Inr (True, [], ?s2)" by (rule file_line_newline) simp
    show ?thesis unfolding logparse_loop.simps [of mktime cbs ?s1] nl
      by (cases "logparse_loop mktime cbs ?s2") (simp_all del: select_convs)
  qed
  also have "\<dots> = log_events mktime cbs (lf_lineno s + 1) ls" using Cons.IH [OF ok(3), of ?s2] by simp
  finally have rest: "logparse_loop mktime cbs ?s1 = log_events mktime cbs (lf_lineno s + 1) ls" .
  show ?case unfolding logparse_loop.simps [of mktime cbs s] line l log_events.simps
    by (cases "handle_line cbs msg") (simp_all only: ebind.simps fst_conv snd_conv if_True rest)
qed

lemma from_file_log:
  assumes "\<forall>(t, msg) \<in> set ls. stamp_ok t \<and> message_ok msg"
  shows "logparse_from_file mktime cbs (log_text ls) = log_events mktime cbs 1 ls"
  using loop_log [OF assms] unfolding logparse_from_file_def if_not_P [OF log_text_head] by simp

section \<open>Lemmas: handlers and their patterns\<close>

definition is_P_str :: "param \<Rightarrow> bool" where
  "is_P_str p = (case p of P_str s \<Rightarrow> True | P_num n \<Rightarrow> False)"

text \<open>The wildcards of a pattern: strings and numbers.\<close>

fun wild :: "string \<Rightarrow> bool list" where
  "wild [] = []"
| "wild (p # pattern) = (if p = CHR ''*'' then True # wild pattern else if p = CHR ''#'' then False # wild pattern else wild pattern)"

lemma number_loop_fault: "number_loop base num l = Inl e \<Longrightarrow> e = SignedOverflow"
  by (induction base num l rule: number_loop.induct) (auto split: option.splits if_splits)

lemma ebind_eq_Inl: "ebind r f = Inl e \<longleftrightarrow> r = Inl e \<or> (\<exists>x. r = Inr x \<and> f x = Inl e)"
  by (cases r) simp_all

lemma match_number_fault: "match_number l = Inl e \<Longrightarrow> e = SignedOverflow"
  unfolding match_number_def Let_def ebind_eq_Inl
  by (auto simp: ebind_eq_Inl split: if_splits dest: number_loop_fault)

lemma pattern_match_params:
  "pattern_match l pat ps = Inr (Some qs) \<Longrightarrow> map is_P_str qs = map is_P_str ps @ wild pat"
proof (induction l pat ps rule: pattern_match.induct)
  case (2 l p pat ps)
  show ?case
  proof (cases "p = CHR ''*''")
    case True
    then show ?thesis using 2 by (auto simp: Let_def is_P_str_def split: if_splits)
  next
    case star: False
    show ?thesis
    proof (cases "p = CHR ''#''")
      case True
      then obtain num r where "match_number l = Inr (Some (num, r))" "pattern_match r pat (ps @ [P_num num]) = Inr (Some qs)"
        using 2(4) star by (auto simp: ebind_eq_Inr split: if_splits option.splits)
      then show ?thesis using 2(2) True star 2(4) by (auto simp: is_P_str_def split: if_splits)
    next
      case False
      then show ?thesis using 2 star by (auto split: if_splits)
    qed
  qed
qed (auto split: if_splits)

lemma pattern_match_fault:
  "pattern_match l pat ps = Inl e \<Longrightarrow> length ps + length (wild pat) \<le> PATTERN_PARAM_COUNT_MAX \<Longrightarrow> e = SignedOverflow"
proof (induction l pat ps rule: pattern_match.induct)
  case (2 l p pat ps)
  show ?case
  proof (cases "p = CHR ''*''")
    case True
    then show ?thesis using 2 by (auto simp: Let_def split: if_splits)
  next
    case star: False
    show ?thesis
    proof (cases "p = CHR ''#''")
      case True
      then have "ebind (match_number l) (\<lambda>r. case r of None \<Rightarrow> Inr None | Some (num, l) \<Rightarrow> pattern_match l pat (ps @ [P_num num])) = Inl e"
        using 2(4,5) star by (auto split: if_splits)
      then consider "match_number l = Inl e" | num r where "match_number l = Inr (Some (num, r))" "pattern_match r pat (ps @ [P_num num]) = Inl e"
        by (auto simp: ebind_eq_Inl split: option.splits)
      then show ?thesis
      proof cases
        case 1
        then show ?thesis by (rule match_number_fault)
      next
        case 2
        then show ?thesis using "2.IH"(2) "2.prems" True star by (auto split: if_splits)
      qed
    next
      case False
      then show ?thesis using 2 star by (auto split: if_splits)
    qed
  qed
qed simp

text \<open>The array of call sites is large enough, since an identifier and a comma take two characters.\<close>

lemma two_consumed: "a < b \<Longrightarrow> c \<le> a \<Longrightarrow> 0 < c \<Longrightarrow> b \<le> n \<Longrightarrow> c - 1 + 2 \<le> (n :: nat)"
  by arith

lemma half_step: "a + 2 \<le> b \<Longrightarrow> n + (b + 1) div 2 \<le> cap \<Longrightarrow> n + 1 + (a + 1) div 2 \<le> (cap :: nat)"
  by arith

lemma parse_sites_bound:
  "length cs + (length str + 1) div 2 \<le> cap \<Longrightarrow> \<exists>r. parse_sites_loop cap str cs = Inr r"
proof (induction cap str cs rule: parse_sites_loop.induct)
  case (1 cap str cs)
  let ?t = "dropWhile (\<lambda>ch. ch = CHR '' '') str"
  let ?r = "dropWhile (\<lambda>ch. ch = CHR '' '') (dropWhile is_digit ?t)"
  let ?cs = "cs @ [udec (takeWhile is_digit ?t)]"
  show ?case
  proof (cases "?t = [] \<or> \<not> is_digit (hd ?t)")
    case True
    show ?thesis unfolding parse_sites_loop.simps [of cap str cs] Let_def if_P [OF True] by blast
  next
    case t: False
    have "0 < length ?t" "length ?t \<le> length str" using t dropWhile_le by blast+
    then have str: "0 < length str" by linarith
    then have room: "\<not> cap \<le> length cs" using "1.prems" by linarith
    show ?thesis
    proof (cases "?r = [] \<or> hd ?r \<noteq> CHR '',''")
      case True
      show ?thesis
        unfolding parse_sites_loop.simps [of cap str cs] Let_def if_not_P [OF t] if_P [OF True] if_not_P [OF room] by blast
    next
      case r: False
      have "length (dropWhile is_digit ?t) < length ?t" using dropWhile_less t by blast
      moreover have "length ?r \<le> length (dropWhile is_digit ?t)" by (rule dropWhile_le)
      moreover have "0 < length ?r" using r by blast
      ultimately have "length (tl ?r) + 2 \<le> length str"
        using \<open>length ?t \<le> length str\<close> two_consumed unfolding length_tl by blast
      then have "length ?cs + (length (tl ?r) + 1) div 2 \<le> cap"
        using "1.prems" half_step [of "length (tl ?r)" "length str" "length cs" cap] unfolding length_append by simp
      from "1.IH" [OF refl t _ refl refl r this] room have "\<exists>r. parse_sites_loop cap (tl ?r) ?cs = Inr r" by blast
      moreover have "parse_sites_loop cap str cs = parse_sites_loop cap (tl ?r) ?cs"
        unfolding parse_sites_loop.simps [of cap str cs] Let_def if_not_P [OF t] if_not_P [OF r] if_not_P [OF room] ..
      ultimately show ?thesis by simp
    qed
  qed
qed

lemma parse_ipc_callsites_ok: "\<exists>r. parse_ipc_callsites str = Inr r"
  unfolding parse_ipc_callsites_def by (rule parse_sites_bound) simp

text \<open>What a handler returns for parameters of the kinds its pattern has.\<close>

definition handled :: "(callback \<Rightarrow> bool) \<Rightarrow> fault + log_event list \<Rightarrow> bool" where
  "handled cbs r = (case r of
     Inl e \<Rightarrow> e = NullCall \<and> \<not> cbs CB_edfi_dump_stats_module
   | Inr es \<Rightarrow> length es \<le> 1 \<and> (\<forall>e \<in> set es. cbs (callback_of e)))"

definition fits :: "handler \<Rightarrow> bool list \<Rightarrow> bool" where
  "fits h ks = (\<forall>cbs ps. map is_P_str ps = ks \<longrightarrow> handled cbs (h cbs ps))"

lemma is_str_nth: "map is_P_str ps = ks \<Longrightarrow> is_str ps i \<longleftrightarrow> i < length ks \<and> ks ! i"
  by (auto simp: is_str_def is_P_str_def)

lemma fits_emit:
  assumes "\<And>ps cbs. map is_P_str ps = ks \<Longrightarrow> \<exists>e. h cbs ps = emit cbs e"
  shows "fits h ks"
  unfolding fits_def handled_def
proof (intro allI impI)
  fix cbs ps assume "map is_P_str ps = ks"
  then obtain e where "h cbs ps = emit cbs e" using assms by blast
  then show "case h cbs ps of Inl e \<Rightarrow> e = NullCall \<and> \<not> cbs CB_edfi_dump_stats_module
     | Inr es \<Rightarrow> length es \<le> 1 \<and> (\<forall>e \<in> set es. cbs (callback_of e))" by (simp add: emit_def)
qed

lemma fits_guarded:
  assumes "\<And>ps cbs. map is_P_str ps = ks \<Longrightarrow> h cbs ps = guarded (c ps) (emit cbs (e ps))"
    "\<And>ps. map is_P_str ps = ks \<Longrightarrow> c ps"
  shows "fits h ks"
  using assms by (intro fits_emit) (auto simp: guarded_def)

lemma is_str_simps [simp]:
  "is_str (z # zs) 0 = is_P_str z" "is_str (z # zs) (Suc n) = is_str zs n" "is_str [] n = False"
  by (simp_all add: is_str_def is_P_str_def)

lemma handled_emit [simp]: "handled cbs (guarded c (emit cbs e)) = c"
  by (simp add: handled_def guarded_def emit_def)

lemma handled_Nil [simp]: "handled cbs (Inr [])"
  by (simp add: handled_def)

lemma fits_edfi_dump_stats_module_no_context_1: "fits logparse_line_handler_edfi_dump_stats_module_no_context [True]"
  by (fastforce simp: fits_def handled_def guarded_def logparse_line_handler_edfi_dump_stats_module_no_context_def map_eq_Cons_conv numeral_2_eq_2 numeral_3_eq_3 ebind_eq_Inl
      split: option.splits)

lemma fits_group_0:
  "fits logparse_line_handler_edfi_context_release [True]"
  "fits logparse_line_handler_edfi_context_reset [True]"
  "fits logparse_line_handler_edfi_context_set [True]"
  "fits logparse_line_handler_edfi_dump_stats [True]"
  "fits logparse_line_handler_edfi_faultindex_get [True]"
  "fits logparse_line_handler_hypermem_error [True]"
  "fits logparse_line_handler_hypermem_faultspec [True]"
  "fits logparse_line_handler_hypermem_logpath [True]"
  "fits logparse_line_handler_hypermem_warning [True]"
  "fits logparse_line_handler_print_debug [True]"
  "fits logparse_line_handler_print_rs_normal [True]"
  "fits logparse_line_handler_print_startup [True]"
  "fits logparse_line_handler_print_workload [True]"
  "fits logparse_line_handler_print_test_failed [True]"
  "fits logparse_line_handler_print_test_passed [True]"
  "fits logparse_line_handler_print_test_running [True]"
  "fits logparse_line_handler_print_tests_completed_failed [True]"
  "fits logparse_line_handler_print_tests_starting [True]"
  "fits logparse_line_handler_print_ltckpt_closed_ipc [True]"
  "fits logparse_line_handler_print_ltckpt_closed_unknown [True]"
  "fits logparse_line_handler_print_ltckpt_closed_writelog_full [True]"
  "fits logparse_line_handler_print_ltckpt_failed [True]"
  "fits logparse_line_handler_print_ltckpt_failed_idempotent [True]"
  "fits logparse_line_handler_print_ltckpt_failed_process_specific [True]"
  "fits logparse_line_handler_print_ltckpt_failed_writelog [True]"
  "fits logparse_line_handler_print_ltckpt_shutdown [True]"
  "fits logparse_line_handler_print_ltckpt_shutdown_failstop [True]"
  "fits logparse_line_handler_print_ltckpt_start [True]"
  "fits logparse_line_handler_print_ltckpt_start_writelog [True]"
  "fits logparse_line_handler_print_ltckpt_success_idempotent [True]"
  "fits logparse_line_handler_print_ltckpt_success_process_specific [True]"
  "fits logparse_line_handler_print_ltckpt_success_service_fi [True]"
  by (auto simp: fits_def map_eq_Cons_conv numeral_2_eq_2 numeral_3_eq_3 logparse_line_handler_edfi_context_release_def logparse_line_handler_edfi_context_reset_def logparse_line_handler_edfi_context_set_def logparse_line_handler_edfi_dump_stats_def logparse_line_handler_edfi_faultindex_get_def logparse_line_handler_hypermem_error_def logparse_line_handler_hypermem_faultspec_def logparse_line_handler_hypermem_logpath_def logparse_line_handler_hypermem_warning_def logparse_line_handler_print_debug_def logparse_line_handler_print_rs_normal_def logparse_line_handler_print_startup_def logparse_line_handler_print_workload_def logparse_line_handler_print_workload_completed_def logparse_line_handler_print_test_failed_def logparse_line_handler_print_test_passed_def logparse_line_handler_print_test_running_def logparse_line_handler_print_tests_completed_failed_def logparse_line_handler_print_tests_starting_def logparse_line_handler_print_ltckpt_closed_ipc_def logparse_line_handler_print_ltckpt_closed_unknown_def logparse_line_handler_print_ltckpt_closed_writelog_full_def logparse_line_handler_print_ltckpt_failed_def logparse_line_handler_print_ltckpt_failed_idempotent_def logparse_line_handler_print_ltckpt_failed_process_specific_def logparse_line_handler_print_ltckpt_failed_writelog_def logparse_line_handler_print_ltckpt_shutdown_def logparse_line_handler_print_ltckpt_shutdown_failstop_def logparse_line_handler_print_ltckpt_start_def logparse_line_handler_print_ltckpt_start_writelog_def logparse_line_handler_print_ltckpt_success_idempotent_def logparse_line_handler_print_ltckpt_success_process_specific_def logparse_line_handler_print_ltckpt_success_service_fi_def)

lemma fits_group_1:
  "fits logparse_line_handler_edfi_dump_stats []"
  "fits logparse_line_handler_hypermem_flushlog_false []"
  "fits logparse_line_handler_hypermem_flushlog_true []"
  "fits logparse_line_handler_nop []"
  "fits logparse_line_handler_qemu_exit []"
  "fits logparse_line_handler_qemu_hypermem_reset []"
  "fits logparse_line_handler_qemu_powerdown []"
  "fits logparse_line_handler_qemu_reset []"
  "fits logparse_line_handler_qemu_shutdown []"
  "fits logparse_line_handler_quit []"
  "fits logparse_line_handler_print_rs_shutdown_deadlock []"
  "fits logparse_line_handler_print_end []"
  "fits logparse_line_handler_print_start []"
  "fits logparse_line_handler_print_workload_completed []"
  "fits logparse_line_handler_print_abort_after_restart []"
  "fits logparse_line_handler_print_tests_completed []"
  by (auto simp: fits_def map_eq_Cons_conv numeral_2_eq_2 numeral_3_eq_3 logparse_line_handler_edfi_dump_stats_def logparse_line_handler_hypermem_flushlog_false_def logparse_line_handler_hypermem_flushlog_true_def logparse_line_handler_nop_def logparse_line_handler_qemu_exit_def logparse_line_handler_qemu_hypermem_reset_def logparse_line_handler_qemu_powerdown_def logparse_line_handler_qemu_reset_def logparse_line_handler_qemu_shutdown_def logparse_line_handler_quit_def logparse_line_handler_print_rs_shutdown_deadlock_def logparse_line_handler_print_end_def logparse_line_handler_print_start_def logparse_line_handler_print_workload_completed_def logparse_line_handler_print_abort_after_restart_def logparse_line_handler_print_tests_completed_def)

lemma fits_edfi_dump_stats_module_no_context_2: "fits logparse_line_handler_edfi_dump_stats_module_no_context [True, True]"
  by (fastforce simp: fits_def handled_def guarded_def logparse_line_handler_edfi_dump_stats_module_no_context_def map_eq_Cons_conv numeral_2_eq_2 numeral_3_eq_3 ebind_eq_Inl
      split: option.splits)

lemma fits_edfi_dump_stats_module_2: "fits logparse_line_handler_edfi_dump_stats_module [True, True]"
  by (fastforce simp: fits_def handled_def guarded_def logparse_line_handler_edfi_dump_stats_module_def map_eq_Cons_conv numeral_2_eq_2 numeral_3_eq_3 ebind_eq_Inl
      split: option.splits)

lemma fits_group_2:
  "fits logparse_line_handler_print_sanity_fail_post [True, True]"
  "fits logparse_line_handler_print_sanity_fail_pre [True, True]"
  "fits logparse_line_handler_print_sanity_pass_post [True, True]"
  "fits logparse_line_handler_print_sanity_pass_pre [True, True]"
  "fits logparse_line_handler_print_test_output [True, True]"
  by (auto simp: fits_def map_eq_Cons_conv numeral_2_eq_2 numeral_3_eq_3 logparse_line_handler_print_sanity_fail_post_def logparse_line_handler_print_sanity_fail_pre_def logparse_line_handler_print_sanity_pass_post_def logparse_line_handler_print_sanity_pass_pre_def logparse_line_handler_print_test_output_def)

lemma fits_edfi_dump_stats_module_3: "fits logparse_line_handler_edfi_dump_stats_module [True, True, True]"
  by (fastforce simp: fits_def handled_def guarded_def logparse_line_handler_edfi_dump_stats_module_def map_eq_Cons_conv numeral_2_eq_2 numeral_3_eq_3 ebind_eq_Inl
      split: option.splits)

lemma fits_group_4:
  "fits logparse_line_handler_edfi_faultindex_get [True, False]"
  "fits logparse_line_handler_fault [True, False]"
  by (auto simp: fits_def map_eq_Cons_conv numeral_2_eq_2 numeral_3_eq_3 logparse_line_handler_edfi_faultindex_get_def logparse_line_handler_fault_def)

lemma fits_group_5:
  "fits logparse_line_handler_fault [True, False, False]"
  by (auto simp: fits_def map_eq_Cons_conv numeral_2_eq_2 numeral_3_eq_3 logparse_line_handler_fault_def)

lemma fits_group_6:
  "fits logparse_line_handler_qemu_drive [False, True]"
  "fits logparse_line_handler_print_rs_crash [False, True]"
  "fits logparse_line_handler_print_ltckpt_failed_message [False, True]"
  by (auto simp: fits_def map_eq_Cons_conv numeral_2_eq_2 numeral_3_eq_3 logparse_line_handler_qemu_drive_def logparse_line_handler_print_rs_crash_def logparse_line_handler_print_ltckpt_failed_message_def)

lemma fits_group_7:
  "fits logparse_line_handler_qemu_interrupt [False]"
  "fits logparse_line_handler_qemu_signal [False]"
  by (auto simp: fits_def map_eq_Cons_conv numeral_2_eq_2 numeral_3_eq_3 logparse_line_handler_qemu_interrupt_def logparse_line_handler_qemu_signal_def)

lemma fits_print_ltckpt_closed_ipc_callsites_4: "fits logparse_line_handler_print_ltckpt_closed_ipc_callsites [False, False, True, True]"
  unfolding fits_def
proof (intro allI impI)
  fix cbs ps assume ps: "map is_P_str ps = [False, False, True, True]"
  obtain r where "parse_ipc_callsites (str_of ps 2) = Inr r" using parse_ipc_callsites_ok by blast
  then show "handled cbs (logparse_line_handler_print_ltckpt_closed_ipc_callsites cbs ps)"
    using ps by (auto simp: handled_def guarded_def logparse_line_handler_print_ltckpt_closed_ipc_callsites_def map_eq_Cons_conv
        numeral_2_eq_2 numeral_3_eq_3)
qed

lemma fits_group_9:
  "fits logparse_line_handler_print_ltckpt_success_writelog [False, False, True]"
  by (auto simp: fits_def map_eq_Cons_conv numeral_2_eq_2 numeral_3_eq_3 logparse_line_handler_print_ltckpt_success_writelog_def)

lemmas fits_handlers = fits_edfi_dump_stats_module_no_context_1 fits_group_0 fits_group_1 fits_edfi_dump_stats_module_no_context_2 fits_edfi_dump_stats_module_2 fits_group_2 fits_edfi_dump_stats_module_3 fits_group_4 fits_group_5 fits_group_6 fits_group_7 fits_print_ltckpt_closed_ipc_callsites_4 fits_group_9

definition table_kinds :: "bool list list" where
  "table_kinds =
     [[True],
      [True],
      [True],
      [True],
      [],
      [True, True],
      [True],
      [True, True, True],
      [True, True],
      [True, False],
      [True],
      [True],
      [True, False, False],
      [True, False],
      [True],
      [True],
      [],
      [],
      [True],
      [True],
      [],
      [False, True],
      [],
      [],
      [False],
      [],
      [],
      [],
      [False],
      [],
      [True],
      [False, True],
      [True],
      [],
      [True],
      [],
      [True, True],
      [True, True],
      [True, True],
      [True, True],
      [],
      [True],
      [],
      [True],
      [],
      [True],
      [True, True],
      [True],
      [True],
      [],
      [True],
      [True],
      [True],
      [False, False, True, True],
      [True],
      [True],
      [True],
      [True],
      [True],
      [True],
      [True],
      [True],
      [True],
      [False, True],
      [True],
      [True],
      [True],
      [True],
      [True],
      [True],
      [True],
      [True],
      [True],
      [True],
      [True],
      [True],
      [True],
      [True],
      [True],
      [True],
      [True],
      [False, False, True]]"

lemma wild_table: "map (\<lambda>hp. wild (snd hp)) logparse_line_patterns = table_kinds"
  unfolding logparse_line_patterns_def table_kinds_def by simp

text \<open>One entry of the table has a handler that rejects the parameter of its pattern.\<close>

definition misfit :: string where
  "misfit = ''print Workload Completed *''"

lemma fits_table: "list_all2 (\<lambda>hp ks. fits (fst hp) ks \<or> snd hp = misfit) logparse_line_patterns table_kinds"
  by (simp add: logparse_line_patterns_def table_kinds_def fits_handlers misfit_def)

lemma patterns_match_cases:
  "case patterns_match table line of
     Inl e \<Rightarrow> \<exists>h p. (h, p) \<in> set table \<and> pattern_match line p [] = Inl e
   | Inr None \<Rightarrow> True
   | Inr (Some (h, ps)) \<Rightarrow> \<exists>p. (h, p) \<in> set table \<and> pattern_match line p [] = Inr (Some ps)"
proof (induction table)
  case (Cons hp table)
  obtain h p where hp: "hp = (h, p)" by (cases hp)
  show ?case
  proof (cases "pattern_match line p []")
    case (Inl e)
    then show ?thesis by (auto simp: hp)
  next
    case (Inr r)
    then show ?thesis using Cons by (cases r) (auto simp: hp split: sum.splits option.splits)
  qed
qed simp

lemma table_entry:
  assumes "(h, p) \<in> set logparse_line_patterns"
  shows "fits h (wild p) \<or> p = misfit" "length (wild p) \<le> PATTERN_PARAM_COUNT_MAX"
proof -
  obtain i where i: "i < length logparse_line_patterns" "logparse_line_patterns ! i = (h, p)"
    using assms by (metis in_set_conv_nth)
  have k: "table_kinds ! i = wild p" using arg_cong [OF wild_table, of "\<lambda>xs. xs ! i"] i by simp
  show "fits h (wild p) \<or> p = misfit" using list_all2_nthD [OF fits_table i(1)] i(2) k by simp
  have "length table_kinds = length logparse_line_patterns" using arg_cong [OF wild_table, of length] by simp
  moreover have "list_all (\<lambda>ks. length ks \<le> PATTERN_PARAM_COUNT_MAX) table_kinds"
    by (simp add: table_kinds_def PATTERN_PARAM_COUNT_MAX_def)
  ultimately show "length (wild p) \<le> PATTERN_PARAM_COUNT_MAX" using i(1) k by (metis list_all_length)
qed

definition completed_prefix :: string where
  "completed_prefix = ''print Workload Completed ''"

lemma match_misfit:
  "pattern_match line misfit [] = Inr (Some ps) \<Longrightarrow> take (length completed_prefix) line = completed_prefix"
proof -
  have lit: "pattern_match l (lit @ ''*'') [] = Inr (Some ps) \<Longrightarrow> list_all (\<lambda>c. c \<noteq> CHR ''*'' \<and> c \<noteq> CHR ''#'') lit \<Longrightarrow>
    take (length lit) l = lit" for l lit
  proof (induction lit arbitrary: l)
    case (Cons c lit)
    then show ?case by (cases l) (auto split: if_splits)
  qed simp
  have m: "misfit = completed_prefix @ ''*''" by (simp add: misfit_def completed_prefix_def)
  assume "pattern_match line misfit [] = Inr (Some ps)"
  then show ?thesis using lit [of line completed_prefix] unfolding m by (simp add: completed_prefix_def)
qed

lemma handle_line_cases:
  "case handle_line cbs line of
     Inl e \<Rightarrow> e = SignedOverflow \<or> e = NullCall \<and> \<not> cbs CB_edfi_dump_stats_module \<or>
       take (length completed_prefix) line = completed_prefix
   | Inr es \<Rightarrow> length es \<le> 1 \<and> (\<forall>e \<in> set es. cbs (callback_of e))"
proof (cases "patterns_match logparse_line_patterns line")
  case (Inl e)
  then obtain h p where "(h, p) \<in> set logparse_line_patterns" "pattern_match line p [] = Inl e"
    using patterns_match_cases [of logparse_line_patterns line] by auto
  then have "e = SignedOverflow" using pattern_match_fault table_entry(2) by fastforce
  then show ?thesis using Inl by (simp add: handle_line_def)
next
  case (Inr r)
  show ?thesis
  proof (cases r)
    case None
    then show ?thesis using Inr by (simp add: handle_line_def)
  next
    case (Some hps)
    obtain h ps where hps: "hps = (h, ps)" by (cases hps)
    then obtain p where p: "(h, p) \<in> set logparse_line_patterns" "pattern_match line p [] = Inr (Some ps)"
      using patterns_match_cases [of logparse_line_patterns line] Inr Some by auto
    have run: "handle_line cbs line = h cbs ps" using Inr Some hps by (simp add: handle_line_def)
    show ?thesis
    proof (cases "p = misfit")
      case True
      have "h = logparse_line_handler_print_workload_completed"
        using p(1) True by (simp add: logparse_line_patterns_def misfit_def)
      then show ?thesis using run match_misfit p(2) True
        by (auto simp: logparse_line_handler_print_workload_completed_def guarded_def emit_def)
    next
      case False
      then have "handled cbs (h cbs ps)"
        using table_entry(1) [OF p(1)] pattern_match_params [OF p(2)] by (auto simp: fits_def)
      then show ?thesis unfolding run handled_def by (auto split: sum.splits)
    qed
  qed
qed

section \<open>Properties\<close>

text \<open>
  C38 (functional): a log of stamped messages is read line by line: the callbacks are called
  in the order of the lines, with the time that the stamp denotes and the number of the line,
  and reading ends with the file; it fails only where a handler does.
\<close>
theorem log_read_line_by_line:
  assumes "\<forall>(t, msg) \<in> set ls. stamp_ok t \<and> message_ok msg"
  shows "logparse_from_file mktime cbs (log_text ls) = log_events mktime cbs 1 ls"
  by (rule from_file_log [OF assms])

definition ex_stamp :: stamp where
  "ex_stamp = \<lparr>ts_year = 2016, ts_month = 5, ts_day = 31, ts_hour = 23, ts_minute = 59, ts_second = 0, ts_usec = 42\<rparr>"

theorem log_read_line_by_line_witness:
  "logparse_from_file (\<lambda>t. tm_year t * 1000 + tm_hour t) (\<lambda>cb. True) (log_text [(ex_stamp, ''nop''), (ex_stamp, ''?'')]) =
     Inr [\<lparr>lg_timestamp = \<lparr>tv_sec = 116023, tv_usec = 42\<rparr>, lg_lineno = 1, lg_event = Ev_nop\<rparr>]"
proof -
  have "handle_line (\<lambda>cb. True) ''nop'' = Inr [Ev_nop]" "handle_line (\<lambda>cb. True) ''?'' = Inr []"
    by (simp_all add: handle_line_def logparse_line_patterns_def logparse_line_handler_nop_def guarded_def emit_def)
  then show ?thesis
    by (subst log_read_line_by_line) (simp_all add: ex_stamp_def stamp_ok_def message_ok_def stamp_time_def)
qed

text \<open>
  C39 (type): whatever a line says, the parameters that matching its pattern extracts have the
  number and the kinds that the handler of the pattern asserts: the handler calls at most one callback, one that is
  set, and no assertion fails and no array is overrun, with three exceptions: a number beyond
  a long overflows; a line about a module without context calls the callback for module
  statistics when that is not set; and a line that starts with the words print Workload
  Completed and a space fails the assertion of its handler, which accepts no parameter.
\<close>
theorem lines_handled_safely:
  "case handle_line cbs line of
     Inl e \<Rightarrow> e = SignedOverflow \<or> e = NullCall \<and> \<not> cbs CB_edfi_dump_stats_module \<or>
       take (length completed_prefix) line = completed_prefix
   | Inr es \<Rightarrow> length es \<le> 1 \<and> (\<forall>e \<in> set es. cbs (callback_of e))"
  by (rule handle_line_cases)

theorem lines_handled_safely_witness:
  "handle_line (\<lambda>cb. True) ''nop'' = Inr [Ev_nop]"
  using lines_handled_safely [of "\<lambda>cb. True" "''nop''"]
  by (simp add: handle_line_def logparse_line_patterns_def logparse_line_handler_nop_def guarded_def emit_def)

text \<open>
  C40 (error): two lines that the reader mishandles. The line about a completed workload is handled,
  but with a space and any further text it aborts the reader; and a line about a module without
  context, with or without a message, for any module name and message without a space, is lost when the
  client wants it and calls a null pointer when it does not.
\<close>
theorem completed_workload_aborts_reader:
  assumes "CHR '' '' \<notin> set name" "CHR '' '' \<notin> set msg"
  shows "handle_line cbs ''print Workload Completed'' =
      Inr (if cbs CB_print_workload_completed then [Ev_print_workload_completed] else []) \<and>
    handle_line cbs (''print Workload Completed '' @ rest) = Inl AssertFail \<and>
    handle_line cbs (''edfi_dump_stats_module name='' @ name @ '' no context known'') =
      (if cbs CB_edfi_dump_stats_module then Inr [] else Inl NullCall) \<and>
    handle_line cbs (''edfi_dump_stats_module name='' @ name @ '' msg='' @ msg @ '' no context known'') =
      (if cbs CB_edfi_dump_stats_module then Inr [] else Inl NullCall)"
proof -
  have cut: "takeWhile (\<lambda>ch. ch \<noteq> CHR '' '') (xs @ CHR '' '' # r) = xs"
    "dropWhile (\<lambda>ch. ch \<noteq> CHR '' '') (xs @ CHR '' '' # r) = CHR '' '' # r"
    if "CHR '' '' \<notin> set xs" for xs r
    using that by (induction xs) auto
  show ?thesis
    using assms
    by (simp add: handle_line_def logparse_line_patterns_def PATTERN_PARAM_COUNT_MAX_def cut is_str_def
        logparse_line_handler_print_workload_completed_def emit_def
        logparse_line_handler_edfi_dump_stats_module_no_context_def guarded_def)
qed

theorem completed_workload_aborts_reader_witness:
  "handle_line (\<lambda>cb. False) ''edfi_dump_stats_module name=pm msg=done no context known'' = Inl NullCall \<and>
   handle_line (\<lambda>cb. True) ''print Workload Completed in 12 s'' = Inl AssertFail"
  using completed_workload_aborts_reader [of "''pm''" "''done''" "\<lambda>cb. False" "[]"]
    completed_workload_aborts_reader [of "''pm''" "''done''" "\<lambda>cb. True" "''in 12 s''"] by simp

end
