(* ===== verification/Edfi.thy ===== *)
theory Edfi
  imports Logfile
begin

unbundle bit_operations_syntax

text \<open>
  The fault injection runtime that is linked into an instrumented program
  (static/edfi/df/edfi_df.c, include/edfi/common.h and the MINIX platform file
  platform/minix_sys/ctl/server/edfi_ctl_server.c): the context, the decision at every fault
  decision point, the counting of executed blocks, the commands, the statistics and the
  line of execution counts that the log reader understands. Integers have the widths of
  the 32-bit MINIX build. What the runtime prints is a list of printed items.
\<close>

section \<open>Context\<close>

record edfi_context_conf_t =
  fault_prob_randmax :: "32 word"
  min_fdp_interval :: int
  faulty_bb_index :: int
  min_fault_time_interval :: "32 word"
  max_time :: "32 word"
  max_faults :: "64 word"
  rand_seed :: "32 word"
  dflib_path :: string

record fault_type_stats =
  ft_name :: string
  bb_num_injected :: "32 word list"
  bb_num_candidates :: "32 word list"

record edfi_context_t =
  canary_value1 :: "32 word"
  fault_fdp_count :: int
  fault_time :: "64 word"
  start_time :: "64 word"
  total_faults :: "64 word"
  fault_types :: "fault_type_stats list"
  bb_num_executions :: "64 word list option"
  bb_num_faults :: "32 word list"
  num_bbs :: "32 word"
  num_fault_types :: "32 word"
  conf :: edfi_context_conf_t
  canary_value2 :: "32 word"

definition EDFI_CANARY_VALUE :: "32 word" where
  "EDFI_CANARY_VALUE = 0xFF0A0011"

definition EDFI_IS_OK_CONTEXT :: "edfi_context_t \<Rightarrow> bool" where
  "EDFI_IS_OK_CONTEXT x = (canary_value1 x = EDFI_CANARY_VALUE \<and> canary_value2 x = EDFI_CANARY_VALUE)"

text \<open>One call of the printing function: a format with its arguments.\<close>

datatype printed =
    Stat_header string
  | Stat_UL string "32 word"
  | Stat_ULL string "64 word"
  | Stat_LD string "64 word" "64 word"
  | Stat_text string
  | Stat_context edfi_context_t

record edfi_state =
  edfi_onfdp_count :: "32 word"
  edfi_faultinjection_enabled :: bool
  edfi_faultinjection_enabled_version :: "32 word"
  edfi_last_fault_time :: "32 word"
  edfi_context :: edfi_context_t
  edfi_rand_next :: "32 word"
  clock_reads :: nat
  edfi_output :: "printed list"

text \<open>
  The build and the platform: the build flags, the module name that the pass stores, the
  microseconds that the n-th reading of the time stamp counter converts to, the largest
  random number and the error number of the system headers, the size of the context.
\<close>

record edfi_env =
  EDFI_COUNT_ALL_BLOCKS :: bool
  EDFI_ENABLE_INJECTION_ON_START :: bool
  EDFI_PRINT_HYPERMEMLIKE_STATS :: bool
  edfi_module_name :: string
  tsc_micros :: "nat \<Rightarrow> 64 word"
  EDFI_RAND_LIMIT :: "32 word"
  ENOSYS_errno :: int
  sizeof_edfi_context :: "32 word"

abbreviation edfi_conf :: "edfi_state \<Rightarrow> edfi_context_conf_t" where
  "edfi_conf s \<equiv> conf (edfi_context s)"

section \<open>Platform functions\<close>

definition edfi_srand :: "32 word \<Rightarrow> edfi_state \<Rightarrow> edfi_state" where
  "edfi_srand seed s = s\<lparr>edfi_rand_next := seed\<rparr>"

definition edfi_rand :: "edfi_env \<Rightarrow> edfi_state \<Rightarrow> 32 word \<times> edfi_state" where
  "edfi_rand e s =
     (let next_rand = edfi_rand_next s * 1103515245 + 12345
      in (next_rand mod (EDFI_RAND_LIMIT e + 1), s\<lparr>edfi_rand_next := next_rand\<rparr>))"

definition edfi_getcurrtime_ns :: "edfi_env \<Rightarrow> edfi_state \<Rightarrow> 64 word \<times> edfi_state" where
  "edfi_getcurrtime_ns e s = (tsc_micros e (clock_reads s) * 1000, s\<lparr>clock_reads := Suc (clock_reads s)\<rparr>)"

definition edfi_load_dflib :: "edfi_env \<Rightarrow> string \<Rightarrow> int" where
  "edfi_load_dflib e p = ENOSYS_errno e"

definition edfi_print :: "printed list \<Rightarrow> edfi_state \<Rightarrow> edfi_state" where
  "edfi_print ps s = s\<lparr>edfi_output := edfi_output s @ ps\<rparr>"

text \<open>Initialisation of the counters between their two canaries.\<close>

definition edfi_ctl_context_init :: "edfi_env \<Rightarrow> edfi_state \<Rightarrow> edfi_state" where
  "edfi_ctl_context_init e s =
     s\<lparr>edfi_context := (edfi_context s)\<lparr>conf := (edfi_conf s)\<lparr>rand_seed := 17\<rparr>\<rparr>,
       edfi_faultinjection_enabled := EDFI_ENABLE_INJECTION_ON_START e\<rparr>"

definition edfi_ctl_init :: "edfi_env \<Rightarrow> edfi_state \<Rightarrow> (unit, edfi_state) outcome" where
  "edfi_ctl_init e s =
     (let s = edfi_ctl_context_init e s;
          s = edfi_srand (rand_seed (edfi_conf s)) s;
          x = edfi_context s;
          n = unat (num_bbs x)
      in case bb_num_executions x of
           None \<Rightarrow> if EDFI_IS_OK_CONTEXT x then Ret () s else Fault AssertFail s
         | Some counts \<Rightarrow>
             if length counts < n + 2 then Fault OutOfBounds s
             else
               let counts = overwrite counts 0 (ucast EDFI_CANARY_VALUE # replicate n 0 @ [ucast EDFI_CANARY_VALUE]);
                   s = s\<lparr>edfi_context := x\<lparr>bb_num_executions := Some counts\<rparr>\<rparr>
               in if EDFI_IS_OK_CONTEXT (edfi_context s) then Ret () s else Fault AssertFail s)"

section \<open>Statistics\<close>

primrec efold :: "('x \<Rightarrow> 'a \<Rightarrow> 'e + 'a) \<Rightarrow> 'x list \<Rightarrow> 'a \<Rightarrow> 'e + 'a" where
  "efold f [] a = Inr a"
| "efold f (x # xs) a = ebind (f x a) (efold f xs)"

definition at_index :: "'a list \<Rightarrow> nat \<Rightarrow> fault + 'a" where
  "at_index xs i = (if i < length xs then Inr (xs ! i) else Inl OutOfBounds)"

definition num_executions :: "edfi_context_t \<Rightarrow> nat \<Rightarrow> fault + 64 word" where
  "num_executions x i =
     (case bb_num_executions x of None \<Rightarrow> Inl NullDeref | Some counts \<Rightarrow> at_index counts i)"

datatype stats_section = EDFI_STATS_SECTION_FAULTS | EDFI_STATS_SECTION_CANDIDATES | EDFI_STATS_SECTION_PROB

definition section_bb ::
    "edfi_context_t \<Rightarrow> fault_type_stats \<Rightarrow> nat \<Rightarrow> 64 word \<times> 64 word \<Rightarrow> fault + (64 word \<times> 64 word)" where
  "section_bb x ft bb sums =
     ebind (num_executions x (bb + 1)) (\<lambda>n.
     ebind (at_index (bb_num_injected ft) bb) (\<lambda>inj.
     ebind (at_index (bb_num_candidates ft) bb) (\<lambda>cand.
       Inr (fst sums + scast inj * n, snd sums + scast cand * n))))"

definition section_line :: "edfi_context_t \<Rightarrow> stats_section \<Rightarrow> fault_type_stats \<Rightarrow> fault + printed" where
  "section_line x sec ft =
     ebind (efold (section_bb x ft) [0..<unat (num_bbs x)] (0, 0)) (\<lambda>(injected, cands).
       Inr (case sec of
              EDFI_STATS_SECTION_PROB \<Rightarrow> if cands \<noteq> 0 then Stat_LD (ft_name ft) injected cands else Stat_LD (ft_name ft) 0 1
            | EDFI_STATS_SECTION_FAULTS \<Rightarrow> Stat_ULL (ft_name ft) injected
            | EDFI_STATS_SECTION_CANDIDATES \<Rightarrow> Stat_ULL (ft_name ft) cands))"

definition edfi_print_stats_section :: "string \<Rightarrow> stats_section \<Rightarrow> edfi_context_t \<Rightarrow> fault + printed list" where
  "edfi_print_stats_section title sec x =
     efold (\<lambda>i out. ebind (at_index (fault_types x) i) (\<lambda>ft.
         ebind (section_line x sec ft) (\<lambda>l. Inr (out @ [l]))))
       [0..<unat (num_fault_types x)] [Stat_header title]"

text \<open>The run-length coded line of execution counts.\<close>

definition rle_flush :: "64 word \<Rightarrow> nat \<Rightarrow> string" where
  "rle_flush countrep repeats =
     (if repeats = 1 then '' '' @ decimal (unat (ucast countrep :: 32 word))
      else if repeats \<noteq> 0 then '' '' @ decimal (unat (ucast countrep :: 32 word)) @ ''x'' @ decimal repeats
      else [])"

fun rle_print :: "64 word list \<Rightarrow> 64 word \<Rightarrow> nat \<Rightarrow> string" where
  "rle_print [] countrep repeats = rle_flush countrep repeats"
| "rle_print (n # counts) countrep repeats =
     (if countrep = n then rle_print counts countrep (repeats + 1)
      else rle_flush countrep repeats @ rle_print counts n 1)"

definition hypermemlike_line :: "string \<Rightarrow> 64 word list \<Rightarrow> string" where
  "hypermemlike_line nm counts = ''edfi_dump_stats_module name='' @ nm @ rle_print counts 0 0"

definition edfi_print_hypermemlike_stats :: "edfi_env \<Rightarrow> edfi_context_t \<Rightarrow> fault + printed list" where
  "edfi_print_hypermemlike_stats e x =
     ebind (efold (\<lambda>i counts. ebind (num_executions x i) (\<lambda>n. Inr (counts @ [n])))
         [1..<Suc (unat (num_bbs x))] [])
       (\<lambda>counts. Inr [Stat_header ''edfi-hypermemlike-stats'',
          Stat_text (hypermemlike_line (edfi_module_name e) counts @ [CHR 0x0A])])"

definition statistics_table_size :: "edfi_context_t \<Rightarrow> fault + 32 word" where
  "statistics_table_size x =
     efold (\<lambda>i sz. ebind (at_index (fault_types x) i) (\<lambda>ft.
         Inr (sz + (of_nat (length (ft_name ft)) + 1 + 12 + 2 * num_bbs x * 4))))
       [0..<unat (num_fault_types x)] (num_bbs x * 8)"

text \<open>All sections; when an access faults, what was printed before it is left out.\<close>

definition edfi_print_stats :: "edfi_env \<Rightarrow> edfi_state \<Rightarrow> (unit, edfi_state) outcome" where
  "edfi_print_stats e s =
     (let x = edfi_context s
      in case ebind (statistics_table_size x) (\<lambda>sz.
           ebind (edfi_print_stats_section ''edfi-prob'' EDFI_STATS_SECTION_PROB x) (\<lambda>probs.
           ebind (edfi_print_stats_section ''edfi-faults'' EDFI_STATS_SECTION_FAULTS x) (\<lambda>faults.
           ebind (edfi_print_stats_section ''edfi-candidates'' EDFI_STATS_SECTION_CANDIDATES x) (\<lambda>cands.
           ebind (if EDFI_PRINT_HYPERMEMLIKE_STATS e then edfi_print_hypermemlike_stats e x else Inr []) (\<lambda>dump.
             Inr ([Stat_header ''edfi-debug'',
               Stat_UL ''n_fault_types'' (num_fault_types x),
               Stat_UL ''n_instrumented_bbs'' (num_bbs x),
               Stat_UL ''statistics_table_size'' sz,
               Stat_UL ''edfi_context_size'' (sizeof_edfi_context e),
               Stat_UL ''total_static_data_size'' (sz + sizeof_edfi_context e)] @ probs @ faults @ cands @ dump)))))) of
           Inl f \<Rightarrow> Fault f s
         | Inr out \<Rightarrow> Ret () (edfi_print out s))"

section \<open>Starting and stopping\<close>

definition edfi_onstart_default :: "edfi_env \<Rightarrow> edfi_state \<Rightarrow> edfi_state" where
  "edfi_onstart_default e s =
     (let s = s\<lparr>edfi_context := (edfi_context s)\<lparr>fault_fdp_count := min_fdp_interval (edfi_conf s)\<rparr>\<rparr>;
          (t, s) = edfi_getcurrtime_ns e s
      in s\<lparr>edfi_context := (edfi_context s)\<lparr>start_time := t\<rparr>\<rparr>)"

definition edfi_onstop_default :: "edfi_env \<Rightarrow> edfi_state \<Rightarrow> (unit, edfi_state) outcome" where
  "edfi_onstop_default e s = edfi_print_stats e s"

definition edfi_stop :: "edfi_env \<Rightarrow> edfi_state \<Rightarrow> (unit, edfi_state) outcome" where
  "edfi_stop e s =
     edfi_onstop_default e (s\<lparr>edfi_faultinjection_enabled := False,
       edfi_faultinjection_enabled_version := edfi_faultinjection_enabled_version s + 1\<rparr>)"

definition edfi_update_context :: "edfi_env \<Rightarrow> edfi_context_t option \<Rightarrow> edfi_state \<Rightarrow> int \<times> edfi_state" where
  "edfi_update_context e new_context s =
     (case new_context of
        None \<Rightarrow> (0, s)
      | Some x \<Rightarrow>
          let s = edfi_srand (rand_seed (conf x)) s;
              ret = (if length (dflib_path (conf x)) > 0 then edfi_load_dflib e (dflib_path (conf x)) else 0)
          in if ret < 0 then (ret, s)
             else
               let s = s\<lparr>edfi_context := (edfi_context s)\<lparr>conf := conf x\<rparr>\<rparr>
               in (0, edfi_print [Stat_context (edfi_context s)] s))"

definition edfi_start :: "edfi_env \<Rightarrow> edfi_context_t option \<Rightarrow> edfi_state \<Rightarrow> int \<times> edfi_state" where
  "edfi_start e x s =
     (let (ret, s) = edfi_update_context e x s
      in if ret < 0 then (ret, s)
         else (0, edfi_onstart_default e (s\<lparr>edfi_faultinjection_enabled := True,
           edfi_faultinjection_enabled_version := edfi_faultinjection_enabled_version s + 1\<rparr>)))"

definition edfi_stat :: "edfi_env \<Rightarrow> edfi_context_t option \<Rightarrow> edfi_state \<Rightarrow> (int, edfi_state) outcome" where
  "edfi_stat e x s = obind (edfi_print_stats e s) (\<lambda>_ s. case edfi_update_context e x s of (r, s) \<Rightarrow> Ret r s)"

datatype edfi_ctl_cmd =
    EDFI_CTL_CMD_STOP | EDFI_CTL_CMD_START | EDFI_CTL_CMD_TEST | EDFI_CTL_CMD_STAT | EDFI_CTL_CMD_UPDATE
  | EDFI_CTL_CMD_unknown

definition edfi_process_cmd ::
    "edfi_env \<Rightarrow> edfi_ctl_cmd \<Rightarrow> edfi_context_t option \<Rightarrow> edfi_state \<Rightarrow> (int, edfi_state) outcome" where
  "edfi_process_cmd e cmd x s =
     (case cmd of
        EDFI_CTL_CMD_STOP \<Rightarrow> obind (edfi_stop e s) (\<lambda>_ s. Ret 0 s)
      | EDFI_CTL_CMD_START \<Rightarrow> (case edfi_start e x s of (r, s) \<Rightarrow> Ret r s)
      | EDFI_CTL_CMD_TEST \<Rightarrow> Ret 0 (edfi_print [Stat_text (''edfi_test done'' @ [CHR 0x0A])] s)
      | EDFI_CTL_CMD_STAT \<Rightarrow> obind (edfi_stat e x s) (\<lambda>_ s. Ret 0 s)
      | EDFI_CTL_CMD_UPDATE \<Rightarrow> (case edfi_update_context e x s of (r, s) \<Rightarrow> Ret r s)
      | EDFI_CTL_CMD_unknown \<Rightarrow> Ret (-1) s)"


section \<open>Fault decision points\<close>

definition edfi_onfdp_min_fdp_interval :: "edfi_state \<Rightarrow> bool \<times> edfi_state" where
  "edfi_onfdp_min_fdp_interval s =
     (let x = edfi_context s
      in if min_fdp_interval (conf x) > 0 \<and> fault_fdp_count x < min_fdp_interval (conf x)
         then (False, s\<lparr>edfi_context := x\<lparr>fault_fdp_count := fault_fdp_count x + 1\<rparr>\<rparr>)
         else (True, s\<lparr>edfi_onfdp_count := edfi_onfdp_count s + of_int (min_fdp_interval (conf x))\<rparr>))"

definition edfi_onfdp_min_fault_time_interval :: "edfi_env \<Rightarrow> edfi_state \<Rightarrow> bool \<times> edfi_state" where
  "edfi_onfdp_min_fault_time_interval e s =
     (let s = s\<lparr>edfi_last_fault_time := 0\<rparr>;
          interval = min_fault_time_interval (edfi_conf s);
          pass = (\<lambda>s. (True, s\<lparr>edfi_onfdp_count := edfi_onfdp_count s + interval\<rparr>))
      in if interval > 0 \<and> fault_time (edfi_context s) \<noteq> 0 then
           let (t, s) = edfi_getcurrtime_ns e s;
               s = s\<lparr>edfi_last_fault_time := ucast t\<rparr>
           in if fault_time (edfi_context s) + ucast interval < ucast (edfi_last_fault_time s) then (False, s)
              else pass s
         else pass s)"

definition edfi_onfdp_fault_prob :: "edfi_env \<Rightarrow> edfi_state \<Rightarrow> bool \<times> edfi_state" where
  "edfi_onfdp_fault_prob e s =
     (if fault_prob_randmax (edfi_conf s) = 0 then (True, s)
      else
        let (r, s) = edfi_rand e s
        in if r \<ge> fault_prob_randmax (edfi_conf s) then (False, s)
           else (True, s\<lparr>edfi_onfdp_count := edfi_onfdp_count s + 1\<rparr>))"

definition edfi_onfdp_dyn_fault_prob :: "edfi_env \<Rightarrow> edfi_state \<Rightarrow> bool \<times> edfi_state" where
  "edfi_onfdp_dyn_fault_prob e s =
     (if \<not> edfi_faultinjection_enabled s \<or> fault_prob_randmax (edfi_conf s) = 0 then (False, s)
      else let (r, s) = edfi_rand e s in (\<not> r \<ge> fault_prob_randmax (edfi_conf s), s))"

definition edfi_onfdp_bb_index :: "int \<Rightarrow> edfi_state \<Rightarrow> bool \<times> edfi_state" where
  "edfi_onfdp_bb_index bb_index s =
     (let faulty = faulty_bb_index (edfi_conf s)
      in if \<not> edfi_faultinjection_enabled s then (False, s)
         else if bb_index \<noteq> faulty \<and> faulty > 0 then (False, s)
         else (True, if faulty > 0 then s\<lparr>edfi_onfdp_count := 1\<rparr> else s))"

definition edfi_onfdp_min_fdp_interval_update :: "edfi_state \<Rightarrow> edfi_state" where
  "edfi_onfdp_min_fdp_interval_update s = s\<lparr>edfi_context := (edfi_context s)\<lparr>fault_fdp_count := 1\<rparr>\<rparr>"

definition edfi_onfdp_min_fault_time_interval_update :: "edfi_env \<Rightarrow> edfi_state \<Rightarrow> edfi_state" where
  "edfi_onfdp_min_fault_time_interval_update e s =
     (if min_fault_time_interval (edfi_conf s) > 0 then
        let (t, s) = (if edfi_last_fault_time s \<noteq> 0 then (ucast (edfi_last_fault_time s), s) else edfi_getcurrtime_ns e s)
        in s\<lparr>edfi_context := (edfi_context s)\<lparr>fault_time := t\<rparr>\<rparr>
      else s)"

definition edfi_onfdp_max_time :: "edfi_env \<Rightarrow> edfi_state \<Rightarrow> (bool, edfi_state) outcome" where
  "edfi_onfdp_max_time e s =
     (let limit = max_time (edfi_conf s);
          pass = (\<lambda>s. Ret True (s\<lparr>edfi_onfdp_count := edfi_onfdp_count s + limit\<rparr>))
      in if limit > 0 then
           let (t, s) = edfi_getcurrtime_ns e s
           in if start_time (edfi_context s) + ucast limit \<ge> t
              then obind (edfi_stop e s) (\<lambda>_ s. Ret False s)
              else pass s
         else pass s)"

definition edfi_onfdp_max_faults :: "edfi_state \<Rightarrow> bool \<times> edfi_state" where
  "edfi_onfdp_max_faults s =
     (let limit = max_faults (edfi_conf s)
      in if limit > 0 \<and> total_faults (edfi_context s) > limit then (False, s)
         else (True, s\<lparr>edfi_onfdp_count := ucast (ucast (edfi_onfdp_count s) + limit)\<rparr>))"

text \<open>Adding one to the execution count of a block; the blocks are numbered from one.\<close>

definition count_block :: "int \<Rightarrow> edfi_state \<Rightarrow> (unit, edfi_state) outcome" where
  "count_block bb_index s =
     (case bb_num_executions (edfi_context s) of
        None \<Rightarrow> Fault NullDeref s
      | Some counts \<Rightarrow>
          if bb_index < 0 \<or> length counts \<le> nat bb_index then Fault OutOfBounds s
          else Ret () (s\<lparr>edfi_context := (edfi_context s)\<lparr>bb_num_executions :=
            Some (counts[nat bb_index := counts ! nat bb_index + 1])\<rparr>\<rparr>))"

definition check_or_return ::
    "(edfi_state \<Rightarrow> bool \<times> edfi_state) \<Rightarrow> (edfi_state \<Rightarrow> (bool, edfi_state) outcome) \<Rightarrow> edfi_state \<Rightarrow>
     (bool, edfi_state) outcome" where
  "check_or_return check k s = (let (ok, s) = check s in if ok then k s else Ret False s)"

definition edfi_onfdp_decide :: "edfi_env \<Rightarrow> int \<Rightarrow> edfi_state \<Rightarrow> (bool, edfi_state) outcome" where
  "edfi_onfdp_decide e bb_index s =
     (if \<not> edfi_faultinjection_enabled s then Ret False s
      else
        check_or_return edfi_onfdp_min_fdp_interval
          (check_or_return (edfi_onfdp_min_fault_time_interval e)
            (check_or_return (edfi_onfdp_fault_prob e)
              (check_or_return (edfi_onfdp_bb_index bb_index)
                (\<lambda>s. obind (edfi_onfdp_max_time e s) (\<lambda>ok s.
                  if \<not> ok then Ret False s
                  else check_or_return edfi_onfdp_max_faults
                    (\<lambda>s. if edfi_onfdp_count s = 0 then Ret False s
                         else Ret True (edfi_onfdp_min_fault_time_interval_update e
                                (edfi_onfdp_min_fdp_interval_update s))) s)))))
          (s\<lparr>edfi_onfdp_count := 0\<rparr>))"

definition edfi_onfdp_default :: "edfi_env \<Rightarrow> int \<Rightarrow> edfi_state \<Rightarrow> (bool, edfi_state) outcome" where
  "edfi_onfdp_default e bb_index s =
     obind (if EDFI_COUNT_ALL_BLOCKS e then count_block bb_index s else Ret () s)
       (\<lambda>_ s. edfi_onfdp_decide e bb_index s)"

definition edfi_onfault_default :: "edfi_env \<Rightarrow> int \<Rightarrow> edfi_state \<Rightarrow> (unit, edfi_state) outcome" where
  "edfi_onfault_default e bb_index s =
     obind (if EDFI_COUNT_ALL_BLOCKS e then Ret () s else count_block bb_index s)
       (\<lambda>_ s. let x = edfi_context s
              in if bb_index < 1 \<or> length (bb_num_faults x) < nat bb_index then Fault OutOfBounds s
                 else Ret () (s\<lparr>edfi_context := x\<lparr>total_faults :=
                   total_faults x + scast (bb_num_faults x ! nat (bb_index - 1))\<rparr>\<rparr>))"

text \<open>
  What the pass puts in front of a block: the decision, then the faulty version of the block,
  which starts by logging the fault, or the correct one.
\<close>

definition edfi_block :: "edfi_env \<Rightarrow> int \<Rightarrow> edfi_state \<Rightarrow> (bool, edfi_state) outcome" where
  "edfi_block e bb_index s =
     obind (edfi_onfdp_default e bb_index s) (\<lambda>faulty s.
       if faulty then obind (edfi_onfault_default e bb_index s) (\<lambda>_ s. Ret True s)
       else Ret False s)"

text \<open>The blocks of an execution, with the decision taken for each.\<close>

fun edfi_blocks :: "edfi_env \<Rightarrow> int list \<Rightarrow> edfi_state \<Rightarrow> (bool list, edfi_state) outcome" where
  "edfi_blocks e [] s = Ret [] s"
| "edfi_blocks e (b # bs) s =
     obind (edfi_block e b s) (\<lambda>d s. obind (edfi_blocks e bs s) (\<lambda>ds s. Ret (d # ds) s))"

section \<open>Wrappers of library functions\<close>

text \<open>The enlarged size of a copy and the reduced size of an allocation; both divide by the size.\<close>

definition Nto2N :: "edfi_env \<Rightarrow> 32 word \<Rightarrow> edfi_state \<Rightarrow> (32 word, edfi_state) outcome" where
  "Nto2N e n s =
     (let (r, s) = edfi_rand e s
      in if n = 0 then Fault (Panic ''division by zero'') s else Ret (n + 1 + r mod n) s)"

definition edfi_malloc_size :: "edfi_env \<Rightarrow> 32 word \<Rightarrow> edfi_state \<Rightarrow> (32 word, edfi_state) outcome" where
  "edfi_malloc_size e n s =
     (let (r, s) = edfi_rand e s
      in if n = 0 then Fault (Panic ''division by zero'') s else Ret (r mod n) s)"


section \<open>Well-formed contexts\<close>

text \<open>
  The context as the pass initialises it: the canaries, an array of counters with one
  canary on each side, and arrays of the declared sizes for every fault type.
\<close>

definition context_ok :: "edfi_context_t \<Rightarrow> bool" where
  "context_ok x =
     (EDFI_IS_OK_CONTEXT x \<and>
      (case bb_num_executions x of None \<Rightarrow> False | Some counts \<Rightarrow> length counts = unat (num_bbs x) + 2) \<and>
      length (bb_num_faults x) = unat (num_bbs x) \<and> length (fault_types x) = unat (num_fault_types x) \<and>
      list_all (\<lambda>ft. length (bb_num_injected ft) = unat (num_bbs x) \<and>
        length (bb_num_candidates ft) = unat (num_bbs x)) (fault_types x))"

definition block_ok :: "edfi_context_t \<Rightarrow> int \<Rightarrow> bool" where
  "block_ok x b = (1 \<le> b \<and> nat b \<le> unat (num_bbs x))"

text \<open>The counters of the blocks, without the canaries.\<close>

definition block_counts :: "edfi_context_t \<Rightarrow> 64 word list" where
  "block_counts x = (case bb_num_executions x of None \<Rightarrow> [] | Some counts \<Rightarrow> take (unat (num_bbs x)) (drop 1 counts))"

lemma efold_Inr:
  "(\<And>x a. x \<in> set xs \<Longrightarrow> f x a = Inr (g x a)) \<Longrightarrow> efold f xs a = Inr (fold g xs a)"
  by (induction xs arbitrary: a) simp_all

lemma efold_returns:
  "(\<And>x a. x \<in> set xs \<Longrightarrow> \<exists>b. f x a = Inr b) \<Longrightarrow> \<exists>b. efold f xs a = Inr b"
proof (induction xs arbitrary: a)
  case (Cons x xs)
  then obtain b where "f x a = Inr b" by fastforce
  with Cons show ?case by simp
qed simp

lemma context_okD:
  assumes "context_ok x"
  obtains counts where "bb_num_executions x = Some counts" "length counts = unat (num_bbs x) + 2"
  using assms by (auto simp: context_ok_def split: option.splits)

lemma num_executions_ok:
  "context_ok x \<Longrightarrow> i \<le> unat (num_bbs x) + 1 \<Longrightarrow> \<exists>n. num_executions x i = Inr n"
  by (erule context_okD) (simp add: num_executions_def at_index_def)

lemma num_executions_block:
  "context_ok x \<Longrightarrow> i < unat (num_bbs x) \<Longrightarrow> num_executions x (Suc i) = Inr (block_counts x ! i)"
  by (erule context_okD) (simp add: num_executions_def at_index_def block_counts_def)

lemma fault_type_at:
  assumes "context_ok x" "i < unat (num_fault_types x)"
  shows "at_index (fault_types x) i = Inr (fault_types x ! i)"
    "length (bb_num_injected (fault_types x ! i)) = unat (num_bbs x)"
    "length (bb_num_candidates (fault_types x ! i)) = unat (num_bbs x)"
  using assms by (auto simp: context_ok_def at_index_def list_all_length)

lemma section_ok:
  assumes "context_ok x"
  shows "\<exists>out. edfi_print_stats_section title sec x = Inr out"
  unfolding edfi_print_stats_section_def
proof (rule efold_returns)
  fix i :: nat and a
  assume "i \<in> set [0..<unat (num_fault_types x)]"
  then have i: "i < unat (num_fault_types x)" by simp
  let ?ft = "fault_types x ! i"
  have "\<exists>b. efold (section_bb x ?ft) [0..<unat (num_bbs x)] (0, 0) = Inr b"
  proof (rule efold_returns)
    fix bb a assume "bb \<in> set [0..<unat (num_bbs x)]"
    then show "\<exists>b. section_bb x ?ft bb a = Inr b"
      using fault_type_at [OF assms i] num_executions_block [OF assms, of bb]
      by (simp add: section_bb_def at_index_def)
  qed
  then show "\<exists>b. ebind (at_index (fault_types x) i) (\<lambda>ft. ebind (section_line x sec ft) (\<lambda>l. Inr (a @ [l]))) = Inr b"
    using fault_type_at(1) [OF assms i] by (auto simp: section_line_def split: prod.splits)
qed

lemma fold_collect: "fold (\<lambda>i out. out @ [f i]) xs out = out @ map f xs"
  by (induction xs arbitrary: out) simp_all

lemma hypermemlike_stats:
  assumes "context_ok x"
  shows "edfi_print_hypermemlike_stats e x = Inr [Stat_header ''edfi-hypermemlike-stats'',
    Stat_text (hypermemlike_line (edfi_module_name e) (block_counts x) @ [CHR 0x0A])]"
proof -
  let ?n = "unat (num_bbs x)"
  have "efold (\<lambda>i counts. ebind (num_executions x i) (\<lambda>n. Inr (counts @ [n]))) [1..<Suc ?n] [] =
      Inr (fold (\<lambda>i counts. counts @ [block_counts x ! (i - 1)]) [1..<Suc ?n] [])"
  proof (rule efold_Inr)
    fix i counts assume "i \<in> set [1..<Suc ?n]"
    then have "i - 1 < ?n" "Suc (i - 1) = i" by auto
    then show "ebind (num_executions x i) (\<lambda>n. Inr (counts @ [n])) = Inr (counts @ [block_counts x ! (i - 1)])"
      using num_executions_block [OF assms, of "i - 1"] by simp
  qed
  also have "fold (\<lambda>i counts. counts @ [block_counts x ! (i - 1)]) [1..<Suc ?n] [] =
      map (\<lambda>i. block_counts x ! (i - 1)) [1..<Suc ?n]"
    by (simp only: fold_collect append_Nil)
  also have "\<dots> = map ((!) (block_counts x)) [0..<?n]"
    by (simp only: map_Suc_upt [symmetric] One_nat_def map_map comp_def diff_Suc_Suc diff_zero)
  also have "\<dots> = block_counts x"
    using assms by (intro nth_equalityI) (auto elim!: context_okD simp: block_counts_def)
  finally show ?thesis by (simp add: edfi_print_hypermemlike_stats_def)
qed

lemma print_stats_ok:
  assumes "context_ok (edfi_context s)"
  shows "\<exists>out. edfi_print_stats e s = Ret () (edfi_print (out @
    (if EDFI_PRINT_HYPERMEMLIKE_STATS e then [Stat_header ''edfi-hypermemlike-stats'',
       Stat_text (hypermemlike_line (edfi_module_name e) (block_counts (edfi_context s)) @ [CHR 0x0A])] else [])) s)"
proof -
  obtain sz where sz: "statistics_table_size (edfi_context s) = Inr sz"
    using efold_returns [where f = "\<lambda>i sz. ebind (at_index (fault_types (edfi_context s)) i) (\<lambda>ft.
        Inr (sz + (of_nat (length (ft_name ft)) + 1 + 12 + 2 * num_bbs (edfi_context s) * 4)))"]
      fault_type_at(1) [OF assms] by (fastforce simp: statistics_table_size_def)
  obtain p f k where "edfi_print_stats_section ''edfi-prob'' EDFI_STATS_SECTION_PROB (edfi_context s) = Inr p"
    "edfi_print_stats_section ''edfi-faults'' EDFI_STATS_SECTION_FAULTS (edfi_context s) = Inr f"
    "edfi_print_stats_section ''edfi-candidates'' EDFI_STATS_SECTION_CANDIDATES (edfi_context s) = Inr k"
    using section_ok [OF assms] by meson
  with sz show ?thesis
    by (simp add: edfi_print_stats_def hypermemlike_stats [OF assms] Let_def)
      (metis append_Cons append_assoc append_Nil2)
qed


section \<open>What a decision changes\<close>

definition settled :: "edfi_context_t \<Rightarrow> edfi_context_t" where
  "settled x = x\<lparr>fault_fdp_count := 0, fault_time := 0\<rparr>"

definition moved :: "edfi_state \<Rightarrow> edfi_state \<Rightarrow> bool" where
  "moved s t = (settled (edfi_context t) = settled (edfi_context s))"

lemma moved_same: "edfi_context t = edfi_context s \<Longrightarrow> moved s t"
  by (simp add: moved_def)

lemma moved_trans: "moved r s \<Longrightarrow> moved s t \<Longrightarrow> moved r t"
  by (simp add: moved_def)

lemma settled_fields:
  "bb_num_executions (settled x) = bb_num_executions x" "num_bbs (settled x) = num_bbs x"
  "conf (settled x) = conf x" "bb_num_faults (settled x) = bb_num_faults x"
  "context_ok (settled x) = context_ok x"
  by (simp_all add: settled_def context_ok_def EDFI_IS_OK_CONTEXT_def cong: option.case_cong)

lemma moved_context:
  assumes "moved s t"
  shows "bb_num_executions (edfi_context t) = bb_num_executions (edfi_context s)"
    "num_bbs (edfi_context t) = num_bbs (edfi_context s)" "edfi_conf t = edfi_conf s"
    "bb_num_faults (edfi_context t) = bb_num_faults (edfi_context s)"
    "context_ok (edfi_context t) = context_ok (edfi_context s)"
  using assms settled_fields unfolding moved_def by metis+

definition quiet :: "(edfi_state \<Rightarrow> (bool, edfi_state) outcome) \<Rightarrow> edfi_state \<Rightarrow> bool" where
  "quiet f s = (\<exists>d t. f s = Ret d t \<and> moved s t)"

lemma moved_checks:
  "edfi_onfdp_min_fdp_interval s = (ok, t) \<Longrightarrow> moved s t"
  "edfi_onfdp_min_fault_time_interval e s = (ok, t) \<Longrightarrow> moved s t"
  "edfi_onfdp_fault_prob e s = (ok, t) \<Longrightarrow> moved s t"
  "edfi_onfdp_bb_index b s = (ok, t) \<Longrightarrow> moved s t"
  "edfi_onfdp_max_faults s = (ok, t) \<Longrightarrow> moved s t"
proof -
  show "edfi_onfdp_min_fdp_interval s = (ok, t) \<Longrightarrow> moved s t"
    by (auto simp: edfi_onfdp_min_fdp_interval_def moved_def settled_def Let_def split: if_splits)
  show "edfi_onfdp_min_fault_time_interval e s = (ok, t) \<Longrightarrow> moved s t"
    by (rule moved_same) (auto simp: edfi_onfdp_min_fault_time_interval_def edfi_getcurrtime_ns_def Let_def split: if_splits)
  show "edfi_onfdp_fault_prob e s = (ok, t) \<Longrightarrow> moved s t"
    by (rule moved_same) (auto simp: edfi_onfdp_fault_prob_def edfi_rand_def Let_def split: if_splits)
  show "edfi_onfdp_bb_index b s = (ok, t) \<Longrightarrow> moved s t"
    by (rule moved_same) (auto simp: edfi_onfdp_bb_index_def Let_def split: if_splits)
  show "edfi_onfdp_max_faults s = (ok, t) \<Longrightarrow> moved s t"
    by (rule moved_same) (auto simp: edfi_onfdp_max_faults_def Let_def split: if_splits)
qed

lemma quiet_check:
  assumes "\<And>ok t. check s = (ok, t) \<Longrightarrow> moved s t" "\<And>t. moved s t \<Longrightarrow> quiet k t"
  shows "quiet (check_or_return check k) s"
proof -
  obtain ok t where c: "check s = (ok, t)" by (cases "check s")
  have m: "moved s t" by (rule assms(1) [OF c])
  show ?thesis using assms(2) [OF m] m c moved_trans
    by (cases ok) (fastforce simp: quiet_def check_or_return_def)+
qed

lemma stop_moved:
  assumes "context_ok (edfi_context s)"
  shows "\<exists>t. edfi_stop e s = Ret () t \<and> edfi_context t = edfi_context s \<and> \<not> edfi_faultinjection_enabled t"
proof -
  let ?s = "s\<lparr>edfi_faultinjection_enabled := False,
       edfi_faultinjection_enabled_version := edfi_faultinjection_enabled_version s + 1\<rparr>"
  obtain out where "edfi_print_stats e ?s = Ret () (edfi_print out ?s)"
    using print_stats_ok [of ?s e] assms by auto
  then show ?thesis by (simp add: edfi_stop_def edfi_onstop_default_def edfi_print_def)
qed

lemma max_time_moved:
  assumes "context_ok (edfi_context s)"
  shows "\<exists>ok t. edfi_onfdp_max_time e s = Ret ok t \<and> moved s t"
proof -
  let ?s = "s\<lparr>clock_reads := Suc (clock_reads s)\<rparr>"
  obtain t where "edfi_stop e ?s = Ret () t" "edfi_context t = edfi_context s"
    using stop_moved [of ?s e] assms by auto
  then show ?thesis
    by (auto simp: edfi_onfdp_max_time_def edfi_getcurrtime_ns_def Let_def intro: moved_same)
qed

lemma update_moved:
  "moved s (edfi_onfdp_min_fault_time_interval_update e (edfi_onfdp_min_fdp_interval_update s))"
  by (auto simp: moved_def settled_def edfi_onfdp_min_fault_time_interval_update_def edfi_onfdp_min_fdp_interval_update_def
      edfi_getcurrtime_ns_def Let_def)

lemma decide_quiet:
  assumes ok: "context_ok (edfi_context s)"
  shows "quiet (edfi_onfdp_decide e b) s"
proof -
  have last: "quiet (check_or_return edfi_onfdp_max_faults
      (\<lambda>s. if edfi_onfdp_count s = 0 then Ret False s
           else Ret True (edfi_onfdp_min_fault_time_interval_update e (edfi_onfdp_min_fdp_interval_update s)))) t" for t
    by (rule quiet_check, erule moved_checks) (auto simp: quiet_def moved_same update_moved)
  have timed: "quiet (\<lambda>s. obind (edfi_onfdp_max_time e s) (\<lambda>ok s. if \<not> ok then Ret False s
      else check_or_return edfi_onfdp_max_faults
        (\<lambda>s. if edfi_onfdp_count s = 0 then Ret False s
             else Ret True (edfi_onfdp_min_fault_time_interval_update e (edfi_onfdp_min_fdp_interval_update s))) s)) t"
    if "context_ok (edfi_context t)" for t
    using max_time_moved [OF that, of e] last moved_trans by (fastforce simp: quiet_def)
  let ?s = "s\<lparr>edfi_onfdp_count := 0\<rparr>"
  have "quiet (check_or_return edfi_onfdp_min_fdp_interval
          (check_or_return (edfi_onfdp_min_fault_time_interval e)
            (check_or_return (edfi_onfdp_fault_prob e)
              (check_or_return (edfi_onfdp_bb_index b)
                (\<lambda>s. obind (edfi_onfdp_max_time e s) (\<lambda>ok s.
                  if \<not> ok then Ret False s
                  else check_or_return edfi_onfdp_max_faults
                    (\<lambda>s. if edfi_onfdp_count s = 0 then Ret False s
                         else Ret True (edfi_onfdp_min_fault_time_interval_update e
                                (edfi_onfdp_min_fdp_interval_update s))) s)))))) ?s"
    by (rule quiet_check, erule moved_checks, rule quiet_check, erule moved_checks, rule quiet_check,
        erule moved_checks, rule quiet_check, erule moved_checks, rule timed)
      (simp add: moved_context(5) ok)
  moreover have "moved s t" if "moved ?s t" for t using that by (simp add: moved_def)
  ultimately show ?thesis by (auto simp: quiet_def edfi_onfdp_decide_def moved_same)
qed


section \<open>Counting executed blocks\<close>

definition bump :: "int \<Rightarrow> edfi_context_t \<Rightarrow> edfi_context_t" where
  "bump b x = x\<lparr>bb_num_executions := map_option (\<lambda>cs. cs[nat b := cs ! nat b + 1]) (bb_num_executions x)\<rparr>"

lemma bump_fields [simp]:
  "num_bbs (bump b x) = num_bbs x" "conf (bump b x) = conf x" "bb_num_faults (bump b x) = bb_num_faults x"
  "context_ok (bump b x) = context_ok x" "fault_fdp_count (bump b x) = fault_fdp_count x"
  "start_time (bump b x) = start_time x"
  by (auto simp: bump_def context_ok_def EDFI_IS_OK_CONTEXT_def split: option.splits)

lemma count_block_ok:
  assumes "context_ok (edfi_context s)" "block_ok (edfi_context s) b"
  shows "count_block b s = Ret () (s\<lparr>edfi_context := bump b (edfi_context s)\<rparr>)"
  using assms by (elim context_okD) (auto simp: count_block_def block_ok_def bump_def)

lemma onfault_ok:
  assumes "context_ok (edfi_context s)" "block_ok (edfi_context s) b"
  shows "\<exists>t u. edfi_onfault_default e b s = Ret () t \<and>
    t = s\<lparr>edfi_context := (if EDFI_COUNT_ALL_BLOCKS e then edfi_context s else bump b (edfi_context s))\<lparr>total_faults := u\<rparr>\<rparr>"
proof -
  have "length (bb_num_faults (edfi_context s)) = unat (num_bbs (edfi_context s))"
    using assms(1) by (simp add: context_ok_def)
  then show ?thesis
    using assms count_block_ok [OF assms] by (auto simp: edfi_onfault_default_def block_ok_def Let_def)
qed

lemma context_ok_total [simp]: "context_ok (x\<lparr>total_faults := u\<rparr>) = context_ok x"
  by (simp add: context_ok_def EDFI_IS_OK_CONTEXT_def cong: option.case_cong)

lemma decide_ret:
  assumes "context_ok (edfi_context s)"
  obtains d t where "edfi_onfdp_decide e b s = Ret d t" "moved s t"
  using decide_quiet [OF assms, of e b] by (auto simp: quiet_def)

lemma block_step:
  assumes ok: "context_ok (edfi_context s)" "block_ok (edfi_context s) b" and all: "EDFI_COUNT_ALL_BLOCKS e"
  shows "\<exists>d t. edfi_block e b s = Ret d t \<and> context_ok (edfi_context t) \<and>
    num_bbs (edfi_context t) = num_bbs (edfi_context s) \<and>
    bb_num_executions (edfi_context t) = bb_num_executions (bump b (edfi_context s))"
proof -
  let ?s = "s\<lparr>edfi_context := bump b (edfi_context s)\<rparr>"
  obtain d t where t: "edfi_onfdp_decide e b ?s = Ret d t" "moved ?s t"
    using decide_ret [of ?s e b] ok by auto
  note f = moved_context [OF t(2)]
  have okt: "context_ok (edfi_context t)" "block_ok (edfi_context t) b"
    using f ok by (simp_all add: block_ok_def)
  obtain u where "edfi_onfault_default e b t = Ret () (t\<lparr>edfi_context := (edfi_context t)\<lparr>total_faults := u\<rparr>\<rparr>)"
    using onfault_ok [OF okt, of e] all by auto
  then show ?thesis
    using t f okt all count_block_ok [OF ok]
    by (cases d) (auto simp: edfi_block_def edfi_onfdp_default_def)
qed

lemma blocks_count:
  assumes "context_ok (edfi_context s)" "\<forall>b \<in> set bs. block_ok (edfi_context s) b" "EDFI_COUNT_ALL_BLOCKS e"
    "bb_num_executions (edfi_context s) = Some counts"
  shows "\<exists>ds t counts'. edfi_blocks e bs s = Ret ds t \<and> context_ok (edfi_context t) \<and>
    num_bbs (edfi_context t) = num_bbs (edfi_context s) \<and> bb_num_executions (edfi_context t) = Some counts' \<and>
    counts' = map (\<lambda>i. counts ! i + of_nat (count_list bs (int i))) [0..<length counts]"
  using assms
proof (induction bs arbitrary: s counts)
  case Nil
  then show ?case by (auto intro!: nth_equalityI)
next
  case (Cons b bs)
  obtain d t where t: "edfi_block e b s = Ret d t" "context_ok (edfi_context t)"
    "num_bbs (edfi_context t) = num_bbs (edfi_context s)"
    "bb_num_executions (edfi_context t) = Some (counts[nat b := counts ! nat b + 1])"
    using block_step [OF Cons.prems(1) _ Cons.prems(3), of b] Cons.prems(2,4) by (auto simp: bump_def)
  have b: "0 \<le> b" "nat b < length counts"
    using Cons.prems(1,2,4) by (auto simp: block_ok_def elim!: context_okD)
  have "\<forall>b \<in> set bs. block_ok (edfi_context t) b" using Cons.prems(2) t(3) by (simp add: block_ok_def)
  from Cons.IH [OF t(2) this Cons.prems(3) t(4)] obtain ds u where
    u: "edfi_blocks e bs t = Ret ds u" "context_ok (edfi_context u)" "num_bbs (edfi_context u) = num_bbs (edfi_context t)"
    "bb_num_executions (edfi_context u) = Some (map (\<lambda>i. (counts[nat b := counts ! nat b + 1]) ! i +
       of_nat (count_list bs (int i))) [0..<length counts])"
    by auto
  have "map (\<lambda>i. (counts[nat b := counts ! nat b + 1]) ! i + of_nat (count_list bs (int i))) [0..<length counts] =
      map (\<lambda>i. counts ! i + of_nat (count_list (b # bs) (int i))) [0..<length counts]"
    using b by (auto simp: nth_list_update)
  with t u show ?case by simp
qed

lemma blocks_block_counts:
  assumes "context_ok (edfi_context s)" "\<forall>b \<in> set bs. block_ok (edfi_context s) b" "EDFI_COUNT_ALL_BLOCKS e"
  shows "\<exists>ds t. edfi_blocks e bs s = Ret ds t \<and> context_ok (edfi_context t) \<and>
    num_bbs (edfi_context t) = num_bbs (edfi_context s) \<and>
    block_counts (edfi_context t) =
      map (\<lambda>i. block_counts (edfi_context s) ! i + of_nat (count_list bs (int (Suc i)))) [0..<unat (num_bbs (edfi_context s))]"
proof -
  obtain counts where c: "bb_num_executions (edfi_context s) = Some counts"
    "length counts = unat (num_bbs (edfi_context s)) + 2" using assms(1) by (rule context_okD)
  from blocks_count [OF assms c(1)] obtain ds t where t: "edfi_blocks e bs s = Ret ds t" "context_ok (edfi_context t)"
    "num_bbs (edfi_context t) = num_bbs (edfi_context s)" "bb_num_executions (edfi_context t) =
       Some (map (\<lambda>i. counts ! i + of_nat (count_list bs (int i))) [0..<length counts])" by auto
  then show ?thesis using c by (auto simp: block_counts_def simp del: upt_Suc intro!: nth_equalityI)
qed


section \<open>The line of counts and its reader\<close>

lemma udec_horner: "(udec ds :: 'a :: len word) = of_nat (horner 0 ds)"
proof -
  have "foldl (\<lambda>v ch. 10 * v + of_nat (digit_val ch)) (of_nat a :: 'a word) ds = of_nat (horner a ds)" for a
  proof (induction ds arbitrary: a)
    case (Cons ch ds)
    from Cons [of "10 * a + digit_val ch"] show ?case by (simp add: horner_def)
  qed (simp add: horner_def)
  from this [of 0] show ?thesis by (simp add: udec_def)
qed

lemma udec_decimal [simp]: "(udec (decimal n) :: 'a :: len word) = of_nat n"
  by (simp add: udec_horner horner_decimal)

lemma digits_prefix:
  assumes "rest = [] \<or> \<not> is_digit (hd rest)"
  shows "takeWhile is_digit (decimal n @ rest) = decimal n" "dropWhile is_digit (decimal n @ rest) = rest"
proof -
  have "\<forall>c \<in> set (decimal n). is_digit c" using decimal_digits [of n] by (simp add: list_all_iff)
  moreover have "takeWhile is_digit rest = []" "dropWhile is_digit rest = rest"
    using assms by (cases rest; auto)+
  ultimately show "takeWhile is_digit (decimal n @ rest) = decimal n" "dropWhile is_digit (decimal n @ rest) = rest"
    by (simp_all add: takeWhile_append2 dropWhile_append2)
qed

lemma not_digits [simp]: "\<not> is_digit (CHR '' '')" "\<not> is_digit (CHR ''x'')"
  by (simp_all add: is_digit_def)

definition starts_item :: "string \<Rightarrow> bool" where
  "starts_item s = (s = [] \<or> hd s = CHR '' '')"

lemma rle_item_text:
  assumes "starts_item rest"
  shows "rle_item (decimal v @ rest) = ((of_nat v, 1), rest)"
    "rle_item (decimal v @ CHR ''x'' # decimal r @ rest) = ((of_nat v, of_nat r), rest)"
proof -
  have r: "rest = [] \<or> \<not> is_digit (hd rest)" "rest \<noteq> [] \<Longrightarrow> hd rest \<noteq> CHR ''x''"
    using assms by (auto simp: starts_item_def)
  show "rle_item (decimal v @ rest) = ((of_nat v, 1), rest)"
    using r(2) by (auto simp: rle_item_def digits_prefix [OF r(1)] Let_def)
  show "rle_item (decimal v @ CHR ''x'' # decimal r @ rest) = ((of_nat v, of_nat r), rest)"
    using digits_prefix [of "CHR ''x'' # decimal r @ rest" v] digits_prefix [OF r(1), of r]
    by (simp add: rle_item_def Let_def)
qed

lemma decimal_hd: "decimal n = d # ds \<Longrightarrow> is_digit d"
  using decimal_digits [of n] by simp

lemma decimal_cons: "\<exists>d ds. decimal n = d # ds \<and> is_digit d"
  using decimal_nonempty [of n] decimal_hd by (cases "decimal n") auto

lemma read_item:
  assumes "starts_item rest" "r \<noteq> 0" "r < 2 ^ 32"
  shows "read_execcounts_from_string_internal (CHR '' '' # decimal v @ (if r = 1 then [] else CHR ''x'' # decimal r) @ rest) out =
    read_execcounts_from_string_internal rest (out @ replicate r (of_nat v))"
proof -
  let ?t = "decimal v @ (if r = 1 then [] else CHR ''x'' # decimal r) @ rest"
  obtain d ds where d: "decimal v = d # ds" "is_digit d" using decimal_cons by blast
  have sp: "dropWhile (\<lambda>ch. ch = CHR '' '') (CHR '' '' # ?t) = ?t" using d by auto
  have item: "rle_item ?t = ((of_nat v, of_nat r), rest)"
    using rle_item_text [OF assms(1)] by simp
  have "unat (of_nat r :: 32 word) = r" using assms(3) by (simp add: unat_of_nat_small)
  moreover from this have "(of_nat r :: 32 word) \<noteq> 0" using assms(2) by (metis unat_0)
  moreover have "?t \<noteq> []" "is_digit (hd ?t)" using d by simp_all
  ultimately show ?thesis
    unfolding read_execcounts_from_string_internal.simps [of "CHR '' '' # ?t"] Let_def sp item by simp
qed

lemma read_flush:
  assumes "starts_item rest" "r < 2 ^ 32" "unat c < 2 ^ 32"
  shows "read_execcounts_from_string_internal (rle_flush c r @ rest) out =
    read_execcounts_from_string_internal rest (out @ replicate r c)"
proof (cases "r = 0")
  case False
  have "of_nat (unat (ucast c :: 32 word)) = c"
    using assms(3) by (simp add: unsigned_ucast_eq take_bit_nat_eq_self)
  then show ?thesis
    using read_item [OF assms(1) False assms(2), of "unat (ucast c :: 32 word)" out] False
    by (cases "r = 1") (simp_all add: rle_flush_def)
qed (simp add: rle_flush_def)

lemma rle_print_starts: "starts_item (rle_print cs c r)"
  by (induction cs c r rule: rle_print.induct) (auto simp: starts_item_def rle_flush_def)

lemma read_rle_print:
  assumes "r + length cs < 2 ^ 32" "unat c < 2 ^ 32" "\<forall>n \<in> set cs. unat n < 2 ^ 32"
  shows "read_execcounts_from_string_internal (rle_print cs c r) out = Some (out @ replicate r c @ cs)"
  using assms
proof (induction cs c r arbitrary: out rule: rle_print.induct)
  case (1 c r)
  then show ?case using read_flush [of "[]" r c out]
    by (simp add: starts_item_def read_execcounts_from_string_internal.simps [of "[]"])
next
  case (2 n cs c r)
  show ?case
  proof (cases "c = n")
    case True
    then show ?thesis using "2.IH"(1) [OF True, of out] "2.prems" by (simp add: replicate_append_same [symmetric])
  next
    case False
    then show ?thesis
      using "2.IH"(2) [OF False, of "out @ replicate r c"] "2.prems" read_flush [OF rle_print_starts, of r c cs n 1 out]
      by simp
  qed
qed


lemma rle_print_text:
  "cs \<noteq> [] \<or> r \<noteq> 0 \<Longrightarrow> \<exists>d t. rle_print cs c r = CHR '' '' # d # t \<and> is_digit d"
proof (induction cs c r rule: rle_print.induct)
  case (1 c r)
  then show ?case using decimal_cons [of "unat (ucast c :: 32 word)"] by (auto simp: rle_flush_def)
next
  case (2 n cs c r)
  then show ?case using decimal_cons [of "unat (ucast c :: 32 word)"] by (auto simp: rle_flush_def)
qed

lemma takeWhile_all: "takeWhile (\<lambda>x. True) xs = xs"
  by (simp add: takeWhile_eq_all_conv)

lemma handle_dump_line:
  assumes "CHR '' '' \<notin> set nm" "is_digit d" "read_execcounts_from_string_internal (CHR '' '' # d # t) [] = Some counts"
    "counts \<noteq> []" "cbs CB_edfi_dump_stats_module"
  shows "handle_line cbs (''edfi_dump_stats_module name='' @ nm @ CHR '' '' # d # t) =
    Inr [Ev_edfi_dump_stats_module nm None (Some counts)]"
proof -
  have d: "d \<noteq> CHR ''m''" "d \<noteq> CHR ''n''" "d \<noteq> CHR '' ''" using assms(2) by (auto simp: is_digit_def)
  have nm: "takeWhile (\<lambda>ch. ch \<noteq> CHR '' '') (nm @ CHR '' '' # u) = nm"
    "dropWhile (\<lambda>ch. ch \<noteq> CHR '' '') (nm @ CHR '' '' # u) = CHR '' '' # u" for u
    using assms(1) by (induction nm) auto
  have "read_execcounts_from_string_internal (d # t) [] = Some counts"
    using assms(3) d(3)
    by (simp add: read_execcounts_from_string_internal.simps [of "CHR '' '' # d # t"] read_execcounts_from_string_internal.simps [of "d # t"])
  then show ?thesis
    using assms(4,5) d nm
    by (simp add: takeWhile_all handle_line_def logparse_line_patterns_def PATTERN_PARAM_COUNT_MAX_def guarded_def is_str_def str_of_def
        logparse_line_handler_edfi_dump_stats_module_def read_execcounts_from_string_def)
qed

lemma handle_hypermemlike_line:
  assumes "CHR '' '' \<notin> set nm" "counts \<noteq> []" "length counts < 2 ^ 32" "\<forall>n \<in> set counts. unat n < 2 ^ 32"
    "cbs CB_edfi_dump_stats_module"
  shows "handle_line cbs (hypermemlike_line nm counts) = Inr [Ev_edfi_dump_stats_module nm None (Some counts)]"
proof -
  obtain d t where t: "rle_print counts 0 0 = CHR '' '' # d # t" "is_digit d"
    using rle_print_text [of counts 0 0] assms(2) by blast
  have "read_execcounts_from_string_internal (rle_print counts 0 0) [] = Some counts"
    using read_rle_print [of 0 counts 0 "[]"] assms(3,4) by simp
  then have "read_execcounts_from_string_internal (CHR '' '' # d # t) [] = Some counts" by (simp only: t)
  from handle_dump_line [where cbs = cbs, OF assms(1) t(2) this assms(2) assms(5)] show ?thesis
    by (simp only: hypermemlike_line_def t)
qed


section \<open>Schedule of decisions\<close>

text \<open>
  A configuration without probability and without limits of time and number, that selects
  blocks by an interval between faults, by the number of a block, or by both.
\<close>

definition scheduled :: "edfi_context_conf_t \<Rightarrow> bool" where
  "scheduled k =
     (fault_prob_randmax k = 0 \<and> min_fault_time_interval k = 0 \<and> max_time k = 0 \<and> max_faults k = 0 \<and>
      - (2 ^ 31) \<le> min_fdp_interval k \<and> min_fdp_interval k < 2 ^ 31 \<and> dflib_path k = [] \<and>
      (min_fdp_interval k \<noteq> 0 \<or> faulty_bb_index k > 0))"

definition selects :: "edfi_context_conf_t \<Rightarrow> int \<Rightarrow> bool" where
  "selects k b = (faulty_bb_index k \<le> 0 \<or> b = faulty_bb_index k)"

definition waiting :: "edfi_context_t \<Rightarrow> bool" where
  "waiting x = (0 < min_fdp_interval (conf x) \<and> fault_fdp_count x < min_fdp_interval (conf x))"

lemma interval_word: "- (2 ^ 31) \<le> k \<Longrightarrow> k < 2 ^ 31 \<Longrightarrow> (of_int k :: 32 word) = 0 \<longleftrightarrow> k = 0"
  by (auto simp: word_of_int_eq_0_iff elim!: dvdE)

lemma through_long [simp]: "(ucast (ucast (w :: 32 word) :: 64 word) :: 32 word) = w"
  by (rule bit_word_eqI) (simp add: bit_ucast_iff)

lemma decide_scheduled:
  assumes "edfi_faultinjection_enabled s" "scheduled (edfi_conf s)"
  shows "\<exists>t. edfi_onfdp_decide e b s = Ret (\<not> waiting (edfi_context s) \<and> selects (edfi_conf s) b) t \<and>
    edfi_faultinjection_enabled t \<and>
    edfi_context t = (edfi_context s)\<lparr>fault_fdp_count :=
      (if waiting (edfi_context s) then fault_fdp_count (edfi_context s) + 1
       else if selects (edfi_conf s) b then 1 else fault_fdp_count (edfi_context s))\<rparr>"
  using assms interval_word [of "min_fdp_interval (edfi_conf s)"]
  by (auto simp: edfi_onfdp_decide_def check_or_return_def scheduled_def waiting_def selects_def Let_def
      edfi_onfdp_min_fdp_interval_def edfi_onfdp_min_fault_time_interval_def edfi_onfdp_fault_prob_def
      edfi_onfdp_bb_index_def edfi_onfdp_max_time_def edfi_onfdp_max_faults_def
      edfi_onfdp_min_fault_time_interval_update_def edfi_onfdp_min_fdp_interval_update_def)


lemma block_scheduled:
  assumes ok: "context_ok (edfi_context s)" "block_ok (edfi_context s) b"
    and on: "edfi_faultinjection_enabled s" "scheduled (edfi_conf s)"
  shows "\<exists>t. edfi_block e b s = Ret (\<not> waiting (edfi_context s) \<and> selects (edfi_conf s) b) t \<and>
    edfi_faultinjection_enabled t \<and> context_ok (edfi_context t) \<and>
    num_bbs (edfi_context t) = num_bbs (edfi_context s) \<and> edfi_conf t = edfi_conf s \<and>
    fault_fdp_count (edfi_context t) = (if waiting (edfi_context s) then fault_fdp_count (edfi_context s) + 1
       else if selects (edfi_conf s) b then 1 else fault_fdp_count (edfi_context s))"
proof -
  let ?s = "if EDFI_COUNT_ALL_BLOCKS e then s\<lparr>edfi_context := bump b (edfi_context s)\<rparr> else s"
  have s: "edfi_faultinjection_enabled ?s" "edfi_conf ?s = edfi_conf s" "num_bbs (edfi_context ?s) = num_bbs (edfi_context s)"
    "fault_fdp_count (edfi_context ?s) = fault_fdp_count (edfi_context s)" "context_ok (edfi_context ?s)"
    using on(1) ok(1) by auto
  have w: "waiting (edfi_context ?s) = waiting (edfi_context s)" using s by (simp add: waiting_def)
  obtain t where t: "edfi_onfdp_decide e b ?s = Ret (\<not> waiting (edfi_context s) \<and> selects (edfi_conf s) b) t"
    "edfi_faultinjection_enabled t" "edfi_context t = (edfi_context ?s)\<lparr>fault_fdp_count :=
      (if waiting (edfi_context s) then fault_fdp_count (edfi_context s) + 1
       else if selects (edfi_conf s) b then 1 else fault_fdp_count (edfi_context s))\<rparr>"
    using decide_scheduled [of ?s e b] s w on(2) by auto
  have okt: "context_ok (edfi_context t)" "block_ok (edfi_context t) b"
    using s(3,5) ok(2) unfolding t(3)
    by (simp_all add: block_ok_def context_ok_def EDFI_IS_OK_CONTEXT_def cong: option.case_cong)
  obtain u where u: "edfi_onfault_default e b t = Ret () (t\<lparr>edfi_context :=
      (if EDFI_COUNT_ALL_BLOCKS e then edfi_context t else bump b (edfi_context t))\<lparr>total_faults := u\<rparr>\<rparr>)"
    using onfault_ok [OF okt, of e] by auto
  have f: "num_bbs (edfi_context t) = num_bbs (edfi_context s)" "edfi_conf t = edfi_conf s"
    "fault_fdp_count (edfi_context t) = (if waiting (edfi_context s) then fault_fdp_count (edfi_context s) + 1
       else if selects (edfi_conf s) b then 1 else fault_fdp_count (edfi_context s))"
    using s(2,3) unfolding t(3) by simp_all
  have "edfi_onfdp_default e b s = Ret (\<not> waiting (edfi_context s) \<and> selects (edfi_conf s) b) t"
    using t(1) count_block_ok [OF ok] by (simp add: edfi_onfdp_default_def split: if_splits)
  then show ?thesis using t(2) u f okt(1)
    by (cases "\<not> waiting (edfi_context s) \<and> selects (edfi_conf s) b") (simp_all add: edfi_block_def)
qed

lemma blocks_scheduled:
  assumes "context_ok (edfi_context s)" "\<forall>b \<in> set bs. block_ok (edfi_context s) b"
    "edfi_faultinjection_enabled s" "scheduled (edfi_conf s)" "n = min_fdp_interval (edfi_conf s)"
    "0 < n \<or> n \<le> fault_fdp_count (edfi_context s)"
  shows "\<exists>ds t. edfi_blocks e bs s = Ret ds t \<and> length ds = length bs \<and>
    (\<forall>i < length bs. ds ! i \<longleftrightarrow> selects (edfi_conf s) (bs ! i) \<and> n \<le> fault_fdp_count (edfi_context s) + int i \<and>
      (\<forall>j < i. ds ! j \<longrightarrow> n \<le> int i - int j))"
  using assms
proof (induction bs arbitrary: s)
  case (Cons b bs)
  let ?k = "fault_fdp_count (edfi_context s)" and ?w = "waiting (edfi_context s)"
  obtain t where t: "edfi_block e b s = Ret (\<not> ?w \<and> selects (edfi_conf s) b) t"
    "edfi_faultinjection_enabled t" "context_ok (edfi_context t)"
    "num_bbs (edfi_context t) = num_bbs (edfi_context s)" "edfi_conf t = edfi_conf s"
    "fault_fdp_count (edfi_context t) = (if ?w then ?k + 1 else if selects (edfi_conf s) b then 1 else ?k)"
    using block_scheduled [OF Cons.prems(1) _ Cons.prems(3,4)] Cons.prems(2) by (meson list.set_intros(1))
  have w: "?w \<longleftrightarrow> ?k < n" using Cons.prems(5,6) by (auto simp: waiting_def)
  have "\<forall>b \<in> set bs. block_ok (edfi_context t) b" using Cons.prems(2) t(4) by (simp add: block_ok_def)
  moreover have "0 < n \<or> n \<le> fault_fdp_count (edfi_context t)" using t(6) w Cons.prems(6) by (auto split: if_splits)
  moreover have "scheduled (edfi_conf t)" "n = min_fdp_interval (edfi_conf t)" using t(5) Cons.prems(4,5) by simp_all
  ultimately obtain ds u where u: "edfi_blocks e bs t = Ret ds u" "length ds = length bs"
    "\<And>i. i < length bs \<Longrightarrow> ds ! i \<longleftrightarrow> selects (edfi_conf s) (bs ! i) \<and> n \<le> fault_fdp_count (edfi_context t) + int i \<and>
      (\<forall>j < i. ds ! j \<longrightarrow> n \<le> int i - int j)"
    using Cons.IH [OF t(3) _ t(2)] t(5) by auto
  have "(d # ds) ! i \<longleftrightarrow> selects (edfi_conf s) ((b # bs) ! i) \<and> n \<le> ?k + int i \<and>
      (\<forall>j < i. (d # ds) ! j \<longrightarrow> n \<le> int i - int j)"
    if i: "i < Suc (length bs)" and d: "d = (\<not> ?w \<and> selects (edfi_conf s) b)" for i d
  proof (cases i)
    case 0
    then show ?thesis using d w by auto
  next
    case (Suc m)
    then show ?thesis using u(3) [of m] i d w t(6) by (auto simp: less_Suc_eq_0_disj split: if_splits)
  qed
  with t(1) u(1,2) show ?case by simp
qed simp


section \<open>From the start of the program to the end of its run\<close>

lemma ctl_init_ok:
  assumes "context_ok (edfi_context s)"
  shows "\<exists>t. edfi_ctl_init e s = Ret () t \<and> context_ok (edfi_context t) \<and>
    num_bbs (edfi_context t) = num_bbs (edfi_context s) \<and>
    block_counts (edfi_context t) = replicate (unat (num_bbs (edfi_context s))) 0"
proof -
  obtain counts where c: "bb_num_executions (edfi_context s) = Some counts"
    "length counts = unat (num_bbs (edfi_context s)) + 2" using assms by (rule context_okD)
  have o: "overwrite counts 0 (ucast EDFI_CANARY_VALUE # replicate (unat (num_bbs (edfi_context s))) 0 @ [ucast EDFI_CANARY_VALUE])
      = ucast EDFI_CANARY_VALUE # replicate (unat (num_bbs (edfi_context s))) 0 @ [ucast EDFI_CANARY_VALUE]"
    using c(2) by (simp add: overwrite_def)
  show ?thesis
    using assms c by (auto simp: edfi_ctl_init_def edfi_ctl_context_init_def edfi_srand_def Let_def o context_ok_def
        EDFI_IS_OK_CONTEXT_def block_counts_def)
qed

lemma start_ok:
  assumes "dflib_path (conf x) = []"
  shows "fst (edfi_start e (Some x) s) = 0"
    "edfi_context (snd (edfi_start e (Some x) s)) = (edfi_context s)\<lparr>conf := conf x,
       fault_fdp_count := min_fdp_interval (conf x), start_time := 1000 * tsc_micros e (clock_reads s)\<rparr>"
    "edfi_faultinjection_enabled (snd (edfi_start e (Some x) s))"
    "clock_reads (snd (edfi_start e (Some x) s)) = Suc (clock_reads s)"
  using assms by (simp_all add: edfi_start_def edfi_update_context_def edfi_srand_def edfi_print_def
      edfi_onstart_default_def edfi_getcurrtime_ns_def Let_def)

lemma context_ok_start [simp]:
  "context_ok (x\<lparr>conf := k, fault_fdp_count := c, start_time := t\<rparr>) = context_ok x"
  by (simp add: context_ok_def EDFI_IS_OK_CONTEXT_def cong: option.case_cong)

lemma blocks_disabled:
  assumes "context_ok (edfi_context s)" "\<forall>b \<in> set bs. block_ok (edfi_context s) b" "\<not> edfi_faultinjection_enabled s"
  shows "\<exists>t. edfi_blocks e bs s = Ret (replicate (length bs) False) t \<and> \<not> edfi_faultinjection_enabled t"
  using assms
proof (induction bs arbitrary: s)
  case (Cons b bs)
  let ?t = "if EDFI_COUNT_ALL_BLOCKS e then s\<lparr>edfi_context := bump b (edfi_context s)\<rparr> else s"
  have "edfi_block e b s = Ret False ?t"
    using Cons.prems count_block_ok [of s b] by (simp add: edfi_block_def edfi_onfdp_default_def edfi_onfdp_decide_def)
  moreover have "\<exists>u. edfi_blocks e bs ?t = Ret (replicate (length bs) False) u \<and> \<not> edfi_faultinjection_enabled u"
    using Cons.prems by (intro Cons.IH) (auto simp: block_ok_def)
  ultimately show ?case by auto
qed simp

lemma count_list_le: "count_list xs x \<le> length xs"
  by (induction xs) auto

lemma cut_at_sign_none: "CHR ''@'' \<notin> set nm \<Longrightarrow> cut_at_sign nm = None"
  by (induction nm) auto

lemma stop_prints:
  assumes "context_ok (edfi_context s)" "EDFI_PRINT_HYPERMEMLIKE_STATS e"
  shows "\<exists>t. edfi_stop e s = Ret () t \<and> edfi_output t \<noteq> [] \<and>
    last (edfi_output t) = Stat_text (hypermemlike_line (edfi_module_name e) (block_counts (edfi_context s)) @ [CHR 0x0A])"
  using print_stats_ok [of "s\<lparr>edfi_faultinjection_enabled := False,
       edfi_faultinjection_enabled_version := edfi_faultinjection_enabled_version s + 1\<rparr>" e] assms
  by (auto simp: edfi_stop_def edfi_onstop_default_def edfi_print_def)


lemma hypermemlike_message:
  assumes "NUL \<notin> set nm" "CHR 0x0A \<notin> set nm"
  shows "message_ok (hypermemlike_line nm counts)"
proof -
  have "\<not> is_digit (CHR 0x0A)" by (simp add: is_digit_def)
  then have d: "CHR 0x0A \<notin> set (decimal n)" for n
    using decimal_digits [of n] by (auto simp: list_all_iff)
  have "NUL \<notin> set (rle_print cs c r) \<and> CHR 0x0A \<notin> set (rle_print cs c r)" for cs c r
    by (induction cs c r rule: rle_print.induct) (simp_all add: rle_flush_def d)
  with assms show ?thesis by (auto simp: message_ok_def hypermemlike_line_def)
qed

lemma load_dump_line:
  assumes "CHR '' '' \<notin> set nm" "CHR ''@'' \<notin> set nm" "NUL \<notin> set nm" "CHR 0x0A \<notin> set nm"
    "counts \<noteq> []" "length counts < 2 ^ 32" "\<forall>n \<in> set counts. unat n < 2 ^ 32" "stamp_ok st"
  shows "execcounts_load_from_log mktime (log_text [(st, hypermemlike_line nm counts)]) =
    Inr [\<lparr>ec_name = nm, ec_bbs = counts\<rparr>]"
proof -
  have "handle_line (\<lambda>cb. cb = CB_edfi_dump_stats_module) (hypermemlike_line nm counts) =
      Inr [Ev_edfi_dump_stats_module nm None (Some counts)]"
    by (rule handle_hypermemlike_line [OF assms(1,5,6,7)]) simp
  moreover have "logparse_from_file mktime (\<lambda>cb. cb = CB_edfi_dump_stats_module) (log_text [(st, hypermemlike_line nm counts)]) =
      log_events mktime (\<lambda>cb. cb = CB_edfi_dump_stats_module) 1 [(st, hypermemlike_line nm counts)]"
    using assms(8) hypermemlike_message [OF assms(3,4)] by (intro from_file_log) simp
  ultimately show ?thesis
    using cut_at_sign_none [OF assms(2)]
    by (simp add: execcounts_load_from_log_def execcount_event_def edfi_dump_stats_module_def)
qed

lemma decide_within_limit:
  assumes "edfi_faultinjection_enabled s" "context_ok (edfi_context s)"
    and "max_time (edfi_conf s) \<noteq> 0" "fault_prob_randmax (edfi_conf s) = 0" "min_fault_time_interval (edfi_conf s) = 0"
    "selects (edfi_conf s) b" "\<not> waiting (edfi_context s)"
    and "1000 * tsc_micros e (clock_reads s) \<le> start_time (edfi_context s) + ucast (max_time (edfi_conf s))"
  shows "\<exists>t. edfi_onfdp_decide e b s = Ret False t \<and> \<not> edfi_faultinjection_enabled t \<and>
    context_ok (edfi_context t) \<and> num_bbs (edfi_context t) = num_bbs (edfi_context s)"
proof -
  define v where "v = s\<lparr>edfi_last_fault_time := 0, edfi_onfdp_count :=
      (if faulty_bb_index (edfi_conf s) > 0 then 1 else of_int (min_fdp_interval (edfi_conf s))),
    clock_reads := Suc (clock_reads s)\<rparr>"
  obtain t where t: "edfi_stop e v = Ret () t" "edfi_context t = edfi_context v" "\<not> edfi_faultinjection_enabled t"
    using stop_moved [of v e] assms(2) by (auto simp: v_def)
  have "edfi_onfdp_decide e b s = obind (edfi_stop e v) (\<lambda>_ s. Ret False s)"
    using assms unfolding v_def
    by (auto simp: edfi_onfdp_decide_def check_or_return_def waiting_def selects_def Let_def word_gt_0
        edfi_onfdp_min_fdp_interval_def edfi_onfdp_min_fault_time_interval_def edfi_onfdp_fault_prob_def
        edfi_onfdp_bb_index_def edfi_onfdp_max_time_def edfi_getcurrtime_ns_def mult.commute obind_assoc)
  with t assms(2) show ?thesis by (simp add: v_def)
qed

section \<open>Properties\<close>

text \<open>
  C8 (roundtrip): what a program executes is what the analysis counts. After the initialisation, run any
  sequence of instrumented blocks in a build that counts all blocks and stop: the last thing
  printed is a line which, put into a log with a time stamp, the log reader turns into one
  entry with the name of the module and, for every block, the number of times it was executed.
\<close>
theorem executed_blocks_reach_analysis:
  assumes "context_ok (edfi_context s)" "num_bbs (edfi_context s) \<noteq> 0" "\<forall>b \<in> set bs. block_ok (edfi_context s) b"
    and "EDFI_COUNT_ALL_BLOCKS e" "EDFI_PRINT_HYPERMEMLIKE_STATS e" "length bs < 2 ^ 32" "stamp_ok st"
    and "{CHR '' '', CHR ''@'', NUL, CHR 0x0A} \<inter> set (edfi_module_name e) = {}"
  shows "\<exists>s\<^sub>1 ds s\<^sub>2 s\<^sub>3 l. edfi_ctl_init e s = Ret () s\<^sub>1 \<and> edfi_blocks e bs s\<^sub>1 = Ret ds s\<^sub>2 \<and> edfi_stop e s\<^sub>2 = Ret () s\<^sub>3 \<and>
    edfi_output s\<^sub>3 \<noteq> [] \<and> last (edfi_output s\<^sub>3) = Stat_text (l @ [CHR 0x0A]) \<and>
    execcounts_load_from_log mktime (log_text [(st, l)]) = Inr [\<lparr>ec_name = edfi_module_name e,
      ec_bbs = map (\<lambda>i. of_nat (count_list bs (int i))) [1..<Suc (unat (num_bbs (edfi_context s)))]\<rparr>]"
proof -
  let ?n = "unat (num_bbs (edfi_context s))"
  let ?counts = "map (\<lambda>i. of_nat (count_list bs (int i)) :: 64 word) [1..<Suc ?n]"
  obtain s1 where s1: "edfi_ctl_init e s = Ret () s1" "context_ok (edfi_context s1)"
    "num_bbs (edfi_context s1) = num_bbs (edfi_context s)" "block_counts (edfi_context s1) = replicate ?n 0"
    using ctl_init_ok [OF assms(1), of e] by blast
  have "\<forall>b \<in> set bs. block_ok (edfi_context s1) b" using assms(3) s1(3) by (simp add: block_ok_def)
  from blocks_block_counts [OF s1(2) this assms(4), unfolded s1(3,4)]
  obtain ds s2 where s2: "edfi_blocks e bs s1 = Ret ds s2" "context_ok (edfi_context s2)"
    "num_bbs (edfi_context s2) = num_bbs (edfi_context s)" "block_counts (edfi_context s2) =
      map (\<lambda>i. replicate ?n 0 ! i + of_nat (count_list bs (int (Suc i)))) [0..<?n]"
    by blast
  have counts: "block_counts (edfi_context s2) = ?counts"
    unfolding s2(4) by (rule nth_equalityI) (auto simp del: upt_Suc)
  obtain s3 where s3: "edfi_stop e s2 = Ret () s3" "edfi_output s3 \<noteq> []"
    "last (edfi_output s3) = Stat_text (hypermemlike_line (edfi_module_name e) ?counts @ [CHR 0x0A])"
    using stop_prints [OF s2(2) assms(5)] counts by auto
  have "unat (of_nat (count_list bs b) :: 64 word) < 2 ^ 32" for b
  proof -
    have "unat (of_nat (count_list bs b) :: 64 word) \<le> count_list bs b" by (simp add: unat_of_nat)
    with count_list_le [of bs b] assms(6) show ?thesis by linarith
  qed
  moreover have "0 < ?n" "?n < 2 ^ 32" using assms(2) unat_addr_bound by (auto simp: unat_gt_0)
  ultimately have "execcounts_load_from_log mktime (log_text [(st, hypermemlike_line (edfi_module_name e) ?counts)]) =
      Inr [\<lparr>ec_name = edfi_module_name e, ec_bbs = ?counts\<rparr>]"
    using assms(7,8) by (intro load_dump_line) auto
  with s1(1) s2(1) s3 show ?thesis by blast
qed


definition ex_conf :: edfi_context_conf_t where
  "ex_conf = \<lparr>fault_prob_randmax = 0, min_fdp_interval = 2, faulty_bb_index = 0, min_fault_time_interval = 0,
     max_time = 0, max_faults = 0, rand_seed = 123, dflib_path = []\<rparr>"

definition ex_context :: edfi_context_t where
  "ex_context = \<lparr>canary_value1 = EDFI_CANARY_VALUE, fault_fdp_count = 0, fault_time = 0, start_time = 0, total_faults = 0,
     fault_types = [\<lparr>ft_name = ''swap'', bb_num_injected = [1, 0], bb_num_candidates = [2, 1]\<rparr>],
     bb_num_executions = Some [0, 0, 0, 0], bb_num_faults = [1, 0], num_bbs = 2, num_fault_types = 1,
     conf = ex_conf, canary_value2 = EDFI_CANARY_VALUE\<rparr>"

definition ex_edfi :: edfi_state where
  "ex_edfi = \<lparr>edfi_onfdp_count = 0, edfi_faultinjection_enabled = False, edfi_faultinjection_enabled_version = 0,
     edfi_last_fault_time = 0, edfi_context = ex_context, edfi_rand_next = 1, clock_reads = 0, edfi_output = []\<rparr>"

definition ex_edfi_env :: edfi_env where
  "ex_edfi_env = \<lparr>EDFI_COUNT_ALL_BLOCKS = True, EDFI_ENABLE_INJECTION_ON_START = False, EDFI_PRINT_HYPERMEMLIKE_STATS = True,
     edfi_module_name = ''pm'', tsc_micros = of_nat, EDFI_RAND_LIMIT = 0x7FFFFFFF, ENOSYS_errno = -71, sizeof_edfi_context = 624\<rparr>"

lemma ex_context_ok: "context_ok ex_context"
  by (simp add: context_ok_def ex_context_def EDFI_IS_OK_CONTEXT_def)

lemma ex_block_ok: "block_ok ex_context 1" "block_ok ex_context 2"
  by (simp_all add: block_ok_def ex_context_def)

lemma ex_edfi_context [simp]: "edfi_context ex_edfi = ex_context" "num_bbs ex_context = 2"
  by (simp_all add: ex_edfi_def ex_context_def)

theorem executed_blocks_reach_analysis_witness:
  "\<exists>s\<^sub>1 ds s\<^sub>2 s\<^sub>3 l. edfi_ctl_init ex_edfi_env ex_edfi = Ret () s\<^sub>1 \<and> edfi_blocks ex_edfi_env [2, 1, 2] s\<^sub>1 = Ret ds s\<^sub>2 \<and>
    edfi_stop ex_edfi_env s\<^sub>2 = Ret () s\<^sub>3 \<and> edfi_output s\<^sub>3 \<noteq> [] \<and> last (edfi_output s\<^sub>3) = Stat_text (l @ [CHR 0x0A]) \<and>
    execcounts_load_from_log (\<lambda>t. 0) (log_text [(ex_stamp, l)]) = Inr [\<lparr>ec_name = ''pm'', ec_bbs = [1, 2]\<rparr>]"
proof -
  have "map (\<lambda>i. of_nat (count_list [2, 1, 2] (int i)) :: 64 word) [1..<Suc (unat (2 :: 32 word))] = [1, 2]"
    by (simp add: upt_rec)
  moreover have "EDFI_COUNT_ALL_BLOCKS ex_edfi_env" "EDFI_PRINT_HYPERMEMLIKE_STATS ex_edfi_env" "edfi_module_name ex_edfi_env = ''pm''"
    by (simp_all add: ex_edfi_env_def)
  moreover have "stamp_ok ex_stamp" by (simp add: ex_stamp_def stamp_ok_def)
  moreover have "context_ok (edfi_context ex_edfi)" "num_bbs (edfi_context ex_edfi) = 2"
    "\<forall>b \<in> set [2, 1, 2]. block_ok (edfi_context ex_edfi) b" using ex_context_ok ex_block_ok by simp_all
  moreover have "num_bbs (edfi_context ex_edfi) \<noteq> 0" "length [2, 1, 2 :: int] < 2 ^ 32"
    "{CHR '' '', CHR ''@'', NUL, CHR 0x0A} \<inter> set ''pm'' = {}" by simp_all
  ultimately show ?thesis
    using executed_blocks_reach_analysis [of ex_edfi "[2, 1, 2]" ex_edfi_env ex_stamp "\<lambda>t. 0"] by (simp only: simp_thms)
qed

text \<open>
  C9 (refinement): after a start with a configuration that selects blocks by an interval, by a
  block number or by both, the runtime makes a fault at exactly those executed blocks that
  are selected and for which no fault was made at any of the previous blocks of the interval.
\<close>
theorem decisions_follow_schedule:
  assumes "context_ok (edfi_context s)" "\<forall>b \<in> set bs. block_ok (edfi_context s) b" "scheduled (conf x)"
  shows "\<exists>ds t. edfi_blocks e bs (snd (edfi_start e (Some x) s)) = Ret ds t \<and> length ds = length bs \<and>
    (\<forall>i < length bs. ds ! i \<longleftrightarrow> selects (conf x) (bs ! i) \<and>
      (\<forall>j < i. ds ! j \<longrightarrow> min_fdp_interval (conf x) \<le> int i - int j))"
proof -
  have p: "dflib_path (conf x) = []" using assms(3) by (simp add: scheduled_def)
  let ?t = "snd (edfi_start e (Some x) s)"
  note st = start_ok [OF p, of e s]
  have "edfi_conf ?t = conf x" "num_bbs (edfi_context ?t) = num_bbs (edfi_context s)" "context_ok (edfi_context ?t)"
    and k: "fault_fdp_count (edfi_context ?t) = min_fdp_interval (conf x)"
    unfolding st(2) using assms(1) by simp_all
  moreover from this have "\<forall>b \<in> set bs. block_ok (edfi_context ?t) b" using assms(2) by (simp add: block_ok_def)
  ultimately obtain ds t where "edfi_blocks e bs ?t = Ret ds t" "length ds = length bs"
    "\<forall>i < length bs. ds ! i \<longleftrightarrow> selects (conf x) (bs ! i) \<and> min_fdp_interval (conf x) \<le> min_fdp_interval (conf x) + int i \<and>
      (\<forall>j < i. ds ! j \<longrightarrow> min_fdp_interval (conf x) \<le> int i - int j)"
    using blocks_scheduled [of ?t bs "min_fdp_interval (conf x)" e] st(3) assms(3) by (metis order_refl)
  then show ?thesis by auto
qed

theorem decisions_follow_schedule_witness:
  "\<exists>t. edfi_blocks ex_edfi_env [1, 2, 1] (snd (edfi_start ex_edfi_env (Some ex_context) ex_edfi)) = Ret [True, False, True] t"
proof -
  have "scheduled (conf ex_context)" by (simp add: scheduled_def ex_context_def ex_conf_def)
  then obtain ds t where d: "edfi_blocks ex_edfi_env [1, 2, 1] (snd (edfi_start ex_edfi_env (Some ex_context) ex_edfi)) = Ret ds t"
    "length ds = 3" "\<forall>i < 3. ds ! i \<longleftrightarrow> selects (conf ex_context) ([1, 2, 1] ! i) \<and>
      (\<forall>j < i. ds ! j \<longrightarrow> min_fdp_interval (conf ex_context) \<le> int i - int j)"
    using decisions_follow_schedule [of ex_edfi "[1, 2, 1]" ex_context ex_edfi_env] ex_context_ok ex_block_ok by auto
  have "selects (conf ex_context) b" "min_fdp_interval (conf ex_context) = 2" for b
    by (simp_all add: selects_def ex_context_def ex_conf_def)
  then have "ds ! 0" "\<not> ds ! 1" "ds ! 2" using d(3) by (force simp: less_Suc_eq numeral_3_eq_3 numeral_2_eq_2)+
  moreover have "ds = [ds ! 0, ds ! 1, ds ! 2]"
    using d(2) by (intro nth_equalityI) (auto simp: less_Suc_eq numeral_3_eq_3 numeral_2_eq_2)
  ultimately have "ds = [True, False, True]" by simp
  with d(1) show ?thesis by simp
qed


text \<open>
  C37 (error): the test of the time limit is inverted. With a limit set, the first selected block
  that runs within the limit ends the injection, so that no fault is ever made.
\<close>
theorem time_limit_stops_at_once:
  assumes "context_ok (edfi_context s)" "\<forall>b \<in> set (b # bs). block_ok (edfi_context s) b"
    and "max_time (conf x) \<noteq> 0" "fault_prob_randmax (conf x) = 0" "min_fault_time_interval (conf x) = 0"
    "dflib_path (conf x) = []" "selects (conf x) b"
    and "1000 * tsc_micros e (Suc (clock_reads s)) \<le> 1000 * tsc_micros e (clock_reads s) + ucast (max_time (conf x))"
  shows "\<exists>t. edfi_blocks e (b # bs) (snd (edfi_start e (Some x) s)) = Ret (False # replicate (length bs) False) t \<and>
    \<not> edfi_faultinjection_enabled t"
proof -
  let ?t = "snd (edfi_start e (Some x) s)"
  let ?u = "if EDFI_COUNT_ALL_BLOCKS e then ?t\<lparr>edfi_context := bump b (edfi_context ?t)\<rparr> else ?t"
  note st = start_ok [OF assms(6), of e s]
  have t: "edfi_conf ?t = conf x" "num_bbs (edfi_context ?t) = num_bbs (edfi_context s)" "context_ok (edfi_context ?t)"
    "fault_fdp_count (edfi_context ?t) = min_fdp_interval (conf x)"
    "start_time (edfi_context ?t) = 1000 * tsc_micros e (clock_reads s)"
    unfolding st(2) using assms(1) by simp_all
  have u: "edfi_conf ?u = conf x" "edfi_faultinjection_enabled ?u" "context_ok (edfi_context ?u)"
    "fault_fdp_count (edfi_context ?u) = min_fdp_interval (conf x)"
    "start_time (edfi_context ?u) = 1000 * tsc_micros e (clock_reads s)" "clock_reads ?u = Suc (clock_reads s)"
    "num_bbs (edfi_context ?u) = num_bbs (edfi_context s)"
    using t st(3,4) by simp_all
  have w: "\<not> waiting (edfi_context ?u)" "selects (edfi_conf ?u) b" using u(1,4) assms(7) by (simp_all add: waiting_def)
  obtain v where v: "edfi_onfdp_decide e b ?u = Ret False v" "\<not> edfi_faultinjection_enabled v" "context_ok (edfi_context v)"
    "num_bbs (edfi_context v) = num_bbs (edfi_context s)"
    using decide_within_limit [OF u(2,3) _ _ _ w(2,1), of e] assms(3-5,8) u by auto
  have ok: "block_ok (edfi_context ?t) b" "\<forall>b \<in> set bs. block_ok (edfi_context v) b"
    using assms(2) t(2) v(4) by (simp_all add: block_ok_def)
  have "edfi_onfdp_default e b ?t = Ret False v"
    using v(1) count_block_ok [OF t(3) ok(1)] by (simp add: edfi_onfdp_default_def split: if_splits)
  then have "edfi_block e b ?t = Ret False v" by (simp add: edfi_block_def)
  with blocks_disabled [OF v(3) ok(2) v(2), of e] show ?thesis by auto
qed


theorem time_limit_stops_at_once_witness:
  "\<exists>t. edfi_blocks ex_edfi_env [1, 2, 1] (snd (edfi_start ex_edfi_env (Some (ex_context\<lparr>conf := ex_conf\<lparr>max_time := 5000\<rparr>\<rparr>)) ex_edfi)) =
    Ret [False, False, False] t \<and> \<not> edfi_faultinjection_enabled t"
proof -
  have "replicate (length [2, 1 :: int]) False = [False, False]" by simp
  moreover have "1000 * tsc_micros ex_edfi_env (Suc (clock_reads ex_edfi)) \<le>
      1000 * tsc_micros ex_edfi_env (clock_reads ex_edfi) + ucast (max_time (ex_conf\<lparr>max_time := 5000\<rparr>))"
    by (simp add: ex_edfi_env_def ex_edfi_def)
  ultimately show ?thesis
    using time_limit_stops_at_once [of ex_edfi 1 "[2, 1]" "ex_context\<lparr>conf := ex_conf\<lparr>max_time := 5000\<rparr>\<rparr>" ex_edfi_env]
      ex_context_ok ex_block_ok by (simp add: ex_conf_def selects_def)
qed

end
