(* ===== verification/Messages.thy ===== *)
theory Messages
  imports Writelog Edfi
begin

text \<open>
  The messages of the recovery runtime as the log reader understands them. The virtual machine
  monitor writes a printed string to the log behind the word print; the theory shows which
  callback of the reader every message of the runtime ends in.
\<close>

section \<open>Recovery lines\<close>

text \<open>What the client of the log learns from a printed text.\<close>

definition understood :: "string \<Rightarrow> log_event \<Rightarrow> bool" where
  "understood t e = (handle_line (\<lambda>cb. True) (''print '' @ t) = Inr [e])"

definition recovery_prefix :: string where
  "recovery_prefix = ''ltckpt recovery: ''"

text \<open>The part of the table about recovery, without the prefix that its patterns share.\<close>

definition recovery_patterns :: "(handler \<times> string) list" where
  "recovery_patterns =
     [(logparse_line_handler_print_ltckpt_closed_ipc, ''window closed: ltckpt_set_fail_stop_recovery; module=*''),
      (logparse_line_handler_print_ltckpt_closed_ipc_callsites, ''window closed # times from # callsite(s): *; module=*''),
      (logparse_line_handler_print_ltckpt_closed_unknown, ''window closed: reason unknown; module=*''),
      (logparse_line_handler_print_ltckpt_closed_writelog_full, ''window closed: writelog full; module=*''),
      (logparse_line_handler_print_ltckpt_failed, ''failed: bad ltckpt_is_message_replyable result; module=*''),
      (logparse_line_handler_print_ltckpt_failed, ''failed: havent handled message; module=*''),
      (logparse_line_handler_print_ltckpt_failed_idempotent, ''failed: idempotent: couldn'' @ [CHR 0x27] @ ''t send error message; module=*''),
      (logparse_line_handler_print_ltckpt_failed_idempotent, ''failed: idempotent: sef_get_current_message() not available; module=*''),
      (logparse_line_handler_print_ltckpt_failed_idempotent, ''failed: idempotent: unable to fetch last handled message; module=*''),
      (logparse_line_handler_print_ltckpt_failed_idempotent, ''failed: idempotent: unreplyable request; module=*''),
      (logparse_line_handler_print_ltckpt_failed, ''failed: invalid g_recovery_bitmask bitmask; module=*''),
      (logparse_line_handler_print_ltckpt_failed_message, ''failed: non-replyable message: #; module=*''),
      (logparse_line_handler_print_ltckpt_failed_process_specific, ''failed: process_specific: error in figuring out whether source was user process; module=*''),
      (logparse_line_handler_print_ltckpt_failed_process_specific, ''failed: process_specific: unable to fetch last handled message; module=*''),
      (logparse_line_handler_print_ltckpt_failed_process_specific, ''failed: process_specific: unable to find necessary sef_llvm method; module=*''),
      (logparse_line_handler_print_ltckpt_failed_process_specific, ''failed: process_specific: unable to kill user process; module=*''),
      (logparse_line_handler_print_ltckpt_failed_process_specific, ''failed: process_specific: unable to send reply; module=*''),
      (logparse_line_handler_print_ltckpt_failed_writelog, ''failed: writelog: identity state transfer failed; module=*''),
      (logparse_line_handler_print_ltckpt_failed_writelog, ''failed: writelog: sys_safecopyfrom addr failed; module=*''),
      (logparse_line_handler_print_ltckpt_failed_writelog, ''failed: writelog: sys_safecopyfrom region failed; module=*''),
      (logparse_line_handler_print_ltckpt_failed_writelog, ''failed: writelog: sys_safecopyto failed; module=*''),
      (logparse_line_handler_print_ltckpt_shutdown, ''shutdown; module=*''),
      (logparse_line_handler_print_ltckpt_shutdown_failstop, ''shutdown: fail_stop; module=*''),
      (logparse_line_handler_print_ltckpt_start, ''start recovery attempt; module=*''),
      (logparse_line_handler_print_ltckpt_start_writelog, ''start: writelog; module=*''),
      (logparse_line_handler_print_ltckpt_success_idempotent, ''success: idempotent; module=*''),
      (logparse_line_handler_print_ltckpt_success_process_specific, ''success: killed user process; module=*''),
      (logparse_line_handler_print_ltckpt_success_service_fi, ''success: RS_FI_CUSTOM; module=*''),
      (logparse_line_handler_print_ltckpt_success_process_specific, ''success: user process is invalid; module=*''),
      (logparse_line_handler_print_ltckpt_success_writelog, ''success: writelog: # log entries, # stack entries; module=*'')]"

lemma patterns_match_append:
  "\<forall>(h, p) \<in> set pre. pattern_match line p [] = Inr None \<Longrightarrow> patterns_match (pre @ post) line = patterns_match post line"
  by (induction pre) auto

lemma recovery_part:
  "logparse_line_patterns = take 52 logparse_line_patterns @
     map (\<lambda>(h, p). (h, ''print ltckpt recovery: '' @ p)) recovery_patterns"
  by (simp add: logparse_line_patterns_def recovery_patterns_def)

lemma other_patterns:
  "\<forall>(h, p) \<in> set (take 52 logparse_line_patterns). pattern_match (''print ltckpt recovery: '' @ y) p [] = Inr None"
  by (simp add: logparse_line_patterns_def)

lemma recovery_patterns_match:
  "patterns_match (map (\<lambda>(h, p). (h, ''print ltckpt recovery: '' @ p)) table) (''print ltckpt recovery: '' @ y) =
   patterns_match table y"
  by (induction table) (auto cong: option.case_cong)

lemma understood_recovery:
  "understood (recovery_prefix @ y) e \<longleftrightarrow>
   ebind (patterns_match recovery_patterns y) (\<lambda>r. case r of None \<Rightarrow> Inr [] | Some (h, ps) \<Rightarrow> h (\<lambda>cb. True) ps) = Inr [e]"
proof -
  have "patterns_match logparse_line_patterns (''print ltckpt recovery: '' @ y) = patterns_match recovery_patterns y"
    by (subst recovery_part) (simp only: patterns_match_append [OF other_patterns] recovery_patterns_match)
  then show ?thesis by (simp add: understood_def handle_line_def recovery_prefix_def)
qed


text \<open>The messages without parameters, without the prefix, and the callbacks they stand for.\<close>

definition fixed_messages :: "(string \<times> (string \<Rightarrow> log_event)) list" where
  "fixed_messages =
     [(''window closed: ltckpt_set_fail_stop_recovery'', Ev_print_ltckpt_closed lcr_ipc),
      (''window closed: reason unknown'', Ev_print_ltckpt_closed lcr_unknown),
      (''window closed: writelog full'', Ev_print_ltckpt_closed lcr_writelog_full),
      (''failed: bad ltckpt_is_message_replyable result'', Ev_print_ltckpt ls_failure lm_generic),
      (''failed: havent handled message'', Ev_print_ltckpt ls_failure lm_generic),
      (''failed: idempotent: couldn'' @ [CHR 0x27] @ ''t send error message'', Ev_print_ltckpt ls_failure lm_idempotent),
      (''failed: idempotent: sef_get_current_message() not available'', Ev_print_ltckpt ls_failure lm_idempotent),
      (''failed: idempotent: unable to fetch last handled message'', Ev_print_ltckpt ls_failure lm_idempotent),
      (''failed: idempotent: unreplyable request'', Ev_print_ltckpt ls_failure lm_idempotent),
      (''failed: invalid g_recovery_bitmask bitmask'', Ev_print_ltckpt ls_failure lm_generic),
      (''failed: process_specific: error in figuring out whether source was user process'', Ev_print_ltckpt ls_failure lm_process_specific),
      (''failed: process_specific: unable to fetch last handled message'', Ev_print_ltckpt ls_failure lm_process_specific),
      (''failed: process_specific: unable to find necessary sef_llvm method'', Ev_print_ltckpt ls_failure lm_process_specific),
      (''failed: process_specific: unable to kill user process'', Ev_print_ltckpt ls_failure lm_process_specific),
      (''failed: process_specific: unable to send reply'', Ev_print_ltckpt ls_failure lm_process_specific),
      (''failed: writelog: identity state transfer failed'', Ev_print_ltckpt ls_failure lm_writelog),
      (''failed: writelog: sys_safecopyfrom addr failed'', Ev_print_ltckpt ls_failure lm_writelog),
      (''failed: writelog: sys_safecopyfrom region failed'', Ev_print_ltckpt ls_failure lm_writelog),
      (''failed: writelog: sys_safecopyto failed'', Ev_print_ltckpt ls_failure lm_writelog),
      (''shutdown'', Ev_print_ltckpt ls_shutdown lm_generic),
      (''shutdown: fail_stop'', Ev_print_ltckpt ls_shutdown lm_failstop),
      (''start recovery attempt'', Ev_print_ltckpt ls_start lm_generic),
      (''start: writelog'', Ev_print_ltckpt ls_start lm_writelog),
      (''success: idempotent'', Ev_print_ltckpt ls_success lm_idempotent),
      (''success: killed user process'', Ev_print_ltckpt ls_success lm_process_specific),
      (''success: RS_FI_CUSTOM'', Ev_print_ltckpt ls_success lm_service_fi),
      (''success: user process is invalid'', Ev_print_ltckpt ls_success lm_process_specific)]"

lemmas line_simps = PATTERN_PARAM_COUNT_MAX_def guarded_def is_str_def str_of_def num_of_def emit_def takeWhile_all
  match_number_def convertnumchar_def

lemmas recovery_handlers =
  logparse_line_handler_print_ltckpt_closed_ipc_def
  logparse_line_handler_print_ltckpt_closed_ipc_callsites_def
  logparse_line_handler_print_ltckpt_closed_unknown_def
  logparse_line_handler_print_ltckpt_closed_writelog_full_def
  logparse_line_handler_print_ltckpt_failed_def
  logparse_line_handler_print_ltckpt_failed_idempotent_def
  logparse_line_handler_print_ltckpt_failed_message_def
  logparse_line_handler_print_ltckpt_failed_process_specific_def
  logparse_line_handler_print_ltckpt_failed_writelog_def
  logparse_line_handler_print_ltckpt_shutdown_def
  logparse_line_handler_print_ltckpt_shutdown_failstop_def
  logparse_line_handler_print_ltckpt_start_def
  logparse_line_handler_print_ltckpt_start_writelog_def
  logparse_line_handler_print_ltckpt_success_idempotent_def
  logparse_line_handler_print_ltckpt_success_process_specific_def
  logparse_line_handler_print_ltckpt_success_service_fi_def
  logparse_line_handler_print_ltckpt_success_writelog_def

text \<open>A literal text and a pattern that differ before the first wildcard.\<close>

fun clash :: "string \<Rightarrow> string \<Rightarrow> bool" where
  "clash (ch # l) (p # pattern) =
     (if p = CHR ''*'' then False
      else if p = CHR ''#'' then \<not> is_digit ch \<and> ch \<noteq> CHR ''-''
      else ch \<noteq> p \<or> clash l pattern)"
| "clash l pattern = False"

lemma digit_code: "is_digit ch \<longleftrightarrow> (48 :: int) \<le> of_char ch \<and> of_char ch \<le> (57 :: int)"
proof -
  have "is_digit ch \<longleftrightarrow> of_char ch \<in> {48, 49, 50, 51, 52, 53, 54, 55, 56, 57 :: nat}"
    unfolding is_digit_def by (auto simp: char_of_eq_iff simp flip: of_char_eq_iff [where 'a = nat])
  moreover have "of_char ch \<in> {48, 49, 50, 51, 52, 53, 54, 55, 56, 57 :: nat} \<longleftrightarrow> 48 \<le> (of_char ch :: nat) \<and> of_char ch \<le> (57 :: nat)"
    unfolding insert_iff empty_iff by presburger
  moreover have "(of_char ch :: int) = int (of_char ch)" by (simp only: of_nat_of_char)
  ultimately show ?thesis by simp
qed

lemma not_digit_number: "\<not> is_digit ch \<Longrightarrow> ch \<noteq> CHR ''-'' \<Longrightarrow> match_number (ch # l) = Inr None"
proof -
  assume a: "\<not> is_digit ch" "ch \<noteq> CHR ''-''"
  have "convertnumchar ch 10 = None" using a(1) by (auto simp: convertnumchar_def digit_code Let_def split: if_splits)
  moreover have "ch \<noteq> CHR ''0''" using a(1) by (auto simp: is_digit_def)
  ultimately show ?thesis using a(2) by (simp add: match_number_def)
qed

lemma clash_no_match: "clash l p \<Longrightarrow> length ps < PATTERN_PARAM_COUNT_MAX \<Longrightarrow> pattern_match (l @ x) p ps = Inr None"
  by (induction l p rule: clash.induct) (auto simp: not_digit_number split: if_splits)

lemma literal_match:
  "CHR ''*'' \<notin> set q \<Longrightarrow> CHR ''#'' \<notin> set q \<Longrightarrow> pattern_match (q @ x) (q @ p) ps = pattern_match x p ps"
  by (induction q) auto

text \<open>The index of the pattern that is the text followed by a wildcard, when all patterns before it differ.\<close>

fun first_index :: "string \<Rightarrow> string list \<Rightarrow> nat option" where
  "first_index q [] = None"
| "first_index q (p # ps) =
     (if clash q p then map_option Suc (first_index q ps) else if p = q @ ''*'' then Some 0 else None)"

lemma first_index_match:
  assumes "first_index q (map snd table) = Some i" "CHR ''*'' \<notin> set q" "CHR ''#'' \<notin> set q"
  shows "patterns_match table (q @ x) = Inr (Some (map fst table ! i, [P_str x]))"
  using assms
proof (induction table arbitrary: i)
  case (Cons e table)
  then show ?case
    by (cases e) (auto simp: clash_no_match literal_match PATTERN_PARAM_COUNT_MAX_def takeWhile_all split: if_splits)
qed simp

definition message_indices :: "nat list" where
  "message_indices = [0, 2, 3, 4, 5, 6, 7, 8, 9, 10, 12, 13, 14, 15, 16, 17, 18, 19, 20, 21, 22, 23, 24, 25, 26, 27, 28]"

lemma fixed_indices:
  "map (\<lambda>m. first_index (fst m @ ''; module='') (map snd recovery_patterns)) fixed_messages = map Some message_indices"
  by code_simp

lemma fixed_events:
  "list_all2 (\<lambda>m i. \<forall>nm. (map fst recovery_patterns ! i) (\<lambda>cb. True) [P_str nm] = Inr [snd m nm]) fixed_messages message_indices"
  unfolding recovery_patterns_def list.map fst_conv fixed_messages_def message_indices_def
  by (simp add: recovery_handlers line_simps)

lemma fixed_literal: "list_all (\<lambda>m. CHR ''*'' \<notin> set (fst m) \<and> CHR ''#'' \<notin> set (fst m) \<and> NUL \<notin> set (fst m) \<and> length (fst m) \<le> 100) fixed_messages"
  unfolding fixed_messages_def by simp

lemma fixed_understood:
  assumes "(msg, ev) \<in> set fixed_messages"
  shows "understood (recovery_prefix @ msg @ ''; module='' @ nm) (ev nm)"
proof -
  obtain j where j: "j < length fixed_messages" "fixed_messages ! j = (msg, ev)" using assms by (auto simp: in_set_conv_nth)
  have len: "length message_indices = length fixed_messages" using fixed_indices by (metis length_map)
  have "first_index (msg @ ''; module='') (map snd recovery_patterns) = Some (message_indices ! j)"
    using arg_cong [OF fixed_indices, of "\<lambda>xs. xs ! j"] j len by simp
  moreover have "CHR ''*'' \<notin> set msg" "CHR ''#'' \<notin> set msg" using assms fixed_literal by (auto simp: list_all_iff)
  ultimately have "patterns_match recovery_patterns ((msg @ ''; module='') @ nm) =
      Inr (Some (map fst recovery_patterns ! (message_indices ! j), [P_str nm]))"
    by (intro first_index_match) auto
  moreover have "(map fst recovery_patterns ! (message_indices ! j)) (\<lambda>cb. True) [P_str nm] = Inr [ev nm]"
    using list_all2_nthD [OF fixed_events j(1)] j(2) by simp
  ultimately show ?thesis by (simp add: understood_recovery)
qed


section \<open>Numbers in messages\<close>

lemma convert_digit: "is_digit ch \<Longrightarrow> convertnumchar ch 10 = Some (int (digit_val ch))"
  by (auto simp: is_digit_def convertnumchar_def digit_val_def)

lemma convert_no_digit: "\<not> is_digit ch \<Longrightarrow> convertnumchar ch 10 = None"
  by (auto simp: convertnumchar_def digit_code Let_def split: if_splits)

lemma horner_ge: "a \<le> horner a ds"
proof (induction ds arbitrary: a)
  case (Cons d ds)
  have "a \<le> 10 * a + digit_val d" by simp
  also have "\<dots> \<le> horner (10 * a + digit_val d) ds" by (rule Cons)
  finally show ?case by (simp add: horner_def)
qed (simp add: horner_def)

lemma number_loop_digits:
  assumes "list_all is_digit ds" "horner a ds < 2 ^ 63" "rest = [] \<or> \<not> is_digit (hd rest)"
  shows "number_loop 10 (int a) (ds @ rest) = Inr (int (horner a ds), rest)"
  using assms
proof (induction ds arbitrary: a)
  case Nil
  then show ?case by (cases rest) (simp_all add: convert_no_digit horner_def)
next
  case (Cons d ds)
  let ?b = "10 * a + digit_val d"
  have h: "horner a (d # ds) = horner ?b ds" by (simp add: horner_def)
  have "?b < 2 ^ 63" using horner_ge [of ?b ds] Cons.prems(2) h by linarith
  then have "int a * 10 + int (digit_val d) < 2 ^ 63" by simp
  moreover have "int a * 10 + int (digit_val d) = int ?b" by simp
  moreover have "number_loop 10 (int ?b) (ds @ rest) = Inr (int (horner ?b ds), rest)"
    using Cons.prems h by (intro Cons.IH) simp_all
  ultimately show ?case using Cons.prems(1) h by (simp add: convert_digit mult.commute [of "int a"])
qed

definition hex_number :: "string \<Rightarrow> bool" where
  "hex_number l = (length l \<ge> 2 \<and> hd l = CHR ''0'' \<and> (l ! 1 = CHR ''x'' \<or> l ! 1 = CHR ''X''))"

lemma match_number_plain:
  assumes "\<not> hex_number l" "l \<noteq> []" "is_digit (hd l)" "number_loop 10 0 l = Inr (n, rest)"
  shows "match_number l = Inr (Some (n, rest))" "match_number (CHR ''-'' # l) = Inr (Some (- n, rest))"
proof -
  have "hd l \<noteq> CHR ''-''" "convertnumchar (hd l) 10 \<noteq> None"
    using assms(3) by (auto simp: is_digit_def [of "CHR ''-''"] convert_digit)
  with assms show "match_number l = Inr (Some (n, rest))" "match_number (CHR ''-'' # l) = Inr (Some (- n, rest))"
    unfolding match_number_def hex_number_def [symmetric] Let_def by simp_all
qed

lemma decimal_single: "n < 10 \<Longrightarrow> decimal n = [digit_char n]"
  by (simp add: decimal.simps)

lemma decimal_first_zero: "decimal n = CHR ''0'' # ds \<Longrightarrow> ds = []"
proof (induction n arbitrary: ds rule: decimal.induct)
  case (1 n)
  show ?case
  proof (cases "n < 10")
    case False
    obtain e es where e: "decimal (n div 10) = e # es" using decimal_cons by blast
    with "1.prems" False have *: "e = CHR ''0''" "ds = es @ [digit_char (n mod 10)]" by (auto simp: decimal.simps [of n])
    with "1.IH" [OF False] e have "es = []" by blast
    with e * have "horner 0 (decimal (n div 10)) = 0" by (simp add: horner_def digit_val_def)
    then have "n div 10 = 0" by (simp add: horner_decimal)
    with False show ?thesis by simp
  qed (use "1.prems" in \<open>simp add: decimal_single\<close>)
qed

definition after_number :: "string \<Rightarrow> bool" where
  "after_number rest = (rest = [] \<or> \<not> is_digit (hd rest) \<and> hd rest \<noteq> CHR ''x'' \<and> hd rest \<noteq> CHR ''X'')"

lemma match_decimal:
  assumes "n < 2 ^ 63" "after_number rest"
  shows "match_number (decimal n @ rest) = Inr (Some (int n, rest))"
    "match_number (CHR ''-'' # decimal n @ rest) = Inr (Some (- int n, rest))"
proof -
  obtain d ds where d: "decimal n = d # ds" "is_digit d" using decimal_cons by blast
  have loop: "number_loop 10 0 (decimal n @ rest) = Inr (int n, rest)"
    using number_loop_digits [of "decimal n" 0 rest] assms decimal_digits [of n]
    by (auto simp: horner_decimal after_number_def)
  have hex: "\<not> hex_number (decimal n @ rest)"
  proof
    assume a: "hex_number (decimal n @ rest)"
    then have "ds = []" using d decimal_first_zero [of n ds] by (simp add: hex_number_def)
    with a d have "rest \<noteq> []" "rest ! 0 = CHR ''x'' \<or> rest ! 0 = CHR ''X''" by (auto simp: hex_number_def)
    with assms(2) show False by (auto simp: after_number_def hd_conv_nth)
  qed
  have "decimal n @ rest \<noteq> []" "is_digit (hd (decimal n @ rest))" using d by simp_all
  from match_number_plain [OF hex this loop]
  show "match_number (decimal n @ rest) = Inr (Some (int n, rest))"
    "match_number (CHR ''-'' # decimal n @ rest) = Inr (Some (- int n, rest))" by simp_all
qed

lemma match_show_int:
  assumes "\<bar>n\<bar> < 2 ^ 63" "after_number rest"
  shows "match_number (show_int n @ rest) = Inr (Some (n, rest))"
  using match_decimal [of "nat \<bar>n\<bar>" rest] assms by (cases "n < 0") (auto simp: show_int_def)


section \<open>Messages with numbers\<close>

lemma sint_small:
  assumes "unat (x :: 64 word) < 2 ^ 63"
  shows "sint x = int (unat x)"
proof -
  have "int (unat x) < int (2 ^ 63)" using assms by (simp only: of_nat_less_iff)
  then have "uint x < 2 ^ 63" by simp
  moreover have "- (2 ^ 63) \<le> uint x" by (rule order_trans [of _ 0]) simp_all
  ultimately show ?thesis by (simp add: sint_uint signed_take_bit_int_eq_self)
qed

lemma sites_digits:
  "unat (x :: 64 word) < 2 ^ 63 \<Longrightarrow> show_int (sint x) = decimal (unat x) \<and> (udec (decimal (unat x)) :: 64 word) = x"
proof -
  assume "unat x < 2 ^ 63"
  then have "show_int (sint x) = decimal (unat x)" by (simp only: show_int_def sint_small) simp
  moreover have "(of_nat (unat x) :: 64 word) = x" by simp
  ultimately show ?thesis by (simp only: udec_decimal)
qed

lemma parse_sites:
  assumes "dropWhile (\<lambda>ch. ch = CHR '' '') str = join_sites zs" "\<forall>x \<in> set zs. unat x < 2 ^ 63"
    "length cs + length zs \<le> cap"
  shows "parse_sites_loop cap str cs = Inr (cs @ zs)"
  using assms
proof (induction zs arbitrary: str cs)
  case Nil
  then show ?case by (subst parse_sites_loop.simps) simp
next
  case (Cons x xs)
  let ?tail = "concat (map (\<lambda>y. '', '' @ show_int (sint y)) xs)"
  have x: "show_int (sint x) = decimal (unat x)" "(udec (decimal (unat x)) :: 64 word) = x"
    using sites_digits [of x] Cons.prems(2) by simp_all
  obtain d ds where d: "decimal (unat x) = d # ds" "is_digit d" using decimal_cons by blast
  have t: "dropWhile (\<lambda>ch. ch = CHR '' '') str = decimal (unat x) @ ?tail" using Cons.prems(1) x(1) by simp
  have tl: "?tail = [] \<or> \<not> is_digit (hd ?tail)" by (cases xs) (simp_all add: is_digit_def)
  have h: "decimal (unat x) @ ?tail \<noteq> []" "is_digit (hd (decimal (unat x) @ ?tail))" using d by simp_all
  have step: "parse_sites_loop cap str cs =
      (let r = dropWhile (\<lambda>ch. ch = CHR '' '') ?tail
       in if r = [] \<or> hd r \<noteq> CHR '','' then Inr (cs @ [x]) else parse_sites_loop cap (tl r) (cs @ [x]))"
    unfolding parse_sites_loop.simps [of cap str] t digits_prefix [OF tl, of "unat x"] Let_def x(2)
    using h Cons.prems(3) by simp
  show ?case
  proof (cases xs)
    case Nil
    then show ?thesis using step by simp
  next
    case (Cons y ys)
    let ?r = "CHR '' '' # join_sites (y # ys)"
    have tail: "?tail = CHR '','' # ?r" using Cons by simp
    have y: "unat y < 2 ^ 63" using \<open>\<forall>z \<in> set (x # xs). unat z < 2 ^ 63\<close> Cons by simp
    obtain e es where e: "decimal (unat y) = e # es" "is_digit e" using decimal_cons by blast
    have "dropWhile (\<lambda>ch. ch = CHR '' '') ?r = join_sites (y # ys)"
      using sites_digits [OF y] e by (auto simp: is_digit_def)
    then have "parse_sites_loop cap ?r (cs @ [x]) = Inr ((cs @ [x]) @ xs)"
      using \<open>length cs + length (x # xs) \<le> cap\<close> \<open>\<forall>z \<in> set (x # xs). unat z < 2 ^ 63\<close> Cons
      by (intro Cons.IH) simp_all
    moreover have "dropWhile (\<lambda>ch. ch = CHR '' '') ?tail = CHR '','' # ?r" unfolding tail by simp
    ultimately show ?thesis unfolding step Let_def by (simp only:) simp
  qed
qed


lemma decimal_length_pos: "1 \<le> length (decimal n)"
  using decimal_nonempty [of n] by (simp add: Suc_le_eq)

lemma join_sites_length:
  assumes "\<forall>x \<in> set zs. unat x < 2 ^ 63" "zs \<noteq> []"
  shows "3 * length zs \<le> length (join_sites zs) + 2"
proof -
  obtain x xs where z: "zs = x # xs" using assms(2) by (cases zs) auto
  have "3 * length ys \<le> length (concat (map (\<lambda>y. '', '' @ show_int (sint y)) ys))" if "\<forall>y \<in> set ys. unat y < 2 ^ 63" for ys :: "64 word list"
    using that
  proof (induction ys)
    case (Cons y ys)
    then show ?case using sites_digits [of y] decimal_length_pos [of "unat y"] by simp
  qed simp
  from this [of xs] show ?thesis using assms(1) z sites_digits [of x] decimal_length_pos [of "unat x"] by simp
qed

lemma parse_joined_sites:
  assumes "\<forall>x \<in> set zs. unat x < 2 ^ 63"
  shows "parse_ipc_callsites (join_sites zs) = Inr zs"
proof (cases "zs = []")
  case False
  then obtain x xs where z: "zs = x # xs" by (cases zs) auto
  obtain d ds where d: "decimal (unat x) = d # ds" "is_digit d" using decimal_cons by blast
  have "show_int (sint x) = decimal (unat x)" using sites_digits [of x] assms z by simp
  then have "dropWhile (\<lambda>ch. ch = CHR '' '') (join_sites zs) = join_sites zs"
    using d z by (auto simp: is_digit_def)
  then have "parse_sites_loop ((length (join_sites zs) + 1) div 2) (join_sites zs) [] = Inr ([] @ zs)"
    using join_sites_length [OF assms False] by (intro parse_sites [OF _ assms]) auto
  then show ?thesis by (simp add: parse_ipc_callsites_def)
qed (simp add: parse_ipc_callsites_def parse_sites_loop.simps)

lemma join_sites_chars: "\<forall>x \<in> set zs. unat x < 2 ^ 63 \<Longrightarrow> CHR '';'' \<notin> set (join_sites zs)"
proof -
  assume a: "\<forall>x \<in> set zs. unat x < 2 ^ 63"
  have "\<not> is_digit (CHR '';'')" by (simp add: is_digit_def)
  then have "CHR '';'' \<notin> set (decimal n)" for n using decimal_digits [of n] by (auto simp: list_all_iff)
  then have s: "CHR '';'' \<notin> set (show_int (sint x))" if "x \<in> set zs" for x
    using sites_digits [of x] a that by simp
  then show ?thesis by (cases zs) auto
qed


lemma skip_patterns:
  assumes "list_all (clash q) (map snd (take k recovery_patterns))"
  shows "patterns_match recovery_patterns (q @ x) = patterns_match (drop k recovery_patterns) (q @ x)"
proof -
  have "\<forall>(h, p) \<in> set (take k recovery_patterns). pattern_match (q @ x) p [] = Inr None"
    using assms clash_no_match [of q _ "[]" x] by (fastforce simp: list_all_iff PATTERN_PARAM_COUNT_MAX_def)
  from patterns_match_append [OF this, of "drop k recovery_patterns"] show ?thesis by simp
qed

lemma take_pattern_number:
  "match_number l = Inr (Some (n, r)) \<Longrightarrow> length ps < PATTERN_PARAM_COUNT_MAX \<Longrightarrow>
   pattern_match l (CHR ''#'' # p) ps = pattern_match r p (ps @ [P_num n])"
  by simp

lemma take_pattern_until:
  assumes "ch \<notin> set w" "length ps < PATTERN_PARAM_COUNT_MAX"
  shows "pattern_match (w @ ch # r) (CHR ''*'' # ch # p) ps = pattern_match (ch # r) (ch # p) (ps @ [P_str w])"
proof -
  have "takeWhile (\<lambda>c. c \<noteq> ch) (w @ ch # r) = w" "dropWhile (\<lambda>c. c \<noteq> ch) (w @ ch # r) = ch # r"
    using assms(1) by (induction w) auto
  then show ?thesis
    using assms(2) by (subst pattern_match.simps) (simp del: pattern_match.simps)
qed

lemma pattern_parts:
  "''window closed # times from # callsite(s): *; module=*'' =
   ''window closed '' @ CHR ''#'' # '' times from '' @ CHR ''#'' # '' callsite(s): '' @ CHR ''*'' # CHR '';'' # '' module='' @ ''*''"
  "''failed: non-replyable message: #; module=*'' = ''failed: non-replyable message: '' @ CHR ''#'' # ''; module='' @ ''*''"
  "''success: writelog: # log entries, # stack entries; module=*'' =
   ''success: writelog: '' @ CHR ''#'' # '' log entries, '' @ CHR ''#'' # '' stack entries; module='' @ ''*''"
  by simp_all

lemma take_pattern_rest: "length ps < PATTERN_PARAM_COUNT_MAX \<Longrightarrow> pattern_match l ''*'' ps = Inr (Some (ps @ [P_str l]))"
  by (simp add: takeWhile_all)

lemma after_number_simps: "after_number ('' times from '' @ x)" "after_number ('' callsite(s): '' @ x)" "after_number (''; module='' @ x)"
  "after_number ('' log entries, '' @ x)" "after_number ('' stack entries; module='' @ x)"
  by (simp_all add: after_number_def is_digit_def)

lemma understood_callsites:
  assumes "\<bar>sint tot\<bar> < 2 ^ 63" "\<forall>x \<in> set zs. unat x < 2 ^ 63" "length zs < 2 ^ 63"
  shows "understood (callsites_message tot zs @ ''; module='' @ nm)
    (Ev_print_ltckpt_closed_ipc_callsites nm (sint tot) (int (length zs)) zs)"
proof -
  let ?q = "''window closed ''"
  let ?l3 = "join_sites zs @ CHR '';'' # '' module='' @ nm"
  let ?l2 = "show_int (int (length zs)) @ '' callsite(s): '' @ ?l3"
  let ?l1 = "show_int (sint tot) @ '' times from '' @ ?l2"
  have line: "callsites_message tot zs @ ''; module='' @ nm = recovery_prefix @ ?q @ ?l1"
    by (simp add: callsites_message_def recovery_prefix_def)
  have n1: "match_number ?l1 = Inr (Some (sint tot, '' times from '' @ ?l2))"
    by (rule match_show_int [OF assms(1) after_number_simps(1)])
  have n2: "match_number ?l2 = Inr (Some (int (length zs), '' callsite(s): '' @ ?l3))"
    using assms(3) by (intro match_show_int [OF _ after_number_simps(2)]) simp
  have "pattern_match (?q @ ?l1) ''window closed # times from # callsite(s): *; module=*'' [] =
      Inr (Some [P_num (sint tot), P_num (int (length zs)), P_str (join_sites zs), P_str nm])"
    unfolding pattern_parts(1)
    by (subst literal_match, simp, simp, subst take_pattern_number [OF n1], simp add: PATTERN_PARAM_COUNT_MAX_def,
        subst literal_match, simp, simp, subst take_pattern_number [OF n2], simp add: PATTERN_PARAM_COUNT_MAX_def,
        subst literal_match, simp, simp, subst take_pattern_until [OF join_sites_chars [OF assms(2)]],
        simp add: PATTERN_PARAM_COUNT_MAX_def, simp add: takeWhile_all PATTERN_PARAM_COUNT_MAX_def)
  moreover have "drop 1 recovery_patterns = (logparse_line_handler_print_ltckpt_closed_ipc_callsites,
      ''window closed # times from # callsite(s): *; module=*'') # drop 2 recovery_patterns"
    by (simp add: recovery_patterns_def)
  moreover have "list_all (clash ?q) (map snd (take 1 recovery_patterns))" by code_simp
  ultimately show ?thesis
    unfolding line understood_recovery
    by (simp only: skip_patterns patterns_match.simps ebind.simps option.case prod.case)
      (simp add: logparse_line_handler_print_ltckpt_closed_ipc_callsites_def line_simps parse_joined_sites [OF assms(2)])
qed


lemma understood_nonreplyable:
  assumes "\<bar>t\<bar> < 2 ^ 63"
  shows "understood (''ltckpt recovery: failed: non-replyable message: '' @ show_int t @ ''; module='' @ nm)
    (Ev_print_ltckpt ls_failure lm_generic nm)"
proof -
  let ?q = "''failed: non-replyable message: ''"
  let ?l = "show_int t @ ''; module='' @ nm"
  have line: "''ltckpt recovery: failed: non-replyable message: '' @ ?l = recovery_prefix @ ?q @ ?l"
    by (simp add: recovery_prefix_def)
  have n: "match_number ?l = Inr (Some (t, ''; module='' @ nm))"
    by (rule match_show_int [OF assms after_number_simps(3)])
  have "pattern_match (?q @ ?l) ''failed: non-replyable message: #; module=*'' [] = Inr (Some [P_num t, P_str nm])"
    unfolding pattern_parts(2)
    by (subst literal_match, simp, simp, subst take_pattern_number [OF n], simp add: PATTERN_PARAM_COUNT_MAX_def,
        subst literal_match, simp, simp, subst take_pattern_rest) (simp_all add: PATTERN_PARAM_COUNT_MAX_def)
  moreover have "drop 11 recovery_patterns = (logparse_line_handler_print_ltckpt_failed_message,
      ''failed: non-replyable message: #; module=*'') # drop 12 recovery_patterns"
    by (simp add: recovery_patterns_def)
  moreover have "list_all (clash ?q) (map snd (take 11 recovery_patterns))" by code_simp
  ultimately show ?thesis
    unfolding line understood_recovery
    by (simp only: skip_patterns patterns_match.simps ebind.simps option.case prod.case)
      (simp add: logparse_line_handler_print_ltckpt_failed_message_def line_simps)
qed

section \<open>What a run of the runtime writes to the log\<close>

definition texts_of :: "event list \<Rightarrow> string list" where
  "texts_of tr = concat (map (\<lambda>e. case e of Hypermem_printstr t \<Rightarrow> [t] | _ \<Rightarrow> []) tr)"

text \<open>A state reached with some new steps in the trace, whose printed texts the reader turns into the events.\<close>

definition reads :: "'a rec_state_scheme \<Rightarrow> 'a rec_state_scheme \<Rightarrow> event list \<Rightarrow> log_event list \<Rightarrow> bool" where
  "reads s t tr evs = (trace t = trace s @ tr \<and> g_module_name t = g_module_name s \<and> list_all2 understood (texts_of tr) evs)"

definition module_ok :: "string \<Rightarrow> bool" where
  "module_ok nm = (NUL \<notin> set nm \<and> length nm \<le> 800)"

lemma texts_of_simps [simp]:
  "texts_of [] = []" "texts_of (Hypermem_printstr t # tr) = t # texts_of tr"
  "texts_of (Sys_abort # tr) = texts_of tr" "texts_of (Sys_kill n # tr) = texts_of tr"
  "texts_of (Asynsend n msg # tr) = texts_of tr" "texts_of (tr @ us) = texts_of tr @ texts_of us"
  by (simp_all add: texts_of_def)

lemma log_text_short:
  assumes "module_ok nm" "NUL \<notin> set msg" "length msg \<le> 200"
  shows "hypermem_log_text nm msg = msg @ ''; module='' @ nm"
proof -
  have "length (msg @ ''; module='' @ nm) \<le> 1023" using assms by (simp add: module_ok_def)
  then show ?thesis using assms(1,2) hypermem_log_text_eq [of msg nm] by (simp only: take_all module_ok_def simp_thms)
qed

lemma fixed_text:
  assumes "module_ok nm" "(msg, ev) \<in> set fixed_messages"
  shows "understood (hypermem_log_text nm (recovery_prefix @ msg)) (ev nm)"
proof -
  have "NUL \<notin> set msg" "length msg \<le> 100" using assms(2) fixed_literal by (auto simp: list_all_iff)
  then have "hypermem_log_text nm (recovery_prefix @ msg) = (recovery_prefix @ msg) @ ''; module='' @ nm"
    by (intro log_text_short [OF assms(1)]) (simp_all add: recovery_prefix_def)
  then show ?thesis using fixed_understood [OF assms(2), of nm] by simp
qed

lemma fixed_texts:
  assumes "module_ok nm"
  shows "list_all (\<lambda>(msg, ev). understood (hypermem_log_text nm (recovery_prefix @ msg)) (ev nm)) fixed_messages"
  using fixed_text [OF assms] by (auto simp: list_all_iff)

text \<open>The same for the literal texts of the runtime.\<close>

lemmas literal_texts = fixed_texts [unfolded fixed_messages_def list.pred_inject prod.case recovery_prefix_def append_Cons append_Nil]



text \<open>How the outcome of a recovery action shows in the statuses that the reader reports.\<close>

definition status_of :: "log_event \<Rightarrow> ltckpt_status option" where
  "status_of e = (case e of Ev_print_ltckpt st how nm \<Rightarrow> Some st | _ \<Rightarrow> None)"

definition statuses :: "log_event list \<Rightarrow> ltckpt_status list" where
  "statuses evs = List.map_filter status_of evs"

definition verdict :: "int \<Rightarrow> event list \<Rightarrow> ltckpt_status list \<Rightarrow> bool" where
  "verdict r tr sts =
     (r = 0 \<and> (sts = [] \<or> sts = [ls_success]) \<and> Sys_abort \<notin> set tr \<or>
      r = -1 \<and> sts = [ls_failure] \<and> Sys_abort \<notin> set tr \<or>
      (r = 0 \<or> r = -1) \<and> sts = [ls_shutdown] \<and> Sys_abort \<in> set tr)"

definition tells :: "'a rec_state_scheme \<Rightarrow> (int, 'a rec_state_scheme) outcome \<Rightarrow> bool" where
  "tells s res =
     (case res of
        Fault e t \<Rightarrow> False
      | Ret r t \<Rightarrow> \<exists>tr evs. reads s t tr evs \<and> verdict r tr (statuses evs) \<and> g_recovery_naive_mode t = g_recovery_naive_mode s)"

lemma statuses_simps [simp]:
  "statuses [] = []" "statuses (Ev_print_ltckpt st how nm # evs) = st # statuses evs"
  "statuses (Ev_print_ltckpt_closed cr nm # evs) = statuses evs"
  "statuses (Ev_print_ltckpt_closed_ipc_callsites nm a b cs # evs) = statuses evs"
  "statuses (xs @ ys) = statuses xs @ statuses ys"
  by (simp_all add: statuses_def status_of_def List.map_filter_def)

definition silent_step :: "'a rec_state_scheme \<Rightarrow> 'a rec_state_scheme \<Rightarrow> bool" where
  "silent_step s u =
     (\<exists>tr. trace u = trace s @ tr \<and> texts_of tr = [] \<and> Sys_abort \<notin> set tr \<and>
        g_module_name u = g_module_name s \<and> g_recovery_naive_mode u = g_recovery_naive_mode s)"

lemma tells_log:
  assumes "silent_step s u"
    and "understood (hypermem_log_text (g_module_name s) msg) (Ev_print_ltckpt st how nm)"
    "r = 0 \<and> st = ls_success \<or> r = -1 \<and> st = ls_failure"
  shows "tells s (Ret r (hypermem_log msg u))"
proof -
  obtain tr where u: "trace u = trace s @ tr" "texts_of tr = []" "Sys_abort \<notin> set tr"
    "g_module_name u = g_module_name s" "g_recovery_naive_mode u = g_recovery_naive_mode s"
    using assms(1) by (auto simp: silent_step_def)
  have "reads s (hypermem_log msg u) (tr @ [Hypermem_printstr (hypermem_log_text (g_module_name s) msg)]) [Ev_print_ltckpt st how nm]"
    using assms(2) u by (simp add: reads_def hypermem_log_def)
  moreover have "verdict r (tr @ [Hypermem_printstr (hypermem_log_text (g_module_name s) msg)]) (statuses [Ev_print_ltckpt st how nm])"
    using assms(3) u(3) by (auto simp: verdict_def)
  moreover have "g_recovery_naive_mode (hypermem_log msg u) = g_recovery_naive_mode s"
    using u(5) by (simp add: hypermem_log_def)
  ultimately show ?thesis unfolding tells_def outcome.case by blast
qed

lemma tells_silent: "silent_step s u \<Longrightarrow> tells s (Ret 0 u)"
  unfolding silent_step_def tells_def outcome.case
  by (elim exE, rule_tac x = tr in exI, rule_tac x = "[]" in exI) (simp add: reads_def verdict_def)

lemma silent_steps [simp]:
  "silent_step s s" "silent_step s (s\<lparr>g_recovery_bitmask := k\<rparr>)"
  "silent_step s (s\<lparr>trace := trace s @ [Asynsend dst msg]\<rparr>)" "silent_step s (s\<lparr>trace := trace s @ [Sys_kill dst]\<rparr>)"
  by (simp_all add: silent_step_def)

lemma tells_messages:
  assumes "module_ok (g_module_name s)" "silent_step s u"
  shows "tells s (Ret (-1) (hypermem_log ''ltckpt recovery: failed: bad ltckpt_is_message_replyable result'' u))"
    "tells s (Ret (-1) (hypermem_log ''ltckpt recovery: failed: havent handled message'' u))"
    "tells s (Ret (-1) (hypermem_log (''ltckpt recovery: failed: idempotent: couldn'' @ [CHR 0x27] @ ''t send error message'') u))"
    "tells s (Ret (-1) (hypermem_log ''ltckpt recovery: failed: idempotent: sef_get_current_message() not available'' u))"
    "tells s (Ret (-1) (hypermem_log ''ltckpt recovery: failed: idempotent: unable to fetch last handled message'' u))"
    "tells s (Ret (-1) (hypermem_log ''ltckpt recovery: failed: idempotent: unreplyable request'' u))"
    "tells s (Ret (-1) (hypermem_log ''ltckpt recovery: failed: invalid g_recovery_bitmask bitmask'' u))"
    "tells s (Ret (-1) (hypermem_log ''ltckpt recovery: failed: process_specific: error in figuring out whether source was user process'' u))"
    "tells s (Ret (-1) (hypermem_log ''ltckpt recovery: failed: process_specific: unable to fetch last handled message'' u))"
    "tells s (Ret (-1) (hypermem_log ''ltckpt recovery: failed: process_specific: unable to find necessary sef_llvm method'' u))"
    "tells s (Ret (-1) (hypermem_log ''ltckpt recovery: failed: process_specific: unable to kill user process'' u))"
    "tells s (Ret (-1) (hypermem_log ''ltckpt recovery: failed: process_specific: unable to send reply'' u))"
    "tells s (Ret 0 (hypermem_log ''ltckpt recovery: success: idempotent'' u))"
    "tells s (Ret 0 (hypermem_log ''ltckpt recovery: success: killed user process'' u))"
    "tells s (Ret 0 (hypermem_log ''ltckpt recovery: success: RS_FI_CUSTOM'' u))"
    "tells s (Ret 0 (hypermem_log ''ltckpt recovery: success: user process is invalid'' u))"
proof -
  note lt = literal_texts [OF assms(1)]
  show "tells s (Ret (-1) (hypermem_log ''ltckpt recovery: failed: bad ltckpt_is_message_replyable result'' u))"
    by (rule tells_log [OF assms(2), where st = ls_failure and how = lm_generic and nm = "g_module_name s"], simp_all add: lt)
  show "tells s (Ret (-1) (hypermem_log ''ltckpt recovery: failed: havent handled message'' u))"
    by (rule tells_log [OF assms(2), where st = ls_failure and how = lm_generic and nm = "g_module_name s"], simp_all add: lt)
  show "tells s (Ret (-1) (hypermem_log (''ltckpt recovery: failed: idempotent: couldn'' @ [CHR 0x27] @ ''t send error message'') u))"
    by (rule tells_log [OF assms(2), where st = ls_failure and how = lm_idempotent and nm = "g_module_name s"], simp_all add: lt)
  show "tells s (Ret (-1) (hypermem_log ''ltckpt recovery: failed: idempotent: sef_get_current_message() not available'' u))"
    by (rule tells_log [OF assms(2), where st = ls_failure and how = lm_idempotent and nm = "g_module_name s"], simp_all add: lt)
  show "tells s (Ret (-1) (hypermem_log ''ltckpt recovery: failed: idempotent: unable to fetch last handled message'' u))"
    by (rule tells_log [OF assms(2), where st = ls_failure and how = lm_idempotent and nm = "g_module_name s"], simp_all add: lt)
  show "tells s (Ret (-1) (hypermem_log ''ltckpt recovery: failed: idempotent: unreplyable request'' u))"
    by (rule tells_log [OF assms(2), where st = ls_failure and how = lm_idempotent and nm = "g_module_name s"], simp_all add: lt)
  show "tells s (Ret (-1) (hypermem_log ''ltckpt recovery: failed: invalid g_recovery_bitmask bitmask'' u))"
    by (rule tells_log [OF assms(2), where st = ls_failure and how = lm_generic and nm = "g_module_name s"], simp_all add: lt)
  show "tells s (Ret (-1) (hypermem_log ''ltckpt recovery: failed: process_specific: error in figuring out whether source was user process'' u))"
    by (rule tells_log [OF assms(2), where st = ls_failure and how = lm_process_specific and nm = "g_module_name s"], simp_all add: lt)
  show "tells s (Ret (-1) (hypermem_log ''ltckpt recovery: failed: process_specific: unable to fetch last handled message'' u))"
    by (rule tells_log [OF assms(2), where st = ls_failure and how = lm_process_specific and nm = "g_module_name s"], simp_all add: lt)
  show "tells s (Ret (-1) (hypermem_log ''ltckpt recovery: failed: process_specific: unable to find necessary sef_llvm method'' u))"
    by (rule tells_log [OF assms(2), where st = ls_failure and how = lm_process_specific and nm = "g_module_name s"], simp_all add: lt)
  show "tells s (Ret (-1) (hypermem_log ''ltckpt recovery: failed: process_specific: unable to kill user process'' u))"
    by (rule tells_log [OF assms(2), where st = ls_failure and how = lm_process_specific and nm = "g_module_name s"], simp_all add: lt)
  show "tells s (Ret (-1) (hypermem_log ''ltckpt recovery: failed: process_specific: unable to send reply'' u))"
    by (rule tells_log [OF assms(2), where st = ls_failure and how = lm_process_specific and nm = "g_module_name s"], simp_all add: lt)
  show "tells s (Ret 0 (hypermem_log ''ltckpt recovery: success: idempotent'' u))"
    by (rule tells_log [OF assms(2), where st = ls_success and how = lm_idempotent and nm = "g_module_name s"], simp_all add: lt)
  show "tells s (Ret 0 (hypermem_log ''ltckpt recovery: success: killed user process'' u))"
    by (rule tells_log [OF assms(2), where st = ls_success and how = lm_process_specific and nm = "g_module_name s"], simp_all add: lt)
  show "tells s (Ret 0 (hypermem_log ''ltckpt recovery: success: RS_FI_CUSTOM'' u))"
    by (rule tells_log [OF assms(2), where st = ls_success and how = lm_service_fi and nm = "g_module_name s"], simp_all add: lt)
  show "tells s (Ret 0 (hypermem_log ''ltckpt recovery: success: user process is invalid'' u))"
    by (rule tells_log [OF assms(2), where st = ls_success and how = lm_process_specific and nm = "g_module_name s"], simp_all add: lt)
qed

lemmas tells_literals = tells_messages [unfolded append_Cons append_Nil]

lemma idempotent_tells:
  assumes "module_ok (g_module_name s)" "minix_ok m"
  shows "tells s (ltckpt_recovery_idempotent c m s)"
proof -
  have "ERESTART m < 0" using assms(2) by (simp add: minix_ok_def)
  then show ?thesis
    unfolding ltckpt_recovery_idempotent_def ltckpt_send_reply_def asynsend_def ltckpt_activate_req_rehandling_def
    by (simp add: tells_literals [OF assms(1)] tells_silent Let_def split: option.split prod.split)
qed

lemma process_specific_tells:
  assumes "module_ok (g_module_name s)" "minix_ok m"
  shows "tells s (ltckpt_recovery_process_specific m s)"
proof -
  have "ERESTART m < 0" using assms(2) by (simp add: minix_ok_def)
  then show ?thesis
    unfolding ltckpt_recovery_process_specific_def ltckpt_send_reply_def asynsend_def sys_kill_def
    by (simp add: tells_literals [OF assms(1)] tells_silent Let_def split: option.split prod.split)
qed


text \<open>What the log must be able to carry: short call sites, and a message that is not cut.\<close>

definition callsites_fit :: "'a rec_state_scheme \<Rightarrow> bool" where
  "callsites_fit s =
     (unat (g_recovery_bitmask_total_count s) < 2 ^ 63 \<and> list_all (\<lambda>x. unat x < 2 ^ 63) (used_callsites s) \<and>
      length (used_callsites s) \<le> RECOVERY_BITMASK_CALLSITE_COUNT \<and>
      length (callsites_message (g_recovery_bitmask_total_count s) (used_callsites s)) + 9 + length (g_module_name s) \<le> 1023)"

definition reason_known :: "'a rec_state_scheme \<Rightarrow> bool" where
  "reason_known s =
     (g_recovery_bitmask_reason s = None \<or>
      g_recovery_bitmask_reason s = Some ''ltckpt recovery: window closed: ltckpt_set_fail_stop_recovery'' \<or>
      g_recovery_bitmask_reason s = Some ''ltckpt recovery: window closed: writelog full'')"

lemma reads_append: "reads s t tr evs \<Longrightarrow> reads t u us fvs \<Longrightarrow> reads s u (tr @ us) (evs @ fvs)"
  by (auto simp: reads_def intro: list_all2_appendI)

lemma reads_log:
  "understood (hypermem_log_text (g_module_name s) msg) e \<Longrightarrow>
   reads s (hypermem_log msg s) [Hypermem_printstr (hypermem_log_text (g_module_name s) msg)] [e]"
  by (simp add: reads_def hypermem_log_def)

lemma hypermem_log_same [simp]:
  "g_module_name (hypermem_log msg s) = g_module_name s" "g_recovery_naive_mode (hypermem_log msg s) = g_recovery_naive_mode s"
  "used_callsites (hypermem_log msg s) = used_callsites s"
  "g_recovery_bitmask_total_count (hypermem_log msg s) = g_recovery_bitmask_total_count s"
  by (simp_all add: hypermem_log_def used_callsites_def)

lemma NUL_notin_join: "NUL \<notin> set (join_sites zs)"
  by (cases zs) auto

lemma callsites_logged:
  assumes "callsites_fit s" "module_ok (g_module_name s)"
  shows "\<exists>msg. hypermem_log_callsites s = Ret () (hypermem_log msg s) \<and>
    understood (hypermem_log_text (g_module_name s) msg) (Ev_print_ltckpt_closed_ipc_callsites (g_module_name s)
      (int (unat (g_recovery_bitmask_total_count s))) (int (length (used_callsites s))) (used_callsites s))"
proof -
  let ?tot = "g_recovery_bitmask_total_count s" and ?zs = "used_callsites s"
  let ?msg = "callsites_message ?tot ?zs"
  have zs: "\<forall>x \<in> set ?zs. unat x < 2 ^ 63" "unat ?tot < 2 ^ 63" "length ?zs < 2 ^ 63"
    and fit: "length (?msg @ ''; module='' @ g_module_name s) \<le> 1023"
    using assms(1) by (auto simp: callsites_fit_def list_all_iff RECOVERY_BITMASK_CALLSITE_COUNT_def)
  have p: "printable x" if "unat x < 2 ^ 63" for x using sint_small [OF that] by (simp add: printable_def del: of_nat_unat)
  have nul: "NUL \<notin> set ?msg" by (simp add: callsites_message_def NUL_notin_join)
  have "hypermem_callsites_text ?tot ?zs = Inr ?msg"
    using hypermem_callsites_text_eq [of ?tot ?zs] p zs fit by simp
  moreover have "hypermem_log_text (g_module_name s) ?msg = ?msg @ ''; module='' @ g_module_name s"
    using hypermem_log_text_eq [OF nul, of "g_module_name s"] assms(2) fit by (simp only: module_ok_def take_all simp_thms)
  moreover have "understood (?msg @ ''; module='' @ g_module_name s)
      (Ev_print_ltckpt_closed_ipc_callsites (g_module_name s) (sint ?tot) (int (length ?zs)) ?zs)"
    using sint_small [OF zs(2)] zs by (intro understood_callsites) (simp_all del: of_nat_unat)
  ultimately show ?thesis using sint_small [OF zs(2)] by (auto simp: hypermem_log_callsites_def simp del: of_nat_unat)
qed

lemma callsites_read:
  assumes "callsites_fit s" "module_ok (g_module_name s)"
  shows "\<exists>t tr e. hypermem_log_callsites s = Ret () t \<and> reads s t tr [e] \<and> status_of e = None \<and> Sys_abort \<notin> set tr \<and>
    g_recovery_naive_mode t = g_recovery_naive_mode s"
proof -
  obtain msg a n cs where m: "hypermem_log_callsites s = Ret () (hypermem_log msg s)"
    "understood (hypermem_log_text (g_module_name s) msg) (Ev_print_ltckpt_closed_ipc_callsites (g_module_name s) a n cs)"
    using callsites_logged [OF assms] by blast
  have "status_of (Ev_print_ltckpt_closed_ipc_callsites (g_module_name s) a n cs) = None" by (simp add: status_of_def)
  moreover have "Sys_abort \<notin> set [Hypermem_printstr (hypermem_log_text (g_module_name s) msg)]" by simp
  ultimately show ?thesis using m(1) reads_log [OF m(2)] hypermem_log_same(2) [of msg s] by blast
qed

lemma fail_stop_tells:
  assumes "module_ok (g_module_name s)"
  shows "tells s (ltckpt_recovery_fail_stop m s)"
proof -
  let ?msg = "''ltckpt recovery: shutdown: fail_stop''"
  let ?t = "snd (sys_abort m (hypermem_log ?msg s))"
  have "reads s ?t ([Hypermem_printstr (hypermem_log_text (g_module_name s) ?msg)] @ [Sys_abort])
      [Ev_print_ltckpt ls_shutdown lm_failstop (g_module_name s)]"
    using literal_texts [OF assms] by (simp add: reads_def hypermem_log_def sys_abort_def)
  moreover have "verdict r ([Hypermem_printstr t] @ [Sys_abort]) (statuses [Ev_print_ltckpt ls_shutdown lm_failstop nm])"
    if "r = 0 \<or> r = -1" for r t nm using that by (simp add: verdict_def)
  moreover have "g_recovery_naive_mode ?t = g_recovery_naive_mode s" by (simp add: sys_abort_def)
  moreover have "ltckpt_recovery_fail_stop m s = Ret (if sys_abort_ret m \<noteq> 0 then -1 else 0) ?t"
    by (simp add: ltckpt_recovery_fail_stop_def sys_abort_def Let_def)
  moreover have "(if sys_abort_ret m \<noteq> 0 then -1 else 0) = 0 \<or> (if sys_abort_ret m \<noteq> 0 then -1 else 0 :: int) = -1" by simp
  ultimately show ?thesis unfolding tells_def by (simp only: outcome.case) blast
qed

text \<open>Texts that carry no status may come first.\<close>

lemma tells_after:
  assumes "reads s u tr evs" "statuses evs = []" "Sys_abort \<notin> set tr" "g_recovery_naive_mode u = g_recovery_naive_mode s" "tells u res"
  shows "tells s res"
proof (cases res)
  case (Ret r t)
  with assms(5) obtain us fvs where u: "reads u t us fvs" "verdict r us (statuses fvs)" "g_recovery_naive_mode t = g_recovery_naive_mode u"
    by (auto simp: tells_def)
  have "verdict r (tr @ us) (statuses (evs @ fvs))" using u(2) assms(2,3) by (auto simp: verdict_def)
  moreover have "g_recovery_naive_mode t = g_recovery_naive_mode s" using u(3) assms(4) by simp
  ultimately show ?thesis unfolding tells_def Ret outcome.case using reads_append [OF assms(1) u(1)] by blast
qed (use assms(5) in \<open>simp add: tells_def\<close>)

lemma closed_understood:
  assumes "module_ok nm" "reason_known s"
  shows "\<exists>cr. understood (hypermem_log_text nm (case g_recovery_bitmask_reason s of Some msg \<Rightarrow> msg
    | None \<Rightarrow> ''ltckpt recovery: window closed: reason unknown'')) (Ev_print_ltckpt_closed cr nm)"
  using assms(2) literal_texts [OF assms(1)] unfolding reason_known_def by auto

lemma dispatch_replyable_tells:
  assumes "module_ok (g_module_name s)" "minix_ok m" "callsites_fit s" "reason_known s"
  shows "tells s (dispatch_replyable c m s)"
proof -
  let ?msg = "case g_recovery_bitmask_reason s of Some msg \<Rightarrow> msg | None \<Rightarrow> ''ltckpt recovery: window closed: reason unknown''"
  obtain cr where "understood (hypermem_log_text (g_module_name s) ?msg) (Ev_print_ltckpt_closed cr (g_module_name s))"
    using closed_understood [OF assms(1,4)] by blast
  note r1 = reads_log [OF this]
  have "callsites_fit (hypermem_log ?msg s)" using assms(3) by (simp only: callsites_fit_def hypermem_log_same)
  then obtain t tr e where t: "hypermem_log_callsites (hypermem_log ?msg s) = Ret () t"
    "reads (hypermem_log ?msg s) t tr [e]" "status_of e = None" "Sys_abort \<notin> set tr"
    "g_recovery_naive_mode t = g_recovery_naive_mode s"
    using callsites_read [of "hypermem_log ?msg s"] assms(1) by auto
  have "module_ok (g_module_name t)" using t(2) assms(1) by (simp add: reads_def)
  from fail_stop_tells [OF this, of m] have "tells s (ltckpt_recovery_fail_stop m t)"
    by (rule tells_after [OF reads_append [OF r1 t(2)], rotated 3])
      (use t(3-5) in \<open>simp_all add: statuses_def List.map_filter_def status_of_def\<close>)
  with t(1) show ?thesis
    using idempotent_tells [OF assms(1,2), of c] process_specific_tells [OF assms(1,2)] tells_literals [OF assms(1), of s]
    by (simp add: dispatch_replyable_def ltckpt_recovery_request_specific_def)
qed


lemma nonreplyable_tells:
  assumes "module_ok (g_module_name s)" "- (2 ^ 31) \<le> ty" "ty < 2 ^ 31"
  shows "tells s (obind (hypermem_log_nonreplyable ty (-1) s) (\<lambda>_ s. Ret (-1) s))"
proof -
  let ?msg = "''ltckpt recovery: failed: non-replyable message: '' @ show_int ty"
  have l: "length (decimal (nat \<bar>ty\<bar>)) \<le> 10" using assms(2,3) by (intro length_decimal_le) auto
  then have "length ?msg \<le> 200" by (cases "ty < 0") (simp_all add: show_int_def)
  moreover have "NUL \<notin> set ?msg" by simp
  ultimately have "hypermem_log_text (g_module_name s) ?msg = ?msg @ ''; module='' @ g_module_name s"
    using log_text_short [OF assms(1)] by blast
  then have "understood (hypermem_log_text (g_module_name s) ?msg) (Ev_print_ltckpt ls_failure lm_generic (g_module_name s))"
    using understood_nonreplyable [of ty "g_module_name s"] assms(2,3) by simp
  then have "tells s (Ret (-1) (hypermem_log ?msg s))"
    by (rule tells_log [OF silent_steps(1)]) simp
  then show ?thesis using hypermem_nonreplyable_text_eq [OF assms(2,3), of "-1"] by (simp add: hypermem_log_nonreplyable_def)
qed

text \<open>The statuses of a whole attempt, the steps taken and the result.\<close>

definition attempt_told :: "int \<Rightarrow> event list \<Rightarrow> ltckpt_status list \<Rightarrow> bool" where
  "attempt_told r tr sts =
     ((ls_success \<in> set sts \<longrightarrow> r = 0 \<and> Sys_abort \<notin> set tr) \<and> (ls_shutdown \<in> set sts \<longleftrightarrow> Sys_abort \<in> set tr) \<and>
      (ls_failure \<in> set sts \<longrightarrow> r = -1) \<and> (r = -1 \<longrightarrow> sts \<noteq> [] \<and> last sts = ls_shutdown) \<and> ls_start \<notin> set sts)"

lemma finish_told:
  assumes "tells s res" "module_ok (g_module_name s)" "g_recovery_naive_mode s = NAIVE_MODE_DEFAULT"
  shows "\<exists>r t tr evs. obind res (\<lambda>r s. let r = (if g_recovery_naive_mode s \<noteq> NAIVE_MODE_DEFAULT then 0 else r)
      in if r = -1 then Ret r (snd (sys_abort m (hypermem_log ''ltckpt recovery: shutdown'' s))) else Ret r s) = Ret r t \<and>
    reads s t tr evs \<and> attempt_told r tr (statuses evs)"
proof -
  obtain r t tr evs where t: "res = Ret r t" "reads s t tr evs" "verdict r tr (statuses evs)"
    "g_recovery_naive_mode t = NAIVE_MODE_DEFAULT"
    using assms(1,3) by (cases res) (auto simp: tells_def)
  show ?thesis
  proof (cases "r = -1")
    case True
    let ?u = "snd (sys_abort m (hypermem_log ''ltckpt recovery: shutdown'' t))"
    let ?tr = "[Hypermem_printstr (hypermem_log_text (g_module_name t) ''ltckpt recovery: shutdown'')] @ [Sys_abort]"
    let ?evs = "[Ev_print_ltckpt ls_shutdown lm_generic (g_module_name t)]"
    have nm: "module_ok (g_module_name t)" using t(2) assms(2) by (simp add: reads_def)
    have "reads t ?u ?tr ?evs" using literal_texts [OF nm] by (simp add: reads_def hypermem_log_def sys_abort_def)
    note r = reads_append [OF t(2) this]
    have "attempt_told r (tr @ ?tr) (statuses (evs @ ?evs))"
      using t(3) True by (auto simp: verdict_def attempt_told_def)
    with r t(1,4) True show ?thesis by (simp only: obind.simps Let_def if_False simp_thms if_True) blast
  next
    case False
    then have "attempt_told r tr (statuses evs)" using t(3) by (auto simp: verdict_def attempt_told_def)
    with t False show ?thesis by (simp only: obind.simps Let_def if_False simp_thms) blast
  qed
qed

lemma start_fields:
  fixes s :: "'a rec_state_scheme"
  defines "u \<equiv> (hypermem_log ''ltckpt recovery: start recovery attempt'' s)\<lparr>inside_trusted_compute_base := True\<rparr>"
  shows "g_module_name u = g_module_name s" "callsites_fit u = callsites_fit s" "reason_known u = reason_known s"
    "g_recovery_naive_mode u = g_recovery_naive_mode s"
  by (simp_all add: u_def hypermem_log_def callsites_fit_def reason_known_def used_callsites_def)


section \<open>Properties\<close>

text \<open>
  C7 (refinement): the log tells what became of a recovery attempt. In the default mode every text that the dispatcher
  prints is understood by the log reader; the statuses start with the start of the attempt, a success is
  reported only when the dispatcher succeeded without resetting the machine, a failure only
  when it failed, a shutdown exactly when the machine was reset, and a failed attempt ends with one.
\<close>
theorem recovery_log_tells_outcome:
  assumes "module_ok (g_module_name s)" "minix_ok m" "callsites_fit s" "reason_known s"
    and "g_recovery_naive_mode s = NAIVE_MODE_DEFAULT"
  shows "\<exists>r t tr evs sts. ltckpt_recovery_dispatcher c m s = Ret r t \<and> trace t = trace s @ tr \<and>
    list_all2 understood (texts_of tr) evs \<and> statuses evs = ls_start # sts \<and> attempt_told r tr sts"
proof -
  let ?start = "''ltckpt recovery: start recovery attempt''"
  let ?u = "(hypermem_log ?start s)\<lparr>inside_trusted_compute_base := True\<rparr>"
  note f = start_fields [of s]
  have r0: "reads s ?u [Hypermem_printstr (hypermem_log_text (g_module_name s) ?start)]
      [Ev_print_ltckpt ls_start lm_generic (g_module_name s)]"
    using literal_texts [OF assms(1)] by (simp add: reads_def hypermem_log_def)
  have ok: "module_ok (g_module_name ?u)" "callsites_fit ?u" "reason_known ?u" "g_recovery_naive_mode ?u = NAIVE_MODE_DEFAULT"
    using assms f by simp_all
  have told: ?thesis
    if "ltckpt_recovery_dispatcher c m s = Ret r t" "reads ?u t tr evs" "attempt_told r tr (statuses evs)" for r t tr evs
  proof -
    have "attempt_told r ([Hypermem_printstr (hypermem_log_text (g_module_name s) ?start)] @ tr) (statuses evs)"
      using that(3) by (simp add: attempt_told_def)
    with reads_append [OF r0 that(2)] that(1) show ?thesis unfolding reads_def by fastforce
  qed
  obtain rep fi ty where l: "ltckpt_is_message_replyable m = (rep, fi, ty)" by (cases "ltckpt_is_message_replyable m")
  have ty: "- (2 ^ 31) \<le> (case ty of None \<Rightarrow> 0 | Some t \<Rightarrow> t)" "(case ty of None \<Rightarrow> 0 | Some t \<Rightarrow> t) < (2 :: int) ^ 31"
    using l assms(2) by (auto simp: ltckpt_is_message_replyable_def minix_ok_def split: option.splits)
  show ?thesis
  proof (cases "LTRC_NO_RECOVERY_ON_SVC_FI c \<and> fi")
    case True
    have "tells ?u (Ret 0 (hypermem_log ''ltckpt recovery: success: RS_FI_CUSTOM'' ?u))"
      by (rule tells_literals [OF ok(1) silent_steps(1)])
    then obtain tr evs where "reads ?u (hypermem_log ''ltckpt recovery: success: RS_FI_CUSTOM'' ?u) tr evs" "verdict 0 tr (statuses evs)"
      unfolding tells_def outcome.case by blast
    moreover from this(2) have "attempt_told 0 tr (statuses evs)" by (auto simp: verdict_def attempt_told_def)
    moreover have "ltckpt_recovery_dispatcher c m s = Ret 0 (hypermem_log ''ltckpt recovery: success: RS_FI_CUSTOM'' ?u)"
      unfolding ltckpt_recovery_dispatcher_def l Let_def prod.case using True by (simp only: simp_thms if_True)
    ultimately show ?thesis using told by blast
  next
    case False
    let ?body = "if rep = 1 then dispatch_replyable c m ?u
       else if rep = 0 then obind (hypermem_log_nonreplyable (case ty of None \<Rightarrow> 0 | Some t \<Rightarrow> t) (-1) ?u) (\<lambda>_ s. Ret (-1) s)
       else if rep = -1 then Ret (-1) (hypermem_log ''ltckpt recovery: failed: havent handled message'' ?u)
       else Ret (-1) (hypermem_log ''ltckpt recovery: failed: bad ltckpt_is_message_replyable result'' ?u)"
    have "tells ?u ?body"
      using dispatch_replyable_tells [OF ok(1) assms(2) ok(2,3)] nonreplyable_tells [OF ok(1) ty]
        tells_literals [OF ok(1) silent_steps(1)] by (simp only: split: if_split) blast
    from finish_told [OF this ok(1,4), of m] told False ok(4) show ?thesis
      unfolding ltckpt_recovery_dispatcher_def l Let_def prod.case by (simp only: mode_defs) auto
  qed
qed


lemma ex_open_log: "module_ok (g_module_name ex_open)" "callsites_fit ex_open" "reason_known ex_open"
  by (simp_all add: ex_open_def ex_ready_def rec_init_def ltckpt_detect_start_of_window_hook_def module_ok_def callsites_fit_def
      reason_known_def used_callsites_def callsites_message_def show_int_def decimal_single)

theorem recovery_log_tells_outcome_witness:
  "\<exists>r t tr evs sts. ltckpt_recovery_dispatcher ex_cfg ex_minix ex_open = Ret r t \<and> trace t = trace ex_open @ tr \<and>
    list_all2 understood (texts_of tr) evs \<and> statuses evs = ls_start # sts \<and> attempt_told r tr sts"
  by (rule recovery_log_tells_outcome [OF ex_open_log(1) ex_minix_ok ex_open_log(2,3) ex_open_fields(2)])

text \<open>
  C18 (roundtrip): the call sites that closed the window reach the analysis: when the message is not
  too long for the buffer, the reader turns it back into the recorded sites, their number and the
  number of calls, together with the name of the service.
\<close>
theorem callsites_reach_analysis:
  assumes "callsites_fit s" "module_ok (g_module_name s)"
  shows "\<exists>t x. hypermem_log_callsites s = Ret () t \<and> trace t = trace s @ [Hypermem_printstr x] \<and>
    understood x (Ev_print_ltckpt_closed_ipc_callsites (g_module_name s) (int (unat (g_recovery_bitmask_total_count s)))
      (int (length (used_callsites s))) (used_callsites s))"
  using callsites_logged [OF assms] by (auto simp: hypermem_log_def)

definition ex_sites :: rec_state where
  "ex_sites = ex_open\<lparr>g_recovery_bitmask_callsites := [3, 17], g_recovery_bitmask_callsite_count := 2,
     g_recovery_bitmask_total_count := 5\<rparr>"

theorem callsites_reach_analysis_witness:
  "\<exists>t x. hypermem_log_callsites ex_sites = Ret () t \<and> trace t = trace ex_sites @ [Hypermem_printstr x] \<and>
    understood x (Ev_print_ltckpt_closed_ipc_callsites ''vfs'' 5 2 [3, 17])"
proof -
  have u: "used_callsites ex_sites = [3, 17]" "g_recovery_bitmask_total_count ex_sites = 5" "g_module_name ex_sites = ''vfs''"
    by (simp_all add: ex_sites_def used_callsites_def ex_open_def ex_ready_def rec_init_def ltckpt_detect_start_of_window_hook_def)
  have "callsites_fit ex_sites"
    unfolding callsites_fit_def u callsites_message_def
    by (simp add: show_int_def decimal.simps RECOVERY_BITMASK_CALLSITE_COUNT_def)
  then show ?thesis using callsites_reach_analysis [of ex_sites] by (simp add: u module_ok_def)
qed

end
