(* ===== verification/Faultpicker.thy ===== *)
theory Faultpicker
  imports Coverage
begin

text \<open>
  The fault picker (\<^verbatim>\<open>hypermemloganalyze/faultpicker\<close>): the selection of fault types, the list of basic
  blocks that are suitable for injection with its statistics (\<^verbatim>\<open>bb_info.c\<close>), the random choice
  of blocks weighted by their fault candidates and the fault specifications that are printed
  (\<^verbatim>\<open>faultpicker.c\<close>). The values of the calls of rand are an argument; its state is the
  number of calls made. Pointers to functions of the table, which do not change any more, are
  the functions themselves.
\<close>

section \<open>Selection of fault types\<close>

definition fault_select_bb :: "bool \<Rightarrow> string list \<Rightarrow> string list \<Rightarrow> module_bb \<Rightarrow> fault + module_bb" where
  "fault_select_bb disable typeexclude typeinclude bb =
     (if faultinj_count bb \<le> 0 then Inr bb
      else if \<not> (disable \<or> fault_type bb \<noteq> None) then Inl AssertFail
      else if disable \<or> string_ll_find typeexclude (the (fault_type bb)) \<or>
           (typeinclude \<noteq> [] \<and> \<not> string_ll_find typeinclude (the (fault_type bb)))
      then Inr (bb\<lparr>faultinj_count := 0\<rparr>)
      else Inr bb)"

definition startswith :: "string option \<Rightarrow> string \<Rightarrow> bool" where
  "startswith s substr =
     (case s of
        None \<Rightarrow> False
      | Some s \<Rightarrow> if length s < length substr then False else take (length substr) s = substr)"

fun emap :: "('a \<Rightarrow> 'e + 'b) \<Rightarrow> 'a list \<Rightarrow> 'e + 'b list" where
  "emap f [] = Inr []"
| "emap f (x # xs) = ebind (f x) (\<lambda>y. ebind (emap f xs) (\<lambda>ys. Inr (y # ys)))"

definition fault_disabled :: "module_func \<Rightarrow> bool" where
  "fault_disabled fn = (startswith (fn_name fn) ''hypermem_'' \<or> startswith (fn_name fn) ''ltckpt_'' \<or>
     startswith (fn_name fn) ''lt_'' \<or> startswith (fn_name fn) ''sef_'')"

definition fault_select_function :: "string list \<Rightarrow> string list \<Rightarrow> module_func \<Rightarrow> fault + module_func" where
  "fault_select_function typeexclude typeinclude fn =
     (case bbs fn of
        None \<Rightarrow> Inr fn
      | Some bs \<Rightarrow> ebind (emap (fault_select_bb (fault_disabled fn) typeexclude typeinclude) bs)
          (\<lambda>bs. Inr (fn\<lparr>bbs := Some bs\<rparr>)))"

definition fault_select_module :: "string list \<Rightarrow> string list \<Rightarrow> module \<Rightarrow> fault + module" where
  "fault_select_module typeexclude typeinclude m =
     (case funcs m of
        None \<Rightarrow> Inr m
      | Some fs \<Rightarrow> ebind (emap (fault_select_function typeexclude typeinclude) fs) (\<lambda>fs. Inr (m\<lparr>funcs := Some fs\<rparr>)))"

definition fault_select :: "string list \<Rightarrow> string list \<Rightarrow> module list \<Rightarrow> fault + module list" where
  "fault_select typeexclude typeinclude ms = emap (fault_select_module typeexclude typeinclude) ms"

section \<open>Suitable blocks\<close>

record bb_info =
  bi_func :: "func option"
  func_bb_index :: nat
  bi_order :: int
  bi_selected :: bool

text \<open>The counters are ints of the source; they count blocks and candidates held in memory.\<close>

record bb_info_stats3 =
  s3_bb_count :: nat
  s3_fc_count :: nat

record bb_info_stats2 =
  st_exec :: bb_info_stats3
  st_noexec :: bb_info_stats3

record bb_info_stats =
  st_inj :: bb_info_stats2
  st_noinj :: bb_info_stats2
  st_nocand :: bb_info_stats2
  st_total :: bb_info_stats3

record bb_info_list =
  bl_stats :: bb_info_stats
  bl_func_count :: nat
  bl_func_count_shared :: nat
  bl_bb_count :: nat
  bl_bbs :: "bb_info list option"

record injectable_state =
  is_bb_list :: bb_info_list
  is_only_executed :: bool
  is_bb_index :: nat

definition count3 :: "function_bb \<Rightarrow> bb_info_stats3 \<Rightarrow> bb_info_stats3" where
  "count3 bb s = s\<lparr>s3_bb_count := s3_bb_count s + 1, s3_fc_count := s3_fc_count s + fb_faultcand_count bb\<rparr>"

definition count2 :: "function_bb \<Rightarrow> bool \<Rightarrow> bb_info_stats2 \<Rightarrow> bb_info_stats2" where
  "count2 bb ex s = (if ex then s\<lparr>st_exec := count3 bb (st_exec s)\<rparr> else s\<lparr>st_noexec := count3 bb (st_noexec s)\<rparr>)"

definition count_bb :: "function_bb \<Rightarrow> bool \<Rightarrow> bb_info_stats \<Rightarrow> bb_info_stats" where
  "count_bb bb ex st =
     (let st = (if fb_faultcand_count bb \<le> 0 then st\<lparr>st_nocand := count2 bb ex (st_nocand st)\<rparr>
                else if fb_faultinj_count bb \<le> 0 then st\<lparr>st_noinj := count2 bb ex (st_noinj st)\<rparr>
                else st\<lparr>st_inj := count2 bb ex (st_inj st)\<rparr>)
      in st\<lparr>st_total := count3 bb (st_total st)\<rparr>)"

definition functions_get_injectable_bbs_bb ::
    "function_hashtable \<Rightarrow> coverage_per_bb \<Rightarrow> func \<Rightarrow> function_bb \<Rightarrow> nat \<Rightarrow> injectable_state \<Rightarrow> fault + injectable_state" where
  "functions_get_injectable_bbs_bb ft c f bb k s =
     ebind (coverage_get_bb ft c bb) (\<lambda>ec.
       let ex = (\<not> is_only_executed s \<or> ec > 0);
           l = is_bb_list s
       in case bl_bbs l of
            Some bs \<Rightarrow>
              if fb_faultinj_count bb > 0 \<and> ex then
                if is_bb_index s \<ge> length bs then Inl OutOfBounds
                else Inr (s\<lparr>is_bb_list := l\<lparr>bl_bbs := Some (bs[is_bb_index s :=
                       (bs ! is_bb_index s)\<lparr>bi_func := Some f, func_bb_index := k\<rparr>])\<rparr>,
                     is_bb_index := is_bb_index s + 1\<rparr>)
              else Inr s
          | None \<Rightarrow>
              let l = (if fb_faultinj_count bb > 0 \<and> ex then l\<lparr>bl_bb_count := bl_bb_count l + 1\<rparr> else l)
              in Inr (s\<lparr>is_bb_list := l\<lparr>bl_stats := count_bb bb ex (bl_stats l)\<rparr>\<rparr>))"

fun injectable_bbs_loop ::
    "function_hashtable \<Rightarrow> coverage_per_bb \<Rightarrow> func \<Rightarrow> function_bb list \<Rightarrow> nat \<Rightarrow> injectable_state \<Rightarrow> fault + injectable_state" where
  "injectable_bbs_loop ft c f [] k s = Inr s"
| "injectable_bbs_loop ft c f (bb # bs) k s =
     ebind (functions_get_injectable_bbs_bb ft c f bb k s) (injectable_bbs_loop ft c f bs (k + 1))"

definition functions_get_injectable_bbs_func ::
    "function_hashtable \<Rightarrow> coverage_per_bb \<Rightarrow> func \<Rightarrow> injectable_state \<Rightarrow> fault + injectable_state" where
  "functions_get_injectable_bbs_func ft c f s =
     ebind (injectable_bbs_loop ft c f (func_bbs f) 0 s) (\<lambda>s.
       let l = is_bb_list s
       in if bl_bbs l \<noteq> None then Inr s
          else Inr (s\<lparr>is_bb_list := l\<lparr>bl_func_count := bl_func_count l + 1,
                 bl_func_count_shared := bl_func_count_shared l + (if length (f_refs f) > 1 then 1 else 0)\<rparr>\<rparr>))"

fun functions_get_injectable_bbs_func_entry ::
    "function_hashtable \<Rightarrow> coverage_per_bb \<Rightarrow> func list \<Rightarrow> injectable_state \<Rightarrow> fault + injectable_state" where
  "functions_get_injectable_bbs_func_entry ft c [] s = Inr s"
| "functions_get_injectable_bbs_func_entry ft c (f # fs) s =
     ebind (functions_get_injectable_bbs_func ft c f s) (functions_get_injectable_bbs_func_entry ft c fs)"

fun injectable_entries ::
    "function_hashtable \<Rightarrow> coverage_per_bb \<Rightarrow> func chains \<Rightarrow> injectable_state \<Rightarrow> fault + injectable_state" where
  "injectable_entries ft c [] s = Inr s"
| "injectable_entries ft c (ch # t) s =
     ebind (functions_get_injectable_bbs_func_entry ft c ch s) (injectable_entries ft c t)"

definition functions_get_injectable_bbs_internal ::
    "function_hashtable \<Rightarrow> coverage_per_bb \<Rightarrow> injectable_state \<Rightarrow> fault + injectable_state" where
  "functions_get_injectable_bbs_internal ft c s = injectable_entries ft c (entries ft) s"

definition stats3_zero :: bb_info_stats3 where
  "stats3_zero = \<lparr>s3_bb_count = 0, s3_fc_count = 0\<rparr>"

definition stats2_zero :: bb_info_stats2 where
  "stats2_zero = \<lparr>st_exec = stats3_zero, st_noexec = stats3_zero\<rparr>"

definition bb_list_zero :: bb_info_list where
  "bb_list_zero = \<lparr>bl_stats = \<lparr>st_inj = stats2_zero, st_noinj = stats2_zero, st_nocand = stats2_zero, st_total = stats3_zero\<rparr>,
     bl_func_count = 0, bl_func_count_shared = 0, bl_bb_count = 0, bl_bbs = None\<rparr>"

definition bb_info_zero :: bb_info where
  "bb_info_zero = \<lparr>bi_func = None, func_bb_index = 0, bi_order = 0, bi_selected = False\<rparr>"

definition functions_get_injectable_bbs ::
    "function_hashtable \<Rightarrow> coverage_per_bb \<Rightarrow> bool \<Rightarrow> fault + bb_info_list" where
  "functions_get_injectable_bbs ft c only_executed =
     ebind (functions_get_injectable_bbs_internal ft c
         \<lparr>is_bb_list = bb_list_zero, is_only_executed = only_executed, is_bb_index = 0\<rparr>) (\<lambda>s.
       let l = is_bb_list s;
           l = l\<lparr>bl_bbs := CALLOC (bl_bb_count l) bb_info_zero\<rparr>
       in ebind (functions_get_injectable_bbs_internal ft c (s\<lparr>is_bb_list := l, is_bb_index := 0\<rparr>)) (\<lambda>s.
            if bl_bb_count (is_bb_list s) \<noteq> is_bb_index s then Inl AssertFail else Inr (is_bb_list s)))"

section \<open>Statistics per number of candidates\<close>

text \<open>A row for one number of candidates: suitable blocks, all blocks, and whether larger numbers occur.\<close>

fun per_count_function ::
    "function_hashtable \<Rightarrow> coverage_per_bb \<Rightarrow> bool \<Rightarrow> bool \<Rightarrow> nat \<Rightarrow> function_bb list \<Rightarrow> nat \<times> nat \<times> bool \<Rightarrow> fault + (nat \<times> nat \<times> bool)" where
  "per_count_function ft c have_logs use_inj v [] r = Inr r"
| "per_count_function ft c have_logs use_inj v (bb # bs) (suitable, total_bbs, larger) =
     (let value_curr = (if use_inj then fb_faultinj_count bb else fb_faultcand_count bb)
      in if v = value_curr then
           ebind (if fb_faultinj_count bb > 0 then
                    if \<not> have_logs then Inr True else ebind (coverage_get_bb ft c bb) (\<lambda>n. Inr (n > 0))
                  else Inr False) (\<lambda>ok.
             per_count_function ft c have_logs use_inj v bs (suitable + (if ok then 1 else 0), total_bbs + 1, larger))
         else per_count_function ft c have_logs use_inj v bs (suitable, total_bbs, larger \<or> v < value_curr))"

fun print_stats_per_count_line ::
    "function_hashtable \<Rightarrow> coverage_per_bb \<Rightarrow> bool \<Rightarrow> bool \<Rightarrow> nat \<Rightarrow> func list \<Rightarrow> nat \<times> nat \<times> bool \<Rightarrow> fault + (nat \<times> nat \<times> bool)" where
  "print_stats_per_count_line ft c have_logs use_inj v [] r = Inr r"
| "print_stats_per_count_line ft c have_logs use_inj v (f # fs) r =
     ebind (per_count_function ft c have_logs use_inj v (func_bbs f) r) (print_stats_per_count_line ft c have_logs use_inj v fs)"

definition candidates :: "bool \<Rightarrow> function_bb \<Rightarrow> nat" where
  "candidates use_inj bb = (if use_inj then fb_faultinj_count bb else fb_faultcand_count bb)"

text \<open>A larger number is only reported when a block has it, so the loop over the numbers ends.\<close>

lemma per_count_function_larger:
  "per_count_function ft c lg ui v bs (a, b, False) = Inr (x, y, True) \<Longrightarrow> \<exists>bb \<in> set bs. v < candidates ui bb"
  "per_count_function ft c lg ui v bs (a, b, l) = Inr (x, y, True) \<Longrightarrow> l \<or> (\<exists>bb \<in> set bs. v < candidates ui bb)"
proof -
  show *: "per_count_function ft c lg ui v bs (a, b, l) = Inr (x, y, True) \<Longrightarrow> l \<or> (\<exists>bb \<in> set bs. v < candidates ui bb)" for a b l
  proof (induction bs arbitrary: a b l)
    case (Cons bb bs)
    show ?case
    proof (cases "v = candidates ui bb")
      case True
      then obtain a' where "per_count_function ft c lg ui v bs (a', b + 1, l) = Inr (x, y, True)"
        using Cons.prems by (auto simp: candidates_def Let_def ebind_eq_Inr split: if_splits)
      then show ?thesis using Cons.IH by fastforce
    next
      case False
      then have "per_count_function ft c lg ui v bs (a, b, l \<or> v < candidates ui bb) = Inr (x, y, True)"
        using Cons.prems by (simp add: candidates_def Let_def)
      then show ?thesis using Cons.IH by fastforce
    qed
  qed simp
  show "per_count_function ft c lg ui v bs (a, b, False) = Inr (x, y, True) \<Longrightarrow> \<exists>bb \<in> set bs. v < candidates ui bb"
    using * by blast
qed

lemma per_count_line_larger:
  "print_stats_per_count_line ft c lg ui v fs (a, b, l) = Inr (x, y, True) \<Longrightarrow>
   l \<or> (\<exists>bb \<in> set (concat (map func_bbs fs)). v < candidates ui bb)"
proof (induction fs arbitrary: a b l)
  case (Cons f fs)
  then obtain a' b' l' where f: "per_count_function ft c lg ui v (func_bbs f) (a, b, l) = Inr (a', b', l')"
    "print_stats_per_count_line ft c lg ui v fs (a', b', l') = Inr (x, y, True)"
    by (auto simp: ebind_eq_Inr)
  show ?case using Cons.IH [OF f(2)] per_count_function_larger(2) [of ft c lg ui v "func_bbs f" a b l a' b'] f(1)
    by (cases l') auto
qed simp

definition max_candidates :: "bool \<Rightarrow> func list \<Rightarrow> nat" where
  "max_candidates use_inj fs = fold max (map (candidates use_inj) (concat (map func_bbs fs))) 0"

lemma max_candidates_ge:
  assumes "bb \<in> set (concat (map func_bbs fs))"
  shows "candidates ui bb \<le> max_candidates ui fs"
proof -
  let ?xs = "map (candidates ui) (concat (map func_bbs fs))"
  have "max_candidates ui fs = Max (set (0 # ?xs))"
    unfolding max_candidates_def using Max.set_eq_fold [of 0 ?xs] by simp
  moreover have "candidates ui bb \<in> set (0 # ?xs)" using assms by auto
  ultimately show ?thesis by (metis List.finite_set Max_ge)
qed

function print_stats_per_count ::
    "function_hashtable \<Rightarrow> coverage_per_bb \<Rightarrow> bool \<Rightarrow> bool \<Rightarrow> nat \<Rightarrow> fault + (nat \<times> nat \<times> nat) list" where
  "print_stats_per_count ft c have_logs use_inj v =
     ebind (print_stats_per_count_line ft c have_logs use_inj v (concat (entries ft)) (0, 0, False)) (\<lambda>r.
       let row = (if fst (snd r) \<noteq> 0 then [(v, fst r, fst (snd r))] else [])
       in if snd (snd r)
          then ebind (print_stats_per_count ft c have_logs use_inj (v + 1)) (\<lambda>rows. Inr (row @ rows))
          else Inr row)"
  by pat_completeness auto
termination
proof (relation "measure (\<lambda>(ft, c, lg, ui, v). max_candidates ui (concat (entries ft)) - v)")
  fix ft c lg ui v and r :: "nat \<times> nat \<times> bool" and row
  assume "print_stats_per_count_line ft c lg ui v (concat (entries ft)) (0, 0, False) = Inr r" "snd (snd r)"
  then obtain bb where bb: "bb \<in> set (concat (map func_bbs (concat (entries ft))))" "v < candidates ui bb"
    using per_count_line_larger [of ft c lg ui v "concat (entries ft)" 0 0 False "fst r" "fst (snd r)"]
    by (cases r) auto
  from max_candidates_ge [OF bb(1), of ui] bb(2)
  show "((ft, c, lg, ui, v + 1), ft, c, lg, ui, v) \<in> measure (\<lambda>(ft, c, lg, ui, v). max_candidates ui (concat (entries ft)) - v)"
    by simp
qed simp

declare print_stats_per_count.simps [simp del]

section \<open>Choosing blocks\<close>

text \<open>The k-th call of rand returns rand k; three calls make one 64-bit number.\<close>

definition rand64 :: "(nat \<Rightarrow> nat) \<Rightarrow> nat \<Rightarrow> 64 word" where
  "rand64 rand k = push_bit 30 (of_nat (rand k)) + push_bit 15 (of_nat (rand (k + 1))) + of_nat (rand (k + 2))"

definition select_faults_sort_compare :: "bb_info \<Rightarrow> bb_info \<Rightarrow> int" where
  "select_faults_sort_compare bb1 bb2 =
     (if bi_order bb1 < bi_order bb2 then -1 else if bi_order bb1 > bi_order bb2 then 1 else 0)"

definition bi_block :: "bb_info \<Rightarrow> function_bb" where
  "bi_block bi = the (f_bbs (the (bi_func bi))) ! func_bb_index bi"

text \<open>One pass over the list: the block in which the chosen candidate lies is selected.\<close>

fun select_one :: "int \<Rightarrow> bb_info list \<Rightarrow> (bb_info list \<times> nat) option" where
  "select_one fc_index [] = None"
| "select_one fc_index (bi # bis) =
     (if bi_selected bi then map_option (\<lambda>(r, n). (bi # r, n)) (select_one fc_index bis)
      else let n = fb_faultcand_count (bi_block bi); fc_index = fc_index - int n
           in if fc_index < 0 then Some (bi\<lparr>bi_selected := True\<rparr> # bis, n)
              else map_option (\<lambda>(r, n). (bi # r, n)) (select_one fc_index bis))"

fun select_loop :: "(nat \<Rightarrow> nat) \<Rightarrow> nat \<Rightarrow> nat \<Rightarrow> int \<Rightarrow> bb_info list \<Rightarrow> fault + bb_info list" where
  "select_loop rand k 0 fc_count bis = Inr bis"
| "select_loop rand k (Suc i) fc_count bis =
     (if \<not> fc_count > 0 then Inl AssertFail
      else case select_one (uint (rand64 rand k) mod fc_count) bis of
             None \<Rightarrow> Inl AssertFail
           | Some (bis, n) \<Rightarrow> select_loop rand (k + 3) i (fc_count - int n) bis)"

text \<open>The list is shuffled by sorting it by random numbers; the library's qsort is an argument.\<close>

type_synonym sorter = "(bb_info \<Rightarrow> bb_info \<Rightarrow> int) \<Rightarrow> bb_info list \<Rightarrow> bb_info list"

definition shuffle :: "sorter \<Rightarrow> (nat \<Rightarrow> nat) \<Rightarrow> bb_info list \<Rightarrow> bb_info list" where
  "shuffle qsort rand bis =
     qsort select_faults_sort_compare (map (\<lambda>(j, bi). bi\<lparr>bi_order := int (rand j)\<rparr>) (List.enumerate 0 bis))"

definition select_blocks :: "sorter \<Rightarrow> (nat \<Rightarrow> nat) \<Rightarrow> nat \<Rightarrow> bb_info_list \<Rightarrow> fault + bb_info list" where
  "select_blocks qsort rand numfaults l =
     (let numfaults = (if numfaults > bl_bb_count l then bl_bb_count l else numfaults);
          bis = shuffle qsort rand (case bl_bbs l of None \<Rightarrow> [] | Some bs \<Rightarrow> bs)
      in select_loop rand (bl_bb_count l) numfaults (int (s3_fc_count (st_exec (st_inj (bl_stats l))))) bis)"

text \<open>The pairs of a module's name and a one-based block number that are printed for a block.\<close>

definition fault_ref :: "module list \<Rightarrow> nat \<Rightarrow> func_pos \<Rightarrow> fault + (string option \<times> nat)" where
  "fault_ref ms k pos =
     (let fn = func_at ms pos
      in if k \<ge> bb_count fn then Inl AssertFail
         else Inr (m_name (ms ! fst pos), bb_index_first fn + k + 1))"

definition fault_spec :: "module list \<Rightarrow> bb_info \<Rightarrow> fault + (string option \<times> nat) list" where
  "fault_spec ms bi = emap (fault_ref ms (func_bb_index bi)) (f_refs (the (bi_func bi)))"

definition select_faults ::
    "sorter \<Rightarrow> (nat \<Rightarrow> nat) \<Rightarrow> module list \<Rightarrow> nat \<Rightarrow> bb_info_list \<Rightarrow> fault + (string option \<times> nat) list list" where
  "select_faults qsort rand ms numfaults l =
     ebind (select_blocks qsort rand numfaults l) (\<lambda>bis. emap (fault_spec ms) (filter bi_selected bis))"

section \<open>The picker\<close>

definition check_duplicate_map :: "module list \<Rightarrow> fault + unit" where
  "check_duplicate_map ms =
     ebind (module_find_duplicate ms) (\<lambda>r.
       if r = None then Inr () else Inl (Panic ''two map files both include the module''))"

text \<open>The modules for which the picker warns that there are no traces.\<close>

fun check_map_without_log :: "module_execcount list \<Rightarrow> module list \<Rightarrow> fault + string list" where
  "check_map_without_log logs [] = Inr []"
| "check_map_without_log logs (m # ms) =
     (case m_name m of
        None \<Rightarrow> if logs = [] then check_map_without_log logs ms else Inl NullDeref
      | Some nm \<Rightarrow> ebind (check_map_without_log logs ms) (\<lambda>ws.
          Inr (if execcounts_find logs nm = None then nm # ws else ws)))"

definition load_log :: "module_execcount list \<Rightarrow> module_execcount list \<Rightarrow> fault + module_execcount list" where
  "load_log logs logs_new =
     ebind (execcounts_deduplicate True logs_new) (\<lambda>logs_new. Inr (execcounts_concat logs logs_new))"

definition load_log_edfistats :: "module_execcount list \<Rightarrow> 64 word list \<Rightarrow> module_execcount list" where
  "load_log_edfistats logs bb_num_executions =
     execcounts_concat logs [\<lparr>ec_name = '''', ec_bbs = bb_num_executions\<rparr>]"

text \<open>From the loaded maps and logs to the list of suitable blocks.\<close>

definition faultpicker_prepare ::
    "((module \<Rightarrow> module \<Rightarrow> int) \<Rightarrow> module list \<Rightarrow> module list) \<Rightarrow> string list \<Rightarrow> string list \<Rightarrow> module list \<Rightarrow>
     module_execcount list \<Rightarrow> fault + (function_hashtable \<times> module list \<times> coverage_per_bb \<times> bb_info_list)" where
  "faultpicker_prepare qsort typeexclude typeinclude ms logs =
     (let ms = modules_sort qsort ms
      in ebind (check_duplicate_map ms) (\<lambda>_.
         ebind (fault_select typeexclude typeinclude ms) (\<lambda>ms.
         ebind (functions_build_table ms) (\<lambda>(ft, ms).
         ebind (execcounts_deduplicate True logs) (\<lambda>logs.
         ebind (coverage_add_execcount_list ft ms logs (coverage_init ft)) (\<lambda>c.
         ebind (if logs = [] then Inr [] else check_map_without_log logs ms) (\<lambda>_.
         ebind (functions_get_injectable_bbs ft c (logs \<noteq> [])) (\<lambda>l. Inr (ft, ms, c, l)))))))))"

section \<open>Specification of the suitable blocks\<close>

type_synonym block = "func \<times> nat \<times> function_bb"

definition func_blocks :: "func \<Rightarrow> block list" where
  "func_blocks f = map (\<lambda>(k, bb). (f, k, bb)) (List.enumerate 0 (func_bbs f))"

definition all_blocks :: "func list \<Rightarrow> block list" where
  "all_blocks fs = concat (map func_blocks fs)"

definition runs :: "coverage_per_bb \<Rightarrow> bool \<Rightarrow> block \<Rightarrow> bool" where
  "runs c only_executed b = (\<not> only_executed \<or> count_of c (global_bb_index (snd (snd b))) > 0)"

definition suitable :: "coverage_per_bb \<Rightarrow> bool \<Rightarrow> block \<Rightarrow> bool" where
  "suitable c only_executed b = (fb_faultinj_count (snd (snd b)) > 0 \<and> runs c only_executed b)"

definition has_cand :: "block \<Rightarrow> bool" where
  "has_cand b = (fb_faultcand_count (snd (snd b)) > 0)"

definition has_inj :: "block \<Rightarrow> bool" where
  "has_inj b = (fb_faultinj_count (snd (snd b)) > 0)"

definition stats3_for :: "block list \<Rightarrow> bb_info_stats3" where
  "stats3_for bs = \<lparr>s3_bb_count = length bs, s3_fc_count = sum_list (map (\<lambda>b. fb_faultcand_count (snd (snd b))) bs)\<rparr>"

definition stats2_for :: "(block \<Rightarrow> bool) \<Rightarrow> block list \<Rightarrow> bb_info_stats2" where
  "stats2_for P bs = \<lparr>st_exec = stats3_for (filter P bs), st_noexec = stats3_for (filter (\<lambda>b. \<not> P b) bs)\<rparr>"

text \<open>Every block is counted in one of six classes and in the total.\<close>

definition stats_for :: "(block \<Rightarrow> bool) \<Rightarrow> block list \<Rightarrow> bb_info_stats" where
  "stats_for P bs =
     \<lparr>st_inj = stats2_for P (filter (\<lambda>b. has_cand b \<and> has_inj b) bs),
      st_noinj = stats2_for P (filter (\<lambda>b. has_cand b \<and> \<not> has_inj b) bs),
      st_nocand = stats2_for P (filter (\<lambda>b. \<not> has_cand b) bs),
      st_total = stats3_for bs\<rparr>"

definition info_of :: "block \<Rightarrow> bb_info" where
  "info_of b = bb_info_zero\<lparr>bi_func := Some (fst b), func_bb_index := fst (snd b)\<rparr>"

definition shared_funcs :: "func list \<Rightarrow> func list" where
  "shared_funcs fs = filter (\<lambda>f. length (f_refs f) > 1) fs"

text \<open>The state while counting, and while filling in the entries.\<close>

definition counting :: "coverage_per_bb \<Rightarrow> bool \<Rightarrow> block list \<Rightarrow> func list \<Rightarrow> injectable_state" where
  "counting c only_executed bs fs =
     \<lparr>is_bb_list = \<lparr>bl_stats = stats_for (runs c only_executed) bs, bl_func_count = length fs,
        bl_func_count_shared = length (shared_funcs fs), bl_bb_count = length (filter (suitable c only_executed) bs), bl_bbs = None\<rparr>,
      is_only_executed = only_executed, is_bb_index = 0\<rparr>"

definition filling :: "bb_info_list \<Rightarrow> bool \<Rightarrow> nat \<Rightarrow> block list \<Rightarrow> injectable_state" where
  "filling l only_executed n bs =
     \<lparr>is_bb_list = l\<lparr>bl_bbs := Some (map info_of bs @ replicate (n - length bs) bb_info_zero)\<rparr>,
      is_only_executed = only_executed, is_bb_index = length bs\<rparr>"

section \<open>Lemmas: suitable blocks\<close>

lemma stats3_snoc: "stats3_for (bs @ [b]) = count3 (snd (snd b)) (stats3_for bs)"
  by (simp add: stats3_for_def count3_def)

lemma stats2_snoc: "stats2_for P (bs @ [b]) = count2 (snd (snd b)) (P b) (stats2_for P bs)"
  by (simp add: stats2_for_def count2_def stats3_snoc)

lemma stats_snoc: "stats_for P (bs @ [b]) = count_bb (snd (snd b)) (P b) (stats_for P bs)"
  by (simp add: stats_for_def count_bb_def Let_def stats3_snoc stats2_snoc has_cand_def has_inj_def)

lemma counting_bb:
  assumes "cov_ok ft c" "bb_ok ft bb"
  shows "functions_get_injectable_bbs_bb ft c f bb k (counting c oe bs fs) = Inr (counting c oe (bs @ [(f, k, bb)]) fs)"
  using get_bb [OF assms]
  by (simp add: functions_get_injectable_bbs_bb_def counting_def Let_def stats_snoc suitable_def runs_def)

lemma filling_bb:
  assumes "cov_ok ft c" "bb_ok ft bb" "suitable c oe (f, k, bb) \<Longrightarrow> length bs < n"
  shows "functions_get_injectable_bbs_bb ft c f bb k (filling l oe n bs) =
    Inr (filling l oe n (bs @ filter (suitable c oe) [(f, k, bb)]))"
proof (cases "suitable c oe (f, k, bb)")
  case True
  obtain d where d: "n = length bs + Suc d" using assms(3) [OF True] less_imp_Suc_add by auto
  have "functions_get_injectable_bbs_bb ft c f bb k (filling l oe n bs) = Inr ((filling l oe n bs)
      \<lparr>is_bb_list := l\<lparr>bl_bbs := Some ((map info_of bs @ bb_info_zero # replicate d bb_info_zero)[length bs :=
         info_of (f, k, bb)])\<rparr>, is_bb_index := length bs + 1\<rparr>)"
    using get_bb [OF assms(1,2)] True d
    by (auto simp: functions_get_injectable_bbs_bb_def filling_def Let_def suitable_def runs_def info_of_def nth_append)
  then show ?thesis using True d by (simp add: filling_def list_update_append)
next
  case False
  then show ?thesis using get_bb [OF assms(1,2)]
    by (auto simp: functions_get_injectable_bbs_bb_def filling_def Let_def suitable_def runs_def)
qed

lemma counting_bbs:
  assumes "cov_ok ft c"
  shows "\<forall>bb \<in> set xs. bb_ok ft bb \<Longrightarrow> injectable_bbs_loop ft c f xs k (counting c oe bs fs) =
    Inr (counting c oe (bs @ map (\<lambda>(k, bb). (f, k, bb)) (List.enumerate k xs)) fs)"
  by (induction xs arbitrary: k bs) (simp_all add: counting_bb [OF assms])

lemma filling_bbs:
  assumes "cov_ok ft c"
  shows "\<forall>bb \<in> set xs. bb_ok ft bb \<Longrightarrow>
    length (bs @ filter (suitable c oe) (map (\<lambda>(k, bb). (f, k, bb)) (List.enumerate k xs))) \<le> n \<Longrightarrow>
    injectable_bbs_loop ft c f xs k (filling l oe n bs) =
    Inr (filling l oe n (bs @ filter (suitable c oe) (map (\<lambda>(k, bb). (f, k, bb)) (List.enumerate k xs))))"
proof (induction xs arbitrary: k bs)
  case (Cons bb xs)
  have "functions_get_injectable_bbs_bb ft c f bb k (filling l oe n bs) =
      Inr (filling l oe n (bs @ filter (suitable c oe) [(f, k, bb)]))"
    by (rule filling_bb [OF assms]) (use Cons.prems in simp_all)
  then show ?case using Cons.IH [of "bs @ filter (suitable c oe) [(f, k, bb)]" "Suc k"] Cons.prems
    by (simp split: if_splits)
qed simp

definition blocks_ok :: "function_hashtable \<Rightarrow> func list \<Rightarrow> bool" where
  "blocks_ok ft fs = (\<forall>f \<in> set fs. \<forall>bb \<in> set (func_bbs f). bb_ok ft bb)"

lemma counting_funcs:
  assumes "cov_ok ft c"
  shows "blocks_ok ft fs \<Longrightarrow> functions_get_injectable_bbs_func_entry ft c fs (counting c oe bs gs) =
    Inr (counting c oe (bs @ all_blocks fs) (gs @ fs))"
proof (induction fs arbitrary: bs gs)
  case (Cons f fs)
  have "functions_get_injectable_bbs_func ft c f (counting c oe bs gs) = Inr (counting c oe (bs @ func_blocks f) (gs @ [f]))"
    using counting_bbs [OF assms, of "func_bbs f" f 0] Cons.prems
    by (simp add: functions_get_injectable_bbs_func_def blocks_ok_def func_blocks_def counting_def shared_funcs_def Let_def)
  then show ?case using Cons by (simp add: all_blocks_def blocks_ok_def)
qed (simp add: all_blocks_def)

lemma filling_funcs:
  assumes "cov_ok ft c"
  shows "blocks_ok ft fs \<Longrightarrow> length (bs @ filter (suitable c oe) (all_blocks fs)) \<le> n \<Longrightarrow>
    functions_get_injectable_bbs_func_entry ft c fs (filling l oe n bs) =
    Inr (filling l oe n (bs @ filter (suitable c oe) (all_blocks fs)))"
proof (induction fs arbitrary: bs)
  case (Cons f fs)
  have "functions_get_injectable_bbs_func ft c f (filling l oe n bs) = Inr (filling l oe n (bs @ filter (suitable c oe) (func_blocks f)))"
    using filling_bbs [OF assms, of "func_bbs f" bs oe f 0 n l] Cons.prems
    by (simp add: functions_get_injectable_bbs_func_def blocks_ok_def func_blocks_def filling_def all_blocks_def Let_def)
  then show ?case using Cons by (simp add: all_blocks_def blocks_ok_def)
qed (simp add: all_blocks_def)

lemma func_entry_append:
  "functions_get_injectable_bbs_func_entry ft c (fs @ gs) s =
    ebind (functions_get_injectable_bbs_func_entry ft c fs s) (functions_get_injectable_bbs_func_entry ft c gs)"
proof (induction fs arbitrary: s)
  case (Cons f fs)
  then show ?case by (cases "functions_get_injectable_bbs_func ft c f s") simp_all
qed simp

lemma internal_concat:
  "functions_get_injectable_bbs_internal ft c s = functions_get_injectable_bbs_func_entry ft c (concat (entries ft)) s"
proof -
  have "injectable_entries ft c t s = functions_get_injectable_bbs_func_entry ft c (concat t) s" for t
  proof (induction t arbitrary: s)
    case (Cons ch t)
    then show ?case by (cases "functions_get_injectable_bbs_func_entry ft c ch s") (simp_all add: func_entry_append)
  qed simp
  then show ?thesis by (simp add: functions_get_injectable_bbs_internal_def)
qed

lemma injectable_bbs:
  assumes "cov_ok ft c" "blocks_ok ft (concat (entries ft))"
  shows "functions_get_injectable_bbs ft c oe =
    (let fs = concat (entries ft); bs = all_blocks fs; ss = filter (suitable c oe) bs; none = (ss = []) in
     Inr \<lparr>bl_stats = stats_for (runs c oe) (if none then bs @ bs else bs),
       bl_func_count = length (if none then fs @ fs else fs),
       bl_func_count_shared = length (shared_funcs (if none then fs @ fs else fs)),
       bl_bb_count = length ss, bl_bbs = (if none then None else Some (map info_of ss))\<rparr>)"
proof -
  let ?fs = "concat (entries ft)"
  let ?bs = "all_blocks ?fs"
  let ?ss = "filter (suitable c oe) ?bs"
  have zero: "\<lparr>is_bb_list = bb_list_zero, is_only_executed = oe, is_bb_index = 0\<rparr> = counting c oe [] []"
    by (simp add: counting_def bb_list_zero_def stats_for_def stats2_for_def stats3_for_def stats2_zero_def stats3_zero_def shared_funcs_def)
  have first: "functions_get_injectable_bbs_internal ft c (counting c oe [] []) = Inr (counting c oe ?bs ?fs)"
    using counting_funcs [OF assms, of oe "[]" "[]"] by (simp add: internal_concat)
  show ?thesis
  proof (cases "?ss = []")
    case True
    have "functions_get_injectable_bbs_internal ft c (counting c oe ?bs ?fs) = Inr (counting c oe (?bs @ ?bs) (?fs @ ?fs))"
      using counting_funcs [OF assms, of oe ?bs ?fs] by (simp add: internal_concat)
    moreover have "(counting c oe ?bs ?fs)\<lparr>is_bb_list := (is_bb_list (counting c oe ?bs ?fs))\<lparr>bl_bbs :=
        CALLOC (bl_bb_count (is_bb_list (counting c oe ?bs ?fs))) bb_info_zero\<rparr>, is_bb_index := 0\<rparr> = counting c oe ?bs ?fs"
      using True by (simp add: counting_def CALLOC_def)
    ultimately show ?thesis using True unfolding functions_get_injectable_bbs_def zero first
      by (simp add: Let_def counting_def)
  next
    case False
    let ?l = "is_bb_list (counting c oe ?bs ?fs)"
    have "(counting c oe ?bs ?fs)\<lparr>is_bb_list := ?l\<lparr>bl_bbs := CALLOC (bl_bb_count ?l) bb_info_zero\<rparr>, is_bb_index := 0\<rparr> =
        filling ?l oe (length ?ss) []"
      using False by (simp add: counting_def filling_def CALLOC_def)
    moreover have "functions_get_injectable_bbs_internal ft c (filling ?l oe (length ?ss) []) = Inr (filling ?l oe (length ?ss) ?ss)"
      using filling_funcs [OF assms, of "[]" oe "length ?ss" ?l] by (simp add: internal_concat)
    ultimately show ?thesis using False unfolding functions_get_injectable_bbs_def zero first
      by (simp add: Let_def filling_def counting_def)
  qed
qed

section \<open>Lemmas: choosing blocks\<close>

definition weight :: "bb_info \<Rightarrow> nat" where
  "weight bi = fb_faultcand_count (bi_block bi)"

definition remaining :: "bb_info list \<Rightarrow> nat" where
  "remaining bis = sum_list (map (\<lambda>bi. if bi_selected bi then 0 else weight bi) bis)"

lemma remaining_simps [simp]:
  "remaining [] = 0" "remaining (bi # bis) = (if bi_selected bi then 0 else weight bi) + remaining bis"
  "remaining (xs @ ys) = remaining xs + remaining ys"
  by (simp_all add: remaining_def)

lemma select_one_picks:
  "x < remaining bis \<Longrightarrow>
   \<exists>pre bi post. bis = pre @ bi # post \<and> \<not> bi_selected bi \<and> remaining pre \<le> x \<and> x < remaining pre + weight bi \<and>
     select_one (int x) bis = Some (pre @ bi\<lparr>bi_selected := True\<rparr> # post, weight bi)"
proof (induction bis arbitrary: x)
  case (Cons b bis)
  let ?w = "if bi_selected b then 0 else weight b"
  show ?case
  proof (cases "x < ?w")
    case True
    then show ?thesis by (intro exI [of _ "[]"] exI [of _ b] exI [of _ bis]) (auto simp: Let_def weight_def split: if_splits)
  next
    case False
    then have "x - ?w < remaining bis" using Cons.prems by (auto split: if_splits)
    from Cons.IH [OF this] obtain pre bi post where
      r: "bis = pre @ bi # post" "\<not> bi_selected bi" "remaining pre \<le> x - ?w" "x - ?w < remaining pre + weight bi"
        "select_one (int (x - ?w)) bis = Some (pre @ bi\<lparr>bi_selected := True\<rparr> # post, weight bi)" by blast
    have "int (x - ?w) = int x - int ?w" using False by (simp add: of_nat_diff)
    then have "select_one (int x) (b # bis) = Some ((b # pre) @ bi\<lparr>bi_selected := True\<rparr> # post, weight bi)"
      using False r(5) by (auto simp: Let_def weight_def split: if_splits)
    then show ?thesis using r False by (intro exI [of _ "b # pre"] exI [of _ bi] exI [of _ post]) auto
  qed
qed simp

definition block_of :: "bb_info \<Rightarrow> func option \<times> nat" where
  "block_of bi = (bi_func bi, func_bb_index bi)"

lemma block_of_simps [simp]:
  "block_of (bi\<lparr>bi_selected := b\<rparr>) = block_of bi" "block_of (bi\<lparr>bi_order := j\<rparr>) = block_of bi"
  by (simp_all add: block_of_def)

lemma select_loop_selects:
  "\<forall>bi \<in> set bis. \<not> bi_selected bi \<longrightarrow> 0 < weight bi \<Longrightarrow> i \<le> length (filter (\<lambda>bi. \<not> bi_selected bi) bis) \<Longrightarrow>
   \<exists>r. select_loop rand k i (int (remaining bis)) bis = Inr r \<and> map block_of r = map block_of bis \<and>
     length (filter bi_selected r) = length (filter bi_selected bis) + i"
proof (induction i arbitrary: k bis)
  case (Suc i)
  obtain b where b: "b \<in> set bis" "\<not> bi_selected b"
    using Suc.prems(2) by (metis (mono_tags, lifting) Suc_le_D filter_empty_conv list.size(3) nat.distinct(1))
  then obtain xs ys where "bis = xs @ b # ys" by (meson split_list)
  then have pos: "0 < remaining bis" using b Suc.prems(1) by simp
  let ?x = "unat (rand64 rand k) mod remaining bis"
  have "?x < remaining bis" using pos by simp
  from select_one_picks [OF this] obtain pre bi post where
    r: "bis = pre @ bi # post" "\<not> bi_selected bi" "select_one (int ?x) bis = Some (pre @ bi\<lparr>bi_selected := True\<rparr> # post, weight bi)"
    by blast
  let ?n = "pre @ bi\<lparr>bi_selected := True\<rparr> # post"
  have rem: "int (remaining bis) - int (weight bi) = int (remaining ?n)" using r(1,2) by simp
  have idx: "uint (rand64 rand k) mod int (remaining bis) = int ?x"
    by (simp only: of_nat_mod uint_nat)
  have "\<forall>bi \<in> set ?n. \<not> bi_selected bi \<longrightarrow> 0 < weight bi" "i \<le> length (filter (\<lambda>bi. \<not> bi_selected bi) ?n)"
    using Suc.prems r(1,2) by auto
  from Suc.IH [OF this, of "k + 3"] obtain res where
    "select_loop rand (k + 3) i (int (remaining ?n)) ?n = Inr res" "map block_of res = map block_of ?n"
      "length (filter bi_selected res) = length (filter bi_selected ?n) + i" by blast
  moreover have "select_loop rand k (Suc i) (int (remaining bis)) bis = select_loop rand (k + 3) i (int (remaining ?n)) ?n"
    using pos by (simp only: select_loop.simps idx r(3) rem option.case prod.case of_nat_0_less_iff if_True if_False not_True_eq_False)
  ultimately show ?case using r(1,2) by (intro exI [of _ res]) simp
qed simp

lemma select_one_index:
  assumes "j < length bis" "\<not> bi_selected (bis ! j)" "x < remaining bis"
  shows "(\<exists>n. select_one (int x) bis = Some (bis[j := (bis ! j)\<lparr>bi_selected := True\<rparr>], n)) \<longleftrightarrow>
    remaining (take j bis) \<le> x \<and> x < remaining (take j bis) + weight (bis ! j)"
proof -
  obtain pre bi post where r: "bis = pre @ bi # post" "\<not> bi_selected bi" "remaining pre \<le> x" "x < remaining pre + weight bi"
    "select_one (int x) bis = Some (pre @ bi\<lparr>bi_selected := True\<rparr> # post, weight bi)"
    using select_one_picks [OF assms(3)] by blast
  have mono: "remaining (take a bis) + weight (bis ! a) \<le> remaining (take b bis)"
    if "a < b" "b \<le> length bis" "\<not> bi_selected (bis ! a)" for a b
  proof -
    have "take b bis = take a bis @ bis ! a # take (b - Suc a) (drop (Suc a) bis)"
      using that by (metis Cons_nth_drop_Suc add_diff_inverse_nat diff_Suc_1 diff_diff_left le_add_diff_inverse
          less_imp_le less_le_trans not_less_eq plus_1_eq_Suc take_Suc_Cons take_add Suc_diff_Suc)
    then show ?thesis using that(3) by simp
  qed
  show ?thesis
  proof (cases "j = length pre")
    case True
    then show ?thesis using r by simp
  next
    case False
    have "bis[j := (bis ! j)\<lparr>bi_selected := True\<rparr>] \<noteq> pre @ bi\<lparr>bi_selected := True\<rparr> # post"
    proof
      assume "bis[j := (bis ! j)\<lparr>bi_selected := True\<rparr>] = pre @ bi\<lparr>bi_selected := True\<rparr> # post"
      then have "bi_selected (bis[j := (bis ! j)\<lparr>bi_selected := True\<rparr>] ! length pre)" by simp
      then show False using False r(1,2) by simp
    qed
    moreover have "\<not> (remaining (take j bis) \<le> x \<and> x < remaining (take j bis) + weight (bis ! j))"
      using mono [of j "length pre"] mono [of "length pre" j] assms(1,2) False r(1-4)
      by (cases "j < length pre") auto
    ultimately show ?thesis using r(5) by auto
  qed
qed


section \<open>Lemmas: rows per number of candidates\<close>

definition suits :: "coverage_per_bb \<Rightarrow> bool \<Rightarrow> function_bb \<Rightarrow> bool" where
  "suits c lg bb = (fb_faultinj_count bb > 0 \<and> (\<not> lg \<or> count_of c (global_bb_index bb) > 0))"

definition with_count :: "bool \<Rightarrow> nat \<Rightarrow> function_bb list \<Rightarrow> function_bb list" where
  "with_count ui v bs = filter (\<lambda>bb. candidates ui bb = v) bs"

lemma per_count_function_rows:
  assumes "cov_ok ft c"
  shows "\<forall>bb \<in> set bs. bb_ok ft bb \<Longrightarrow> per_count_function ft c lg ui v bs (a, b, l) =
    Inr (a + length (filter (suits c lg) (with_count ui v bs)), b + length (with_count ui v bs),
      l \<or> (\<exists>bb \<in> set bs. v < candidates ui bb))"
proof (induction bs arbitrary: a b l)
  case (Cons bb bs)
  have "(if fb_faultinj_count bb > 0 then
      if \<not> lg then Inr True else ebind (coverage_get_bb ft c bb) (\<lambda>n. Inr (n > 0)) else Inr False) = Inr (suits c lg bb)"
    using get_bb [OF assms, of bb] Cons.prems by (simp add: suits_def)
  then show ?case using Cons
    by (cases "v = candidates ui bb") (simp_all add: Let_def candidates_def [symmetric] with_count_def disj_assoc)
qed (simp add: with_count_def)

lemma per_count_line_rows:
  assumes "cov_ok ft c"
  shows "blocks_ok ft fs \<Longrightarrow> print_stats_per_count_line ft c lg ui v fs (a, b, l) =
    (let bs = concat (map func_bbs fs) in
     Inr (a + length (filter (suits c lg) (with_count ui v bs)), b + length (with_count ui v bs),
       l \<or> (\<exists>bb \<in> set bs. v < candidates ui bb)))"
proof (induction fs arbitrary: a b l)
  case (Cons f fs)
  have "\<forall>bb \<in> set (func_bbs f). bb_ok ft bb" "blocks_ok ft fs" using Cons.prems by (simp_all add: blocks_ok_def)
  then show ?case using Cons.IH per_count_function_rows [OF assms, of "func_bbs f"]
    by (simp add: Let_def with_count_def bex_Un add.assoc disj_assoc)
qed (simp add: with_count_def)

definition row_of :: "coverage_per_bb \<Rightarrow> bool \<Rightarrow> bool \<Rightarrow> function_bb list \<Rightarrow> nat \<Rightarrow> (nat \<times> nat \<times> nat) list" where
  "row_of c lg ui bs v =
     (if with_count ui v bs = [] then [] else [(v, length (filter (suits c lg) (with_count ui v bs)), length (with_count ui v bs))])"

lemma per_count_rows:
  assumes "cov_ok ft c" "blocks_ok ft (concat (entries ft))"
  defines "bs \<equiv> concat (map func_bbs (concat (entries ft)))"
  shows "v \<le> max_candidates ui (concat (entries ft)) \<Longrightarrow> print_stats_per_count ft c lg ui v =
    Inr (concat (map (row_of c lg ui bs) [v..<Suc (max_candidates ui (concat (entries ft)))]))"
proof (induction "max_candidates ui (concat (entries ft)) - v" arbitrary: v)
  case (0 v)
  let ?m = "max_candidates ui (concat (entries ft))"
  have "v = ?m" using 0 by simp
  then have "\<not> (\<exists>bb \<in> set bs. v < candidates ui bb)"
    using max_candidates_ge [of _ "concat (entries ft)" ui] unfolding bs_def by (meson not_less)
  then show ?case using \<open>v = ?m\<close> per_count_line_rows [OF assms(1,2), of lg ui v 0 0 False]
    unfolding print_stats_per_count.simps [of ft c lg ui v] bs_def [symmetric] Let_def by (simp add: row_of_def)
next
  case (Suc n v)
  let ?m = "max_candidates ui (concat (entries ft))"
  have less: "v < ?m" using Suc.hyps(2) by simp
  have "?m = Max (set (0 # map (candidates ui) bs))"
    unfolding max_candidates_def bs_def using Max.set_eq_fold [of 0 "map (candidates ui) bs"] by (simp add: bs_def)
  then have "?m \<in> set (0 # map (candidates ui) bs)" by (metis List.finite_set Max_in empty_iff set_empty list.discI)
  then have larger: "\<exists>bb \<in> set bs. v < candidates ui bb" using less by auto
  have "print_stats_per_count ft c lg ui (v + 1) = Inr (concat (map (row_of c lg ui bs) [v + 1..<Suc ?m]))"
    by (rule Suc.hyps(1)) (use Suc.hyps(2) less in simp_all)
  moreover have "[v..<Suc ?m] = v # [v + 1..<Suc ?m]" using less by (simp add: upt_rec)
  ultimately show ?case using larger per_count_line_rows [OF assms(1,2), of lg ui v 0 0 False]
    unfolding print_stats_per_count.simps [of ft c lg ui v] bs_def [symmetric] Let_def by (simp add: row_of_def)
qed

section \<open>Lemmas: the chosen blocks\<close>

lemma block_weight:
  assumes "b \<in> set (all_blocks fs)"
  shows "weight (info_of b) = fb_faultcand_count (snd (snd b))"
proof -
  obtain f k where f: "b = (f, k, func_bbs f ! k)" "k < length (func_bbs f)"
    using assms by (auto simp: all_blocks_def func_blocks_def in_set_enumerate_eq)
  then have "the (f_bbs f) ! k = func_bbs f ! k" by (cases "f_bbs f") (auto simp: func_bbs_def)
  then show ?thesis using f by (simp add: weight_def bi_block_def info_of_def)
qed

lemma set_order [simp]:
  "weight (bi\<lparr>bi_order := j\<rparr>) = weight bi" "bi_selected (bi\<lparr>bi_order := j\<rparr>) = bi_selected bi"
  by (simp_all add: weight_def bi_block_def)

lemma sum_list_perm: "mset xs = mset ys \<Longrightarrow> sum_list (map f xs) = (sum_list (map f ys) :: nat)"
  by (metis mset_map sum_mset_sum_list)

lemma ordered_view:
  "(\<And>bi j. h (bi\<lparr>bi_order := j\<rparr>) = h bi) \<Longrightarrow>
   map h (map (\<lambda>(j, bi). bi\<lparr>bi_order := int (rand j)\<rparr>) (List.enumerate k bis)) = map h bis"
  by (induction bis arbitrary: k) auto

lemma shuffled:
  assumes "\<forall>cmp xs. mset (qsort cmp xs) = mset xs" "\<forall>bi \<in> set bis. \<not> bi_selected bi"
  shows "\<forall>bi \<in> set (shuffle qsort rand bis). \<not> bi_selected bi" "remaining (shuffle qsort rand bis) = sum_list (map weight bis)"
    "mset (map block_of (shuffle qsort rand bis)) = mset (map block_of bis)" "length (shuffle qsort rand bis) = length bis"
    "weight ` set (shuffle qsort rand bis) = weight ` set bis"
proof -
  let ?o = "map (\<lambda>(j, bi). bi\<lparr>bi_order := int (rand j)\<rparr>) (List.enumerate 0 bis)"
  have perm: "mset (shuffle qsort rand bis) = mset ?o" using assms(1) by (simp add: shuffle_def)
  have w: "map weight ?o = map weight bis" and s: "map bi_selected ?o = map bi_selected bis"
    and b: "map block_of ?o = map block_of bis" by (rule ordered_view; simp)+
  have sets: "set (shuffle qsort rand bis) = set ?o" using perm by (metis set_mset_mset)
  have "bi_selected ` set ?o = bi_selected ` set bis" by (simp only: set_map [symmetric] s)
  then have "\<forall>y \<in> bi_selected ` set ?o. \<not> y" using assms(2) by blast
  then show unsel: "\<forall>bi \<in> set (shuffle qsort rand bis). \<not> bi_selected bi" unfolding sets by blast
  show "remaining (shuffle qsort rand bis) = sum_list (map weight bis)"
  proof -
    have "remaining (shuffle qsort rand bis) = sum_list (map weight (shuffle qsort rand bis))"
      unfolding remaining_def using unsel by (intro arg_cong [where f = sum_list]) auto
    also have "\<dots> = sum_list (map weight ?o)" by (rule sum_list_perm [OF perm])
    also have "\<dots> = sum_list (map weight bis)" using w by simp
    finally show ?thesis .
  qed
  show "mset (map block_of (shuffle qsort rand bis)) = mset (map block_of bis)"
  proof -
    have "mset (map block_of (shuffle qsort rand bis)) = image_mset block_of (mset ?o)" by (simp only: mset_map perm)
    also have "\<dots> = mset (map block_of ?o)" by (rule mset_map [symmetric])
    finally show ?thesis by (simp only: b)
  qed
  show "length (shuffle qsort rand bis) = length bis" using perm by (metis length_enumerate length_map mset_eq_length)
  show "weight ` set (shuffle qsort rand bis) = weight ` set bis"
    unfolding sets by (simp only: set_map [symmetric] w)
qed

lemma select_blocks_selects:
  assumes "cov_ok ft c" "blocks_ok ft (concat (entries ft))" "\<forall>cmp xs. mset (qsort cmp xs) = mset xs"
    "\<forall>b \<in> set (all_blocks (concat (entries ft))). has_inj b \<longrightarrow> has_cand b"
    "functions_get_injectable_bbs ft c oe = Inr l"
  defines "ss \<equiv> filter (suitable c oe) (all_blocks (concat (entries ft)))"
  shows "\<exists>bis. select_blocks qsort rand n l = Inr bis \<and> mset (map block_of bis) = mset (map (\<lambda>(f, k, bb). (Some f, k)) ss) \<and>
    length (filter bi_selected bis) = min n (length ss)"
proof -
  let ?bs = "all_blocks (concat (entries ft))" and ?in = "map info_of ss"
  have l: "bl_bb_count l = length ss" "bl_bbs l = (if ss = [] then None else Some ?in)"
    "ss \<noteq> [] \<Longrightarrow> bl_stats l = stats_for (runs c oe) ?bs"
    using injectable_bbs [OF assms(1,2), of oe] assms(5) by (auto simp: Let_def ss_def)
  have unsel: "\<forall>bi \<in> set ?in. \<not> bi_selected bi" by (simp add: info_of_def bb_info_zero_def)
  note sh = shuffled [OF assms(3) unsel, of rand]
  have bl: "map block_of ?in = map (\<lambda>(f, k, bb). (Some f, k)) ss" by (auto simp: block_of_def info_of_def)
  have w: "weight (info_of b) = fb_faultcand_count (snd (snd b))" if "b \<in> set ss" for b
    using that block_weight [of b "concat (entries ft)"] by (simp add: ss_def)
  have pos: "\<forall>bi \<in> set (shuffle qsort rand ?in). \<not> bi_selected bi \<longrightarrow> 0 < weight bi"
  proof -
    have "\<forall>y \<in> weight ` set ?in. 0 < y" using w assms(4) by (auto simp: ss_def suitable_def has_inj_def has_cand_def)
    then show ?thesis unfolding sh(5) [symmetric] by blast
  qed
  have num: "(if n > bl_bb_count l then bl_bb_count l else n) = min n (length ss)" using l(1) by auto
  have ins: "(case bl_bbs l of None \<Rightarrow> [] | Some bs \<Rightarrow> bs) = ?in" using l(2) by simp
  have fc: "s3_fc_count (st_exec (st_inj (bl_stats l))) = remaining (shuffle qsort rand ?in)" if "ss \<noteq> []"
  proof -
    have "filter (runs c oe) (filter (\<lambda>b. has_cand b \<and> has_inj b) ?bs) = ss"
      using assms(4) by (auto simp: ss_def suitable_def has_inj_def intro!: filter_cong)
    then have "s3_fc_count (st_exec (st_inj (bl_stats l))) = sum_list (map (\<lambda>b. fb_faultcand_count (snd (snd b))) ss)"
      using l(3) [OF that] by (simp add: stats_for_def stats2_for_def stats3_for_def)
    also have "\<dots> = sum_list (map weight ?in)" using w by (intro arg_cong [where f = sum_list]) auto
    finally show ?thesis using sh(2) by simp
  qed
  have all: "filter (\<lambda>bi. \<not> bi_selected bi) (shuffle qsort rand ?in) = shuffle qsort rand ?in" "filter bi_selected (shuffle qsort rand ?in) = []"
    using sh(1) by (auto simp: filter_id_conv filter_empty_conv)
  have "min n (length ss) \<le> length (filter (\<lambda>bi. \<not> bi_selected bi) (shuffle qsort rand ?in))" using all sh(4) by simp
  from select_loop_selects [OF pos this, of rand "bl_bb_count l"] obtain bis where
    b: "select_loop rand (bl_bb_count l) (min n (length ss)) (int (remaining (shuffle qsort rand ?in))) (shuffle qsort rand ?in) = Inr bis"
      "map block_of bis = map block_of (shuffle qsort rand ?in)" "length (filter bi_selected bis) = min n (length ss)"
    using all by auto
  have "select_blocks qsort rand n l = Inr bis"
  proof (cases "ss = []")
    case True
    then show ?thesis using b(1) unfolding select_blocks_def Let_def num ins by simp
  next
    case False
    show ?thesis unfolding select_blocks_def Let_def num ins fc [OF False] by (rule b(1))
  qed
  moreover have "mset (map block_of bis) = mset (map (\<lambda>(f, k, bb). (Some f, k)) ss)" unfolding b(2) sh(3) bl ..
  ultimately show ?thesis using b(3) by blast
qed

section \<open>Lemmas: fault specifications\<close>

text \<open>The loader's numbering of a module: a function starts where the preceding ones end.\<close>

definition firsts_ok :: "module list \<Rightarrow> bool" where
  "firsts_ok ms = (\<forall>i < length ms. \<forall>j < func_count (ms ! i).
     bb_index_first (func_at ms (i, j)) = sum_list (map (\<lambda>j. bb_count (func_at ms (i, j))) [0..<j]))"

lemma to_global_scan_at:
  assumes "global_func fn = Some k" "functions_find (entry_count ft) (entries ft) (fst k) (snd k) = Some f"
    "f_bb_count f = bb_count fn" "y < bb_count fn"
  shows "to_global_scan ft (pre @ fn # post) (int (sum_list (map bb_count pre) + y)) = Inr (int (global_bb_index (the (f_bbs f) ! y)))"
  using assms by (induction pre) auto

lemma table_funcs:
  assumes "0 < n" "table_of n ms ps t" "ft = functions_init_global_bbs n t" "f \<in> set (concat (entries ft))"
  shows "functions_find n (entries ft) (fst (func_key_of f)) (snd (func_key_of f)) = Some f"
    "f_refs f = members ms ps (func_key_of f)" "f_refs f \<noteq> []"
proof -
  have "table_wf func_key_of (func_bucket n) n (entries ft)"
    using table_ofD(1) [OF assms(2)] number_wf by (simp add: assms(3) functions_init_global_bbs_def Let_def)
  then have "table_find func_key_of (func_bucket n) (entries ft) (func_key_of f) = Some f"
    using chained_table.find_iff [OF func_table [OF assms(1)], of func_key_of "entries ft" "func_key_of f" f] assms(4) by simp
  then show find: "functions_find n (entries ft) (fst (func_key_of f)) (snd (func_key_of f)) = Some f"
    by (simp add: functions_find_def)
  obtain c where c: "f = number_function c (merged ms (members ms ps (func_key_of f)))" "members ms ps (func_key_of f) \<noteq> []"
    using built_find [OF assms(1-3), of "fst (func_key_of f)" "snd (func_key_of f)"] find by (auto split: if_splits)
  have "f_refs (number_function c (merged ms qs)) = qs" for qs by (simp add: number_function_def merged_def)
  then show "f_refs f = members ms ps (func_key_of f)" using c(1) by metis
  then show "f_refs f \<noteq> []" using c(2) by simp
qed

lemma fault_ref_denotes:
  assumes "list_all wf_module ms" "int (modules_count_functions ms) \<le> 2 ^ 30" "firsts_ok ms"
    "functions_build_table ms = Inr (ft, ms')" "f \<in> set (concat (entries ft))" "k < f_bb_count f" "pos \<in> set (f_refs f)"
  shows "fault_ref ms' k pos = Inr (m_name (ms ! fst pos), bb_index_first (func_at ms pos) + k + 1) \<and>
    module_bbindex_to_global ft (ms' ! fst pos) (int (bb_index_first (func_at ms pos) + k)) =
      Inr (int (global_bb_index (the (f_bbs f) ! k)))"
proof -
  have cons: "consistent ms (positions ms)"
    using build_table_cases [OF assms(1,2)] assms(4) by (auto split: if_splits)
  obtain n t where b: "0 < n" "ft = functions_init_global_bbs n t" "table_of n ms (positions ms) t"
    "linked ms (positions ms) ms'" "map func_count ms' = map func_count ms"
    using build_table_cases [OF assms(1,2)] cons assms(4) by auto
  obtain i j where pos: "pos = (i, j)" by (cases pos)
  have mem: "pos \<in> set (positions ms)" "key_at ms pos = func_key_of f"
    using table_funcs(2) [OF b(1,3,2) assms(5)] assms(7) by (auto simp: members_def)
  have ij: "i < length ms" "j < func_count (ms ! i)" using mem(1) by (simp_all add: pos mem_positions)
  have num: "numbered ft (func_at ms' pos)" "global_func (func_at ms' pos) = Some (func_key_of f)"
    "bb_count (func_at ms' (i, j')) = bb_count (func_at ms (i, j'))" if "j' < func_count (ms ! i)" for j'
    using member_numbered [OF b(1,3,4) cons b(2), of pos] member_numbered [OF b(1,3,4) cons b(2), of "(i, j')"]
      positions_valid [OF assms(1)] mem that ij(1) by (auto simp: mem_positions)
  have v: "valid_pos ms pos" using positions_valid [OF assms(1)] mem(1) by blast
  have at: "func_at ms' pos = (func_at ms pos)\<lparr>global_func := Some (key_at ms pos)\<rparr>"
    using linkedD(2) [OF b(4) v] mem(1) by simp
  have ec: "entry_count ft = n" by (simp add: b(2) functions_init_global_bbs_def Let_def)
  have find: "functions_find (entry_count ft) (entries ft) (fst (func_key_of f)) (snd (func_key_of f)) = Some f"
    unfolding ec by (rule table_funcs(1) [OF b(1,3,2) assms(5)])
  have cnt: "f_bb_count f = bb_count (func_at ms' pos)"
    using num(1,2) [OF ij(2)] find by (auto simp: numbered_def)
  let ?fns = "map (\<lambda>j. func_at ms' (i, j)) [0..<func_count (ms ! i)]"
  let ?pre = "map (\<lambda>j. func_at ms' (i, j)) [0..<j]" and ?post = "map (\<lambda>j. func_at ms' (i, j)) [Suc j..<func_count (ms ! i)]"
  have "[0..<func_count (ms ! i)] = [0..<j] @ j # [Suc j..<func_count (ms ! i)]"
    using upt_add_eq_append [of 0 j "func_count (ms ! i) - j"] ij(2) by (simp add: upt_conv_Cons)
  then have split: "?fns = ?pre @ func_at ms' pos # ?post" by (simp add: pos)
  have first: "bb_index_first (func_at ms pos) = sum_list (map bb_count ?pre)"
  proof -
    have "bb_index_first (func_at ms pos) = sum_list (map (\<lambda>j. bb_count (func_at ms (i, j))) [0..<j])"
      using assms(3) ij by (simp add: firsts_ok_def pos)
    also have "\<dots> = sum_list (map bb_count ?pre)" using num(3) ij(2) by (intro arg_cong [where f = sum_list]) auto
    finally show ?thesis .
  qed
  have "to_global_scan ft ?fns (int (bb_index_first (func_at ms pos) + k)) = Inr (int (global_bb_index (the (f_bbs f) ! k)))"
    unfolding split first using to_global_scan_at [OF num(2) [OF ij(2)] find cnt, of k ?pre ?post] assms(6) cnt by simp
  moreover have "m_name (ms' ! i) = m_name (ms ! i)"
    using build_table_names [OF assms(4)] ij(1) by (metis length_map nth_map)
  ultimately show ?thesis
    using linked_funcs [OF assms(1) b(4,5) ij(1)] at cnt assms(6)
    by (simp add: fault_ref_def module_bbindex_to_global_def pos Let_def)
qed

lemma emap_all: "(\<And>x. x \<in> set xs \<Longrightarrow> f x = Inr (g x)) \<Longrightarrow> emap f xs = Inr (map g xs)"
  by (induction xs) simp_all

lemma sum_classes:
  assumes "\<forall>x \<in> set bs. h x < N"
  shows "(\<Sum>v\<leftarrow>[0..<N]. length (filter (\<lambda>x. h x = v) bs)) = length bs"
  using assms
proof (induction bs)
  case (Cons b bs)
  have "(\<Sum>v\<leftarrow>[0..<N]. length (filter (\<lambda>x. h x = v) (b # bs))) =
      (\<Sum>v\<leftarrow>[0..<N]. (if h b = v then 1 else 0) + length (filter (\<lambda>x. h x = v) bs))"
    by (rule arg_cong [where f = sum_list]) simp
  also have "\<dots> = (\<Sum>v\<leftarrow>[0..<N]. if h b = v then 1 else 0) + length bs"
    using Cons by (simp add: sum_list_addf)
  also have "(\<Sum>v\<leftarrow>[0..<N]. if h b = v then 1 else 0) = (1 :: nat)"
    using Cons.prems by (simp add: interv_sum_list_conv_sum_set_nat)
  finally show ?case by simp
qed (simp add: sum_list_triv)

section \<open>Properties\<close>

text \<open>
  C34 (functional): the list of suitable blocks has exactly the blocks with an injected fault
  that ran, if runs are required, in the order of the function table, and the statistics put
  every block into one of six classes and the total. When no block is suitable, however, the
  array has no elements, so the second traversal counts again instead of filling in, and all
  statistics and function counts come out doubled.
\<close>
theorem suitable_blocks_listed:
  assumes "cov_ok ft c" "blocks_ok ft (concat (entries ft))"
  shows "functions_get_injectable_bbs ft c only_executed =
    (let fs = concat (entries ft); bs = all_blocks fs; ss = filter (suitable c only_executed) bs; none = (ss = []) in
     Inr \<lparr>bl_stats = stats_for (runs c only_executed) (if none then bs @ bs else bs),
       bl_func_count = length (if none then fs @ fs else fs),
       bl_func_count_shared = length (shared_funcs (if none then fs @ fs else fs)),
       bl_bb_count = length ss, bl_bbs = (if none then None else Some (map info_of ss))\<rparr>)"
  by (rule injectable_bbs [OF assms])

lemma ex_ft_ok: "cov_ok ex_ft ex_cov" "blocks_ok ex_ft (concat (entries ex_ft))"
  by (simp_all add: cov_ok_def ex_cov_def ex_ft_def blocks_ok_def func_bbs_def bb_ok_def ex_fbb_def
      hashed_def mk_line_def line_hash_def)

theorem suitable_blocks_listed_witness:
  "\<exists>l. functions_get_injectable_bbs ex_ft ex_cov True = Inr l \<and> bl_bb_count l = 0 \<and>
     length (concat (map func_bbs (concat (entries ex_ft)))) = 3 \<and> s3_bb_count (st_total (bl_stats l)) = 6"
proof -
  let ?bs = "all_blocks (concat (entries ex_ft))"
  have len: "length ?bs = 3" "length (concat (map func_bbs (concat (entries ex_ft)))) = 3"
    by (simp_all add: all_blocks_def func_blocks_def ex_ft_def func_bbs_def)
  have none: "filter (suitable ex_cov True) ?bs = []"
    by (simp add: all_blocks_def func_blocks_def ex_ft_def func_bbs_def suitable_def ex_fbb_def)
  have "\<exists>l. functions_get_injectable_bbs ex_ft ex_cov True = Inr l \<and> bl_bb_count l = 0 \<and>
      bl_stats l = stats_for (runs ex_cov True) (?bs @ ?bs)"
    unfolding suitable_blocks_listed [OF ex_ft_ok, of True] Let_def none by simp
  then show ?thesis using len by (auto simp: stats_for_def stats3_for_def)
qed

definition ex_pick_ft :: function_hashtable where
  "ex_pick_ft = ex_ft\<lparr>entries := [[\<lparr>f_name = ''f'', f_path = ''a.c'', f_pathFixed = Some ''a.c'', f_bb_count = 2,
     f_bbs = Some [(ex_fbb 0 4)\<lparr>fb_faultinj_count := 1\<rparr>, (ex_fbb 1 5)\<lparr>fb_faultcand_count := 3, fb_faultinj_count := 1\<rparr>],
     f_refs = [(0, 0)], global_func_index = 0\<rparr>]]\<rparr>"

lemma ex_pick_ok: "cov_ok ex_pick_ft ex_cov" "blocks_ok ex_pick_ft (concat (entries ex_pick_ft))"
  by (simp_all add: cov_ok_def ex_cov_def ex_pick_ft_def ex_ft_def blocks_ok_def func_bbs_def bb_ok_def ex_fbb_def
      hashed_def mk_line_def line_hash_def)

text \<open>
  C32 (safety): with fault candidates in every block that has an injected fault, the random
  choice never fails an assertion, whatever numbers rand returns and however qsort orders
  equal elements: it selects as many different blocks as requested, or all when there are not
  enough, among exactly the suitable blocks.
\<close>
theorem fault_selection_picks_distinct_blocks:
  assumes "cov_ok ft c" "blocks_ok ft (concat (entries ft))" "\<forall>cmp xs. mset (qsort cmp xs) = mset xs"
    "\<forall>b \<in> set (all_blocks (concat (entries ft))). has_inj b \<longrightarrow> has_cand b"
    "functions_get_injectable_bbs ft c only_executed = Inr l"
  shows "\<exists>bis. select_blocks qsort rand numfaults l = Inr bis \<and>
    mset (map block_of bis) =
      mset (map (\<lambda>(f, k, bb). (Some f, k)) (filter (suitable c only_executed) (all_blocks (concat (entries ft))))) \<and>
    length (filter bi_selected bis) =
      min numfaults (length (filter (suitable c only_executed) (all_blocks (concat (entries ft)))))"
  by (rule select_blocks_selects [OF assms])

theorem fault_selection_picks_distinct_blocks_witness:
  "\<exists>l bis. functions_get_injectable_bbs ex_pick_ft ex_cov False = Inr l \<and>
     select_blocks (\<lambda>cmp xs. rev xs) (\<lambda>k. 7) 5 l = Inr bis \<and> length (filter bi_selected bis) = 2"
proof -
  have b: "all_blocks (concat (entries ex_pick_ft)) = (let f = hd (hd (entries ex_pick_ft)) in
      [(f, 0, (ex_fbb 0 4)\<lparr>fb_faultinj_count := 1\<rparr>), (f, 1, (ex_fbb 1 5)\<lparr>fb_faultcand_count := 3, fb_faultinj_count := 1\<rparr>)])"
    by (simp add: all_blocks_def func_blocks_def ex_pick_ft_def func_bbs_def Let_def)
  obtain l where l: "functions_get_injectable_bbs ex_pick_ft ex_cov False = Inr l"
    using injectable_bbs [OF ex_pick_ok, of False] by (simp add: Let_def)
  have "\<forall>b \<in> set (all_blocks (concat (entries ex_pick_ft))). has_inj b \<longrightarrow> has_cand b"
    unfolding b by (simp add: Let_def has_inj_def has_cand_def ex_fbb_def)
  from fault_selection_picks_distinct_blocks [OF ex_pick_ok _ this l, of "\<lambda>cmp xs. rev xs" "\<lambda>k. 7" 5]
  obtain bis where s: "select_blocks (\<lambda>cmp xs. rev xs) (\<lambda>k. 7) 5 l = Inr bis" "length (filter bi_selected bis) =
      min 5 (length (filter (suitable ex_cov False) (all_blocks (concat (entries ex_pick_ft)))))"
    by auto
  have "length (filter (suitable ex_cov False) (all_blocks (concat (entries ex_pick_ft)))) = 2"
    unfolding b by (simp add: Let_def suitable_def runs_def)
  then have "length (filter bi_selected bis) = 2" using s(2) by simp
  then show ?thesis using l s(1) by blast
qed

text \<open>
  Each fault candidate is equally likely to be hit. Of the values that the
  random index can take, which are as many as there are candidates in blocks not selected
  yet, exactly as many select a block as the block has candidates.
\<close>
theorem candidates_equally_likely:
  assumes "j < length bis" "\<not> bi_selected (bis ! j)"
  shows "card {x. x < remaining bis \<and>
      (\<exists>n. select_one (int x) bis = Some (bis[j := (bis ! j)\<lparr>bi_selected := True\<rparr>], n))} = weight (bis ! j)"
proof -
  have "bis = take j bis @ bis ! j # drop (Suc j) bis" using assms(1) by (rule id_take_nth_drop)
  then have "remaining bis = remaining (take j bis) + (if bi_selected (bis ! j) then 0 else weight (bis ! j)) + remaining (drop (Suc j) bis)"
    by (metis add.assoc remaining_simps(2,3))
  then have le: "remaining (take j bis) + weight (bis ! j) \<le> remaining bis" using assms(2) by simp
  have "(x < remaining bis \<and> (\<exists>n. select_one (int x) bis = Some (bis[j := (bis ! j)\<lparr>bi_selected := True\<rparr>], n))) \<longleftrightarrow>
      x \<in> {remaining (take j bis)..<remaining (take j bis) + weight (bis ! j)}" for x
  proof (cases "x < remaining bis")
    case True
    then show ?thesis unfolding select_one_index [OF assms True] by simp
  next
    case False
    then show ?thesis using le by simp
  qed
  then have "{x. x < remaining bis \<and> (\<exists>n. select_one (int x) bis = Some (bis[j := (bis ! j)\<lparr>bi_selected := True\<rparr>], n))} =
      {remaining (take j bis)..<remaining (take j bis) + weight (bis ! j)}" by blast
  then show ?thesis by (simp only: card_atLeastLessThan diff_add_inverse)
qed

theorem candidates_equally_likely_witness:
  "let f = hd (hd (entries ex_pick_ft)); bis = map (\<lambda>k. bb_info_zero\<lparr>bi_func := Some f, func_bb_index := k\<rparr>) [0, 1] in
   remaining bis = 4 \<and> card {x. x < remaining bis \<and>
     (\<exists>n. select_one (int x) bis = Some (bis[1 := (bis ! 1)\<lparr>bi_selected := True\<rparr>], n))} = 3"
  unfolding Let_def by (subst candidates_equally_likely)
    (simp_all add: bb_info_zero_def weight_def bi_block_def ex_pick_ft_def ex_fbb_def)

text \<open>
  C33 (refinement): a printed fault specification names the selected block in every module
  that contains its function: the number printed for a module, less one, is mapped by the
  global numbering to the selected block, and no assertion fails.
\<close>
theorem fault_specs_denote_blocks:
  assumes "list_all wf_module ms" "int (modules_count_functions ms) \<le> 2 ^ 30" "firsts_ok ms"
    "functions_build_table ms = Inr (ft, ms')" "f \<in> set (concat (entries ft))" "k < f_bb_count f"
  shows "fault_spec ms' (info_of (f, k, bb)) =
      Inr (map (\<lambda>pos. (m_name (ms ! fst pos), bb_index_first (func_at ms pos) + k + 1)) (f_refs f)) \<and>
    (\<forall>pos \<in> set (f_refs f).
      module_bbindex_to_global ft (ms' ! fst pos) (int (bb_index_first (func_at ms pos) + k)) =
        Inr (int (global_bb_index (the (f_bbs f) ! k))))"
proof -
  note ref = fault_ref_denotes [OF assms]
  have "fault_spec ms' (info_of (f, k, bb)) = emap (fault_ref ms' k) (f_refs f)"
    by (simp add: fault_spec_def info_of_def)
  also have "\<dots> = Inr (map (\<lambda>pos. (m_name (ms ! fst pos), bb_index_first (func_at ms pos) + k + 1)) (f_refs f))"
    by (rule emap_all) (use ref in blast)
  finally show ?thesis using ref by blast
qed

definition ex_shared :: "module list" where
  "ex_shared = [\<lparr>m_name = Some ''pm'', func_count = 1, funcs = Some [ex_func ''f'' [ex_bb 1, ex_bb 2]]\<rparr>, ex_modules ! 1]"

lemma ex_shared_facts:
  "list_all wf_module ex_shared" "int (modules_count_functions ex_shared) \<le> 2 ^ 30" "firsts_ok ex_shared"
  "positions ex_shared = [(0, 0), (1, 0), (1, 1)]"
  "key_at ex_shared (0, 0) = (''f'', ''a.c'')" "key_at ex_shared (1, 0) = (''h'', ''a.c'')"
  "key_at ex_shared (1, 1) = (''f'', ''a.c'')" "func_at ex_shared (0, 0) = func_at ex_shared (1, 1)"
  by (auto simp: ex_shared_def ex_modules_def wf_module_def wf_func_def ex_func_def modules_count_functions_def
      firsts_ok_def func_at_def key_at_def positions_def less_Suc_eq upt_rec numeral_2_eq_2)

theorem fault_specs_denote_blocks_witness:
  "\<exists>ft ms' f. functions_build_table ex_shared = Inr (ft, ms') \<and> f \<in> set (concat (entries ft)) \<and>
     fault_spec ms' (info_of (f, 1, func_bbs f ! 1)) = Inr [(Some ''pm'', 2), (Some ''vfs'', 2)]"
proof -
  note ex = ex_shared_facts
  have cons: "consistent ex_shared (positions ex_shared)"
    unfolding ex(4) by (simp add: consistent_def members_def ex [unfolded One_nat_def])
  then obtain n t ms' where b: "0 < n" "functions_build_table ex_shared = Inr (functions_init_global_bbs n t, ms')"
    "table_of n ex_shared (positions ex_shared) t"
    using build_table_cases [OF ex(1,2)] by auto
  let ?ft = "functions_init_global_bbs n t"
  have m: "members ex_shared (positions ex_shared) (''f'', ''a.c'') = [(0, 0), (1, 1)]"
    unfolding ex(4) by (simp add: members_def ex [unfolded One_nat_def])
  obtain c where c: "functions_find n (entries ?ft) ''f'' ''a.c'' = Some (number_function c (merged ex_shared [(0, 0), (1, 1)]))"
    using built_find [OF b(1,3) refl, of "''f''" "''a.c''"] m by auto
  let ?f = "number_function c (merged ex_shared [(0, 0), (1, 1)])"
  have "table_wf func_key_of (func_bucket n) n (entries ?ft)"
    using table_ofD(1) [OF b(3)] number_wf by (simp add: functions_init_global_bbs_def Let_def)
  then have mem: "?f \<in> set (concat (entries ?ft))"
    using c chained_table.find_iff [OF func_table [OF b(1)], of func_key_of "entries ?ft" "(''f'', ''a.c'')" ?f]
    by (simp add: functions_find_def)
  have f: "f_refs ?f = [(0, 0), (1, 1)]" "f_bb_count ?f = bb_count (func_at ex_shared (0, 0))"
    by (simp_all add: number_function_def merged_def functions_add_function_new_def)
  have at: "bb_count (func_at ex_shared (0, 0)) = 2" "bb_index_first (func_at ex_shared (0, 0)) = 0"
    "m_name (ex_shared ! 0) = Some ''pm''" "m_name (ex_shared ! 1) = Some ''vfs''"
    by (simp_all add: func_at_def ex_shared_def ex_func_def ex_modules_def)
  have "fault_spec ms' (info_of (?f, 1, func_bbs ?f ! 1)) = Inr [(Some ''pm'', 2), (Some ''vfs'', 2)]"
    using fault_specs_denote_blocks [OF ex(1-3) b(2) mem, of 1] f at ex(8) by simp
  then show ?thesis using b(2) mem by blast
qed

text \<open>
  Printing the statistics per number of candidates ends, with one row for
  every number that occurs, in increasing order, giving the numbers of suitable and of all
  blocks with it; every block is counted in exactly one row.
\<close>
theorem rows_per_candidate_count:
  assumes "cov_ok ft c" "blocks_ok ft (concat (entries ft))"
  shows "\<exists>rows. print_stats_per_count ft c have_logs use_inj 0 = Inr rows \<and>
    rows = concat (map (row_of c have_logs use_inj (concat (map func_bbs (concat (entries ft)))))
      [0..<Suc (max_candidates use_inj (concat (entries ft)))]) \<and>
    sum_list (map (\<lambda>(v, suitable_bbs, total_bbs). total_bbs) rows) = length (concat (map func_bbs (concat (entries ft))))"
proof -
  let ?bs = "concat (map func_bbs (concat (entries ft)))"
  let ?N = "Suc (max_candidates use_inj (concat (entries ft)))"
  have sums: "sum_list (map (\<lambda>(v, s, t). t) (concat (map (row_of c have_logs use_inj ?bs) vs))) =
      (\<Sum>v\<leftarrow>vs. length (filter (\<lambda>bb. candidates use_inj bb = v) ?bs))" for vs
    by (induction vs) (simp_all add: row_of_def with_count_def)
  have max: "\<forall>bb \<in> set ?bs. candidates use_inj bb < ?N" using max_candidates_ge by (meson le_imp_less_Suc)
  show ?thesis
  proof (intro exI conjI)
    show "print_stats_per_count ft c have_logs use_inj 0 = Inr (concat (map (row_of c have_logs use_inj ?bs) [0..<?N]))"
      by (rule per_count_rows [OF assms]) simp
    show "sum_list (map (\<lambda>(v, s, t). t) (concat (map (row_of c have_logs use_inj ?bs) [0..<?N]))) = length ?bs"
      unfolding sums by (rule sum_classes [OF max])
  qed (rule refl)
qed

theorem rows_per_candidate_count_witness:
  "\<exists>rows. print_stats_per_count ex_pick_ft ex_cov True False 0 = Inr rows \<and> sum_list (map (\<lambda>(v, s, t). t) rows) = 2"
  using rows_per_candidate_count [OF ex_pick_ok, of True False]
  by (auto simp: ex_pick_ft_def func_bbs_def)

end
