(* ===== verification/Statfile.thy ===== *)
theory Statfile
  imports Edfi Faultpicker
begin

unbundle bit_operations_syntax

text \<open>
  The statistics file of the instrumented programs of the host: the writer, which adds the
  execution counts of a run to those in the file (static/edfi/df/edfi_df.c), the reader
  (tools/printedfistats/edfistatsparse.c) and its two clients, the table printer
  (tools/printedfistats/printedfistats.c) and the fault picker. A file is its list of bytes,
  integers are little-endian.
\<close>

section \<open>Layout\<close>

definition EDFI_STATS_MAGIC :: "32 word" where
  "EDFI_STATS_MAGIC = 0x74536445"

definition EDFI_STATS_FAULT_NAME_LEN :: "32 word" where
  "EDFI_STATS_FAULT_NAME_LEN = 64"

record edfi_stats_header =
  magic :: "32 word"
  hdr_num_bbs :: "32 word"
  hdr_num_fault_types :: "32 word"
  fault_name_len :: "32 word"

definition le64 :: "64 word \<Rightarrow> byte list" where
  "le64 v = ptr_bytes (ucast v) @ ptr_bytes (ucast (drop_bit 32 v))"

definition of_le64 :: "byte list \<Rightarrow> 64 word" where
  "of_le64 bs = ucast (bytes_ptr (take 4 bs)) OR push_bit 32 (ucast (bytes_ptr (take 4 (drop 4 bs))))"

definition le_header :: "edfi_stats_header \<Rightarrow> byte list" where
  "le_header h = ptr_bytes (magic h) @ ptr_bytes (hdr_num_bbs h) @ ptr_bytes (hdr_num_fault_types h) @ ptr_bytes (fault_name_len h)"

definition of_le_header :: "byte list \<Rightarrow> edfi_stats_header" where
  "of_le_header bs = \<lparr>magic = bytes_ptr (take 4 bs), hdr_num_bbs = bytes_ptr (take 4 (drop 4 bs)),
     hdr_num_fault_types = bytes_ptr (take 4 (drop 8 bs)), fault_name_len = bytes_ptr (take 4 (drop 12 bs))\<rparr>"

text \<open>The elements of an array of fixed-size items.\<close>

fun chunks :: "nat \<Rightarrow> nat \<Rightarrow> 'a list \<Rightarrow> 'a list list" where
  "chunks w 0 bs = []"
| "chunks w (Suc n) bs = take w bs # chunks w n (drop w bs)"

section \<open>Writer\<close>

definition stats_header :: "edfi_context_t \<Rightarrow> edfi_stats_header" where
  "stats_header x = \<lparr>magic = EDFI_STATS_MAGIC, hdr_num_bbs = num_bbs x, hdr_num_fault_types = num_fault_types x,
     fault_name_len = EDFI_STATS_FAULT_NAME_LEN\<rparr>"

definition names_size :: "edfi_context_t \<Rightarrow> nat" where
  "names_size x = 64 * unat (num_fault_types x)"

definition execs_offset :: "edfi_context_t \<Rightarrow> nat" where
  "execs_offset x = 16 + names_size x"

definition cands_offset :: "edfi_context_t \<Rightarrow> nat" where
  "cands_offset x = execs_offset x + 8 * unat (num_bbs x)"

definition datasize :: "edfi_context_t \<Rightarrow> nat" where
  "datasize x = cands_offset x + 4 * unat (num_bbs x) * unat (num_fault_types x)"

text \<open>strncpy fills up with zeros.\<close>

definition strncpy_name :: "string \<Rightarrow> byte list" where
  "strncpy_name nm = take 64 (map byte_of (c_str nm) @ replicate 64 0)"

definition cand_bytes :: "fault_type_stats \<Rightarrow> byte list" where
  "cand_bytes ft = concat (map ptr_bytes (bb_num_candidates ft))"

definition new_stats_file :: "edfi_context_t \<Rightarrow> byte list" where
  "new_stats_file x =
     le_header (stats_header x) @ concat (map (\<lambda>ft. strncpy_name (ft_name ft)) (fault_types x)) @
     replicate (8 * unat (num_bbs x)) 0 @ concat (map cand_bytes (fault_types x))"

definition strncmp_equal :: "byte list \<Rightarrow> string \<Rightarrow> bool" where
  "strncmp_equal field nm = (takeWhile (\<lambda>b. b \<noteq> 0) (take 64 field) = take 64 (map byte_of (c_str nm)))"

fun old_types_error :: "(byte list \<times> byte list \<times> fault_type_stats) list \<Rightarrow> string option" where
  "old_types_error [] = None"
| "old_types_error ((nm, cands, ft) # fts) =
     (if \<not> strncmp_equal nm (ft_name ft)
      then Some ''ERROR: old statistics file fault names inconsistent with executable''
      else if cands \<noteq> cand_bytes ft
      then Some ''ERROR: old statistics file fault candidate counts inconsistent with executable''
      else old_types_error fts)"

definition old_file_error :: "edfi_context_t \<Rightarrow> byte list \<Rightarrow> string option" where
  "old_file_error x data =
     (if of_le_header (take 16 data) \<noteq> stats_header x
      then Some ''ERROR: old statistics file header inconsistent with executable''
      else old_types_error (zip (chunks 64 (length (fault_types x)) (drop 16 data))
             (zip (chunks (4 * unat (num_bbs x)) (length (fault_types x)) (drop (cands_offset x) data)) (fault_types x))))"

definition add_counts :: "edfi_context_t \<Rightarrow> byte list \<Rightarrow> byte list" where
  "add_counts x data =
     take (execs_offset x) data @
     concat (map2 (\<lambda>old n. le64 (of_le64 old + n)) (chunks 8 (unat (num_bbs x)) (drop (execs_offset x) data)) (block_counts x)) @
     drop (cands_offset x) data"

text \<open>
  The system calls that the writer makes: whether the allocation, the reading and the seek
  work, and how many bytes the write writes.
\<close>

record stats_calls =
  malloc_ok :: bool
  read_ok :: bool
  seek_ok :: bool
  write_ret :: nat

definition edfi_stats_per_bb_add_with_fd :: "stats_calls \<Rightarrow> edfi_context_t \<Rightarrow> byte list \<Rightarrow> string option \<times> byte list" where
  "edfi_stats_per_bb_add_with_fd sc x file =
     (let data = take (datasize x) file
      in if \<not> malloc_ok sc then (Some ''ERROR: cannot allocate memory for statistics file'', file)
         else if \<not> read_ok sc then (Some ''ERROR: read of statistics file failed'', file)
         else
           let checked = (if data = [] then Inr (new_stats_file x)
                else if length data = datasize x
                then (case old_file_error x data of None \<Rightarrow> Inr data | Some err \<Rightarrow> Inl err)
                else Inl ''ERROR: old statistics size inconsistent with executable'')
           in case checked of
                Inl err \<Rightarrow> (Some err, file)
              | Inr data \<Rightarrow>
                  if \<not> seek_ok sc then (Some ''ERROR: seek of statistics file failed'', file)
                  else
                    let file = overwrite file 0 (take (write_ret sc) (add_counts x data))
                    in if write_ret sc \<noteq> datasize x
                       then (Some ''ERROR: write of statistics file failed or did not complete entirely'', file)
                       else (None, file))"

text \<open>The identifier of a program in the name of its file.\<close>

fun edfi_stats_per_bb_add_data :: "byte list \<Rightarrow> 64 word \<times> nat \<Rightarrow> 64 word \<times> nat" where
  "edfi_stats_per_bb_add_data [] (r, i) = (r, i)"
| "edfi_stats_per_bb_add_data (b # bs) (r, i) =
     (let r = r XOR push_bit (8 * i) (ucast b); i = i + 1
      in edfi_stats_per_bb_add_data bs (if i \<ge> 8 then (r * 3, 0) else (r, i)))"

definition edfi_stats_per_bb_get_id :: "edfi_context_t \<Rightarrow> 64 word" where
  "edfi_stats_per_bb_get_id x =
     (let (r, i) = fold (\<lambda>ft. edfi_stats_per_bb_add_data (cand_bytes ft)) (fault_types x)
        (edfi_stats_per_bb_add_data (ptr_bytes (num_fault_types x))
          (edfi_stats_per_bb_add_data (ptr_bytes (num_bbs x)) (0, 0)))
      in r XOR of_nat i)"

definition edfi_stats_available :: "edfi_context_t \<Rightarrow> bool" where
  "edfi_stats_available x = list_ex (\<lambda>n. n > 0) (block_counts x)"

section \<open>Reader\<close>

record file_state =
  fs_header :: edfi_stats_header
  fs_fault_names :: "byte list"
  fs_executions :: "64 word list"
  fs_candidates :: "32 word list"

definition reada :: "nat \<Rightarrow> byte list \<Rightarrow> (byte list \<times> byte list) option" where
  "reada n bs = (if length bs < n then None else Some (take n bs, drop n bs))"

definition edfistats_open_one :: "byte list \<Rightarrow> file_state option" where
  "edfistats_open_one file =
     Option.bind (reada 16 file) (\<lambda>(hb, file).
       let h = of_le_header hb
       in if magic h \<noteq> EDFI_STATS_MAGIC \<or> fault_name_len h = 0 then None
          else if hdr_num_bbs h = 0 \<or> hdr_num_fault_types h = 0 then None
          else
            Option.bind (reada (unat (hdr_num_fault_types h * fault_name_len h)) file) (\<lambda>(names, file).
            Option.bind (reada (unat (hdr_num_bbs h) * 8) file) (\<lambda>(execs, file).
            Option.bind (reada (unat (hdr_num_bbs h * hdr_num_fault_types h) * 4) file) (\<lambda>(cands, file).
              Some \<lparr>fs_header = h, fs_fault_names = names,
                fs_executions = map of_le64 (chunks 8 (unat (hdr_num_bbs h)) execs),
                fs_candidates = map bytes_ptr (chunks 4 (unat (hdr_num_bbs h * hdr_num_fault_types h)) cands)\<rparr>))))"

text \<open>Several files: all of them are opened, or none is; a path without a file fails.\<close>

primrec edfistats_open :: "byte list option list \<Rightarrow> file_state list option" where
  "edfistats_open [] = Some []"
| "edfistats_open (f # fs) =
     Option.bind f (\<lambda>f. Option.bind (edfistats_open_one f) (\<lambda>s. map_option ((#) s) (edfistats_open fs)))"

text \<open>The fault picker does not test the result.\<close>

definition load_log_edfistats_file :: "module_execcount list \<Rightarrow> byte list option \<Rightarrow> fault + module_execcount list" where
  "load_log_edfistats_file logs file =
     (case edfistats_open [file] of
        None \<Rightarrow> Inl NullDeref
      | Some ss \<Rightarrow> Inr (load_log_edfistats logs (fs_executions (hd ss))))"


section \<open>Table printer\<close>

definition is_valid_varname_char :: "byte \<Rightarrow> bool" where
  "is_valid_varname_char b =
     (b = 95 \<or> (65 \<le> b \<and> b \<le> 90) \<or> (97 \<le> b \<and> b \<le> 122) \<or> (48 \<le> b \<and> b \<le> 57))"

text \<open>The repair of a name goes on to its terminator, even outside of its field.\<close>

definition fix_varname :: "byte list \<Rightarrow> fault + byte list" where
  "fix_varname bs =
     (if 0 \<notin> set bs then Inl OutOfBounds
      else Inr (map (\<lambda>b. if is_valid_varname_char b then b else 95) (takeWhile (\<lambda>b. b \<noteq> 0) bs) @ dropWhile (\<lambda>b. b \<noteq> 0) bs))"

definition name_len :: "file_state \<Rightarrow> nat" where
  "name_len s = unat (fault_name_len (fs_header s))"

definition fault_name_at :: "file_state \<Rightarrow> nat \<Rightarrow> byte list" where
  "fault_name_at s i = takeWhile (\<lambda>b. b \<noteq> 0) (take (name_len s) (drop (name_len s * i) (fs_fault_names s)))"

definition candidates_at :: "file_state \<Rightarrow> nat \<Rightarrow> 32 word list" where
  "candidates_at s i = take (unat (hdr_num_bbs (fs_header s))) (drop (i * unat (hdr_num_bbs (fs_header s))) (fs_candidates s))"

definition files_compatible :: "file_state \<Rightarrow> file_state \<Rightarrow> bool" where
  "files_compatible s0 s =
     (hdr_num_bbs (fs_header s0) = hdr_num_bbs (fs_header s) \<and>
      hdr_num_fault_types (fs_header s0) = hdr_num_fault_types (fs_header s) \<and>
      fault_name_len (fs_header s0) = fault_name_len (fs_header s) \<and>
      list_all (\<lambda>i. fault_name_at s0 i = fault_name_at s i \<and> candidates_at s0 i = candidates_at s i)
        [0..<unat (hdr_num_fault_types (fs_header s0))])"

definition print_name :: "file_state \<Rightarrow> nat \<Rightarrow> fault + string" where
  "print_name s i =
     ebind (fix_varname (drop (name_len s * i) (fs_fault_names s))) (\<lambda>nm.
       Inr (map char_at (takeWhile (\<lambda>b. b \<noteq> 0) (take (name_len s) nm))))"

abbreviation TAB :: char where
  "TAB \<equiv> CHR 0x09"

definition header_line :: "string \<Rightarrow> file_state list \<Rightarrow> fault + string" where
  "header_line suffix ss =
     ebind (efold (\<lambda>i out. ebind (print_name (hd ss) i) (\<lambda>nm. Inr (out @ [TAB] @ nm @ suffix)))
         [0..<unat (hdr_num_fault_types (fs_header (hd ss)))]
         (''bb'' @ suffix @ concat (map (\<lambda>i. [TAB] @ ''execcount'' @ suffix @ decimal i) [0..<length ss])))
       (\<lambda>out. Inr (out @ [CHR 0x0A]))"

definition bb_line :: "file_state list \<Rightarrow> nat \<Rightarrow> string" where
  "bb_line ss bb =
     decimal (bb + 1) @ concat (map (\<lambda>s. [TAB] @ decimal (unat (fs_executions s ! bb))) ss) @
     concat (map (\<lambda>i. [TAB] @ show_int (sint (candidates_at (hd ss) i ! bb)))
       [0..<unat (hdr_num_fault_types (fs_header (hd ss)))]) @ [CHR 0x0A]"

definition process_files :: "string \<Rightarrow> file_state list \<Rightarrow> fault + string" where
  "process_files suffix ss =
     (if ss = [] then Inl AssertFail
      else if \<not> list_all (files_compatible (hd ss)) (tl ss) then Inr []
      else ebind (header_line suffix ss) (\<lambda>h.
        Inr (h @ concat (map (bb_line ss) [0..<unat (hdr_num_bbs (fs_header (hd ss)))]))))"

definition process_paths :: "string \<Rightarrow> byte list option list \<Rightarrow> (fault + string) option" where
  "process_paths suffix files = map_option (process_files suffix) (edfistats_open files)"

section \<open>Lemmas: encoding\<close>

lemma length_le64 [simp]: "length (le64 v) = 8"
  by (simp add: le64_def)

lemma of_le64_le64 [simp]: "of_le64 (le64 v) = v"
proof -
  have "of_le64 (le64 v) = ucast (ucast v :: 32 word) OR push_bit 32 (ucast (ucast (drop_bit 32 v) :: 32 word))"
    by (simp add: of_le64_def le64_def)
  also have "\<dots> = v"
    by (rule bit_word_eqI) (auto simp: bit_simps bit_ucast_iff)
  finally show ?thesis .
qed

lemma length_le_header [simp]: "length (le_header h) = 16"
  by (simp add: le_header_def)

lemma of_le_header_le_header [simp]: "of_le_header (le_header h) = h"
  by (simp add: of_le_header_def le_header_def)

lemma chunks_concat:
  assumes "\<forall>xs \<in> set xss. length xs = w" "n = length xss"
  shows "chunks w n (concat xss @ ys) = xss"
  using assms by (induction xss arbitrary: n) simp_all

lemma length_concat_fixed: "\<forall>xs \<in> set xss. length xs = w \<Longrightarrow> length (concat xss) = w * length xss"
  by (induction xss) simp_all

lemma le64_zero: "le64 0 = replicate 8 0"
  by (simp add: le64_def ptr_bytes_def numeral_eq_Suc)

lemma concat_replicate_zero: "concat (replicate n (replicate k x)) = replicate (k * n) x"
  by (induction n) (simp_all add: replicate_add)

lemma length_strncpy_name [simp]: "length (strncpy_name nm) = 64"
  by (simp add: strncpy_name_def)

lemma takeWhile_zeros:
  assumes "0 \<notin> set bs"
  shows "takeWhile (\<lambda>b. b \<noteq> 0) (take n (bs @ replicate n 0)) = take n bs"
proof -
  have "takeWhile (\<lambda>b. b \<noteq> 0) (take n bs @ replicate k 0) = take n bs" for k
    using assms by (subst takeWhile_append2) (auto dest: in_set_takeD)
  then show ?thesis by (simp add: min_def)
qed

lemma strncmp_strncpy [simp]: "strncmp_equal (strncpy_name nm) nm"
proof -
  have "NUL \<notin> set (c_str nm)" by (auto simp: c_str_def dest: set_takeWhileD)
  then have "0 \<notin> set (map byte_of (c_str nm))" by (metis byte_of_eq_0 image_iff list.set_map)
  from takeWhile_zeros [OF this, of 64] show ?thesis
    by (simp only: strncmp_equal_def strncpy_name_def take_take min.idem)
qed

lemma cand_bytes_length: "length (cand_bytes ft) = 4 * length (bb_num_candidates ft)"
  unfolding cand_bytes_def by (subst length_concat_fixed [where w = 4]) auto

section \<open>Lemmas: the file of a program\<close>

definition stats_file :: "edfi_context_t \<Rightarrow> 64 word list \<Rightarrow> byte list" where
  "stats_file x cs =
     le_header (stats_header x) @ concat (map (\<lambda>ft. strncpy_name (ft_name ft)) (fault_types x)) @
     concat (map le64 cs) @ concat (map cand_bytes (fault_types x))"

lemma new_stats_file: "new_stats_file x = stats_file x (replicate (unat (num_bbs x)) 0)"
  unfolding new_stats_file_def stats_file_def map_replicate le64_zero concat_replicate_zero ..

lemma fault_types_ok:
  assumes "context_ok x"
  shows "length (fault_types x) = unat (num_fault_types x)"
    "\<forall>ft \<in> set (fault_types x). length (bb_num_candidates ft) = unat (num_bbs x)"
    "length (block_counts x) = unat (num_bbs x)"
  using assms by (auto simp: context_ok_def list_all_iff block_counts_def split: option.splits)

lemma names_length: "length (concat (map (\<lambda>ft. strncpy_name (ft_name ft)) fts)) = 64 * length fts"
  by (subst length_concat_fixed [where w = 64]) auto

lemma execs_length: "length (concat (map le64 cs)) = 8 * length cs"
  by (subst length_concat_fixed [where w = 8]) auto

lemma cands_length:
  "context_ok x \<Longrightarrow> length (concat (map cand_bytes (fault_types x))) = 4 * unat (num_bbs x) * unat (num_fault_types x)"
  using fault_types_ok [of x]
  by (subst length_concat_fixed [where w = "4 * unat (num_bbs x)"]) (auto simp: cand_bytes_length)

lemma stats_file_length:
  assumes "context_ok x" "length cs = unat (num_bbs x)"
  shows "length (stats_file x cs) = datasize x"
  using fault_types_ok(1) [OF assms(1)] cands_length [OF assms(1)] assms(2)
  by (simp add: stats_file_def datasize_def cands_offset_def execs_offset_def names_size_def names_length execs_length)

lemma stats_file_parts:
  assumes "context_ok x" "length cs = unat (num_bbs x)"
  shows "take 16 (stats_file x cs) = le_header (stats_header x)"
    "drop 16 (stats_file x cs) = concat (map (\<lambda>ft. strncpy_name (ft_name ft)) (fault_types x)) @
       concat (map le64 cs) @ concat (map cand_bytes (fault_types x))"
    "take (execs_offset x) (stats_file x cs) =
       le_header (stats_header x) @ concat (map (\<lambda>ft. strncpy_name (ft_name ft)) (fault_types x))"
    "drop (execs_offset x) (stats_file x cs) = concat (map le64 cs) @ concat (map cand_bytes (fault_types x))"
    "drop (cands_offset x) (stats_file x cs) = concat (map cand_bytes (fault_types x))"
proof -
  have n: "length (concat (map (\<lambda>ft. strncpy_name (ft_name ft)) (fault_types x))) = names_size x"
    using fault_types_ok(1) [OF assms(1)] by (simp add: names_length names_size_def)
  have e: "length (concat (map le64 cs)) = 8 * unat (num_bbs x)" using assms(2) by (simp add: execs_length)
  show "take 16 (stats_file x cs) = le_header (stats_header x)"
    "drop 16 (stats_file x cs) = concat (map (\<lambda>ft. strncpy_name (ft_name ft)) (fault_types x)) @
       concat (map le64 cs) @ concat (map cand_bytes (fault_types x))"
    by (simp_all add: stats_file_def)
  show "take (execs_offset x) (stats_file x cs) =
       le_header (stats_header x) @ concat (map (\<lambda>ft. strncpy_name (ft_name ft)) (fault_types x))"
    "drop (execs_offset x) (stats_file x cs) = concat (map le64 cs) @ concat (map cand_bytes (fault_types x))"
    using n by (simp_all add: stats_file_def execs_offset_def)
  show "drop (cands_offset x) (stats_file x cs) = concat (map cand_bytes (fault_types x))"
    using n e by (simp add: stats_file_def cands_offset_def execs_offset_def)
qed

lemma old_types_ok:
  "old_types_error (zip (map (\<lambda>ft. strncpy_name (ft_name ft)) fts) (zip (map cand_bytes fts) fts)) = None"
  by (induction fts) simp_all

lemma old_file_ok:
  assumes "context_ok x" "length cs = unat (num_bbs x)"
  shows "old_file_error x (stats_file x cs) = None"
proof -
  have "chunks 64 (length (fault_types x)) (drop 16 (stats_file x cs)) = map (\<lambda>ft. strncpy_name (ft_name ft)) (fault_types x)"
    unfolding stats_file_parts(2) [OF assms] by (rule chunks_concat) auto
  moreover have "chunks (4 * unat (num_bbs x)) (length (fault_types x)) (drop (cands_offset x) (stats_file x cs)) =
      map cand_bytes (fault_types x)"
    unfolding stats_file_parts(5) [OF assms]
    using chunks_concat [of "map cand_bytes (fault_types x)" "4 * unat (num_bbs x)" "length (fault_types x)" "[]"]
      fault_types_ok(2) [OF assms(1)] by (simp add: cand_bytes_length)
  ultimately show ?thesis by (simp add: old_file_error_def stats_file_parts(1) [OF assms] old_types_ok)
qed

lemma add_counts_file:
  assumes "context_ok x" "length cs = unat (num_bbs x)"
  shows "add_counts x (stats_file x cs) = stats_file x (map2 (+) cs (block_counts x))"
proof -
  have "chunks 8 (unat (num_bbs x)) (drop (execs_offset x) (stats_file x cs)) = map le64 cs"
    unfolding stats_file_parts(4) [OF assms] using assms(2) by (intro chunks_concat) auto
  then show ?thesis
    unfolding add_counts_def stats_file_parts(3,5) [OF assms]
    by (simp add: stats_file_def zip_map1 comp_def case_prod_unfold)
qed


definition all_calls_ok :: "edfi_context_t \<Rightarrow> stats_calls" where
  "all_calls_ok x = \<lparr>malloc_ok = True, read_ok = True, seek_ok = True, write_ret = datasize x\<rparr>"

lemma datasize_pos: "0 < datasize x"
  by (simp add: datasize_def cands_offset_def execs_offset_def)

lemma overwrite_all: "length xs = length ys \<Longrightarrow> overwrite xs 0 ys = ys"
  by (simp add: overwrite_def)

lemma add_to_new_file:
  assumes "context_ok x"
  shows "edfi_stats_per_bb_add_with_fd (all_calls_ok x) x [] = (None, stats_file x (block_counts x))"
proof -
  let ?n = "unat (num_bbs x)"
  have len: "length (block_counts x) = ?n" by (rule fault_types_ok(3) [OF assms])
  then have "map2 (+) (replicate ?n 0) (block_counts x) = block_counts x"
    by (auto intro: nth_equalityI)
  then have "add_counts x (new_stats_file x) = stats_file x (block_counts x)"
    using add_counts_file [OF assms, of "replicate ?n 0"] by (simp add: new_stats_file)
  moreover have "take (datasize x) (stats_file x (block_counts x)) = stats_file x (block_counts x)"
    using stats_file_length [OF assms len] by simp
  ultimately show ?thesis
    by (simp add: edfi_stats_per_bb_add_with_fd_def all_calls_ok_def overwrite_def)
qed

lemma add_to_old_file:
  assumes "context_ok x" "length cs = unat (num_bbs x)"
  shows "edfi_stats_per_bb_add_with_fd (all_calls_ok x) x (stats_file x cs) = (None, stats_file x (map2 (+) cs (block_counts x)))"
proof -
  let ?new = "stats_file x (map2 (+) cs (block_counts x))"
  have len: "length (map2 (+) cs (block_counts x)) = unat (num_bbs x)"
    using fault_types_ok(3) [OF assms(1)] assms(2) by simp
  have l: "length (stats_file x cs) = datasize x" "length ?new = datasize x"
    by (rule stats_file_length [OF assms(1)], fact)+ 
  then have "stats_file x cs \<noteq> []" using datasize_pos [of x] by auto
  then show ?thesis
    using l old_file_ok [OF assms] add_counts_file [OF assms]
    by (simp add: edfi_stats_per_bb_add_with_fd_def all_calls_ok_def overwrite_all)
qed

text \<open>The contexts of different runs of one program.\<close>

definition same_program :: "edfi_context_t \<Rightarrow> edfi_context_t \<Rightarrow> bool" where
  "same_program x y = (num_bbs y = num_bbs x \<and> num_fault_types y = num_fault_types x \<and> fault_types y = fault_types x)"

lemma same_program_file: "same_program x y \<Longrightarrow> stats_file y cs = stats_file x cs"
  by (simp add: same_program_def stats_file_def stats_header_def)

definition add_run :: "edfi_context_t \<Rightarrow> byte list \<Rightarrow> byte list" where
  "add_run x file = snd (edfi_stats_per_bb_add_with_fd (all_calls_ok x) x file)"

lemma runs_file:
  assumes "\<forall>y \<in> set ys. context_ok y \<and> same_program x y" "length cs = unat (num_bbs x)"
  shows "fold add_run ys (stats_file x cs) =
    stats_file x (map (\<lambda>i. cs ! i + (\<Sum>y\<leftarrow>ys. block_counts y ! i)) [0..<unat (num_bbs x)])"
  using assms
proof (induction ys arbitrary: cs)
  case Nil
  have "map ((!) cs) [0..<unat (num_bbs x)] = cs" using Nil by (auto intro: nth_equalityI)
  then show ?case by simp
next
  case (Cons y ys)
  have y: "context_ok y" "same_program x y" "num_bbs y = num_bbs x" using Cons.prems(1) by (auto simp: same_program_def)
  have len: "length (block_counts y) = unat (num_bbs x)" using fault_types_ok(3) [OF y(1)] y(3) by simp
  have "add_run y (stats_file x cs) = stats_file x (map2 (+) cs (block_counts y))"
    using add_to_old_file [OF y(1), of cs] Cons.prems(2) y(3) same_program_file [OF y(2)] by (simp add: add_run_def)
  then have "fold add_run (y # ys) (stats_file x cs) =
      stats_file x (map (\<lambda>i. map2 (+) cs (block_counts y) ! i + (\<Sum>y\<leftarrow>ys. block_counts y ! i)) [0..<unat (num_bbs x)])"
    using Cons.IH [of "map2 (+) cs (block_counts y)"] Cons.prems len by simp
  also have "map (\<lambda>i. map2 (+) cs (block_counts y) ! i + (\<Sum>y\<leftarrow>ys. block_counts y ! i)) [0..<unat (num_bbs x)] =
      map (\<lambda>i. cs ! i + (\<Sum>y\<leftarrow>y # ys. block_counts y ! i)) [0..<unat (num_bbs x)]"
    using len Cons.prems(2) by (simp add: add.assoc)
  finally show ?case .
qed

lemma open_stats_file:
  assumes ok: "context_ok x" "length cs = unat (num_bbs x)" and pos: "num_bbs x \<noteq> 0" "num_fault_types x \<noteq> 0"
    and bound: "64 * unat (num_fault_types x) < 2 ^ 32" "unat (num_bbs x) * unat (num_fault_types x) < 2 ^ 32"
  shows "\<exists>names. edfistats_open_one (stats_file x cs) = Some \<lparr>fs_header = stats_header x, fs_fault_names = names,
    fs_executions = cs, fs_candidates = concat (map bb_num_candidates (fault_types x))\<rparr>"
proof -
  let ?names = "concat (map (\<lambda>ft. strncpy_name (ft_name ft)) (fault_types x))"
  have sz: "unat (num_fault_types x * 64) = length ?names" "unat (num_bbs x) * 8 = length (concat (map le64 cs))"
    "unat (num_bbs x * num_fault_types x) * 4 = length (concat (map cand_bytes (fault_types x)))"
    using bound fault_types_ok(1) [OF ok(1)] ok(2) cands_length [OF ok(1)]
    by (simp_all add: names_length execs_length unat_mult_lem [THEN iffD1])
  have split: "reada (length a) (a @ b) = Some (a, b)" for a b by (simp add: reada_def)
  have e: "chunks 8 (unat (num_bbs x)) (concat (map le64 cs)) = map le64 cs"
    using chunks_concat [of "map le64 cs" 8 "unat (num_bbs x)" "[]"] ok(2) by simp
  have c: "concat (map cand_bytes fts) = concat (map ptr_bytes (concat (map bb_num_candidates fts)))" for fts
    by (induction fts) (simp_all add: cand_bytes_def)
  have "length (concat (map bb_num_candidates (fault_types x))) = unat (num_bbs x) * unat (num_fault_types x)"
    using fault_types_ok [OF ok(1)] by (subst length_concat_fixed [where w = "unat (num_bbs x)"]) auto
  then have c': "chunks 4 (unat (num_bbs x * num_fault_types x)) (concat (map cand_bytes (fault_types x))) =
      map ptr_bytes (concat (map bb_num_candidates (fault_types x)))"
    unfolding c using bound(2) chunks_concat [of "map ptr_bytes (concat (map bb_num_candidates (fault_types x)))" 4
        "unat (num_bbs x * num_fault_types x)" "[]"] by (simp add: unat_mult_lem [THEN iffD1])
  have "reada 16 (stats_file x cs) = Some (le_header (stats_header x), ?names @ concat (map le64 cs) @ concat (map cand_bytes (fault_types x)))"
    using split [of "le_header (stats_header x)"] by (simp add: stats_file_def)
  then show ?thesis
    using pos split [of ?names] split [of "concat (map le64 cs)"] split [of "concat (map cand_bytes (fault_types x))" "[]"] e c'
    by (simp add: edfistats_open_one_def stats_header_def EDFI_STATS_FAULT_NAME_LEN_def sz comp_def)
qed


lemma runs_sum:
  assumes "\<forall>y \<in> set (x # ys). context_ok y \<and> same_program x y"
  shows "fold add_run (x # ys) [] =
    stats_file x (map (\<lambda>i. \<Sum>y\<leftarrow>x # ys. block_counts y ! i) [0..<unat (num_bbs x)])"
proof -
  have "context_ok x" "length (block_counts x) = unat (num_bbs x)" using assms fault_types_ok(3) by auto
  then show ?thesis
    using runs_file [of ys x "block_counts x"] assms add_to_new_file [of x] by (simp add: add_run_def)
qed

section \<open>Properties\<close>

text \<open>
  C17 (roundtrip): the statistics file adds up the runs of a program. After any number of runs that
  start without a file, the reader accepts the file, finds for every block the sum of its
  execution counts over the runs and the candidates of every fault type, and the fault picker loads these sums.
\<close>
theorem statistics_add_up:
  assumes "\<forall>y \<in> set (x # ys). context_ok y \<and> same_program x y"
    and "num_bbs x \<noteq> 0" "num_fault_types x \<noteq> 0"
    and "64 * unat (num_fault_types x) < 2 ^ 32" "unat (num_bbs x) * unat (num_fault_types x) < 2 ^ 32"
  shows "\<exists>s. edfistats_open_one (fold add_run (x # ys) []) = Some s \<and>
    fs_executions s = map (\<lambda>i. \<Sum>y\<leftarrow>x # ys. block_counts y ! i) [0..<unat (num_bbs x)] \<and>
    fs_candidates s = concat (map bb_num_candidates (fault_types x)) \<and>
    load_log_edfistats_file logs (Some (fold add_run (x # ys) [])) =
      Inr (load_log_edfistats logs (map (\<lambda>i. \<Sum>y\<leftarrow>x # ys. block_counts y ! i) [0..<unat (num_bbs x)]))"
proof -
  have ok: "context_ok x" using assms(1) by simp
  obtain names where "edfistats_open_one (fold add_run (x # ys) []) = Some \<lparr>fs_header = stats_header x, fs_fault_names = names,
      fs_executions = map (\<lambda>i. \<Sum>y\<leftarrow>x # ys. block_counts y ! i) [0..<unat (num_bbs x)],
      fs_candidates = concat (map bb_num_candidates (fault_types x))\<rparr>"
    unfolding runs_sum [OF assms(1)] using open_stats_file [OF ok _ assms(2-5)] by fastforce
  then show ?thesis by (simp add: load_log_edfistats_file_def)
qed

theorem statistics_add_up_witness:
  "\<exists>s. edfistats_open_one (fold add_run [ex_context\<lparr>bb_num_executions := Some [0, 3, 4, 0]\<rparr>, ex_context\<lparr>bb_num_executions := Some [0, 1, 0, 0]\<rparr>] []) = Some s \<and>
    fs_executions s = [4, 4] \<and> fs_candidates s = [2, 1]"
proof -
  let ?x = "ex_context\<lparr>bb_num_executions := Some [0, 3, 4, 0]\<rparr>" and ?y = "ex_context\<lparr>bb_num_executions := Some [0, 1, 0, 0]\<rparr>"
  have "\<forall>y \<in> set [?x, ?y]. context_ok y \<and> same_program ?x y"
    by (simp add: context_ok_def same_program_def ex_context_def EDFI_IS_OK_CONTEXT_def)
  moreover have "num_bbs ?x = 2" "num_fault_types ?x = 1" "concat (map bb_num_candidates (fault_types ?x)) = [2, 1]"
    "block_counts ?x = [3, 4]" "block_counts ?y = [1, 0]"
    by (simp_all add: ex_context_def block_counts_def)
  ultimately show ?thesis
    using statistics_add_up [of ?x "[?y]" "[]"] by (auto simp: upt_rec)
qed

end
