(* ===== verification/Faults.thy ===== *)
theory Faults
  imports Prelude
begin

unbundle bit_operations_syntax

text \<open>
  The fault types of the injection pass (passes/edfi/Fault.h and Fault.cpp): which
  instructions a fault type applies to and what it turns the instruction into. The code of
  a function is the list of its basic blocks, a block the list of its instructions; an
  instruction has the attributes that the fault types ask for. The calls of the compiler
  library that edit a block (insert before an instruction, erase, replace all uses) are an
  argument, with the laws that the pass relies on in a locale. The virtual methods of the class FaultType are functions of the
  kind of the fault.
\<close>

section \<open>Code\<close>

datatype ir_type = IntTy nat | FPTy | PtrTy | IntVecTy nat | FPVecTy | VoidTy | OtherTy

datatype BinaryOps =
    Op_Add | Op_FAdd | Op_Sub | Op_FSub | Op_Mul | Op_FMul | Op_UDiv | Op_SDiv | Op_FDiv
  | Op_URem | Op_SRem | Op_FRem | Op_Shl | Op_LShr | Op_AShr | Op_And | Op_Or | Op_Xor

text \<open>An operand: the result of an instruction, a constant, a global or something else.\<close>

datatype operand = Inst nat | Const int | Global string | Other_value nat

text \<open>
  The form of an instruction. A load and a length argument carry the type of the value
  they read, a conditional branch its two successors, a call the function it calls when
  that is known.
\<close>

datatype inst_form =
    BinaryOperator BinaryOps operand operand
  | LoadInst ir_type operand
  | StoreInst operand operand
  | CondBranch operand nat nat
  | Branch nat
  | GetElementPtrInst operand "operand list"
  | CallInst "string option" "operand list"
  | MemIntrinsic string operand operand operand nat
  | CastInst operand
  | PHINode "operand list"
  | OtherInst "operand list"

record instruction =
  inst_id :: nat
  inst_name :: string
  inst_type :: ir_type
  inst_form :: inst_form
  inst_dbg :: "(string \<times> 32 word) option"

record code =
  code_blocks :: "instruction list list"
  code_next :: nat

text \<open>The instruction under the cursor: block b, with n instructions behind it.\<close>

definition at_cursor :: "code \<Rightarrow> nat \<Rightarrow> nat \<Rightarrow> instruction" where
  "at_cursor c b n = code_blocks c ! b ! (length (code_blocks c ! b) - Suc n)"

primrec form_operands :: "inst_form \<Rightarrow> operand list" where
  "form_operands (BinaryOperator p x y) = [x, y]"
| "form_operands (LoadInst t x) = [x]"
| "form_operands (StoreInst x y) = [x, y]"
| "form_operands (CondBranch x s0 s1) = [x]"
| "form_operands (Branch s0) = []"
| "form_operands (GetElementPtrInst x xs) = x # xs"
| "form_operands (CallInst f xs) = xs"
| "form_operands (MemIntrinsic f x y z w) = [x, y, z]"
| "form_operands (CastInst x) = [x]"
| "form_operands (PHINode xs) = xs"
| "form_operands (OtherInst xs) = xs"

text \<open>
  The edits that the compiler library offers. An instruction is created before the cursor,
  before the instruction that follows it, or at the end of a block; the last instruction of
  a block is followed by none, and the new instruction then belongs to no block.
\<close>

record ir_edits =
  replaceAllUsesWith :: "nat \<Rightarrow> operand \<Rightarrow> code \<Rightarrow> code"
  eraseFromParent :: "nat \<Rightarrow> nat \<Rightarrow> code \<Rightarrow> code"
  set_form :: "nat \<Rightarrow> inst_form \<Rightarrow> code \<Rightarrow> code"
  create_before :: "ir_type \<Rightarrow> inst_form \<Rightarrow> nat \<Rightarrow> nat \<Rightarrow> code \<Rightarrow> operand \<times> code"
  create_before_next :: "ir_type \<Rightarrow> inst_form \<Rightarrow> nat \<Rightarrow> nat \<Rightarrow> code \<Rightarrow> operand \<times> code"
  append_branch :: "nat \<Rightarrow> nat \<Rightarrow> code \<Rightarrow> code"

section \<open>The class FaultType\<close>

datatype FaultType =
    SwapFault | SwapFaultV2 | NoLoadFault | RndLoadFault | NoStoreFault | FlipBranchFault
  | StuckAtBranchFault | StuckAtLoopFault | FlipBoolFault | CorruptPointerFault | NullPointerFault
  | CorruptIndexFault | CorruptIntegerFault | CorruptOperatorFault | CorruptOperatorFaultV2
  | BufferOverflowFault | MemLeakFault | DanglingPointerFault

primrec getName :: "FaultType \<Rightarrow> string" where
  "getName SwapFault = ''swap''"
| "getName SwapFaultV2 = ''swap''"
| "getName NoLoadFault = ''no-load''"
| "getName RndLoadFault = ''rnd-load''"
| "getName NoStoreFault = ''no-store''"
| "getName FlipBranchFault = ''flip-branch''"
| "getName StuckAtBranchFault = ''stuck-at-branch''"
| "getName StuckAtLoopFault = ''stuck-at-loop''"
| "getName FlipBoolFault = ''flip-bool''"
| "getName CorruptPointerFault = ''corrupt-pointer''"
| "getName NullPointerFault = ''null-pointer''"
| "getName CorruptIndexFault = ''corrupt-index''"
| "getName CorruptIntegerFault = ''corrupt-integer''"
| "getName CorruptOperatorFault = ''corrupt-operator''"
| "getName CorruptOperatorFaultV2 = ''corrupt-operator-v2''"
| "getName BufferOverflowFault = ''buffer-overflow''"
| "getName MemLeakFault = ''mem-leak''"
| "getName DanglingPointerFault = ''dangling-pointer''"

datatype intrinsic = Intrinsic_memcpy | Intrinsic_memmove | Intrinsic_memset

text \<open>
  Single precision numbers that are not negative: a mantissa and an exponent of two,
  rounded to 24 bits, ties to even, with the smallest exponent of the format.
\<close>

type_synonym float32 = "nat \<times> int"

definition round_half_even :: "nat \<Rightarrow> nat \<Rightarrow> nat" where
  "round_half_even m s =
     (let q = m div 2 ^ s; r = m mod 2 ^ s
      in if 2 * r > 2 ^ s \<or> (2 * r = 2 ^ s \<and> odd q) then q + 1 else q)"

fun bit_length :: "nat \<Rightarrow> nat" where
  "bit_length n = (if n = 0 then 0 else Suc (bit_length (n div 2)))"

declare bit_length.simps [simp del]

definition round32 :: "nat \<times> int \<Rightarrow> float32" where
  "round32 = (\<lambda>(m, e).
     let s = max (int (bit_length m) - 24) (-149 - e)
     in if s \<le> 0 then (m, e) else (round_half_even m (nat s), e + s))"

definition float_mult :: "float32 \<Rightarrow> float32 \<Rightarrow> float32" where
  "float_mult x y = round32 (fst x * fst y, snd x + snd y)"

definition float_less :: "float32 \<Rightarrow> float32 \<Rightarrow> bool" where
  "float_less x y =
     (if snd x \<ge> snd y then fst x * 2 ^ nat (snd x - snd y) < fst y
      else fst x < fst y * 2 ^ nat (snd y - snd x))"

text \<open>
  What the fault types take from outside: the sequence of random numbers that a seed gives,
  the edits of the compiler library, the functions of the module with their intrinsic, the
  header of the innermost loop around a block, and the probabilities given on the command
  line.
\<close>

record fault_env =
  edits :: ir_edits
  rand_sequence :: "32 word \<Rightarrow> nat \<Rightarrow> 31 word"
  module_functions :: "(string \<times> intrinsic option) list"
  loop_header :: "code \<Rightarrow> nat \<Rightarrow> nat option"
  fault_prob :: "FaultType \<Rightarrow> float32 option"
  prob_default :: "float32 option"

record rng =
  rng_seed :: "32 word"
  rng_calls :: nat

definition c_srand :: "32 word \<Rightarrow> rng" where
  "c_srand seed = \<lparr>rng_seed = seed, rng_calls = 0\<rparr>"

text \<open>RAND_MAX is the largest signed integer: a random number has 31 bits.\<close>

definition c_rand :: "fault_env \<Rightarrow> rng \<Rightarrow> nat \<times> rng" where
  "c_rand e g = (unat (rand_sequence e (rng_seed g) (rng_calls g)), g\<lparr>rng_calls := Suc (rng_calls g)\<rparr>)"

definition getProbability :: "fault_env \<Rightarrow> FaultType \<Rightarrow> float32" where
  "getProbability e ft =
     (case (fault_prob e ft, prob_default e) of
        (None, Some p) \<Rightarrow> p
      | (None, None) \<Rightarrow> (0, 0)
      | (Some p, _) \<Rightarrow> p)"

section \<open>Wrappers of library functions\<close>

datatype wrapper = wrapMemCpy | wrapMemSet | wrapMemMove | defaultWrap

definition getFunction :: "fault_env \<Rightarrow> string \<Rightarrow> bool" where
  "getFunction e f = (f \<in> fst ` set (module_functions e))"

text \<open>Insertion into the map of wrappers keeps an entry that is already there.\<close>

definition insert_wrapper :: "string \<Rightarrow> wrapper \<Rightarrow> (string \<times> wrapper) list \<Rightarrow> (string \<times> wrapper) list" where
  "insert_wrapper f w ws = (if f \<in> fst ` set ws then ws else ws @ [(f, w)])"

definition init_wrapper :: "fault_env \<Rightarrow> string \<Rightarrow> wrapper \<Rightarrow> (string \<times> wrapper) list \<Rightarrow> (string \<times> wrapper) list" where
  "init_wrapper e f w ws = (if getFunction e f then insert_wrapper f w ws else ws)"

text \<open>The cases of the switch over the intrinsics fall through.\<close>

definition init_intrinsic :: "string \<times> intrinsic option \<Rightarrow> (string \<times> wrapper) list \<Rightarrow> (string \<times> wrapper) list" where
  "init_intrinsic = (\<lambda>(f, i) ws.
     (case i of
        Some Intrinsic_memcpy \<Rightarrow> insert_wrapper f wrapMemSet (insert_wrapper f wrapMemMove (insert_wrapper f wrapMemCpy ws))
      | Some Intrinsic_memmove \<Rightarrow> insert_wrapper f wrapMemSet (insert_wrapper f wrapMemMove ws)
      | Some Intrinsic_memset \<Rightarrow> insert_wrapper f wrapMemSet ws
      | None \<Rightarrow> ws))"

definition init_wrappers :: "fault_env \<Rightarrow> FaultType \<Rightarrow> (string \<times> wrapper) list" where
  "init_wrappers e ft =
     (case ft of
        BufferOverflowFault \<Rightarrow>
          fold (\<lambda>f. init_wrapper e f defaultWrap) [''memcpy'', ''memmove'', ''memset'', ''strcpy'', ''strncpy'']
            (fold init_intrinsic (module_functions e) [])
      | MemLeakFault \<Rightarrow> fold (\<lambda>f. init_wrapper e f defaultWrap) [''free'', ''munmap''] []
      | DanglingPointerFault \<Rightarrow> init_wrapper e ''malloc'' defaultWrap []
      | _ \<Rightarrow> [])"

definition called_function :: "inst_form \<Rightarrow> string option" where
  "called_function f =
     (case f of CallInst g xs \<Rightarrow> g | MemIntrinsic g x y z w \<Rightarrow> Some g | _ \<Rightarrow> None)"

definition function_wrapper :: "fault_env \<Rightarrow> FaultType \<Rightarrow> instruction \<Rightarrow> wrapper option" where
  "function_wrapper e ft I =
     (case called_function (inst_form I) of None \<Rightarrow> None | Some f \<Rightarrow> map_of (init_wrappers e ft) f)"

section \<open>Applicability\<close>

primrec isCommutative :: "BinaryOps \<Rightarrow> bool" where
  "isCommutative Op_Add = True"
| "isCommutative Op_FAdd = True"
| "isCommutative Op_Sub = False"
| "isCommutative Op_FSub = False"
| "isCommutative Op_Mul = True"
| "isCommutative Op_FMul = True"
| "isCommutative Op_UDiv = False"
| "isCommutative Op_SDiv = False"
| "isCommutative Op_FDiv = False"
| "isCommutative Op_URem = False"
| "isCommutative Op_SRem = False"
| "isCommutative Op_FRem = False"
| "isCommutative Op_Shl = False"
| "isCommutative Op_LShr = False"
| "isCommutative Op_AShr = False"
| "isCommutative Op_And = True"
| "isCommutative Op_Or = True"
| "isCommutative Op_Xor = True"

definition is_binary :: "instruction \<Rightarrow> bool" where
  "is_binary I = (case inst_form I of BinaryOperator p x y \<Rightarrow> True | _ \<Rightarrow> False)"

definition is_phi :: "instruction \<Rightarrow> bool" where
  "is_phi I = (case inst_form I of PHINode xs \<Rightarrow> True | _ \<Rightarrow> False)"

text \<open>The number of the instructions behind the first one of a block that is not a PHI node.\<close>

definition getFirstNonPHI :: "code \<Rightarrow> nat \<Rightarrow> nat option" where
  "getFirstNonPHI c b =
     (case dropWhile is_phi (code_blocks c ! b) of [] \<Rightarrow> None | I # is \<Rightarrow> Some (length is))"

definition used_as_index :: "code \<Rightarrow> instruction \<Rightarrow> bool" where
  "used_as_index c I =
     list_ex (list_ex (\<lambda>J. case inst_form J of
        GetElementPtrInst x xs \<Rightarrow> Inst (inst_id I) \<in> set (x # xs) | _ \<Rightarrow> False)) (code_blocks c)"

definition isApplicable :: "fault_env \<Rightarrow> FaultType \<Rightarrow> code \<Rightarrow> nat \<Rightarrow> nat \<Rightarrow> bool" where
  "isApplicable e ft c b n =
     (let I = at_cursor c b n
      in case ft of
           SwapFault \<Rightarrow> is_binary I
         | SwapFaultV2 \<Rightarrow> (case inst_form I of BinaryOperator p x y \<Rightarrow> \<not> isCommutative p | _ \<Rightarrow> False)
         | NoLoadFault \<Rightarrow> (case inst_form I of LoadInst (IntTy w) x \<Rightarrow> True | _ \<Rightarrow> False)
         | RndLoadFault \<Rightarrow> (case inst_form I of LoadInst (IntTy w) x \<Rightarrow> inst_type I = IntTy 32 | _ \<Rightarrow> False)
         | NoStoreFault \<Rightarrow> (case inst_form I of StoreInst x y \<Rightarrow> True | _ \<Rightarrow> False)
         | FlipBranchFault \<Rightarrow> (case inst_form I of CondBranch x s0 s1 \<Rightarrow> True | _ \<Rightarrow> False)
         | StuckAtBranchFault \<Rightarrow> (case inst_form I of CondBranch x s0 s1 \<Rightarrow> True | _ \<Rightarrow> False)
         | StuckAtLoopFault \<Rightarrow>
             (case inst_form I of
                CondBranch x s0 s1 \<Rightarrow> (case loop_header e c b of None \<Rightarrow> False | Some h \<Rightarrow> h = s0 \<or> h = s1)
              | _ \<Rightarrow> False)
         | FlipBoolFault \<Rightarrow> inst_type I = IntTy 1
         | CorruptPointerFault \<Rightarrow> inst_type I = PtrTy
         | NullPointerFault \<Rightarrow> getFirstNonPHI c b = Some n
         | CorruptIndexFault \<Rightarrow> inst_type I = IntTy 32 \<and> used_as_index c I
         | CorruptIntegerFault \<Rightarrow> inst_type I = IntTy 32
         | CorruptOperatorFault \<Rightarrow> is_binary I
         | CorruptOperatorFaultV2 \<Rightarrow> is_binary I \<and> inst_type I \<noteq> IntTy 80 \<and> inst_type I \<noteq> IntTy 144
         | BufferOverflowFault \<Rightarrow> function_wrapper e ft I \<noteq> None
         | MemLeakFault \<Rightarrow> function_wrapper e ft I \<noteq> None
         | DanglingPointerFault \<Rightarrow> function_wrapper e ft I \<noteq> None)"

text \<open>The random number is drawn only for an applicable fault.\<close>

definition isApplicableWithFIF :: "fault_env \<Rightarrow> FaultType \<Rightarrow> code \<Rightarrow> nat \<Rightarrow> nat \<Rightarrow> float32 \<Rightarrow> rng \<Rightarrow> bool \<times> rng" where
  "isApplicableWithFIF e ft c b n fif g =
     (let prob = float_mult (getProbability e ft) fif
      in if \<not> isApplicable e ft c b n then (False, g)
         else let (r, g) = c_rand e g;
                  x = round32 (r, 0)
              in (float_less (fst x, snd x - 31) prob, g))"

section \<open>Application\<close>

text \<open>
  Every application gives whether it calls the instruction removed, the state of the random
  numbers and the new code. The assertions of the source and its exit on a missing wrapper
  are faults; creating a call of a function that the module does not have is a null access.
\<close>

type_synonym applied = "fault + bool \<times> rng \<times> code"

definition apply_swap :: "fault_env \<Rightarrow> nat \<Rightarrow> nat \<Rightarrow> rng \<Rightarrow> code \<Rightarrow> applied" where
  "apply_swap e b n g c =
     (let I = at_cursor c b n
      in case inst_form I of
           BinaryOperator p x y \<Rightarrow> Inr (True, g, set_form (edits e) (inst_id I) (BinaryOperator p y x) c)
         | _ \<Rightarrow> Inl NullDeref)"

definition apply_no_load :: "fault_env \<Rightarrow> nat \<Rightarrow> nat \<Rightarrow> rng \<Rightarrow> code \<Rightarrow> applied" where
  "apply_no_load e b n g c =
     (let i = inst_id (at_cursor c b n)
      in Inr (True, g, eraseFromParent (edits e) i b (replaceAllUsesWith (edits e) i (Const 0) c)))"

definition apply_rnd_load :: "fault_env \<Rightarrow> nat \<Rightarrow> nat \<Rightarrow> rng \<Rightarrow> code \<Rightarrow> applied" where
  "apply_rnd_load e b n g c =
     (if \<not> getFunction e ''edfi_rand'' then Inl AssertFail
      else let i = inst_id (at_cursor c b n);
               (v, c) = create_before (edits e) (IntTy 32) (CallInst (Some ''edfi_rand'') []) b n c
           in Inr (True, g, eraseFromParent (edits e) i b (replaceAllUsesWith (edits e) i v c)))"

definition apply_no_store :: "fault_env \<Rightarrow> nat \<Rightarrow> nat \<Rightarrow> rng \<Rightarrow> code \<Rightarrow> applied" where
  "apply_no_store e b n g c = Inr (True, g, eraseFromParent (edits e) (inst_id (at_cursor c b n)) b c)"

definition apply_flip_branch :: "fault_env \<Rightarrow> nat \<Rightarrow> nat \<Rightarrow> rng \<Rightarrow> code \<Rightarrow> applied" where
  "apply_flip_branch e b n g c =
     (let I = at_cursor c b n
      in case inst_form I of
           CondBranch x s0 s1 \<Rightarrow> Inr (False, g, set_form (edits e) (inst_id I) (CondBranch x s1 s0) c)
         | _ \<Rightarrow> Inl NullDeref)"

text \<open>
  The branch that replaces a conditional one is appended to the block. The entries that
  the other successor's PHI nodes have for the block are not part of the model.
\<close>

definition apply_stuck_at_branch :: "fault_env \<Rightarrow> nat \<Rightarrow> nat \<Rightarrow> rng \<Rightarrow> code \<Rightarrow> applied" where
  "apply_stuck_at_branch e b n g c =
     (let I = at_cursor c b n
      in case inst_form I of
           CondBranch x s0 s1 \<Rightarrow>
             let (r, g) = c_rand e g;
                 c = append_branch (edits e) (if r mod 2 = 0 then s0 else s1) b c
             in Inr (False, g, eraseFromParent (edits e) (inst_id I) b c)
         | _ \<Rightarrow> Inl NullDeref)"

definition apply_stuck_at_loop :: "fault_env \<Rightarrow> nat \<Rightarrow> nat \<Rightarrow> rng \<Rightarrow> code \<Rightarrow> applied" where
  "apply_stuck_at_loop e b n g c =
     (let I = at_cursor c b n
      in case inst_form I of
           CondBranch x s0 s1 \<Rightarrow>
             (case loop_header e c b of
                None \<Rightarrow> Inr (False, g, c)
              | Some h \<Rightarrow>
                  if h = s0 then Inr (False, g, eraseFromParent (edits e) (inst_id I) b (append_branch (edits e) s0 b c))
                  else if h = s1 then Inr (False, g, eraseFromParent (edits e) (inst_id I) b (append_branch (edits e) s1 b c))
                  else Inr (False, g, c))
         | _ \<Rightarrow> Inr (False, g, c))"

text \<open>An operation on the result of the instruction takes over all its other uses.\<close>

definition chain_operation :: "fault_env \<Rightarrow> ir_type \<Rightarrow> BinaryOps \<Rightarrow> int \<Rightarrow> nat \<Rightarrow> nat \<Rightarrow> code \<Rightarrow> code" where
  "chain_operation e t p k b n c =
     (let i = inst_id (at_cursor c b n);
          f = BinaryOperator p (Inst i) (Const k);
          (v, c) = create_before_next (edits e) t f b n c;
          c = replaceAllUsesWith (edits e) i v c
      in case v of Inst j \<Rightarrow> set_form (edits e) j f c | _ \<Rightarrow> c)"

definition apply_flip_bool :: "fault_env \<Rightarrow> nat \<Rightarrow> nat \<Rightarrow> rng \<Rightarrow> code \<Rightarrow> applied" where
  "apply_flip_bool e b n g c = Inr (False, g, chain_operation e (IntTy 1) Op_Xor (-1) b n c)"

definition apply_corrupt_pointer :: "fault_env \<Rightarrow> nat \<Rightarrow> nat \<Rightarrow> rng \<Rightarrow> code \<Rightarrow> applied" where
  "apply_corrupt_pointer e b n g c =
     (if \<not> getFunction e ''edfi_rand'' then Inl NullDeref
      else let I = at_cursor c b n; i = inst_id I;
               (call, c) = create_before_next (edits e) (IntTy 32) (CallInst (Some ''edfi_rand'') []) b n c;
               (rand64, c) = create_before_next (edits e) (IntTy 64) (CastInst call) b n c;
               (rnd_ptr, c) = create_before_next (edits e) (inst_type I) (CastInst rand64) b n c
           in Inr (True, g, eraseFromParent (edits e) i b (replaceAllUsesWith (edits e) i rnd_ptr c)))"

text \<open>The first instruction of the block stays, a store through a null pointer goes before it.\<close>

definition apply_null_pointer :: "fault_env \<Rightarrow> nat \<Rightarrow> nat \<Rightarrow> rng \<Rightarrow> code \<Rightarrow> applied" where
  "apply_null_pointer e b n g c =
     (case getFirstNonPHI c b of
        None \<Rightarrow> Inl NullDeref
      | Some k \<Rightarrow> Inr (True, g, snd (create_before (edits e) VoidTy (StoreInst (Const 0) (Const 0)) b k c)))"

definition apply_corrupt_integer :: "fault_env \<Rightarrow> nat \<Rightarrow> nat \<Rightarrow> rng \<Rightarrow> code \<Rightarrow> applied" where
  "apply_corrupt_integer e b n g c =
     (let (r, g) = c_rand e g
      in Inr (False, g, chain_operation e (IntTy 32) (if r mod 2 \<noteq> 0 then Op_Add else Op_Sub) 1 b n c))"

definition apply_corrupt_index :: "fault_env \<Rightarrow> nat \<Rightarrow> nat \<Rightarrow> rng \<Rightarrow> code \<Rightarrow> applied" where
  "apply_corrupt_index e b n g c =
     (let I = at_cursor c b n
      in if inst_type I = IntTy 32 \<and> used_as_index c I then apply_corrupt_integer e b n g c
         else Inl AssertFail)"

text \<open>The instruction is replaced by another operation on the same operands.\<close>

definition replace_operation :: "fault_env \<Rightarrow> BinaryOps \<Rightarrow> nat \<Rightarrow> nat \<Rightarrow> code \<Rightarrow> fault + code" where
  "replace_operation e q b n c =
     (let I = at_cursor c b n
      in case inst_form I of
           BinaryOperator p x y \<Rightarrow>
             let (v, c) = create_before_next (edits e) (inst_type I) (BinaryOperator q x y) b n c
             in Inr (eraseFromParent (edits e) (inst_id I) b (replaceAllUsesWith (edits e) (inst_id I) v c))
         | _ \<Rightarrow> Inl NullDeref)"

definition IntOps :: "BinaryOps list" where
  "IntOps = [Op_Add, Op_Sub, Op_Mul, Op_UDiv, Op_SDiv, Op_URem, Op_SRem, Op_Shl, Op_LShr, Op_AShr, Op_And, Op_Or, Op_Xor]"

definition FpOps :: "BinaryOps list" where
  "FpOps = [Op_FAdd, Op_FSub, Op_FMul, Op_FDiv]"

definition apply_corrupt_operator :: "fault_env \<Rightarrow> nat \<Rightarrow> nat \<Rightarrow> rng \<Rightarrow> code \<Rightarrow> applied" where
  "apply_corrupt_operator e b n g c =
     (case inst_type (at_cursor c b n) of
        IntTy w \<Rightarrow> let (r, g) = c_rand e g in ebind (replace_operation e (IntOps ! (r mod length IntOps)) b n c) (\<lambda>c. Inr (True, g, c))
      | IntVecTy w \<Rightarrow> let (r, g) = c_rand e g in ebind (replace_operation e (IntOps ! (r mod length IntOps)) b n c) (\<lambda>c. Inr (True, g, c))
      | FPTy \<Rightarrow> let (r, g) = c_rand e g in ebind (replace_operation e (FpOps ! (r mod length FpOps)) b n c) (\<lambda>c. Inr (True, g, c))
      | FPVecTy \<Rightarrow> let (r, g) = c_rand e g in ebind (replace_operation e (FpOps ! (r mod length FpOps)) b n c) (\<lambda>c. Inr (True, g, c))
      | _ \<Rightarrow> Inl AssertFail)"

definition addOp :: "BinaryOps \<Rightarrow> BinaryOps list \<Rightarrow> BinaryOps \<Rightarrow> BinaryOps list" where
  "addOp orig ops p = (if p \<noteq> orig then ops @ [p] else ops)"

definition other_operations :: "BinaryOps \<Rightarrow> BinaryOps list" where
  "other_operations p =
     (if p \<in> set [Op_Add, Op_Sub, Op_Mul, Op_UDiv, Op_SDiv, Op_URem, Op_SRem, Op_And, Op_Or, Op_Xor]
      then foldl (addOp p) [] [Op_Add, Op_Sub, Op_Mul, Op_UDiv, Op_SDiv, Op_URem, Op_SRem, Op_And, Op_Or, Op_Xor]
      else if p \<in> set [Op_Shl, Op_LShr, Op_AShr] then foldl (addOp p) [] [Op_Shl, Op_LShr, Op_AShr]
      else if p \<in> set [Op_FAdd, Op_FSub, Op_FMul, Op_FDiv, Op_FRem] then foldl (addOp p) [] [Op_FAdd, Op_FSub, Op_FMul, Op_FDiv]
      else [])"

definition apply_corrupt_operator_v2 :: "fault_env \<Rightarrow> nat \<Rightarrow> nat \<Rightarrow> rng \<Rightarrow> code \<Rightarrow> applied" where
  "apply_corrupt_operator_v2 e b n g c =
     (case inst_form (at_cursor c b n) of
        BinaryOperator p x y \<Rightarrow>
          let ops = other_operations p
          in if ops = [] then Inl AssertFail
             else let (r, g) = c_rand e g
                  in ebind (replace_operation e (ops ! (r mod length ops)) b n c) (\<lambda>c. Inr (True, g, c))
      | _ \<Rightarrow> Inl NullDeref)"

section \<open>Application of the wrapper faults\<close>

definition apply_default_wrap :: "fault_env \<Rightarrow> nat \<Rightarrow> nat \<Rightarrow> code \<Rightarrow> fault + code" where
  "apply_default_wrap e b n c =
     (let I = at_cursor c b n
      in case called_function (inst_form I) of
           None \<Rightarrow> Inl NullDeref
         | Some callee \<Rightarrow>
             let wrapper_name = ''edfi_'' @ callee @ ''_wrapper''
             in if \<not> getFunction e wrapper_name then Inl (Panic (''ERROR. can'' @ [CHR 0x27] @ ''t find wrapper '' @ [CHR 0x27] @ wrapper_name @ [CHR 0x27]))
                else Inr (set_form (edits e) (inst_id I) (CallInst (Some wrapper_name) (form_operands (inst_form I))) c))"

text \<open>The intrinsics become calls of the wrapper of the width of their length argument.\<close>

definition wrap_call :: "fault_env \<Rightarrow> string \<Rightarrow> operand list \<Rightarrow> nat \<Rightarrow> nat \<Rightarrow> code \<Rightarrow> fault + code" where
  "wrap_call e f xs b n c =
     (if \<not> getFunction e f then Inl NullDeref
      else let i = inst_id (at_cursor c b n)
           in Inr (eraseFromParent (edits e) i b (snd (create_before (edits e) OtherTy (CallInst (Some f) xs) b n c))))"

definition apply_mem_wrapper :: "fault_env \<Rightarrow> string \<Rightarrow> string \<Rightarrow> bool \<Rightarrow> nat \<Rightarrow> nat \<Rightarrow> code \<Rightarrow> fault + code" where
  "apply_mem_wrapper e f64 f32 sext b n c =
     (case inst_form (at_cursor c b n) of
        MemIntrinsic f dest src len w \<Rightarrow>
          (if sext
           then let (v, c) = create_before (edits e) (IntTy 32) (CastInst src) b n c
                in wrap_call e (if w = 64 then f64 else f32) [dest, v, len] b n c
           else wrap_call e (if w = 64 then f64 else f32) [dest, src, len] b n c)
      | _ \<Rightarrow> Inl NullDeref)"

primrec run_wrapper :: "wrapper \<Rightarrow> fault_env \<Rightarrow> nat \<Rightarrow> nat \<Rightarrow> code \<Rightarrow> fault + code" where
  "run_wrapper wrapMemCpy e b n c = apply_mem_wrapper e ''edfi_memcpy64_wrapper'' ''edfi_memcpy_wrapper'' False b n c"
| "run_wrapper wrapMemSet e b n c = apply_mem_wrapper e ''edfi_memset64_wrapper'' ''edfi_memset_wrapper'' True b n c"
| "run_wrapper wrapMemMove e b n c = apply_mem_wrapper e ''edfi_memmove64_wrapper'' ''edfi_memmove_wrapper'' False b n c"
| "run_wrapper defaultWrap e b n c = apply_default_wrap e b n c"

definition apply_wrapper :: "fault_env \<Rightarrow> FaultType \<Rightarrow> nat \<Rightarrow> nat \<Rightarrow> rng \<Rightarrow> code \<Rightarrow> applied" where
  "apply_wrapper e ft b n g c =
     (case function_wrapper e ft (at_cursor c b n) of
        None \<Rightarrow> Inl NullCall
      | Some w \<Rightarrow> ebind (run_wrapper w e b n c) (\<lambda>c. Inr (True, g, c)))"

definition apply_fault :: "fault_env \<Rightarrow> FaultType \<Rightarrow> nat \<Rightarrow> nat \<Rightarrow> rng \<Rightarrow> code \<Rightarrow> applied" where
  "apply_fault e ft b n g c =
     (case ft of
        SwapFault \<Rightarrow> apply_swap e b n g c
      | SwapFaultV2 \<Rightarrow> apply_swap e b n g c
      | NoLoadFault \<Rightarrow> apply_no_load e b n g c
      | RndLoadFault \<Rightarrow> apply_rnd_load e b n g c
      | NoStoreFault \<Rightarrow> apply_no_store e b n g c
      | FlipBranchFault \<Rightarrow> apply_flip_branch e b n g c
      | StuckAtBranchFault \<Rightarrow> apply_stuck_at_branch e b n g c
      | StuckAtLoopFault \<Rightarrow> apply_stuck_at_loop e b n g c
      | FlipBoolFault \<Rightarrow> apply_flip_bool e b n g c
      | CorruptPointerFault \<Rightarrow> apply_corrupt_pointer e b n g c
      | NullPointerFault \<Rightarrow> apply_null_pointer e b n g c
      | CorruptIndexFault \<Rightarrow> apply_corrupt_index e b n g c
      | CorruptIntegerFault \<Rightarrow> apply_corrupt_integer e b n g c
      | CorruptOperatorFault \<Rightarrow> apply_corrupt_operator e b n g c
      | CorruptOperatorFaultV2 \<Rightarrow> apply_corrupt_operator_v2 e b n g c
      | BufferOverflowFault \<Rightarrow> apply_wrapper e ft b n g c
      | MemLeakFault \<Rightarrow> apply_wrapper e ft b n g c
      | DanglingPointerFault \<Rightarrow> apply_wrapper e ft b n g c)"

section \<open>Lemmas: operations\<close>

text \<open>A corrupted operator is another operator of the same class; there always is one.\<close>

definition operator_class :: "BinaryOps \<Rightarrow> BinaryOps set" where
  "operator_class p =
     (if p \<in> {Op_Shl, Op_LShr, Op_AShr} then {Op_Shl, Op_LShr, Op_AShr}
      else if p \<in> {Op_FAdd, Op_FSub, Op_FMul, Op_FDiv, Op_FRem} then {Op_FAdd, Op_FSub, Op_FMul, Op_FDiv, Op_FRem}
      else {Op_Add, Op_Sub, Op_Mul, Op_UDiv, Op_SDiv, Op_URem, Op_SRem, Op_And, Op_Or, Op_Xor})"

lemma other_operations_class:
  "other_operations p \<noteq> [] \<and> p \<notin> set (other_operations p) \<and> set (other_operations p) \<subseteq> operator_class p"
  by (cases p) (simp_all add: other_operations_def addOp_def operator_class_def)

section \<open>Lemmas: shape of the code\<close>

definition inst_paths :: "instruction \<Rightarrow> string list" where
  "inst_paths I = (case inst_dbg I of None \<Rightarrow> [] | Some (p, l) \<Rightarrow> [p])"

definition code_paths :: "code \<Rightarrow> string list" where
  "code_paths c = concat (map inst_paths (concat (code_blocks c)))"

text \<open>
  The blocks of a function while one of them is worked on: it has at least m instructions,
  the others keep their lengths, and no new source position appears.
\<close>

definition shaped :: "nat \<Rightarrow> nat \<Rightarrow> nat list \<Rightarrow> string set \<Rightarrow> code \<Rightarrow> bool" where
  "shaped b m ls P c =
     (b < length ls \<and> length (code_blocks c) = length ls \<and>
      (\<forall>b' < length ls. b' \<noteq> b \<longrightarrow> length (code_blocks c ! b') = ls ! b') \<and>
      m \<le> length (code_blocks c ! b) \<and> set (code_paths c) \<subseteq> P)"

lemma code_paths_mem: "p \<in> set (code_paths c) \<longleftrightarrow> (\<exists>is \<in> set (code_blocks c). \<exists>I \<in> set is. p \<in> set (inst_paths I))"
  by (auto simp: code_paths_def)

lemma shaped_mono: "shaped b m ls P c \<Longrightarrow> m' \<le> m \<Longrightarrow> shaped b m' ls P c"
  by (auto simp: shaped_def)

lemma shaped_paths: "shaped b m ls P c \<longleftrightarrow>
  b < length ls \<and> length (code_blocks c) = length ls \<and>
      (\<forall>b' < length ls. b' \<noteq> b \<longrightarrow> length (code_blocks c ! b') = ls ! b') \<and>
      m \<le> length (code_blocks c ! b) \<and> (\<forall>is \<in> set (code_blocks c). \<forall>I \<in> set is. set (inst_paths I) \<subseteq> P)"
  unfolding shaped_def subset_iff code_paths_mem by blast

section \<open>The compiler library\<close>

text \<open>
  What an edit of a block does to a function: the other blocks keep their lengths, the
  block becomes longer by at least k instructions, and no new source position appears.
\<close>

definition edited :: "nat \<Rightarrow> int \<Rightarrow> code \<Rightarrow> code \<Rightarrow> bool" where
  "edited b k c c' =
     (length (code_blocks c') = length (code_blocks c) \<and>
      (\<forall>b' < length (code_blocks c). b' \<noteq> b \<longrightarrow> length (code_blocks c' ! b') = length (code_blocks c ! b')) \<and>
      int (length (code_blocks c ! b)) + k \<le> int (length (code_blocks c' ! b)) \<and>
      set (code_paths c') \<subseteq> set (code_paths c))"

lemma shaped_edited:
  assumes "edited b k c c'" "shaped b m ls P c" "int m' \<le> int m + k"
  shows "shaped b m' ls P c'"
  using assms unfolding shaped_def edited_def by auto

text \<open>
  The laws of the edits: replacing uses and changing an instruction keep the number of
  instructions, erasing removes at most one, creating adds one.
\<close>

locale ir_library =
  fixes e :: fault_env
  assumes edited_replace: "b < length (code_blocks c) \<Longrightarrow> edited b 0 c (replaceAllUsesWith (edits e) i v c)"
    and edited_set_form: "b < length (code_blocks c) \<Longrightarrow> edited b 0 c (set_form (edits e) i f c)"
    and edited_erase: "b < length (code_blocks c) \<Longrightarrow> edited b (-1) c (eraseFromParent (edits e) i b c)"
    and edited_before: "b < length (code_blocks c) \<Longrightarrow> n < length (code_blocks c ! b) \<Longrightarrow>
      edited b 1 c (snd (create_before (edits e) t f b n c))"
    and edited_next: "b < length (code_blocks c) \<Longrightarrow> n < length (code_blocks c ! b) \<Longrightarrow>
      edited b 0 c (snd (create_before_next (edits e) t f b n c))"
    and edited_append: "b < length (code_blocks c) \<Longrightarrow> edited b 1 c (append_branch (edits e) s0 b c)"
begin

lemma shaped_replaceAllUsesWith: "shaped b m ls P c \<Longrightarrow> shaped b m ls P (replaceAllUsesWith (edits e) i v c)"
  by (rule shaped_edited [OF edited_replace]) (auto simp: shaped_def)

lemma shaped_set_form: "shaped b m ls P c \<Longrightarrow> shaped b m ls P (set_form (edits e) i f c)"
  by (rule shaped_edited [OF edited_set_form]) (auto simp: shaped_def)

lemma shaped_erase: "shaped b (Suc m) ls P c \<Longrightarrow> shaped b m ls P (eraseFromParent (edits e) i b c)"
  by (rule shaped_edited [OF edited_erase]) (auto simp: shaped_def)

lemma shaped_create_before:
  "shaped b m ls P c \<Longrightarrow> n < m \<Longrightarrow> shaped b (Suc m) ls P (snd (create_before (edits e) t f b n c))"
  by (rule shaped_edited [OF edited_before]) (auto simp: shaped_def)

lemma shaped_create_before_next:
  "shaped b m ls P c \<Longrightarrow> n < m \<Longrightarrow> shaped b m ls P (snd (create_before_next (edits e) t f b n c))"
  by (rule shaped_edited [OF edited_next]) (auto simp: shaped_def)

lemma shaped_append_branch: "shaped b m ls P c \<Longrightarrow> shaped b (Suc m) ls P (append_branch (edits e) s0 b c)"
  by (rule shaped_edited [OF edited_append]) (auto simp: shaped_def)

lemmas shaped_edits = shaped_replaceAllUsesWith shaped_set_form shaped_erase shaped_create_before
  shaped_create_before_next shaped_append_branch

lemma shaped_chain_operation: "shaped b m ls P c \<Longrightarrow> n < m \<Longrightarrow> shaped b m ls P (chain_operation e t p k b n c)"
  using shaped_create_before_next [of b m ls P c n]
  by (auto simp: chain_operation_def Let_def split_beta split: operand.splits intro!: shaped_edits)

lemma shaped_replace_operation:
  assumes "shaped b (Suc n) ls P c" "replace_operation e q b n c = Inr c'"
  shows "shaped b n ls P c'"
proof -
  have "shaped b (Suc n) ls P (snd (create_before_next (edits e) t f b n c))" for t f
    by (rule shaped_create_before_next [OF assms(1)]) simp
  then show ?thesis using assms(2)
    by (auto simp: replace_operation_def Let_def split_beta split: inst_form.splits intro!: shaped_erase shaped_replaceAllUsesWith)
qed

lemma shaped_run_wrapper:
  assumes "shaped b (Suc n) ls P c" "run_wrapper w e b n c = Inr c'"
  shows "shaped b n ls P c'"
proof -
  have create: "shaped b (Suc (Suc n)) ls P (snd (create_before (edits e) t f b n c))" for t f
    by (rule shaped_create_before [OF assms(1)]) simp
  have call: "shaped b n ls P c''" if "shaped b (Suc n) ls P d" "wrap_call e f xs b n d = Inr c''" for d f xs c''
    using that by (auto simp: wrap_call_def Let_def split: if_splits
        intro!: shaped_erase shaped_mono [OF shaped_create_before, of b "Suc n" ls P d n "Suc n"])
  have mem: "shaped b n ls P c''" if "apply_mem_wrapper e f64 f32 x b n c = Inr c''" for f64 f32 x c''
    using that call [OF shaped_mono [OF create]] call [OF assms(1)]
    by (auto simp: apply_mem_wrapper_def Let_def split_beta split: inst_form.splits if_splits)
  show ?thesis
  proof (cases w)
    case defaultWrap
    then show ?thesis using assms
      by (auto simp: apply_default_wrap_def Let_def split: option.splits if_splits
          intro!: shaped_mono [OF shaped_set_form, of b "Suc n" ls P c n])
  qed (use assms(2) mem in auto)
qed

text \<open>A fault leaves the instructions behind the cursor, the other blocks and the source positions.\<close>

lemma shaped_apply_fault:
  assumes "shaped b (Suc n) ls P c" "apply_fault e ft b n g c = Inr (removed, g', c')"
  shows "shaped b n ls P c'"
proof -
  note sh = assms(1)
  have down: "shaped b n ls P c" using sh by (rule shaped_mono) simp
  have erase: "shaped b n ls P (eraseFromParent (edits e) i b d)" if "shaped b (Suc n) ls P d" for i d
    using that by (rule shaped_erase)
  have before: "shaped b (Suc n) ls P (snd (create_before (edits e) t f b n c))" for t f
    by (rule shaped_mono [OF shaped_create_before [OF sh]]) simp_all
  have nxt: "shaped b (Suc n) ls P (snd (create_before_next (edits e) t f b n d))" if "shaped b (Suc n) ls P d" for t f d
    by (rule shaped_create_before_next [OF that]) simp
  have chain: "shaped b n ls P (chain_operation e t p k b n c)" for t p k
    by (rule shaped_mono [OF shaped_chain_operation [OF sh]]) simp_all
  have branch: "shaped b (Suc n) ls P (append_branch (edits e) s0 b c)" for s0
    by (rule shaped_mono [OF shaped_append_branch [OF sh]]) simp
  have null: "shaped b n ls P (snd (create_before (edits e) t f b k c))" if "getFirstNonPHI c b = Some k" for t f k
  proof -
    have "length (dropWhile is_phi (code_blocks c ! b)) \<le> length (code_blocks c ! b)" by (rule length_dropWhile_le)
    then have k: "k < length (code_blocks c ! b)"
      using that by (auto simp: getFirstNonPHI_def split: list.splits)
    have "shaped b (length (code_blocks c ! b)) ls P c" using sh by (simp add: shaped_def)
    from shaped_create_before [OF this k] show ?thesis
      by (rule shaped_mono) (use sh in \<open>simp add: shaped_def\<close>)
  qed
  have int: "shaped b n ls P c'" if "apply_corrupt_integer e b n g c = Inr (removed, g', c')"
    using that chain by (auto simp: apply_corrupt_integer_def split_beta Let_def)
  have wrap: "shaped b n ls P c'" if "apply_wrapper e ft b n g c = Inr (removed, g', c')"
    using that shaped_run_wrapper [OF sh] by (auto simp: apply_wrapper_def ebind_eq_Inr split: option.splits)
  show ?thesis
  proof (cases ft)
    case SwapFault
    then show ?thesis using assms(2) down
      by (auto simp: apply_fault_def apply_swap_def Let_def split: inst_form.splits intro!: shaped_set_form)
  next
    case SwapFaultV2
    then show ?thesis using assms(2) down
      by (auto simp: apply_fault_def apply_swap_def Let_def split: inst_form.splits intro!: shaped_set_form)
  next
    case NoLoadFault
    then show ?thesis using assms(2) sh
      by (auto simp: apply_fault_def apply_no_load_def Let_def intro!: erase shaped_replaceAllUsesWith)
  next
    case RndLoadFault
    then show ?thesis using assms(2) before
      by (auto simp: apply_fault_def apply_rnd_load_def Let_def split_beta split: if_splits intro!: erase shaped_replaceAllUsesWith)
  next
    case NoStoreFault
    then show ?thesis using assms(2) sh by (auto simp: apply_fault_def apply_no_store_def intro!: erase)
  next
    case FlipBranchFault
    then show ?thesis using assms(2) down
      by (auto simp: apply_fault_def apply_flip_branch_def Let_def split: inst_form.splits intro!: shaped_set_form)
  next
    case StuckAtBranchFault
    then show ?thesis using assms(2) branch
      by (auto simp: apply_fault_def apply_stuck_at_branch_def Let_def split_beta split: inst_form.splits intro!: erase)
  next
    case StuckAtLoopFault
    then show ?thesis using assms(2) branch down
      by (auto simp: apply_fault_def apply_stuck_at_loop_def Let_def split: inst_form.splits option.splits if_splits intro!: erase)
  next
    case FlipBoolFault
    then show ?thesis using assms(2) chain by (auto simp: apply_fault_def apply_flip_bool_def)
  next
    case CorruptPointerFault
    then show ?thesis using assms(2) sh
      by (auto simp: apply_fault_def apply_corrupt_pointer_def Let_def split_beta split: if_splits
          intro!: erase shaped_replaceAllUsesWith nxt)
  next
    case NullPointerFault
    then show ?thesis using assms(2) null by (auto simp: apply_fault_def apply_null_pointer_def split: option.splits)
  next
    case CorruptIndexFault
    then show ?thesis using assms(2) int by (auto simp: apply_fault_def apply_corrupt_index_def Let_def split: if_splits)
  next
    case CorruptIntegerFault
    then show ?thesis using assms(2) int by (auto simp: apply_fault_def)
  next
    case CorruptOperatorFault
    then show ?thesis using assms(2) shaped_replace_operation [OF sh]
      by (auto simp: apply_fault_def apply_corrupt_operator_def Let_def split_beta ebind_eq_Inr split: ir_type.splits)
  next
    case CorruptOperatorFaultV2
    then show ?thesis using assms(2) shaped_replace_operation [OF sh]
      by (auto simp: apply_fault_def apply_corrupt_operator_v2_def Let_def split_beta ebind_eq_Inr split: inst_form.splits if_splits)
  qed (use assms(2) wrap in \<open>auto simp: apply_fault_def\<close>)
qed

end

section \<open>Edits on lists\<close>

text \<open>
  The blocks are lists, so that the edits can be carried out on them: the new instructions
  stand before the n instructions behind the cursor, and erasing takes the first
  instruction of a block that has the number.
\<close>

primrec map_form :: "(operand \<Rightarrow> operand) \<Rightarrow> inst_form \<Rightarrow> inst_form" where
  "map_form h (BinaryOperator p x y) = BinaryOperator p (h x) (h y)"
| "map_form h (LoadInst t x) = LoadInst t (h x)"
| "map_form h (StoreInst x y) = StoreInst (h x) (h y)"
| "map_form h (CondBranch x s0 s1) = CondBranch (h x) s0 s1"
| "map_form h (Branch s0) = Branch s0"
| "map_form h (GetElementPtrInst x xs) = GetElementPtrInst (h x) (map h xs)"
| "map_form h (CallInst f xs) = CallInst f (map h xs)"
| "map_form h (MemIntrinsic f x y z w) = MemIntrinsic f (h x) (h y) (h z) w"
| "map_form h (CastInst x) = CastInst (h x)"
| "map_form h (PHINode xs) = PHINode (map h xs)"
| "map_form h (OtherInst xs) = OtherInst (map h xs)"

definition edit_block :: "(instruction list \<Rightarrow> instruction list) \<Rightarrow> nat \<Rightarrow> code \<Rightarrow> code" where
  "edit_block h b c = c\<lparr>code_blocks := (code_blocks c)[b := h (code_blocks c ! b)]\<rparr>"

definition on_cursor :: "(instruction \<Rightarrow> instruction list) \<Rightarrow> nat \<Rightarrow> instruction list \<Rightarrow> instruction list" where
  "on_cursor h n is = (let p = length is - Suc n in take p is @ h (is ! p) @ drop (Suc p) is)"

definition new_inst :: "ir_type \<Rightarrow> inst_form \<Rightarrow> nat \<Rightarrow> instruction" where
  "new_inst t f i = \<lparr>inst_id = i, inst_name = [], inst_type = t, inst_form = f, inst_dbg = None\<rparr>"

definition next_number :: "code \<Rightarrow> code" where
  "next_number c = c\<lparr>code_next := Suc (code_next c)\<rparr>"

definition list_edits :: ir_edits where
  "list_edits = \<lparr>
     replaceAllUsesWith = (\<lambda>i v c. c\<lparr>code_blocks := map (map (\<lambda>I.
       I\<lparr>inst_form := map_form (\<lambda>x. if x = Inst i then v else x) (inst_form I)\<rparr>)) (code_blocks c)\<rparr>),
     eraseFromParent = (\<lambda>i. edit_block (\<lambda>is. takeWhile (\<lambda>I. inst_id I \<noteq> i) is @ tl (dropWhile (\<lambda>I. inst_id I \<noteq> i) is))),
     set_form = (\<lambda>i f c. c\<lparr>code_blocks := map (map (\<lambda>I. if inst_id I = i then I\<lparr>inst_form := f\<rparr> else I)) (code_blocks c)\<rparr>),
     create_before = (\<lambda>t f b n c. (Inst (code_next c),
       edit_block (on_cursor (\<lambda>I. [new_inst t f (code_next c), I]) n) b (next_number c))),
     create_before_next = (\<lambda>t f b n c. (Inst (code_next c),
       if n = 0 then next_number c else edit_block (on_cursor (\<lambda>I. [I, new_inst t f (code_next c)]) n) b (next_number c))),
     append_branch = (\<lambda>s0 b c. edit_block (\<lambda>is. is @ [new_inst VoidTy (Branch s0) (code_next c)]) b (next_number c))\<rparr>"

lemma edited_map:
  assumes "\<And>I. inst_dbg (h I) = inst_dbg I" "b < length (code_blocks c)"
  shows "edited b 0 c (c\<lparr>code_blocks := map (map h) (code_blocks c)\<rparr>)"
proof -
  have "inst_paths (h I) = inst_paths I" for I using assms(1) by (simp add: inst_paths_def)
  then show ?thesis using assms(2) by (auto simp: edited_def code_paths_mem)
qed

lemma edited_block:
  assumes "b < length (code_blocks c)" "int (length (code_blocks c ! b)) + k \<le> int (length (h (code_blocks c ! b)))"
    and "\<And>I. I \<in> set (h (code_blocks c ! b)) \<Longrightarrow> I \<in> set (code_blocks c ! b) \<or> inst_dbg I = None"
  shows "edited b k c (edit_block h b c)"
proof -
  let ?is = "h (code_blocks c ! b)"
  have "p \<in> set (code_paths c)" if p: "is \<in> set ((code_blocks c)[b := ?is])" "I \<in> set is" "p \<in> set (inst_paths I)" for p "is" I
  proof -
    consider "is \<in> set (code_blocks c)" | "is = ?is" using p(1) set_update_subset_insert by fast
    then show ?thesis
    proof cases
      case 2
      then have "I \<in> set (code_blocks c ! b)" using p(2,3) assms(3) [of I] by (cases "inst_dbg I") (auto simp: inst_paths_def)
      then show ?thesis using p(3) nth_mem [OF assms(1)] unfolding code_paths_mem by blast
    qed (use p in \<open>auto simp: code_paths_mem\<close>)
  qed
  then have "set (code_paths (edit_block h b c)) \<subseteq> set (code_paths c)"
    unfolding subset_iff code_paths_mem [of _ "edit_block h b c"] by (auto simp: edit_block_def)
  then show ?thesis using assms(1,2) by (simp add: edited_def edit_block_def)
qed

lemma next_number_simps [simp]: "code_blocks (next_number c) = code_blocks c"
  by (simp add: next_number_def)

lemma edited_next_number: "edited b k (next_number c) d \<longleftrightarrow> edited b k c d"
  by (simp add: edited_def code_paths_def)

lemma in_set_tlD: "x \<in> set (tl xs) \<Longrightarrow> x \<in> set xs"
  by (cases xs) simp_all

lemma length_erase:
  "int (length is) - 1 \<le> int (length (takeWhile q is @ tl (dropWhile q is)))"
proof -
  have "length is = length (takeWhile q is) + length (dropWhile q is)" by (metis length_append takeWhile_dropWhile_id)
  then show ?thesis by simp
qed

lemma on_cursor_set:
  "n < length is \<Longrightarrow> I \<in> set (on_cursor h n is) \<Longrightarrow> I \<in> set is \<or> I \<in> set (h (is ! (length is - Suc n)))"
  by (auto simp: on_cursor_def Let_def dest: in_set_takeD in_set_dropD)

lemma on_cursor_length: "n < length is \<Longrightarrow> (\<And>I. length (h I) = 2) \<Longrightarrow> length (on_cursor h n is) = Suc (length is)"
  by (simp add: on_cursor_def Let_def)

lemma edited_on_cursor:
  assumes "b < length (code_blocks c)" "n < length (code_blocks c ! b)" "\<And>I. length (h I) = 2"
    and "\<And>I J. J \<in> set (h I) \<Longrightarrow> J = I \<or> inst_dbg J = None"
  shows "edited b 1 c (edit_block (on_cursor h n) b (next_number c))"
proof -
  let ?is = "code_blocks c ! b"
  have "?is ! (length ?is - Suc n) \<in> set ?is" using assms(2) by simp
  then show ?thesis
    unfolding edited_next_number [symmetric, of b 1 c]
    by (intro edited_block) (use assms on_cursor_length [OF assms(2,3)] in \<open>auto dest!: on_cursor_set [OF assms(2)] assms(4)\<close>)
qed

interpretation list_ir: ir_library "e\<lparr>edits := list_edits\<rparr>" for e
proof
  fix b n i :: nat and c :: code and t :: ir_type and f :: inst_form
  assume b: "b < length (code_blocks c)"
  show "edited b 0 c (replaceAllUsesWith (edits (e\<lparr>edits := list_edits\<rparr>)) i v c)" for v
    using edited_map [OF _ b] by (simp add: list_edits_def)
  show "edited b 0 c (set_form (edits (e\<lparr>edits := list_edits\<rparr>)) i f c)"
    using edited_map [OF _ b] by (simp add: list_edits_def)
  let ?is = "code_blocks c ! b" and ?q = "\<lambda>I. inst_id I \<noteq> i"
  have "set (takeWhile ?q ?is @ tl (dropWhile ?q ?is)) \<subseteq> set ?is"
    by (auto dest: set_takeWhileD set_dropWhileD in_set_tlD)
  then show "edited b (- 1) c (eraseFromParent (edits (e\<lparr>edits := list_edits\<rparr>)) i b c)"
    using length_erase [of ?is ?q] by (simp add: list_edits_def, intro edited_block [OF b]) auto
  show "edited b 1 c (append_branch (edits (e\<lparr>edits := list_edits\<rparr>)) s0 b c)" for s0
    unfolding edited_next_number [symmetric, of b 1 c] using b
    by (auto simp: list_edits_def new_inst_def intro!: edited_block)
  assume n: "n < length (code_blocks c ! b)"
  show "edited b 1 c (snd (create_before (edits (e\<lparr>edits := list_edits\<rparr>)) t f b n c))"
    by (auto simp: list_edits_def new_inst_def intro!: edited_on_cursor [OF b n])
  have "edited b 1 c (edit_block (on_cursor (\<lambda>I. [I, new_inst t f (code_next c)]) n) b (next_number c))"
    by (auto simp: new_inst_def intro!: edited_on_cursor [OF b n])
  moreover have "edited b 0 c (next_number c)" by (simp add: edited_def code_paths_def)
  ultimately show "edited b 0 c (snd (create_before_next (edits (e\<lparr>edits := list_edits\<rparr>)) t f b n c))"
    by (simp add: list_edits_def edited_def)
qed

end
