(* ===== verification/Injector.thy ===== *)
theory Injector
  imports Faults Modules Edfi
begin

unbundle bit_operations_syntax

text \<open>
  The fault injection pass (passes/edfi/FaultInjector.cpp): its options, the choice of the
  functions to instrument, the fault impact factors of the blocks, the injection loop over
  the faulty copies of the blocks with the map file and the statistics it writes, and the
  context of the runtime that it fills in. The compiler library's part is an argument: the
  code of the faulty copies, the matching of regular expressions and the string hash.
\<close>

section \<open>Options and modules\<close>

record pass_options =
  skip_all :: bool
  fault_rand_seed :: "32 word"
  rand_reseed_per_function :: bool
  random_BB_FIF :: "nat \<times> float32"
  random_BB_FIF_seed :: "32 word option"
  functions_FIF :: "(string \<times> float32) list"
  functioncallers_FIF :: "(string \<times> float32) list"
  modules_FIF :: "(string \<times> float32) list"
  global_FIF :: float32
  FunctionNames :: "string list"
  SkipFunctionNames :: "string list"
  ModuleNames :: "string list"
  FaultTypeNames :: "string list"
  fault_selector :: "(string \<times> int) list"
  statistics_only :: bool
  dsnCompat :: bool
  atcCompat :: bool
  oneFaultPerBlock :: bool
  func_min :: int
  func_max :: int
  fdp_varname :: string

record ir_function =
  F_name :: string
  F_section :: string
  F_relPath :: "string option"
  F_intrinsic :: "intrinsic option"
  F_blocks :: "instruction list list"

record ir_module =
  M_name :: string
  M_globals :: "string list"
  M_functions :: "ir_function list"

text \<open>
  The build, the clock, and the compiler library: faulty_clones gives the code of the
  faulty copies of a function, one block for each original block, after the copies were
  made and the values that cross blocks were moved to the stack.
\<close>

record pass_env =
  fenv :: fault_env
  MINIX_build :: bool
  time_seed :: "32 word"
  regex_match :: "string \<Rightarrow> string \<Rightarrow> bool"
  HashString :: "string \<Rightarrow> 32 word"
  faulty_clones :: "nat \<Rightarrow> code"

definition module_env :: "pass_env \<Rightarrow> ir_module \<Rightarrow> fault_env" where
  "module_env e M = (fenv e)\<lparr>module_functions := map (\<lambda>F. (F_name F, F_intrinsic F)) (M_functions M)\<rparr>"

section \<open>Command line parsers\<close>

datatype selector_error =
    Function_expected | Separator_expected | Index_expected | Unexpected_character

text \<open>The number that atoi reads, at the width of int.\<close>

definition atoi_digits :: "string \<Rightarrow> int" where
  "atoi_digits ds = sint (of_nat (foldl (\<lambda>n d. 10 * n + (of_char d - 48)) 0 ds) :: 32 word)"

text \<open>
  The list of function and index pairs. The argument is the C string the parser walks, which ends
  before the first NUL of the option's value; the list holds, in order, the pairs that the source inserts into a set.
\<close>

function Fault_Selector_parse :: "string \<Rightarrow> selector_error + (string \<times> int) list" where
  "Fault_Selector_parse s =
     (let func = takeWhile (\<lambda>ch. ch \<noteq> CHR '':'' \<and> ch \<noteq> CHR '','') s;
          s1 = dropWhile (\<lambda>ch. ch \<noteq> CHR '':'' \<and> ch \<noteq> CHR '','') s
      in if func = [] then Inl Function_expected
         else case s1 of
                [] \<Rightarrow> Inl Separator_expected
              | ch # s2 \<Rightarrow>
                  if ch \<noteq> CHR '':'' then Inl Separator_expected
                  else
                    let index = takeWhile is_digit s2; s3 = dropWhile is_digit s2
                    in if index = [] then Inl Index_expected
                       else case s3 of
                              [] \<Rightarrow> Inr [(func, atoi_digits index)]
                            | ch # s4 \<Rightarrow>
                                if ch \<noteq> CHR '','' then Inl Unexpected_character
                                else ebind (Fault_Selector_parse s4) (\<lambda>vs. Inr ((func, atoi_digits index) # vs)))"
  by pat_completeness auto
termination
proof (relation "measure length")
  fix s func s1 ch s2 index s3 ch' s4
  assume a: "s1 = dropWhile (\<lambda>ch. ch \<noteq> CHR '':'' \<and> ch \<noteq> CHR '','') s" "s1 = ch # s2"
    "s3 = dropWhile is_digit s2" "s3 = ch' # s4"
  have "length s3 \<le> length s2" "length s1 \<le> length s" unfolding a(1,3) by (rule length_dropWhile_le)+
  then have "length s4 < length s" unfolding a(2,4) by simp
  then show "(s4, s) \<in> measure length" by simp
qed simp

declare Fault_Selector_parse.simps [simp del]

section \<open>Functions to instrument\<close>

definition is_edfi_section :: "ir_function \<Rightarrow> bool" where
  "is_edfi_section F = (F_section F = ''edfi_functions'')"

definition matchesRegex :: "pass_env \<Rightarrow> string \<Rightarrow> string list \<Rightarrow> string option" where
  "matchesRegex e relPath regexes = List.find (\<lambda>r. regex_match e r relPath) regexes"

text \<open>The position of the function in the module is compared with the two bounds.\<close>

definition can_instrument_function :: "pass_env \<Rightarrow> pass_options \<Rightarrow> ir_module \<Rightarrow> nat \<Rightarrow> bool" where
  "can_instrument_function e opt M k =
     (let F = M_functions M ! k
      in if F_blocks F = [] then False
         else if is_edfi_section F then False
         else if MINIX_build e \<and> F_name F \<in> set [''vprintf'', ''kdoprnt'', ''kprintn'', ''kputc'', ''sys_diagctl_diag''] then False
         else if FunctionNames opt \<noteq> [] \<and> F_name F \<notin> set (FunctionNames opt) then False
         else if F_name F \<in> set (SkipFunctionNames opt) then False
         else if ModuleNames opt \<noteq> [] \<and>
           (case F_relPath F of None \<Rightarrow> \<not> dsnCompat opt | Some p \<Rightarrow> matchesRegex e p (ModuleNames opt) = None) then False
         else if F_name F = ''ha_key_cmp'' then False
         else func_min opt \<le> int k \<and> int k \<le> func_max opt)"

text \<open>The blocks of the functions to instrument: number of the function, number of the block.\<close>

definition function_blocks :: "ir_module \<Rightarrow> nat \<Rightarrow> (nat \<times> nat) list" where
  "function_blocks M k = map (Pair k) [0..<length (F_blocks (M_functions M ! k))]"

definition AllBasicBlocks :: "pass_env \<Rightarrow> pass_options \<Rightarrow> ir_module \<Rightarrow> (nat \<times> nat) list" where
  "AllBasicBlocks e opt M =
     concat (map (function_blocks M) (filter (can_instrument_function e opt M) [0..<length (M_functions M)]))"

section \<open>Fault impact factors\<close>

type_synonym fif_map = "nat \<times> nat \<rightharpoonup> float32"

text \<open>Draws until a block that has no factor yet comes up: it need not return.\<close>

partial_function (option) draw_block :: "fault_env \<Rightarrow> (nat \<times> nat) list \<Rightarrow> fif_map \<Rightarrow> rng \<Rightarrow> ((nat \<times> nat) \<times> rng) option" where
  "draw_block e all m g =
     (let (r, g) = c_rand e g; bb = all ! (r mod length all)
      in if m bb \<noteq> None then draw_block e all m g else Some (bb, g))"

declare draw_block.simps [code]

text \<open>The remainder by the number of blocks traps when there are none.\<close>

primrec random_blocks :: "fault_env \<Rightarrow> (nat \<times> nat) list \<Rightarrow> float32 \<Rightarrow> nat \<Rightarrow> fif_map \<Rightarrow> rng \<Rightarrow> (fault + fif_map) option" where
  "random_blocks e all fif 0 m g = Some (Inr m)"
| "random_blocks e all fif (Suc i) m g =
     (if all = [] then Some (Inl (Panic ''division by zero''))
      else case draw_block e all m g of
             None \<Rightarrow> None
           | Some (bb, g) \<Rightarrow> random_blocks e all fif i (m(bb \<mapsto> fif)) g)"

definition insert_fif :: "float32 \<Rightarrow> nat \<times> nat \<Rightarrow> fif_map \<times> nat \<Rightarrow> fif_map \<times> nat" where
  "insert_fif fif bb = (\<lambda>(m, n). if m bb = None then (m(bb \<mapsto> fif), Suc n) else (m, n))"

definition function_fifs :: "pass_env \<Rightarrow> pass_options \<Rightarrow> ir_module \<Rightarrow> fif_map \<Rightarrow> fif_map \<times> nat" where
  "function_fifs e opt M m =
     fold (\<lambda>k mn.
       (case map_of (functions_FIF opt) (F_name (M_functions M ! k)) of
          None \<Rightarrow> mn
        | Some fif \<Rightarrow> if can_instrument_function e opt M k then fold (insert_fif fif) (function_blocks M k) mn else mn))
       [0..<length (M_functions M)] (m, 0)"

text \<open>The blocks whose instructions use a function; the order of its uses does not matter here.\<close>

definition uses_function :: "string \<Rightarrow> instruction \<Rightarrow> bool" where
  "uses_function f I = (called_function (inst_form I) = Some f \<or> Global f \<in> set (form_operands (inst_form I)))"

definition user_blocks :: "ir_module \<Rightarrow> string \<Rightarrow> (nat \<times> nat) list" where
  "user_blocks M f =
     concat (map (\<lambda>k. filter (\<lambda>(k, b). list_ex (uses_function f) (F_blocks (M_functions M ! k) ! b)) (function_blocks M k))
       [0..<length (M_functions M)])"

definition caller_fifs :: "pass_env \<Rightarrow> pass_options \<Rightarrow> ir_module \<Rightarrow> fif_map \<Rightarrow> fif_map \<times> nat" where
  "caller_fifs e opt M m =
     fold (\<lambda>F mn.
       (case map_of (functioncallers_FIF opt) (F_name F) of
          None \<Rightarrow> mn
        | Some fif \<Rightarrow> fold (\<lambda>bb mn. if can_instrument_function e opt M (fst bb) then insert_fif fif bb mn else mn)
            (user_blocks M (F_name F)) mn))
       (M_functions M) (m, 0)"

definition module_fifs :: "pass_env \<Rightarrow> pass_options \<Rightarrow> ir_module \<Rightarrow> fif_map \<Rightarrow> fif_map \<times> nat" where
  "module_fifs e opt M m =
     fold (\<lambda>k mn.
       if can_instrument_function e opt M k
       then (case F_relPath (M_functions M ! k) of
               None \<Rightarrow> mn
             | Some p \<Rightarrow>
                 (case matchesRegex e p (map fst (modules_FIF opt)) of
                    None \<Rightarrow> mn
                  | Some r \<Rightarrow> fold (insert_fif (the (map_of (modules_FIF opt) r))) (function_blocks M k) mn))
       else mn)
       [0..<length (M_functions M)] (m, 0)"

section \<open>Fault types and statistics\<close>

definition addFaultType :: "pass_options \<Rightarrow> FaultType \<Rightarrow> FaultType list \<Rightarrow> FaultType list" where
  "addFaultType opt ft fts =
     (if FaultTypeNames opt = [] then fts @ [ft]
      else if getName ft \<in> set (FaultTypeNames opt) then fts @ [ft] else fts)"

definition FaultTypes :: "pass_options \<Rightarrow> FaultType list" where
  "FaultTypes opt =
     (let compat = dsnCompat opt \<or> atcCompat opt;
          fts = addFaultType opt (if compat then SwapFault else SwapFaultV2) [];
          fts = fold (addFaultType opt) [NoLoadFault, RndLoadFault, NoStoreFault, FlipBranchFault, FlipBoolFault,
                  CorruptPointerFault, CorruptIndexFault, CorruptIntegerFault] fts;
          fts = addFaultType opt (if compat then CorruptOperatorFault else CorruptOperatorFaultV2) fts
      in if \<not> dsnCompat opt
         then fold (addFaultType opt) [StuckAtBranchFault, StuckAtLoopFault, BufferOverflowFault, MemLeakFault,
                DanglingPointerFault, NullPointerFault] fts
         else fts)"

record ft_counts =
  ft_kind :: FaultType
  num_injected :: "64 word"
  num_candidates :: "64 word"
  num_injected_total :: "64 word"
  num_candidates_total :: "64 word"
  num_injected_initializer :: "32 word list"
  num_candidates_initializer :: "32 word list"

definition new_counts :: "FaultType \<Rightarrow> ft_counts" where
  "new_counts ft = \<lparr>ft_kind = ft, num_injected = 0, num_candidates = 0, num_injected_total = 0, num_candidates_total = 0,
     num_injected_initializer = [], num_candidates_initializer = []\<rparr>"

record pass_state =
  ps_types :: "ft_counts list"
  ps_mapfile :: map_file
  ps_rng :: rng
  ps_code :: code
  fault_index :: int
  bb_index :: int
  bb_total_num_injected_initializer :: "32 word list"

definition upd_type :: "nat \<Rightarrow> (ft_counts \<Rightarrow> ft_counts) \<Rightarrow> pass_state \<Rightarrow> pass_state" where
  "upd_type i h s = s\<lparr>ps_types := (ps_types s)[i := h (ps_types s ! i)]\<rparr>"

definition on_mapfile :: "(map_file \<Rightarrow> map_file) \<Rightarrow> pass_state \<Rightarrow> pass_state" where
  "on_mapfile h s = s\<lparr>ps_mapfile := h (ps_mapfile s)\<rparr>"

section \<open>The injection loop\<close>

fun contains :: "string \<Rightarrow> string \<Rightarrow> bool" where
  "contains p [] = (p = [])"
| "contains p (ch # s) = (take (length p) (ch # s) = p \<or> contains p s)"

definition is_reload :: "instruction \<Rightarrow> bool" where
  "is_reload I = contains ''.reload'' (inst_name I)"

text \<open>
  One fault per block: the numbers of the faults that apply in the n last instructions of a
  block, from the number idx on, and the random choice of one of them.
\<close>

primrec ApplicableFaults :: "fault_env \<Rightarrow> FaultType list \<Rightarrow> code \<Rightarrow> nat \<Rightarrow> nat \<Rightarrow> int \<Rightarrow> int list" where
  "ApplicableFaults e fts c b 0 idx = []"
| "ApplicableFaults e fts c b (Suc n) idx =
     (if is_reload (at_cursor c b n) then ApplicableFaults e fts c b n idx
      else let k = length (filter (\<lambda>ft. isApplicable e ft c b n) fts)
           in map (\<lambda>i. idx + int i) [0..<k] @ ApplicableFaults e fts c b n (idx + int k))"

definition fault_index_selected :: "fault_env \<Rightarrow> pass_options \<Rightarrow> nat \<Rightarrow> pass_state \<Rightarrow> int \<times> pass_state" where
  "fault_index_selected e opt b s =
     (if \<not> oneFaultPerBlock opt then (-1, s)
      else let fs = ApplicableFaults e (map ft_kind (ps_types s)) (ps_code s) b (length (code_blocks (ps_code s) ! b)) (fault_index s)
           in if fs = [] then (-1, s)
              else let (r, g) = c_rand e (ps_rng s) in (fs ! (r mod length fs), s\<lparr>ps_rng := g\<rparr>))"

text \<open>One fault type at one instruction: is it applicable, is it chosen, and its records.\<close>

definition choose_type ::
    "fault_env \<Rightarrow> pass_options \<Rightarrow> string \<Rightarrow> float32 \<Rightarrow> int \<Rightarrow> nat \<Rightarrow> nat \<Rightarrow> FaultType \<Rightarrow> pass_state \<Rightarrow> bool \<times> rng" where
  "choose_type e opt functionName fif sel b n ft s =
     (if oneFaultPerBlock opt then (fault_index s = sel, ps_rng s)
      else if (functionName, fault_index s) \<in> set (fault_selector opt) then (True, ps_rng s)
      else isApplicableWithFIF e ft (ps_code s) b n fif (ps_rng s))"

definition candidate ::
    "fault_env \<Rightarrow> pass_options \<Rightarrow> string \<Rightarrow> float32 \<Rightarrow> int \<Rightarrow> nat \<Rightarrow> nat \<Rightarrow> nat \<Rightarrow> nat list \<times> pass_state \<Rightarrow> nat list \<times> pass_state" where
  "candidate e opt functionName fif sel b n i = (\<lambda>(chosen, s).
     let ft = ft_kind (ps_types s ! i)
     in if \<not> isApplicable e ft (ps_code s) b n then (chosen, s)
        else
          let (ok, g) = choose_type e opt functionName fif sel b n ft s;
              s = s\<lparr>ps_rng := g\<rparr>;
              s = on_mapfile (writeFaultCandidate (getName ft)) s;
              s = upd_type i (\<lambda>t. t\<lparr>num_candidates := num_candidates t + 1\<rparr>) s
          in (if ok then chosen @ [i] else chosen, s\<lparr>fault_index := fault_index s + 1\<rparr>))"

definition inject_chosen ::
    "fault_env \<Rightarrow> pass_options \<Rightarrow> nat \<Rightarrow> nat \<Rightarrow> nat list \<Rightarrow> pass_state \<Rightarrow> fault + pass_state" where
  "inject_chosen e opt b n chosen s =
     (if chosen = [] then Inr s
      else
        let (r, g) = c_rand e (ps_rng s);
            s = s\<lparr>ps_rng := g\<rparr>;
            i = chosen ! (r mod length chosen);
            ft = ft_kind (ps_types s ! i);
            inc = upd_type i (\<lambda>t. t\<lparr>num_injected := num_injected t + 1\<rparr>)
        in if statistics_only opt then Inr (inc s)
           else ebind (apply_fault e ft b n (ps_rng s) (ps_code s)) (\<lambda>(removed, g, c).
             Inr (inc (on_mapfile (writeFaultInjected (getName ft)) (s\<lparr>ps_rng := g, ps_code := c\<rparr>)))))"

definition write_instruction :: "instruction \<Rightarrow> map_file \<Rightarrow> map_file" where
  "write_instruction I =
     (case inst_dbg I of Some (file, l) \<Rightarrow> writeDInstruction file l | None \<Rightarrow> writeInstruction)"

definition inject_instruction ::
    "fault_env \<Rightarrow> pass_options \<Rightarrow> string \<Rightarrow> float32 \<Rightarrow> int \<Rightarrow> nat \<Rightarrow> nat \<Rightarrow> pass_state \<Rightarrow> fault + pass_state" where
  "inject_instruction e opt functionName fif sel b n s =
     (let I = at_cursor (ps_code s) b n
      in if is_reload I then Inr s
         else
           let s = on_mapfile (write_instruction I) s;
               (chosen, s) = fold (candidate e opt functionName fif sel b n) [0..<length (ps_types s)] ([], s)
           in inject_chosen e opt b n chosen s)"

text \<open>
  The instructions of a block from first to last: the recursion counts the instructions
  that are left, because a fault only changes the block in front of them.
\<close>

primrec inject_instructions ::
    "fault_env \<Rightarrow> pass_options \<Rightarrow> string \<Rightarrow> float32 \<Rightarrow> int \<Rightarrow> nat \<Rightarrow> nat \<Rightarrow> pass_state \<Rightarrow> fault + pass_state" where
  "inject_instructions e opt functionName fif sel b 0 s = Inr s"
| "inject_instructions e opt functionName fif sel b (Suc n) s =
     ebind (inject_instruction e opt functionName fif sel b n s) (inject_instructions e opt functionName fif sel b n)"

definition push_counts :: "ft_counts \<Rightarrow> ft_counts" where
  "push_counts t =
     t\<lparr>num_injected_initializer := num_injected_initializer t @ [ucast (num_injected t)],
       num_injected_total := num_injected_total t + num_injected t,
       num_injected := 0,
       num_candidates_initializer := num_candidates_initializer t @ [ucast (num_candidates t)],
       num_candidates_total := num_candidates_total t + num_candidates t,
       num_candidates := 0\<rparr>"

definition finish_block :: "pass_state \<Rightarrow> pass_state" where
  "finish_block s =
     (let total_num_injected = sum_list (map (\<lambda>t. ucast (num_injected t)) (ps_types s)) :: 32 word
      in s\<lparr>ps_types := map push_counts (ps_types s),
           bb_total_num_injected_initializer := bb_total_num_injected_initializer s @ [total_num_injected],
           bb_index := bb_index s + 1\<rparr>)"

definition inject_block ::
    "fault_env \<Rightarrow> pass_options \<Rightarrow> string \<Rightarrow> float32 \<Rightarrow> nat \<Rightarrow> pass_state \<Rightarrow> fault + pass_state" where
  "inject_block e opt functionName fif b s =
     (let s = on_mapfile writeBasicBlock s;
          (sel, s) = fault_index_selected e opt b s
      in ebind (inject_instructions e opt functionName fif sel b (length (code_blocks (ps_code s) ! b)) s)
           (\<lambda>s. Inr (finish_block s)))"

definition inject_function ::
    "pass_env \<Rightarrow> pass_options \<Rightarrow> ir_module \<Rightarrow> fif_map \<Rightarrow> nat \<Rightarrow> pass_state \<Rightarrow> fault + pass_state" where
  "inject_function e opt M fifs k s =
     (if \<not> can_instrument_function e opt M k then Inr s
      else
        let F = M_functions M ! k;
            s = (if rand_reseed_per_function opt
                 then s\<lparr>ps_rng := c_srand (fault_rand_seed opt XOR HashString e (F_name F))\<rparr> else s);
            s = on_mapfile (writeFunction (F_name F) (case F_relPath F of None \<Rightarrow> [] | Some p \<Rightarrow> p)) s;
            s = s\<lparr>fault_index := 0, ps_code := faulty_clones e k\<rparr>
        in efold (\<lambda>b. inject_block (module_env e M) opt (F_name F)
               (case fifs (k, b) of None \<Rightarrow> global_FIF opt | Some fif \<Rightarrow> fif) b)
             [0..<length (F_blocks F)] s)"

section \<open>The pass\<close>

datatype pass_error = Missing_variable string | Pass_fault fault

datatype pass_line =
    Line_header string
  | Line_UL string "64 word"
  | Line_ULL string "64 word"
  | Line_LD string "64 word" "64 word"

record pass_result =
  pr_map :: "byte list"
  pr_context :: edfi_context_t
  pr_output :: "pass_line list"

text \<open>The context as the runtime defines it, before the pass fills it in.\<close>

definition edfi_context_buff :: edfi_context_t where
  "edfi_context_buff = \<lparr>canary_value1 = EDFI_CANARY_VALUE, fault_fdp_count = 0, fault_time = 0, start_time = 0,
     total_faults = 0, fault_types = [], bb_num_executions = None, bb_num_faults = [], num_bbs = 0, num_fault_types = 0,
     conf = \<lparr>fault_prob_randmax = 0, min_fdp_interval = 0, faulty_bb_index = 0, min_fault_time_interval = 0,
       max_time = 0, max_faults = 0, rand_seed = 123, dflib_path = []\<rparr>,
     canary_value2 = EDFI_CANARY_VALUE\<rparr>"

definition type_stats :: "ft_counts \<Rightarrow> fault_type_stats" where
  "type_stats t = \<lparr>ft_name = getName (ft_kind t), bb_num_injected = num_injected_initializer t,
     bb_num_candidates = num_candidates_initializer t\<rparr>"

definition fill_context :: "nat \<Rightarrow> pass_state \<Rightarrow> edfi_context_t" where
  "fill_context n s =
     edfi_context_buff\<lparr>fault_types := map type_stats (ps_types s),
       bb_num_executions := Some (replicate (n + 2) 0),
       bb_num_faults := bb_total_num_injected_initializer s,
       num_bbs := of_nat n,
       num_fault_types := of_nat (length (ps_types s))\<rparr>"

definition pass_statistics ::
    "pass_options \<Rightarrow> nat \<Rightarrow> nat \<Rightarrow> nat \<Rightarrow> nat \<Rightarrow> 32 word \<Rightarrow> pass_state \<Rightarrow> pass_line list" where
  "pass_statistics opt n nf nc nm bseed s =
     [Line_header ''edfi-debug'', Line_UL ''n_basicblocks'' (of_nat n), Line_UL ''n_function_basicblocks'' (of_nat nf),
      Line_UL ''n_functioncallers_basicblocks'' (of_nat nc), Line_UL ''n_module_basicblocks'' (of_nat nm),
      Line_UL ''rand-seed'' (scast (fault_rand_seed opt)), Line_UL ''randombb-fif-seed'' (scast bseed)] @
     Line_header ''edfi-prob'' #
       map (\<lambda>t. if num_candidates_total t \<noteq> 0
                then Line_LD (getName (ft_kind t)) (num_injected_total t) (num_candidates_total t)
                else Line_LD (getName (ft_kind t)) 0 1) (ps_types s) @
     Line_header ''edfi-faults'' # map (\<lambda>t. Line_ULL (getName (ft_kind t)) (num_injected_total t)) (ps_types s) @
     Line_header ''edfi-candidates'' # map (\<lambda>t. Line_ULL (getName (ft_kind t)) (num_candidates_total t)) (ps_types s)"

definition needed_globals :: "pass_options \<Rightarrow> string list" where
  "needed_globals opt = [''edfi_context_buff'', ''edfi_faultinjection_enabled'', ''edfi_inject_bb'',
     ''edfi_faultinjection_enabled_version'', fdp_varname opt, ''edfi_onfault_p'', ''edfi_module_name'']"

text \<open>The functions in module order, from an empty map file and empty statistics.\<close>

definition inject_functions ::
    "pass_env \<Rightarrow> pass_options \<Rightarrow> ir_module \<Rightarrow> fif_map \<Rightarrow> fault + pass_state" where
  "inject_functions e opt M fifs =
     efold (inject_function e opt M fifs) [0..<length (M_functions M)]
       \<lparr>ps_types = map new_counts (FaultTypes opt), ps_mapfile = MapFile_new (M_name M),
        ps_rng = c_srand (fault_rand_seed opt), ps_code = \<lparr>code_blocks = [], code_next = 0\<rparr>,
        fault_index = 0, bb_index = 1, bb_total_num_injected_initializer = []\<rparr>"

definition instrument_module :: "pass_env \<Rightarrow> pass_options \<Rightarrow> ir_module \<Rightarrow> (pass_error + pass_result) option" where
  "instrument_module e opt M =
     (let all = AllBasicBlocks e opt M;
          bseed = (case random_BB_FIF_seed opt of None \<Rightarrow> fault_rand_seed opt | Some x \<Rightarrow> x)
      in case random_blocks (fenv e) all (snd (random_BB_FIF opt)) (fst (random_BB_FIF opt)) Map.empty (c_srand bseed) of
           None \<Rightarrow> None
         | Some (Inl f) \<Rightarrow> Some (Inl (Pass_fault f))
         | Some (Inr fifs) \<Rightarrow>
             let (fifs, nf) = function_fifs e opt M fifs;
                 (fifs, nc) = caller_fifs e opt M fifs;
                 (fifs, nm) = module_fifs e opt M fifs
             in case inject_functions e opt M fifs of
                  Inl f \<Rightarrow> Some (Inl (Pass_fault f))
                | Inr s \<Rightarrow> Some (Inr \<lparr>pr_map = mf_file (ps_mapfile s), pr_context = fill_context (length all) s,
                    pr_output = pass_statistics opt (length all) nf nc nm bseed s\<rparr>))"

text \<open>
  The whole pass: no result when it does not return, an error for a missing variable of the
  runtime, no change when the pass is skipped.
\<close>

definition runOnModule :: "pass_env \<Rightarrow> pass_options \<Rightarrow> ir_module \<Rightarrow> (pass_error + pass_result option) option" where
  "runOnModule e opt M =
     (if skip_all opt then Some (Inr None)
      else
        let opt = (if fault_rand_seed opt = 0 then opt\<lparr>fault_rand_seed := time_seed e\<rparr> else opt)
        in case List.find (\<lambda>v. v \<notin> set (M_globals M)) (needed_globals opt) of
             Some v \<Rightarrow> Some (Inl (Missing_variable v))
           | None \<Rightarrow> map_option (map_sum id Some) (instrument_module e opt M))"

end
