(* ===== verification/Instrumentation.thy ===== *)
theory Instrumentation
  imports Injector
begin

text \<open>
  What the injection pass writes: the records of the map file, the statistics of the context and
  the number of injected faults belong together, block by block.
\<close>

section \<open>Records of a block\<close>

definition cand_count :: "map_record list \<Rightarrow> nat" where
  "cand_count rs = length (filter (\<lambda>r. case r of Rec_fault_candidate nm \<Rightarrow> True | _ \<Rightarrow> False) rs)"

definition inj_count :: "map_record list \<Rightarrow> nat" where
  "inj_count rs = length (filter (\<lambda>r. case r of Rec_fault_injected nm \<Rightarrow> True | _ \<Rightarrow> False) rs)"

definition body_record :: "string set \<Rightarrow> map_record \<Rightarrow> bool" where
  "body_record P r =
     (case r of
        Rec_instruction \<Rightarrow> True
      | Rec_dinstruction p l \<Rightarrow> p \<in> P
      | Rec_fault_candidate nm \<Rightarrow> nm \<in> range getName
      | Rec_fault_injected nm \<Rightarrow> nm \<in> range getName
      | _ \<Rightarrow> False)"

lemma counts_Nil [simp]: "cand_count [] = 0" "inj_count [] = 0"
  by (simp_all add: cand_count_def inj_count_def)

lemma counts_append [simp]: "cand_count (xs @ ys) = cand_count xs + cand_count ys" "inj_count (xs @ ys) = inj_count xs + inj_count ys"
  by (simp_all add: cand_count_def inj_count_def)

lemma counts_Cons [simp]:
  "cand_count (Rec_instruction # rs) = cand_count rs" "inj_count (Rec_instruction # rs) = inj_count rs"
  "cand_count (Rec_dinstruction p l # rs) = cand_count rs" "inj_count (Rec_dinstruction p l # rs) = inj_count rs"
  "cand_count (Rec_fault_candidate nm # rs) = Suc (cand_count rs)" "inj_count (Rec_fault_candidate nm # rs) = inj_count rs"
  "cand_count (Rec_fault_injected nm # rs) = cand_count rs" "inj_count (Rec_fault_injected nm # rs) = Suc (inj_count rs)"
  by (simp_all add: cand_count_def inj_count_def)

lemma bb_run_counts:
  "faultcand_count (snd (foldl bb_step x rs)) = faultcand_count (snd x) + cand_count rs"
  "faultinj_count (snd (foldl bb_step x rs)) = faultinj_count (snd x) + inj_count rs"
  by (induction rs arbitrary: x) (auto simp: bb_step_def cand_count_def inj_count_def split: map_record.splits)

lemma bb_of_counts: "faultcand_count (bb_of rs) = cand_count rs" "faultinj_count (bb_of rs) = inj_count rs"
  by (simp_all add: bb_of_def bb_run_def bb_run_counts bb_zero_def)

lemma block_phase:
  assumes "\<forall>r \<in> set rs. body_record P r" "rs = [] \<or> (case hd rs of Rec_instruction \<Rightarrow> True | Rec_dinstruction p l \<Rightarrow> True | _ \<Rightarrow> k = 3)" "k \<in> {2, 3}"
  shows "foldl phase_step (Some k) rs \<in> {Some 2, Some 3}"
proof -
  have 3: "foldl phase_step (Some 3) qs = Some 3" if "\<forall>r \<in> set qs. body_record P r" for qs
    using that by (induction qs) (auto simp: phase_step_def body_record_def split: map_record.splits)
  show ?thesis using assms 3 [of "tl rs"]
    by (cases rs) (auto simp: phase_step_def body_record_def split: map_record.splits)
qed

section \<open>Steps of the injection loop\<close>

definition fixed_part :: "ft_counts \<Rightarrow> FaultType \<times> 32 word list \<times> 32 word list" where
  "fixed_part t = (ft_kind t, num_injected_initializer t, num_candidates_initializer t)"

abbreviation cand_sum :: "pass_state \<Rightarrow> 64 word" where
  "cand_sum s \<equiv> sum_list (map num_candidates (ps_types s))"

abbreviation inj_sum :: "pass_state \<Rightarrow> 64 word" where
  "inj_sum s \<equiv> sum_list (map num_injected (ps_types s))"

text \<open>A part of the loop that writes the records rs; st tells whether only statistics are made.\<close>

definition advances :: "bool \<Rightarrow> string set \<Rightarrow> map_record list \<Rightarrow> pass_state \<Rightarrow> pass_state \<Rightarrow> bool" where
  "advances st P rs s s' =
     (ps_mapfile s' = fold write_record rs (ps_mapfile s) \<and>
      map fixed_part (ps_types s') = map fixed_part (ps_types s) \<and>
      bb_total_num_injected_initializer s' = bb_total_num_injected_initializer s \<and>
      fault_index s' = fault_index s + int (cand_count rs) \<and>
      cand_sum s' = cand_sum s + of_nat (cand_count rs) \<and>
      (\<not> st \<longrightarrow> inj_sum s' = inj_sum s + of_nat (inj_count rs)) \<and>
      (\<forall>r \<in> set rs. body_record P r))"

lemma advances_refl: "advances st P [] s s" by (simp add: advances_def)

lemma advances_trans: "advances st P rs s t \<Longrightarrow> advances st P qs t u \<Longrightarrow> advances st P (rs @ qs) s u"
  by (auto simp: advances_def)

lemma advances_types: "advances st P rs s t \<Longrightarrow> length (ps_types t) = length (ps_types s) \<and> map ft_kind (ps_types t) = map ft_kind (ps_types s)"
proof -
  assume "advances st P rs s t"
  then have a: "map fixed_part (ps_types t) = map fixed_part (ps_types s)" by (simp add: advances_def)
  have "map fst (map fixed_part (ps_types t)) = map fst (map fixed_part (ps_types s))" by (simp only: a)
  then show ?thesis using map_eq_imp_length_eq [OF a] by (simp add: fixed_part_def comp_def)
qed

lemma sum_list_update_word:
  fixes f :: "'a \<Rightarrow> 'b :: ab_group_add"
  shows "i < length xs \<Longrightarrow> sum_list (map f (xs[i := x])) = sum_list (map f xs) - f (xs ! i) + f x"
proof (induction xs arbitrary: i)
  case (Cons a xs)
  then show ?case by (cases i) (auto simp: algebra_simps)
qed simp

lemma upd_type_advances:
  assumes "i < length (ps_types s)" "\<And>t. fixed_part (h t) = fixed_part t" "\<And>t. num_candidates (h t) = num_candidates t + dc"
    "\<And>t. num_injected (h t) = num_injected t + di"
  shows "map fixed_part (ps_types (upd_type i h s)) = map fixed_part (ps_types s)"
    "cand_sum (upd_type i h s) = cand_sum s + dc" "inj_sum (upd_type i h s) = inj_sum s + di"
    "ps_mapfile (upd_type i h s) = ps_mapfile s"
    "bb_total_num_injected_initializer (upd_type i h s) = bb_total_num_injected_initializer s"
    "ps_code (upd_type i h s) = ps_code s" "fault_index (upd_type i h s) = fault_index s"
    "ps_rng (upd_type i h s) = ps_rng s"
  using assms(1) by (simp_all add: upd_type_def sum_list_update_word assms(3,4) map_update assms(2) list_update_same_conv
      del: map_update)
    (simp add: map_update assms(2) list_update_same_conv)

lemma candidate_advances:
  assumes "i < length (ps_types s)"
  shows "\<exists>rs chosen' s'. candidate e opt f fif sel b n i (chosen, s) = (chosen', s') \<and> advances st P rs s s' \<and>
    ps_code s' = ps_code s \<and> (\<forall>r \<in> set rs. \<exists>nm. r = Rec_fault_candidate nm) \<and> set chosen' \<subseteq> insert i (set chosen)"
proof (cases "isApplicable e (ft_kind (ps_types s ! i)) (ps_code s) b n")
  case False
  then show ?thesis by (auto simp: candidate_def intro!: exI [of _ "[]"] advances_refl)
next
  case True
  obtain ok g where c: "choose_type e opt f fif sel b n (ft_kind (ps_types s ! i)) s = (ok, g)" by fastforce
  let ?nm = "getName (ft_kind (ps_types s ! i))"
  let ?s1 = "on_mapfile (writeFaultCandidate ?nm) (s\<lparr>ps_rng := g\<rparr>)"
  let ?h = "\<lambda>t. t\<lparr>num_candidates := num_candidates t + 1\<rparr>"
  let ?s2 = "upd_type i ?h ?s1"
  have i: "i < length (ps_types ?s1)" using assms by (simp add: on_mapfile_def)
  note u = upd_type_advances [OF i, of ?h 1 0]
  have "advances st P [Rec_fault_candidate ?nm] s (?s2\<lparr>fault_index := fault_index ?s2 + 1\<rparr>)"
    unfolding advances_def using u by (simp add: fixed_part_def on_mapfile_def body_record_def)
  moreover have "candidate e opt f fif sel b n i (chosen, s) =
      (if ok then chosen @ [i] else chosen, ?s2\<lparr>fault_index := fault_index ?s2 + 1\<rparr>)"
    using True c by (simp add: candidate_def Let_def)
  moreover have "ps_code ?s2 = ps_code s" using u(6) by (simp add: fixed_part_def on_mapfile_def)
  ultimately show ?thesis by (intro exI [of _ "[Rec_fault_candidate ?nm]"]) (simp, blast)
qed

lemma candidates_advance:
  assumes "\<forall>i \<in> set is. i < length (ps_types s)"
  shows "\<exists>rs chosen' s'. fold (candidate e opt f fif sel b n) is (chosen, s) = (chosen', s') \<and> advances st P rs s s' \<and>
    ps_code s' = ps_code s \<and> (\<forall>r \<in> set rs. \<exists>nm. r = Rec_fault_candidate nm) \<and> set chosen' \<subseteq> set is \<union> set chosen"
  using assms
proof (induction "is" arbitrary: chosen s)
  case Nil
  then show ?case by (auto intro!: exI [of _ "[]"] advances_refl)
next
  case (Cons i "is")
  have i: "i < length (ps_types s)" using Cons.prems by simp
  obtain rs c1 s1 where 1: "candidate e opt f fif sel b n i (chosen, s) = (c1, s1)" "advances st P rs s s1"
    "ps_code s1 = ps_code s" "\<forall>r \<in> set rs. \<exists>nm. r = Rec_fault_candidate nm" "set c1 \<subseteq> insert i (set chosen)"
    using candidate_advances [OF i, of e opt f fif sel b n chosen st P] by blast
  have "\<forall>i \<in> set is. i < length (ps_types s1)" using Cons.prems advances_types [OF 1(2)] by simp
  from Cons.IH [OF this, of c1] obtain qs c2 s2 where 2: "fold (candidate e opt f fif sel b n) is (c1, s1) = (c2, s2)"
    "advances st P qs s1 s2" "ps_code s2 = ps_code s1" "\<forall>r \<in> set qs. \<exists>nm. r = Rec_fault_candidate nm" "set c2 \<subseteq> set is \<union> set c1"
    by blast
  show ?case
    by (intro exI [of _ "rs @ qs"] exI [of _ c2] exI [of _ s2])
      (use 1 2 advances_trans [OF 1(2) 2(2)] in auto)
qed

definition starts_block :: "map_record list \<Rightarrow> bool" where
  "starts_block rs = (rs = [] \<or> (case hd rs of Rec_instruction \<Rightarrow> True | Rec_dinstruction p l \<Rightarrow> True | _ \<Rightarrow> False))"

lemma starts_block_append: "starts_block rs \<Longrightarrow> starts_block qs \<Longrightarrow> starts_block (rs @ qs)"
  by (cases rs) (simp_all add: starts_block_def)

context ir_library
begin

lemma inject_chosen_advances:
  assumes "inject_chosen e opt b n chosen s = Inr s'" "set chosen \<subseteq> {..<length (ps_types s)}"
    "shaped b (Suc n) ls P (ps_code s)"
  shows "\<exists>rs. advances (statistics_only opt) P rs s s' \<and> shaped b n ls P (ps_code s') \<and>
    (rs = [] \<or> (\<exists>nm. rs = [Rec_fault_injected nm]))"
proof (cases "chosen = []")
  case True
  then show ?thesis using assms by (auto simp: inject_chosen_def intro!: exI [of _ "[]"] advances_refl intro: shaped_mono)
next
  case False
  obtain r g where r: "c_rand e (ps_rng s) = (r, g)" by fastforce
  let ?i = "chosen ! (r mod length chosen)"
  let ?ft = "ft_kind (ps_types s ! ?i)"
  let ?h = "\<lambda>t. t\<lparr>num_injected := num_injected t + 1\<rparr>"
  have "?i \<in> set chosen" using False by simp
  then have i: "?i < length (ps_types s)" using assms(2) by blast
  have inj: "inject_chosen e opt b n chosen s =
      (if statistics_only opt then Inr (upd_type ?i ?h (s\<lparr>ps_rng := g\<rparr>))
       else ebind (apply_fault e ?ft b n g (ps_code s)) (\<lambda>(removed, g', c).
         Inr (upd_type ?i ?h (on_mapfile (writeFaultInjected (getName ?ft)) (s\<lparr>ps_rng := g, ps_rng := g', ps_code := c\<rparr>)))))"
    using False r by (simp add: inject_chosen_def Let_def)
  show ?thesis
  proof (cases "statistics_only opt")
    case True
    have i': "?i < length (ps_types (s\<lparr>ps_rng := g\<rparr>))" using i by simp
    note u = upd_type_advances [OF i', of ?h 0 1]
    have "advances True P [] s (upd_type ?i ?h (s\<lparr>ps_rng := g\<rparr>))"
      unfolding advances_def using u by (simp add: fixed_part_def)
    moreover have "shaped b n ls P (ps_code (upd_type ?i ?h (s\<lparr>ps_rng := g\<rparr>)))"
      using u(6) shaped_mono [OF assms(3), of n] by (simp add: fixed_part_def)
    ultimately show ?thesis using inj assms(1) True by auto
  next
    case False
    then obtain x g' c where ap: "apply_fault e ?ft b n g (ps_code s) = Inr (x, g', c)"
      and s': "s' = upd_type ?i ?h (on_mapfile (writeFaultInjected (getName ?ft)) (s\<lparr>ps_rng := g, ps_rng := g', ps_code := c\<rparr>))"
      using assms(1) unfolding inj if_not_P [OF False] by (auto simp: ebind_eq_Inr)
    let ?s1 = "on_mapfile (writeFaultInjected (getName ?ft)) (s\<lparr>ps_rng := g, ps_rng := g', ps_code := c\<rparr>)"
    have i': "?i < length (ps_types ?s1)" using i by (simp add: on_mapfile_def)
    note u = upd_type_advances [OF i', of ?h 0 1]
    have "advances False P [Rec_fault_injected (getName ?ft)] s s'"
      unfolding advances_def s' using u by (simp add: fixed_part_def on_mapfile_def body_record_def)
    moreover have "shaped b n ls P (ps_code s')"
      unfolding s' using u(6) shaped_apply_fault [OF assms(3) ap] by (simp add: fixed_part_def on_mapfile_def)
    ultimately show ?thesis using False by auto
  qed
qed

lemma inject_instruction_advances:
  assumes "inject_instruction e opt f fif sel b n s = Inr s'" "shaped b (Suc n) ls P (ps_code s)"
  shows "\<exists>rs. advances (statistics_only opt) P rs s s' \<and> shaped b n ls P (ps_code s') \<and> starts_block rs"
proof (cases "is_reload (at_cursor (ps_code s) b n)")
  case True
  then show ?thesis using assms
    by (auto simp: inject_instruction_def Let_def starts_block_def intro!: exI [of _ "[]"] advances_refl intro: shaped_mono)
next
  case False
  let ?I = "at_cursor (ps_code s) b n" and ?st = "statistics_only opt"
  let ?s1 = "on_mapfile (write_instruction ?I) s"
  let ?is = "[0..<length (ps_types ?s1)]"
  have in_block: "?I \<in> set (concat (code_blocks (ps_code s)))"
  proof -
    have "length (code_blocks (ps_code s) ! b) - Suc n < length (code_blocks (ps_code s) ! b)" "b < length (code_blocks (ps_code s))"
      using assms(2) by (auto simp: shaped_def)
    then show ?thesis unfolding at_cursor_def by (auto intro!: bexI [of _ "code_blocks (ps_code s) ! b"])
  qed
  have paths: "set (inst_paths ?I) \<subseteq> P"
    using assms(2) in_block unfolding shaped_paths by auto
  obtain r where r: "advances ?st P [r] s ?s1" "starts_block [r]"
  proof (cases "inst_dbg ?I")
    case None
    then have "advances ?st P [Rec_instruction] s ?s1"
      by (simp add: advances_def on_mapfile_def write_instruction_def body_record_def)
    then show thesis by (rule that) (simp add: starts_block_def)
  next
    case (Some pl)
    obtain p l where "pl = (p, l)" by fastforce
    with Some have "advances ?st P [Rec_dinstruction p l] s ?s1"
      using paths by (simp add: advances_def on_mapfile_def write_instruction_def body_record_def inst_paths_def)
    then show thesis by (rule that) (simp add: starts_block_def)
  qed
  have idx: "\<forall>i \<in> set ?is. i < length (ps_types ?s1)" by simp
  obtain cs chosen s2 where c: "fold (candidate e opt f fif sel b n) ?is ([], ?s1) = (chosen, s2)"
    "advances ?st P cs ?s1 s2" "ps_code s2 = ps_code ?s1" "set chosen \<subseteq> set ?is"
    using candidates_advance [OF idx, of e opt f fif sel b n "[]" ?st P] by auto
  have code: "ps_code s2 = ps_code s" using c(3) by (simp add: on_mapfile_def)
  have "inject_chosen e opt b n chosen s2 = Inr s'"
    using assms(1) False c(1) by (simp add: inject_instruction_def Let_def on_mapfile_def)
  moreover have "set chosen \<subseteq> {..<length (ps_types s2)}" using c(4) advances_types [OF c(2)] by auto
  moreover have "shaped b (Suc n) ls P (ps_code s2)" using assms(2) code by simp
  ultimately obtain js where "advances ?st P js s2 s'" "shaped b n ls P (ps_code s')"
    using inject_chosen_advances by blast
  then show ?thesis using advances_trans [OF r(1) advances_trans [OF c(2)]] r(2)
    by (auto simp: starts_block_def intro!: exI [of _ "[r] @ cs @ js"])
qed

lemma inject_instructions_advance:
  "inject_instructions e opt f fif sel b n s = Inr s' \<Longrightarrow> shaped b n ls P (ps_code s) \<Longrightarrow>
   \<exists>rs. advances (statistics_only opt) P rs s s' \<and> shaped b 0 ls P (ps_code s') \<and> starts_block rs"
proof (induction n arbitrary: s)
  case 0
  then show ?case by (auto simp: starts_block_def intro!: exI [of _ "[]"] advances_refl)
next
  case (Suc n)
  obtain t where t: "inject_instruction e opt f fif sel b n s = Inr t" "inject_instructions e opt f fif sel b n t = Inr s'"
    using Suc.prems(1) by (auto simp: ebind_eq_Inr)
  obtain rs where 1: "advances (statistics_only opt) P rs s t" "shaped b n ls P (ps_code t)" "starts_block rs"
    using inject_instruction_advances [OF t(1) Suc.prems(2)] by blast
  obtain qs where "advances (statistics_only opt) P qs t s'" "shaped b 0 ls P (ps_code s')" "starts_block qs"
    using Suc.IH [OF t(2) 1(2)] by blast
  then show ?case using 1 advances_trans starts_block_append by blast
qed

end

section \<open>One fault per block\<close>

definition applies :: "fault_env \<Rightarrow> nat \<Rightarrow> nat \<Rightarrow> pass_state \<Rightarrow> nat \<Rightarrow> bool" where
  "applies e b n s i = isApplicable e (ft_kind (ps_types s ! i)) (ps_code s) b n"

definition hit :: "int \<Rightarrow> int \<Rightarrow> nat \<Rightarrow> nat" where
  "hit sel idx k = (if idx \<le> sel \<and> sel < idx + int k then 1 else 0)"

lemma candidate_one:
  assumes "oneFaultPerBlock opt" "i < length (ps_types s)" "candidate e opt f fif sel b n i (chosen, s) = (chosen', s')"
  shows "fault_index s' = fault_index s + (if applies e b n s i then 1 else 0)"
    "length chosen' = length chosen + hit sel (fault_index s) (if applies e b n s i then 1 else 0)"
    "map ft_kind (ps_types s') = map ft_kind (ps_types s)" "ps_code s' = ps_code s" "inj_sum s' = inj_sum s"
proof -
  let ?nm = "getName (ft_kind (ps_types s ! i))"
  let ?s1 = "on_mapfile (writeFaultCandidate ?nm) s"
  let ?h = "\<lambda>t. t\<lparr>num_candidates := num_candidates t + 1\<rparr>"
  have i: "i < length (ps_types ?s1)" using assms(2) by (simp add: on_mapfile_def)
  note u = upd_type_advances [OF i, of ?h 1 0]
  have "map fst (map fixed_part (ps_types (upd_type i ?h ?s1))) = map fst (map fixed_part (ps_types ?s1))"
    using u(1) by (simp add: fixed_part_def)
  then have kinds: "map ft_kind (ps_types (upd_type i ?h ?s1)) = map ft_kind (ps_types s)"
    by (simp add: fixed_part_def comp_def on_mapfile_def)
  have c: "candidate e opt f fif sel b n i (chosen, s) =
      (if applies e b n s i
       then (if fault_index s = sel then chosen @ [i] else chosen, (upd_type i ?h ?s1)\<lparr>fault_index := fault_index s + 1\<rparr>)
       else (chosen, s))"
    using assms(1) u(7) by (simp add: candidate_def choose_type_def applies_def Let_def fixed_part_def on_mapfile_def upd_type_def)
  show "fault_index s' = fault_index s + (if applies e b n s i then 1 else 0)"
    "length chosen' = length chosen + hit sel (fault_index s) (if applies e b n s i then 1 else 0)"
    "map ft_kind (ps_types s') = map ft_kind (ps_types s)" "ps_code s' = ps_code s" "inj_sum s' = inj_sum s"
    using assms(3) kinds u(3,6) unfolding c by (auto simp: hit_def fixed_part_def on_mapfile_def split: if_splits)
qed

lemma inject_chosen_one:
  assumes "inject_chosen e opt b n [i] s = Inr s'" "i < length (ps_types s)"
  shows "fault_index s' = fault_index s" "inj_sum s' = inj_sum s + 1" "map ft_kind (ps_types s') = map ft_kind (ps_types s)"
proof -
  let ?h = "\<lambda>t. t\<lparr>num_injected := num_injected t + 1\<rparr>"
  obtain t where t: "s' = upd_type i ?h t" "ps_types t = ps_types s" "fault_index t = fault_index s"
    using assms(1) by (auto simp: inject_chosen_def Let_def on_mapfile_def ebind_eq_Inr split: if_splits prod.splits)
  have i: "i < length (ps_types t)" using assms(2) t(2) by simp
  note u = upd_type_advances [OF i, of ?h 0 1]
  show "fault_index s' = fault_index s" "inj_sum s' = inj_sum s + 1" using u(3,7) t by (simp_all add: fixed_part_def)
  have "map fst (map fixed_part (ps_types (upd_type i ?h t))) = map fst (map fixed_part (ps_types t))"
    using u(1) by (simp add: fixed_part_def)
  then show "map ft_kind (ps_types s') = map ft_kind (ps_types s)" using t by (simp add: fixed_part_def comp_def)
qed

lemma applies_cong: "map ft_kind (ps_types t) = map ft_kind (ps_types s) \<Longrightarrow> ps_code t = ps_code s \<Longrightarrow>
  i < length (ps_types s) \<Longrightarrow> applies e b n t i = applies e b n s i"
  unfolding applies_def by (metis length_map nth_map)

lemma candidates_one:
  assumes "oneFaultPerBlock opt" "\<forall>i \<in> set is. i < length (ps_types s)"
    "fold (candidate e opt f fif sel b n) is (chosen, s) = (chosen', s')"
  shows "fault_index s' = fault_index s + int (length (filter (applies e b n s) is)) \<and>
    length chosen' = length chosen + hit sel (fault_index s) (length (filter (applies e b n s) is)) \<and>
    map ft_kind (ps_types s') = map ft_kind (ps_types s) \<and> ps_code s' = ps_code s \<and> inj_sum s' = inj_sum s"
  using assms(2,3)
proof (induction "is" arbitrary: chosen s)
  case Nil
  then show ?case by (simp add: hit_def)
next
  case (Cons i "is")
  obtain c1 s1 where 1: "candidate e opt f fif sel b n i (chosen, s) = (c1, s1)" by fastforce
  have i: "i < length (ps_types s)" using Cons.prems(1) by simp
  note c = candidate_one [OF assms(1) i 1]
  have len: "length (ps_types s1) = length (ps_types s)" using map_eq_imp_length_eq [OF c(3)] .
  have "filter (applies e b n s1) is = filter (applies e b n s) is"
    by (rule filter_cong [OF refl]) (use applies_cong [OF c(3,4)] Cons.prems(1) in simp)
  then show ?case using Cons.IH [of s1 c1] Cons.prems 1 c len by (auto simp: hit_def split: if_splits)
qed

lemma applies_count:
  "length (filter (applies e b n s) [0..<length (ps_types s)]) =
   length (filter (\<lambda>ft. isApplicable e ft (ps_code s) b n) (map ft_kind (ps_types s)))"
proof -
  have "map ft_kind (ps_types s) = map (\<lambda>i. ft_kind (ps_types s ! i)) [0..<length (ps_types s)]"
    by (rule nth_equalityI) simp_all
  then show ?thesis by (simp add: filter_map comp_def applies_def [abs_def])
qed

text \<open>One instruction: how many faults apply, and whether the selected one is among them.\<close>

lemma instruction_one:
  assumes "oneFaultPerBlock opt" "inject_instruction e opt f fif sel b n s = Inr s'"
  defines "k \<equiv> if is_reload (at_cursor (ps_code s) b n) then 0
    else length (filter (\<lambda>ft. isApplicable e ft (ps_code s) b n) (map ft_kind (ps_types s)))"
  shows "fault_index s' = fault_index s + int k" "inj_sum s' = inj_sum s + of_nat (hit sel (fault_index s) k)"
    "map ft_kind (ps_types s') = map ft_kind (ps_types s)"
    "hit sel (fault_index s) k = 0 \<Longrightarrow> ps_code s' = ps_code s"
proof -
  have "fault_index s' = fault_index s + int k \<and> inj_sum s' = inj_sum s + of_nat (hit sel (fault_index s) k) \<and>
    map ft_kind (ps_types s') = map ft_kind (ps_types s) \<and> (hit sel (fault_index s) k = 0 \<longrightarrow> ps_code s' = ps_code s)"
  proof (cases "is_reload (at_cursor (ps_code s) b n)")
    case True
    then show ?thesis using assms by (simp add: inject_instruction_def hit_def Let_def)
  next
    case False
    let ?s1 = "on_mapfile (write_instruction (at_cursor (ps_code s) b n)) s"
    obtain chosen s2 where c: "fold (candidate e opt f fif sel b n) [0..<length (ps_types ?s1)] ([], ?s1) = (chosen, s2)" by fastforce
    have run: "inject_chosen e opt b n chosen s2 = Inr s'"
      using assms(2) False c by (simp add: inject_instruction_def Let_def on_mapfile_def)
    have k: "length (filter (applies e b n ?s1) [0..<length (ps_types ?s1)]) = k"
      unfolding applies_count using False by (simp add: k_def on_mapfile_def)
    note one = candidates_one [OF assms(1) _ c, unfolded k]
    have s2: "fault_index s2 = fault_index s + int k" "length chosen = hit sel (fault_index s) k"
      "map ft_kind (ps_types s2) = map ft_kind (ps_types s)" "ps_code s2 = ps_code s" "inj_sum s2 = inj_sum s"
      using one by (auto simp: on_mapfile_def)
    show ?thesis
    proof (cases "chosen = []")
      case True
      then show ?thesis using run s2 by (auto simp: inject_chosen_def)
    next
      case False
      then have "length chosen = 1" using s2(2) by (simp add: hit_def split: if_splits)
      moreover have "set chosen \<subseteq> {..<length (ps_types ?s1)}"
        using candidates_advance [of "[0..<length (ps_types ?s1)]" ?s1 e opt f fif sel b n "[]" True UNIV] c by auto
      ultimately obtain i where i: "chosen = [i]" "i < length (ps_types s2)"
        using map_eq_imp_length_eq [OF s2(3)] by (cases chosen) (auto simp: on_mapfile_def)
      have h: "hit sel (fault_index s) k = 1" using s2(2) i(1) by simp
      show ?thesis using inject_chosen_one [OF run [unfolded i(1)] i(2)] s2(1,3,5) by (simp add: h)
    qed
  qed
  then show "fault_index s' = fault_index s + int k" "inj_sum s' = inj_sum s + of_nat (hit sel (fault_index s) k)"
    "map ft_kind (ps_types s') = map ft_kind (ps_types s)"
    "hit sel (fault_index s) k = 0 \<Longrightarrow> ps_code s' = ps_code s" by blast+
qed

lemma selected_fields:
  assumes "fault_index_selected e opt b s = (sel, s')"
  shows "ps_types s' = ps_types s" "ps_mapfile s' = ps_mapfile s" "ps_code s' = ps_code s" "fault_index s' = fault_index s"
    "bb_total_num_injected_initializer s' = bb_total_num_injected_initializer s"
  using assms by (auto simp: fault_index_selected_def Let_def split: if_splits prod.splits)

text \<open>Before the selected fault nothing changes the code, behind it nothing is injected.\<close>

lemma instructions_one:
  assumes "oneFaultPerBlock opt"
  shows "inject_instructions e opt f fif sel b n s = Inr s' \<Longrightarrow>
    (sel < fault_index s \<longrightarrow> inj_sum s' = inj_sum s) \<and>
    (ApplicableFaults e (map ft_kind (ps_types s)) (ps_code s) b n (fault_index s) = [] \<and> sel < fault_index s \<longrightarrow>
       fault_index s' = fault_index s) \<and>
    (sel \<in> set (ApplicableFaults e (map ft_kind (ps_types s)) (ps_code s) b n (fault_index s)) \<longrightarrow>
       inj_sum s' = inj_sum s + 1 \<and> fault_index s < fault_index s') \<and> fault_index s \<le> fault_index s'"
proof (induction n arbitrary: s)
  case 0
  then show ?case by simp
next
  case (Suc n)
  obtain t where t: "inject_instruction e opt f fif sel b n s = Inr t" "inject_instructions e opt f fif sel b n t = Inr s'"
    using Suc.prems by (auto simp: ebind_eq_Inr)
  define k where "k = (if is_reload (at_cursor (ps_code s) b n) then 0
    else length (filter (\<lambda>ft. isApplicable e ft (ps_code s) b n) (map ft_kind (ps_types s))))"
  note one = instruction_one [OF assms t(1), folded k_def]
  note IH = Suc.IH [OF t(2), unfolded one(1,3)]
  have list: "ApplicableFaults e (map ft_kind (ps_types s)) (ps_code s) b (Suc n) (fault_index s) =
      map (\<lambda>i. fault_index s + int i) [0..<k] @
      ApplicableFaults e (map ft_kind (ps_types s)) (ps_code s) b n (fault_index s + int k)"
    by (simp add: k_def Let_def)
  have above: "idx \<le> x" if "x \<in> set (ApplicableFaults e' fts c b' m idx)" for e' fts c b' m idx x
    using that
  proof (induction m arbitrary: idx)
    case (Suc m)
    then show ?case by (fastforce simp: Let_def split: if_splits)
  qed simp
  show ?case
  proof (cases "hit sel (fault_index s) k = 0")
    case True
    then have code: "ps_code t = ps_code s" by (rule one(4))
    have "sel \<notin> (\<lambda>i. fault_index s + int i) ` {..<k}" using True by (auto simp: hit_def split: if_splits)
    then show ?thesis using IH one(1,2) True unfolding list code by (auto simp: atLeast0LessThan)
  next
    case False
    then have "fault_index s \<le> sel" "sel < fault_index s + int k" "hit sel (fault_index s) k = 1"
      by (auto simp: hit_def split: if_splits)
    then show ?thesis using IH one(1,2) unfolding list by auto
  qed
qed

lemma block_one:
  assumes "oneFaultPerBlock opt" "fault_index_selected e opt b s = (sel, s2)" "0 \<le> fault_index s"
    "inject_instructions e opt f fif sel b (length (code_blocks (ps_code s2) ! b)) s2 = Inr t"
  shows "inj_sum t = inj_sum s + (if fault_index t = fault_index s then 0 else 1)"
proof -
  let ?fs = "ApplicableFaults e (map ft_kind (ps_types s)) (ps_code s) b (length (code_blocks (ps_code s) ! b)) (fault_index s)"
  note s2 = selected_fields [OF assms(2)]
  note one = instructions_one [OF assms(1,4), unfolded s2]
  show ?thesis
  proof (cases "?fs = []")
    case True
    then have "sel = -1" using assms(1,2) by (simp add: fault_index_selected_def)
    then show ?thesis using one True assms(3) by simp
  next
    case False
    then have "sel \<in> set ?fs"
      using assms(1,2) by (auto simp: fault_index_selected_def Let_def split: prod.splits)
    then show ?thesis using one by auto
  qed
qed

section \<open>Blocks of the map file\<close>

definition blocks_of :: "map_record list \<Rightarrow> map_record list list" where
  "blocks_of rs = concat (map (\<lambda>f. snd (snd f)) (parse rs))"

lemma parse_body:
  "parse rs = fs @ [(nm, p, bs @ [blk])] \<Longrightarrow> \<forall>r \<in> set qs. body_record P r \<Longrightarrow> parse (rs @ qs) = fs @ [(nm, p, bs @ [blk @ qs])]"
proof (induction qs rule: rev_induct)
  case (snoc r qs)
  then have IH: "parse (rs @ qs) = fs @ [(nm, p, bs @ [blk @ qs])]" by simp
  have "parse (rs @ qs @ [r]) = parse_step (parse (rs @ qs)) r" using parse_snoc [of "rs @ qs" r] by simp
  then show ?case using snoc.prems(2) unfolding IH
    by (cases r) (auto simp: parse_step_def body_record_def)
qed simp

lemma parse_block:
  assumes "parse rs = fs @ [(nm, p, bs)]" "\<forall>r \<in> set blk. body_record P r"
  shows "parse (rs @ Rec_basic_block # blk) = fs @ [(nm, p, bs @ [blk])]"
proof -
  have "parse (rs @ [Rec_basic_block]) = fs @ [(nm, p, bs @ [[]])]" by (simp add: parse_snoc assms(1) parse_step_def)
  from parse_body [OF this assms(2)] show ?thesis by simp
qed

lemma blocks_of_block:
  assumes "parse rs = fs @ [(nm, p, bs)]" "\<forall>r \<in> set blk. body_record P r"
  shows "blocks_of (rs @ Rec_basic_block # blk) = blocks_of rs @ [blk]"
  by (simp add: blocks_of_def parse_block [OF assms] assms(1))

lemma phase_append: "phase (rs @ qs) = foldl phase_step (phase rs) qs" by (simp add: phase_def)

lemma phase_block:
  assumes "phase rs = Some k" "1 \<le> k" "\<forall>r \<in> set blk. body_record P r" "starts_block blk"
  shows "phase (rs @ Rec_basic_block # blk) \<in> {Some 2, Some 3}"
proof -
  have "phase (rs @ Rec_basic_block # blk) = foldl phase_step (Some 2) blk"
    using assms(1,2) by (simp add: phase_append phase_step_def)
  moreover have "foldl phase_step (Some 2) blk \<in> {Some 2, Some 3}"
    by (rule block_phase [OF assms(3)]) (use assms(4) in \<open>auto simp: starts_block_def split: map_record.splits\<close>)
  ultimately show ?thesis by simp
qed

section \<open>The invariant of the pass\<close>

definition record_ok :: "string set \<Rightarrow> string set \<Rightarrow> map_record \<Rightarrow> bool" where
  "record_ok NS P r =
     (case r of Rec_function nm p \<Rightarrow> nm \<in> NS \<and> p \<in> P | Rec_basic_block \<Rightarrow> True | _ \<Rightarrow> body_record P r)"

definition columns_ok :: "pass_options \<Rightarrow> map_record list list \<Rightarrow> pass_state \<Rightarrow> bool" where
  "columns_ok opt blks s =
     (length (bb_total_num_injected_initializer s) = length blks \<and>
      (\<forall>t \<in> set (ps_types s). length (num_candidates_initializer t) = length blks \<and> length (num_injected_initializer t) = length blks) \<and>
      (\<forall>x < length blks.
         sum_list (map (\<lambda>t. num_candidates_initializer t ! x) (ps_types s)) = of_nat (cand_count (blks ! x)) \<and>
         bb_total_num_injected_initializer s ! x = sum_list (map (\<lambda>t. num_injected_initializer t ! x) (ps_types s)) \<and>
         (\<not> statistics_only opt \<longrightarrow> bb_total_num_injected_initializer s ! x = of_nat (inj_count (blks ! x))) \<and>
         (oneFaultPerBlock opt \<longrightarrow> bb_total_num_injected_initializer s ! x = of_nat (min 1 (cand_count (blks ! x))))))"

definition pass_inv :: "pass_options \<Rightarrow> FaultType list \<Rightarrow> string set \<Rightarrow> string set \<Rightarrow> string \<Rightarrow> map_record list \<Rightarrow> pass_state \<Rightarrow> bool" where
  "pass_inv opt fts NS P nm rs s =
     (ps_mapfile s = fold write_record rs (MapFile_new nm) \<and> map ft_kind (ps_types s) = fts \<and>
      (\<forall>t \<in> set (ps_types s). num_candidates t = 0 \<and> num_injected t = 0) \<and>
      columns_ok opt (blocks_of rs) s \<and> 0 \<le> fault_index s \<and> (\<forall>r \<in> set rs. record_ok NS P r) \<and> phase rs \<noteq> None)"

lemma ucast_add_64_32: "(ucast (x + y :: 64 word) :: 32 word) = ucast x + ucast y"
proof -
  have "(word_of_int (uint (x + y)) :: 32 word) = word_of_int (uint x + uint y)"
    unfolding word_of_int_eq_iff uint_word_ariths(1) by (simp add: take_bit_eq_mod mod_mod_cancel)
  also have "\<dots> = word_of_int (uint x) + word_of_int (uint y)" by (rule of_int_add)
  finally show ?thesis unfolding ucast_eq .
qed

lemma ucast_sum_64_32: "(sum_list (map (\<lambda>t. ucast (f t :: 64 word)) ts) :: 32 word) = ucast (sum_list (map f ts))"
  by (induction ts) (simp_all add: ucast_add_64_32)

lemma ucast_of_nat_64_32: "(ucast (of_nat n :: 64 word) :: 32 word) = of_nat n"
  by (induction n) (simp_all add: ucast_add_64_32)

lemma types_columns:
  assumes "map fixed_part ts' = map fixed_part ts"
  shows "map (\<lambda>t. num_candidates_initializer t ! x) ts' = map (\<lambda>t. num_candidates_initializer t ! x) ts"
    "map (\<lambda>t. num_injected_initializer t ! x) ts' = map (\<lambda>t. num_injected_initializer t ! x) ts"
    "(\<forall>t \<in> set ts'. length (num_candidates_initializer t) = k \<and> length (num_injected_initializer t) = k) \<longleftrightarrow>
     (\<forall>t \<in> set ts. length (num_candidates_initializer t) = k \<and> length (num_injected_initializer t) = k)"
proof -
  have "map g (map fixed_part ts') = map g (map fixed_part ts)" for g :: "_ \<Rightarrow> 'b" using assms by simp
  from this [of "\<lambda>(k, i, c). c ! x"] this [of "\<lambda>(k, i, c). i ! x"]
  show "map (\<lambda>t. num_candidates_initializer t ! x) ts' = map (\<lambda>t. num_candidates_initializer t ! x) ts"
    "map (\<lambda>t. num_injected_initializer t ! x) ts' = map (\<lambda>t. num_injected_initializer t ! x) ts"
    by (simp_all add: fixed_part_def comp_def)
  have "fixed_part ` set ts' = fixed_part ` set ts" using arg_cong [OF assms, of set] by simp
  then have "(\<forall>x \<in> fixed_part ` set ts'. length (fst (snd x)) = k \<and> length (snd (snd x)) = k) \<longleftrightarrow>
      (\<forall>x \<in> fixed_part ` set ts. length (fst (snd x)) = k \<and> length (snd (snd x)) = k)" by simp
  then show "(\<forall>t \<in> set ts'. length (num_candidates_initializer t) = k \<and> length (num_injected_initializer t) = k) \<longleftrightarrow>
     (\<forall>t \<in> set ts. length (num_candidates_initializer t) = k \<and> length (num_injected_initializer t) = k)"
    by (auto simp: fixed_part_def)
qed

lemma finish_block_columns:
  assumes "columns_ok opt blks s" "advances (statistics_only opt) P blk s t" "cand_sum s = 0" "inj_sum s = 0"
    "oneFaultPerBlock opt \<Longrightarrow> inj_sum t = of_nat (min 1 (cand_count blk))"
  shows "columns_ok opt (blks @ [blk]) (finish_block t)"
proof -
  let ?N = "length blks" and ?ts = "ps_types t"
  have fp: "map fixed_part ?ts = map fixed_part (ps_types s)" and tot: "bb_total_num_injected_initializer t = bb_total_num_injected_initializer s"
    using assms(2) by (simp_all add: advances_def)
  have len: "\<forall>t \<in> set ?ts. length (num_candidates_initializer t) = ?N \<and> length (num_injected_initializer t) = ?N"
    using assms(1) unfolding types_columns(3) [OF fp] by (simp add: columns_ok_def)
  have cs: "cand_sum t = of_nat (cand_count blk)" and js: "\<not> statistics_only opt \<Longrightarrow> inj_sum t = of_nat (inj_count blk)"
    using assms(2-4) by (simp_all add: advances_def)
  have one: "sum_list (map (\<lambda>t. ucast (num_injected t)) ?ts) = (of_nat (min 1 (cand_count blk)) :: 32 word)" if "oneFaultPerBlock opt"
    unfolding ucast_sum_64_32 assms(5) [OF that] by (rule ucast_of_nat_64_32)
  have old: "map (\<lambda>t. num_candidates_initializer t ! x) (map push_counts ?ts) = map (\<lambda>t. num_candidates_initializer t ! x) ?ts"
    "map (\<lambda>t. num_injected_initializer t ! x) (map push_counts ?ts) = map (\<lambda>t. num_injected_initializer t ! x) ?ts" if "x < ?N" for x
    using len that by (auto simp: push_counts_def nth_append)
  have new: "map (\<lambda>t. num_candidates_initializer t ! ?N) (map push_counts ?ts) = map (\<lambda>t. ucast (num_candidates t)) ?ts"
    "map (\<lambda>t. num_injected_initializer t ! ?N) (map push_counts ?ts) = map (\<lambda>t. ucast (num_injected t)) ?ts"
    using len by (auto simp: push_counts_def nth_append)
  have "sum_list (map (\<lambda>t. ucast (num_candidates t)) ?ts) = (of_nat (cand_count blk) :: 32 word)"
    unfolding ucast_sum_64_32 cs by (rule ucast_of_nat_64_32)
  moreover have "sum_list (map (\<lambda>t. ucast (num_injected t)) ?ts) = (of_nat (inj_count blk) :: 32 word)" if "\<not> statistics_only opt"
    unfolding ucast_sum_64_32 js [OF that] by (rule ucast_of_nat_64_32)
  moreover have "ps_types (finish_block t) = map push_counts ?ts" "bb_total_num_injected_initializer (finish_block t) =
      bb_total_num_injected_initializer s @ [sum_list (map (\<lambda>t. ucast (num_injected t)) ?ts)]"
    by (simp_all add: finish_block_def tot Let_def)
  moreover have "length (bb_total_num_injected_initializer s) = ?N" using assms(1) by (simp add: columns_ok_def)
  moreover have "length (num_candidates_initializer (push_counts x)) = Suc ?N \<and> length (num_injected_initializer (push_counts x)) = Suc ?N"
    if "x \<in> set ?ts" for x using len that by (simp add: push_counts_def)
  ultimately show ?thesis
    using assms(1) one unfolding columns_ok_def
    by (simp add: less_Suc_eq all_conj_distrib nth_append del: map_map cong: conj_cong)
      (auto simp only: old new types_columns(1,2) [OF fp] nth_append length_map list.set_map image_iff simp_thms split: if_splits)
qed

definition code_ok :: "string set \<Rightarrow> nat \<Rightarrow> code \<Rightarrow> bool" where
  "code_ok P nb c = (length (code_blocks c) = nb \<and> set (code_paths c) \<subseteq> P)"

lemma shaped_start: "code_ok P nb c \<Longrightarrow> b < nb \<Longrightarrow> shaped b (length (code_blocks c ! b)) (map length (code_blocks c)) P c"
  by (simp add: code_ok_def shaped_def)

lemma shaped_end: "shaped b m ls P c \<Longrightarrow> code_ok P (length ls) c"
  by (simp add: code_ok_def shaped_def)

lemma sum_list_0: "(\<forall>x \<in> set xs. f x = 0) \<Longrightarrow> sum_list (map f xs) = (0 :: 'b :: monoid_add)"
  by (induction xs) simp_all

text \<open>What a block adds: its records to the map file and a column to the statistics.\<close>

lemma inject_block_inv:
  assumes lib: "ir_library e" and inv: "pass_inv opt fts NS P nm rs s" and code: "code_ok P nb (ps_code s)" "b < nb"
    and parse: "parse rs = fs @ [(n, p, bs)]" and run: "inject_block e opt f fif b s = Inr s'"
  shows "\<exists>blk. pass_inv opt fts NS P nm (rs @ Rec_basic_block # blk) s' \<and>
    parse (rs @ Rec_basic_block # blk) = fs @ [(n, p, bs @ [blk])] \<and> code_ok P nb (ps_code s')"
proof -
  let ?st = "statistics_only opt"
  let ?s1 = "on_mapfile writeBasicBlock s"
  obtain sel s2 where sel: "fault_index_selected e opt b ?s1 = (sel, s2)" by fastforce
  note s2 = selected_fields [OF sel]
  have f1: "ps_types s2 = ps_types s" "ps_code s2 = ps_code s" "ps_mapfile s2 = write_record Rec_basic_block (ps_mapfile s)"
    "bb_total_num_injected_initializer s2 = bb_total_num_injected_initializer s"
    using s2 by (simp_all add: on_mapfile_def)
  obtain t where t: "inject_instructions e opt f fif sel b (length (code_blocks (ps_code s2) ! b)) s2 = Inr t" "s' = finish_block t"
    using run sel by (auto simp: inject_block_def Let_def ebind_eq_Inr)
  have "shaped b (length (code_blocks (ps_code s2) ! b)) (map length (code_blocks (ps_code s2))) P (ps_code s2)"
    unfolding f1 by (rule shaped_start [OF code])
  from ir_library.inject_instructions_advance [OF lib t(1) this] obtain blk where blk: "advances ?st P blk s2 t"
    "shaped b 0 (map length (code_blocks (ps_code s2))) P (ps_code t)" "starts_block blk" by blast
  have body: "\<forall>r \<in> set blk. body_record P r" using blk(1) by (simp add: advances_def)
  have zero: "cand_sum s2 = 0" "inj_sum s2 = 0"
    unfolding f1 by (intro sum_list_0; use inv in \<open>simp add: pass_inv_def\<close>)+
  have "columns_ok opt (blocks_of rs) s" using inv by (simp add: pass_inv_def)
  then have "columns_ok opt (blocks_of rs) s2" unfolding columns_ok_def f1 .
  moreover have "inj_sum t = of_nat (min 1 (cand_count blk))" if "oneFaultPerBlock opt"
  proof -
    have "0 \<le> fault_index ?s1" using inv by (simp add: pass_inv_def on_mapfile_def)
    from block_one [OF that sel this t(1)] show ?thesis
      using blk(1) zero(2) s2 by (auto simp: advances_def)
  qed
  ultimately have cols: "columns_ok opt (blocks_of rs @ [blk]) s'" using finish_block_columns [OF _ blk(1) zero] by (simp add: t(2))
  obtain k where k: "phase rs = Some k" using inv by (auto simp: pass_inv_def)
  have "1 \<le> k" using phase_parse [OF k] parse by (auto split: if_splits)
  then have ph: "phase (rs @ Rec_basic_block # blk) \<noteq> None" using phase_block [OF k _ body blk(3)] by auto
  have fields: "ps_types s' = map push_counts (ps_types t)" "ps_mapfile s' = ps_mapfile t" "ps_code s' = ps_code t" "fault_index s' = fault_index t"
    unfolding t(2) by (simp_all add: finish_block_def Let_def)
  have "map ft_kind (ps_types s') = fts"
    using advances_types [OF blk(1)] inv by (simp add: fields(1) f1 pass_inv_def push_counts_def comp_def)
  moreover have "ps_mapfile s' = fold write_record (rs @ Rec_basic_block # blk) (MapFile_new nm)"
    using blk(1) inv by (simp add: fields(2) advances_def f1 pass_inv_def)
  moreover have "record_ok NS P r" if "r \<in> set blk" for r
    using body that by (auto simp: record_ok_def body_record_def split: map_record.splits)
  ultimately have "pass_inv opt fts NS P nm (rs @ Rec_basic_block # blk) s'"
    using inv cols ph blk(1) s2(4)
    by (auto simp: pass_inv_def blocks_of_block [OF parse body] fields(1,4) push_counts_def record_ok_def advances_def on_mapfile_def)
  moreover have "code_ok P nb (ps_code s')"
    using shaped_end [OF blk(2)] code(1) by (simp add: fields(3) f1 code_ok_def)
  ultimately show ?thesis using parse_block [OF parse body] by blast
qed

lemma inject_blocks_inv:
  assumes lib: "ir_library e" and "pass_inv opt fts NS P nm rs s" "code_ok P nb (ps_code s)" "\<forall>b \<in> set is. b < nb"
    "parse rs = fs @ [(n, p, bs)]" "efold (\<lambda>b. inject_block e opt f (fif b) b) is s = Inr s'"
  shows "\<exists>qs cs. pass_inv opt fts NS P nm (rs @ qs) s' \<and>
    parse (rs @ qs) = fs @ [(n, p, bs @ cs)] \<and> length cs = length is"
  using assms(2-)
proof (induction "is" arbitrary: rs s bs)
  case Nil
  then show ?case by (intro exI [of _ "[]"]) simp
next
  case (Cons b "is")
  obtain t where t: "inject_block e opt f (fif b) b s = Inr t" "efold (\<lambda>b. inject_block e opt f (fif b) b) is t = Inr s'"
    using Cons.prems(5) by (auto simp: ebind_eq_Inr)
  have b: "b < nb" using Cons.prems(3) by simp
  obtain blk where blk: "pass_inv opt fts NS P nm (rs @ Rec_basic_block # blk) t"
    "parse (rs @ Rec_basic_block # blk) = fs @ [(n, p, bs @ [blk])]" "code_ok P nb (ps_code t)"
    using inject_block_inv [OF lib Cons.prems(1,2) b Cons.prems(4) t(1)] by blast
  obtain qs cs where "pass_inv opt fts NS P nm ((rs @ Rec_basic_block # blk) @ qs) s'"
    "parse ((rs @ Rec_basic_block # blk) @ qs) = fs @ [(n, p, (bs @ [blk]) @ cs)]" "length cs = length is"
    using Cons.IH [OF blk(1) blk(3) _ blk(2) t(2)] Cons.prems(3) by auto
  then show ?case by (intro exI [of _ "Rec_basic_block # blk @ qs"] exI [of _ "blk # cs"]) simp
qed

section \<open>Functions and the whole pass\<close>

definition rel_path :: "ir_function \<Rightarrow> string" where
  "rel_path F = (case F_relPath F of None \<Rightarrow> [] | Some p \<Rightarrow> p)"

text \<open>
  The laws of the compiler library, the names and paths that the pass can write, and that the
  faulty copies have as many blocks as the function.
\<close>

definition clones_ok :: "pass_env \<Rightarrow> ir_module \<Rightarrow> string set \<Rightarrow> string set \<Rightarrow> bool" where
  "clones_ok e M NS P =
     (ir_library (fenv e) \<and> (\<forall>k < length (M_functions M).
        F_name (M_functions M ! k) \<in> NS \<and> rel_path (M_functions M ! k) \<in> P \<and>
        code_ok P (length (F_blocks (M_functions M ! k))) (faulty_clones e k)))"

lemma module_env_library: "ir_library (fenv e) \<Longrightarrow> ir_library (module_env e M)"
  by (simp add: ir_library_def module_env_def)

lemma pass_inv_function:
  assumes "pass_inv opt fts NS P nm rs s" "n \<in> NS" "p \<in> P" "ps_mapfile t = writeFunction n p (ps_mapfile s)"
    "ps_types t = ps_types s" "bb_total_num_injected_initializer t = bb_total_num_injected_initializer s" "fault_index t = 0"
  shows "pass_inv opt fts NS P nm (rs @ [Rec_function n p]) t"
proof -
  have "blocks_of (rs @ [Rec_function n p]) = blocks_of rs" by (simp add: blocks_of_def parse_snoc parse_step_def)
  moreover have "columns_ok opt (blocks_of rs) s" using assms(1) by (simp add: pass_inv_def)
  then have "columns_ok opt (blocks_of rs) t" unfolding columns_ok_def assms(5,6) .
  moreover have "phase (rs @ [Rec_function n p]) \<noteq> None" using assms(1) by (auto simp: pass_inv_def phase_snoc phase_step_def)
  ultimately show ?thesis using assms by (auto simp: pass_inv_def record_ok_def)
qed

lemma inject_function_inv:
  assumes inv: "pass_inv opt fts NS P nm rs s" and ok: "clones_ok e M NS P" "k < length (M_functions M)"
    and run: "inject_function e opt M fifs k s = Inr s'" and can: "can_instrument_function e opt M k"
  shows "\<exists>qs cs. pass_inv opt fts NS P nm (rs @ qs) s' \<and>
    parse (rs @ qs) = parse rs @ [(F_name (M_functions M ! k), rel_path (M_functions M ! k), cs)] \<and>
    length cs = length (F_blocks (M_functions M ! k))"
proof -
  let ?F = "M_functions M ! k"
  let ?s1 = "if rand_reseed_per_function opt
                 then s\<lparr>ps_rng := c_srand (fault_rand_seed opt XOR HashString e (F_name ?F))\<rparr> else s"
  let ?t = "(on_mapfile (writeFunction (F_name ?F) (rel_path ?F)) ?s1)\<lparr>fault_index := 0, ps_code := faulty_clones e k\<rparr>"
  have t: "ps_mapfile ?t = writeFunction (F_name ?F) (rel_path ?F) (ps_mapfile s)" "ps_types ?t = ps_types s"
    "bb_total_num_injected_initializer ?t = bb_total_num_injected_initializer s" "fault_index ?t = 0" "ps_code ?t = faulty_clones e k"
    by (simp_all add: on_mapfile_def)
  have names: "F_name ?F \<in> NS" "rel_path ?F \<in> P" "code_ok P (length (F_blocks ?F)) (ps_code ?t)"
    using ok t(5) by (simp_all add: clones_ok_def)
  note start = pass_inv_function [OF inv names(1,2) t(1,2,3,4)]
  have blocks: "efold (\<lambda>b. inject_block (module_env e M) opt (F_name ?F)
               (case fifs (k, b) of None \<Rightarrow> global_FIF opt | Some fif \<Rightarrow> fif) b) [0..<length (F_blocks ?F)] ?t = Inr s'"
    using run can by (simp add: inject_function_def Let_def rel_path_def)
  have "ir_library (module_env e M)" using ok(1) by (simp add: clones_ok_def module_env_library)
  from inject_blocks_inv [OF this start names(3) _ _ blocks, of "parse rs" "F_name ?F" "rel_path ?F" "[]"]
  obtain qs cs where "pass_inv opt fts NS P nm ((rs @ [Rec_function (F_name ?F) (rel_path ?F)]) @ qs) s'"
    "parse ((rs @ [Rec_function (F_name ?F) (rel_path ?F)]) @ qs) = parse rs @ [(F_name ?F, rel_path ?F, cs)]"
    "length cs = length (F_blocks ?F)"
    by (auto simp: parse_snoc parse_step_def)
  then show ?thesis by (intro exI [of _ "Rec_function (F_name ?F) (rel_path ?F) # qs"] exI [of _ cs]) simp
qed

definition function_sizes :: "parsed \<Rightarrow> (string \<times> string \<times> nat) list" where
  "function_sizes fs = map (\<lambda>(n, p, bs). (n, p, length bs)) fs"

definition expected_sizes :: "ir_module \<Rightarrow> nat list \<Rightarrow> (string \<times> string \<times> nat) list" where
  "expected_sizes M ks = map (\<lambda>k. (F_name (M_functions M ! k), rel_path (M_functions M ! k), length (F_blocks (M_functions M ! k)))) ks"

lemma inject_functions_inv:
  assumes "pass_inv opt fts NS P nm rs s" "clones_ok e M NS P" "\<forall>k \<in> set ks. k < length (M_functions M)"
    "efold (inject_function e opt M fifs) ks s = Inr s'"
  shows "\<exists>qs. pass_inv opt fts NS P nm (rs @ qs) s' \<and>
    function_sizes (parse (rs @ qs)) = function_sizes (parse rs) @ expected_sizes M (filter (can_instrument_function e opt M) ks)"
  using assms
proof (induction ks arbitrary: rs s)
  case Nil
  then show ?case by (intro exI [of _ "[]"]) (simp add: expected_sizes_def)
next
  case (Cons k ks)
  obtain t where t: "inject_function e opt M fifs k s = Inr t" "efold (inject_function e opt M fifs) ks t = Inr s'"
    using Cons.prems(4) by (auto simp: ebind_eq_Inr)
  have k: "k < length (M_functions M)" "\<forall>k \<in> set ks. k < length (M_functions M)" using Cons.prems(3) by simp_all
  show ?case
  proof (cases "can_instrument_function e opt M k")
    case False
    then have "t = s" using t(1) by (simp add: inject_function_def)
    then show ?thesis using Cons.IH [OF Cons.prems(1,2) k(2)] t(2) False by (simp add: expected_sizes_def)
  next
    case True
    obtain qs cs where 1: "pass_inv opt fts NS P nm (rs @ qs) t"
      "parse (rs @ qs) = parse rs @ [(F_name (M_functions M ! k), rel_path (M_functions M ! k), cs)]"
      "length cs = length (F_blocks (M_functions M ! k))"
      using inject_function_inv [OF Cons.prems(1,2) k(1) t(1) True] by blast
    obtain ps where "pass_inv opt fts NS P nm ((rs @ qs) @ ps) s'"
      "function_sizes (parse ((rs @ qs) @ ps)) = function_sizes (parse (rs @ qs)) @ expected_sizes M (filter (can_instrument_function e opt M) ks)"
      using Cons.IH [OF 1(1) Cons.prems(2) k(2) t(2)] by blast
    then show ?thesis using 1 True
      by (intro exI [of _ "qs @ ps"]) (simp add: function_sizes_def expected_sizes_def)
  qed
qed

section \<open>Reading the map file back\<close>

lemma writeInt_bytes_pos: "0 < length (writeInt_bytes v)"
  by (subst writeInt_bytes.simps) (simp add: Let_def)

lemma getStringRef_grows: "length (mf_file f) \<le> length (mf_file (snd (getStringRef s f)))"
  by (simp add: getStringRef_def put_def Let_def split: option.splits)

lemma write_record_grows: "length (mf_file f) < length (mf_file (write_record r f))"
proof -
  have g: "length (mf_file f) \<le> length (mf_file g)" if "getStringRef s f = (x, g)" for s x f g
    using getStringRef_grows [of f s] that by simp
  show ?thesis
  proof (cases r)
    case (Rec_function n p)
    obtain x h y k where "getStringRef n f = (x, h)" "getStringRef p h = (y, k)" by fastforce
    then show ?thesis using g [of n f x h] g [of p h y k] Rec_function
      by (simp add: writeFunction_def writeStringRef_def writeInt_def put_def)
  qed (auto simp: writeModuleName_def writeBasicBlock_def writeInstruction_def writeDInstruction_def
        writeFaultCandidate_def writeFaultInjected_def writeStringRef_def writeInt_def put_def Let_def
        less_Suc_eq_le trans_le_add1 split: prod.splits dest: g)
qed

lemma records_bounded: "length rs + length (mf_file f) \<le> length (mf_file (fold write_record rs f))"
proof (induction rs arbitrary: f)
  case (Cons r rs)
  from Cons [of "write_record r f"] write_record_grows [of f r] show ?case by simp
qed simp

lemma length_blocks_of: "length (blocks_of rs) = total_blocks (parse rs)"
  by (simp add: blocks_of_def total_blocks_def length_concat comp_def split_def)

lemma get_bb_scan_block:
  "x < total_blocks fs \<Longrightarrow> \<exists>j < length fs. get_bb_scan i (funcs_of k fs) (int x + 1) = 
     Inr (Some (i + j, bb_of (concat (map (\<lambda>f. snd (snd f)) fs) ! x)))"
proof (induction fs arbitrary: i k x)
  case (Cons f fs)
  obtain n p bs where f: "f = (n, p, bs)" by (cases f)
  show ?case
  proof (cases "x < length bs")
    case True
    then show ?thesis using f by (intro exI [of _ 0]) (auto simp: nth_append)
  next
    case False
    then have x: "x - length bs < total_blocks fs" using Cons.prems f by simp
    have x': "int x + 1 - int (length bs) = int (x - length bs) + 1" using False by simp
    obtain j where j: "j < length fs" "get_bb_scan (i + 1) (funcs_of (k + length bs) fs) (int (x - length bs) + 1) =
        Inr (Some (i + 1 + j, bb_of (concat (map (\<lambda>f. snd (snd f)) fs) ! (x - length bs))))"
      using Cons.IH [OF x, of "i + 1" "k + length bs"] by blast
    have "get_bb_scan (i + 1) (funcs_of (k + length bs) fs) (int x + 1 - int (length bs)) =
        Inr (Some (i + Suc j, bb_of (concat (map (\<lambda>f. snd (snd f)) fs) ! (x - length bs))))"
      using j(2) by (simp only: x') simp
    then show ?thesis using False f j(1) by (intro exI [of _ "Suc j"]) (simp add: nth_append)
  qed
qed (simp add: total_blocks_def)

lemma funcs_of_sizes:
  "map (\<lambda>fn. (fn_name fn, fn_path fn, bb_count fn)) (funcs_of k fs) = map (\<lambda>(n, p, c). (Some n, Some p, c)) (function_sizes fs)"
  by (induction fs arbitrary: k) (auto simp: function_sizes_def)

section \<open>Properties\<close>

definition good_path :: "string \<Rightarrow> bool" where
  "good_path p = (NUL \<notin> set p \<and> fixed p \<noteq> None)"

text \<open>
  Names and paths of a module are C strings, its paths can be repaired, and the copies of a
  function have one block for each of its blocks.
\<close>

definition clean_module :: "pass_env \<Rightarrow> ir_module \<Rightarrow> bool" where
  "clean_module e M =
     (NUL \<notin> set (M_name M) \<and>
      (\<forall>k < length (M_functions M).
         NUL \<notin> set (F_name (M_functions M ! k)) \<and> good_path (rel_path (M_functions M ! k)) \<and>
         length (code_blocks (faulty_clones e k)) = length (F_blocks (M_functions M ! k)) \<and>
         list_all good_path (code_paths (faulty_clones e k))))"

lemma clean_clones_ok: "ir_library (fenv e) \<Longrightarrow> clean_module e M \<Longrightarrow> clones_ok e M {s. NUL \<notin> set s} {p. good_path p}"
  by (auto simp: clean_module_def clones_ok_def code_ok_def list_all_iff)

lemma getName_clean: "NUL \<notin> set (getName ft)"
  by (cases ft) simp_all

lemma record_ok_strings:
  assumes "record_ok {s. NUL \<notin> set s} {p. good_path p} r"
  shows "\<forall>s \<in> set (record_strings r). NUL \<notin> set s" "\<forall>p \<in> set (record_paths r). fixed p \<noteq> None"
  using assms getName_clean by (cases r; auto simp: record_ok_def body_record_def good_path_def)+

lemma pass_start:
  "pass_inv opt (FaultTypes opt) NS P (M_name M) []
     \<lparr>ps_types = map new_counts (FaultTypes opt), ps_mapfile = MapFile_new (M_name M), ps_rng = g, ps_code = c,
      fault_index = 0, bb_index = 1, bb_total_num_injected_initializer = []\<rparr>"
  by (auto simp: pass_inv_def columns_ok_def blocks_of_def new_counts_def comp_def)

lemma length_FaultTypes: "length (FaultTypes opt) \<le> 16"
proof -
  have add: "length (addFaultType opt ft fts) \<le> Suc (length fts)" for ft fts by (simp add: addFaultType_def)
  have adds: "length (fold (addFaultType opt) fs fts) \<le> length fs + length fts" for fs fts
  proof (induction fs arbitrary: fts)
    case (Cons f fs)
    show ?case using Cons [of "addFaultType opt f fts"] add [of f fts] by simp
  qed simp
  define fa where "fa = addFaultType opt (if dsnCompat opt \<or> atcCompat opt then SwapFault else SwapFaultV2) []"
  define fb where "fb = fold (addFaultType opt) [NoLoadFault, RndLoadFault, NoStoreFault, FlipBranchFault, FlipBoolFault,
    CorruptPointerFault, CorruptIndexFault, CorruptIntegerFault] fa"
  define fc where "fc = addFaultType opt (if dsnCompat opt \<or> atcCompat opt then CorruptOperatorFault else CorruptOperatorFaultV2) fb"
  define fd where "fd = fold (addFaultType opt) [StuckAtBranchFault, StuckAtLoopFault, BufferOverflowFault, MemLeakFault,
    DanglingPointerFault, NullPointerFault] fc"
  have "length fa \<le> Suc 0" using add [of _ "[]"] by (simp add: fa_def)
  moreover have "length fb \<le> 8 + length fa" unfolding fb_def by (rule order_trans [OF adds]) simp
  moreover have "length fc \<le> Suc (length fb)" unfolding fc_def by (rule add)
  moreover have "length fd \<le> 6 + length fc" unfolding fd_def by (rule order_trans [OF adds]) simp
  moreover have "FaultTypes opt = (if \<not> dsnCompat opt then fd else fc)"
    unfolding FaultTypes_def Let_def fa_def fb_def fc_def fd_def by (rule refl)
  ultimately show ?thesis by (cases "dsnCompat opt") simp_all
qed

lemma all_blocks_length:
  "length (AllBasicBlocks e opt M) =
   sum_list (map (\<lambda>(n, p, c). c) (expected_sizes M (filter (can_instrument_function e opt M) [0..<length (M_functions M)])))"
  by (simp add: AllBasicBlocks_def expected_sizes_def function_blocks_def length_concat comp_def)

lemma total_blocks_sizes: "total_blocks fs = sum_list (map (\<lambda>(n, p, c). c) (function_sizes fs))"
  by (simp add: total_blocks_def function_sizes_def comp_def split_def)

text \<open>The records behind the result of the pass.\<close>

lemma instrument_module_records:
  assumes lib: "ir_library (fenv e)" and run: "instrument_module e opt M = Some (Inr r)" and clean: "clean_module e M"
  shows "\<exists>rs s. pass_inv opt (FaultTypes opt) {s. NUL \<notin> set s} {p. good_path p} (M_name M) rs s \<and>
    pr_map r = mf_file (ps_mapfile s) \<and> pr_context r = fill_context (length (AllBasicBlocks e opt M)) s \<and>
    function_sizes (parse rs) = expected_sizes M (filter (can_instrument_function e opt M) [0..<length (M_functions M)])"
proof -
  obtain fifs s where "inject_functions e opt M fifs = Inr s" "pr_map r = mf_file (ps_mapfile s)"
    "pr_context r = fill_context (length (AllBasicBlocks e opt M)) s"
    using run by (auto simp: instrument_module_def Let_def split: option.splits sum.splits prod.splits)
  moreover obtain qs where "pass_inv opt (FaultTypes opt) {s. NUL \<notin> set s} {p. good_path p} (M_name M) ([] @ qs) s"
    "function_sizes (parse ([] @ qs)) = function_sizes (parse []) @ expected_sizes M (filter (can_instrument_function e opt M) [0..<length (M_functions M)])"
    using inject_functions_inv [OF pass_start clean_clones_ok [OF lib clean] _ calculation(1) [unfolded inject_functions_def]] by auto
  ultimately show ?thesis by (intro exI [of _ qs] exI [of _ s]) (simp add: function_sizes_def)
qed

lemma fill_context_ok:
  assumes "pass_inv opt fts NS P nm rs s" "length (blocks_of rs) = n" "n < 2 ^ 32" "length fts \<le> 16"
  shows "context_ok (fill_context n s)" "unat (num_bbs (fill_context n s)) = n"
proof -
  have "length (ps_types s) = length fts" using assms(1) by (auto simp: pass_inv_def)
  then have "unat (of_nat (length (ps_types s)) :: 32 word) = length (ps_types s)" using assms(4)
    by (simp add: unat_of_nat)
  moreover show n: "unat (num_bbs (fill_context n s)) = n" using assms(3) by (simp add: fill_context_def unat_of_nat)
  ultimately show "context_ok (fill_context n s)"
    using assms(1,2) by (auto simp: context_ok_def fill_context_def edfi_context_buff_def EDFI_IS_OK_CONTEXT_def pass_inv_def
        columns_ok_def type_stats_def list_all_iff)
qed

lemma load_written:
  assumes "pass_inv opt fts {s. NUL \<notin> set s} {p. good_path p} nm rs s" "NUL \<notin> set nm" "length (mf_file (ps_mapfile s)) < 2 ^ 30"
  shows "module_load_from_map (mf_file (ps_mapfile s)) = Inr (module_of (Rec_module_name nm # rs))"
proof -
  have map: "ps_mapfile s = fold write_record rs (MapFile_new nm)" and ok: "\<forall>r \<in> set rs. record_ok {s. NUL \<notin> set s} {p. good_path p} r"
    and ph: "phase rs \<noteq> None" using assms(1) by (simp_all add: pass_inv_def)
  have "2 * length rs + 1 < 2 ^ 31" using records_bounded [of rs "MapFile_new nm"] assms(3) map by simp
  then have "mapparse_file False (mf_file (ps_mapfile s)) = Inr (Rec_module_name nm # rs)"
    unfolding map by (intro mapparse_written) (use assms(2) ok record_ok_strings(1) in auto)
  moreover have "phase (Rec_module_name nm # rs) \<noteq> None" using ph by (simp add: phase_def phase_step_def)
  moreover have "fixable (Rec_module_name nm # rs)" using ok record_ok_strings(2) by (fastforce simp: fixable_def)
  ultimately show ?thesis using load_records_module by (simp add: module_load_from_map_def)
qed

lemma parse_step_blocks: "total_blocks (parse_step fs r) \<le> Suc (total_blocks fs)"
  by (cases fs rule: rev_cases; cases r) (auto simp: parse_step_def total_blocks_def)

lemma blocks_of_bounded: "length (blocks_of rs) \<le> length rs"
proof -
  have "total_blocks (parse rs) \<le> length rs"
  proof (induction rs rule: rev_induct)
    case (snoc r rs)
    then show ?case using parse_step_blocks [of "parse rs" r] by (simp add: parse_snoc)
  qed (simp add: total_blocks_def)
  then show ?thesis by (simp add: length_blocks_of)
qed

lemma map_sum_Some: "map_sum id Some x = Inr (Some y) \<longleftrightarrow> x = Inr y"
  by (cases x) auto

lemma parse_named: "parse (Rec_module_name nm # rs) = parse rs"
  by (simp add: parse_def parse_step_def)

lemma module_of_block:
  assumes "x < length (blocks_of rs)"
  shows "\<exists>i. module_get_bb_by_index (module_of (Rec_module_name nm # rs)) (int x + 1) = Inr (Some (i, bb_of (blocks_of rs ! x)))"
proof -
  have x: "x < total_blocks (parse rs)" using assms by (simp add: length_blocks_of)
  then have ne: "parse rs \<noteq> []" by (auto simp: total_blocks_def)
  from get_bb_scan_block [OF x, of 0 0] obtain j where
    "get_bb_scan 0 (funcs_of 0 (parse rs)) (int x + 1) = Inr (Some (j, bb_of (blocks_of rs ! x)))"
    by (auto simp: blocks_of_def)
  then show ?thesis using ne by (simp add: module_get_bb_by_index_def module_of_def parse_named)
qed

text \<open>A run of the pass: the records it wrote, the module that loads from them and the context.\<close>

lemma runOnModule_records:
  assumes lib: "ir_library (fenv e)" and "runOnModule e opt M = Some (Inr (Some r))" "clean_module e M" "length (pr_map r) < 2 ^ 30"
  defines "n \<equiv> length (AllBasicBlocks e opt M)"
  shows "\<exists>rs s. module_load_from_map (pr_map r) = Inr (module_of (Rec_module_name (M_name M) # rs)) \<and>
    pr_context r = fill_context n s \<and> context_ok (pr_context r) \<and> unat (num_bbs (pr_context r)) = n \<and>
    columns_ok opt (blocks_of rs) s \<and> length (blocks_of rs) = n \<and>
    function_sizes (parse rs) = expected_sizes M (filter (can_instrument_function e opt M) [0..<length (M_functions M)])"
proof -
  define opt' where "opt' = (if fault_rand_seed opt = 0 then opt\<lparr>fault_rand_seed := time_seed e\<rparr> else opt)"
  have "FunctionNames opt' = FunctionNames opt" "SkipFunctionNames opt' = SkipFunctionNames opt" "ModuleNames opt' = ModuleNames opt"
    "dsnCompat opt' = dsnCompat opt" "func_min opt' = func_min opt" "func_max opt' = func_max opt"
    by (simp_all add: opt'_def)
  then have can: "can_instrument_function e opt' M = can_instrument_function e opt M"
    by (intro ext) (simp only: can_instrument_function_def)
  then have all: "AllBasicBlocks e opt' M = AllBasicBlocks e opt M" by (simp add: AllBasicBlocks_def)
  have "statistics_only opt' = statistics_only opt" "oneFaultPerBlock opt' = oneFaultPerBlock opt" by (simp_all add: opt'_def)
  then have cols: "columns_ok opt' = columns_ok opt" by (intro ext) (simp only: columns_ok_def)
  have "instrument_module e opt' M = Some (Inr r)"
    using assms(2) unfolding runOnModule_def opt'_def [symmetric] Let_def
    by (auto split: if_splits option.splits simp: map_sum_Some)
  from instrument_module_records [OF lib this assms(3)] obtain rs s where
    inv: "pass_inv opt' (FaultTypes opt') {s. NUL \<notin> set s} {p. good_path p} (M_name M) rs s"
    and map: "pr_map r = mf_file (ps_mapfile s)" and ctx: "pr_context r = fill_context n s"
    and sizes: "function_sizes (parse rs) = expected_sizes M (filter (can_instrument_function e opt M) [0..<length (M_functions M)])"
    unfolding can all n_def by blast
  have n: "length (blocks_of rs) = n" by (simp add: n_def length_blocks_of total_blocks_sizes sizes all_blocks_length)
  have "length (blocks_of rs) \<le> length rs" by (rule blocks_of_bounded)
  then have small: "n < 2 ^ 32"
    using records_bounded [of rs "MapFile_new (M_name M)"] assms(4) n map inv by (simp add: pass_inv_def)
  have "module_load_from_map (pr_map r) = Inr (module_of (Rec_module_name (M_name M) # rs))"
    unfolding map by (rule load_written [OF inv]) (use assms(3,4) map in \<open>simp_all add: clean_module_def\<close>)
  then show ?thesis using fill_context_ok [OF inv n small length_FaultTypes] ctx n sizes inv cols
    by (intro exI [of _ rs] exI [of _ s]) (simp add: pass_inv_def)
qed



definition ex_code :: code where
  "ex_code = \<lparr>code_blocks =
     [[\<lparr>inst_id = 1, inst_name = ''x'', inst_type = IntTy 32, inst_form = LoadInst (IntTy 32) (Global ''v''), inst_dbg = Some (''a.c'', 7)\<rparr>,
       \<lparr>inst_id = 2, inst_name = ''y'', inst_type = IntTy 32, inst_form = BinaryOperator Op_Sub (Inst 1) (Const 1), inst_dbg = Some (''a.c'', 8)\<rparr>,
       \<lparr>inst_id = 3, inst_name = '''', inst_type = VoidTy, inst_form = Branch 1, inst_dbg = None\<rparr>],
      [\<lparr>inst_id = 4, inst_name = ''y.reload'', inst_type = IntTy 32, inst_form = LoadInst (IntTy 32) (Other_value 0), inst_dbg = None\<rparr>,
       \<lparr>inst_id = 5, inst_name = '''', inst_type = VoidTy, inst_form = OtherInst [Inst 4], inst_dbg = None\<rparr>]], code_next = 6\<rparr>"

definition ex_options :: pass_options where
  "ex_options = \<lparr>skip_all = False, fault_rand_seed = 123, rand_reseed_per_function = False, random_BB_FIF = (0, (0, 0)),
     random_BB_FIF_seed = None, functions_FIF = [], functioncallers_FIF = [], modules_FIF = [], global_FIF = (1, 0),
     FunctionNames = [], SkipFunctionNames = [], ModuleNames = [], FaultTypeNames = [''corrupt-integer'', ''null-pointer''], fault_selector = [],
     statistics_only = False, dsnCompat = False, atcCompat = False, oneFaultPerBlock = True, func_min = 0, func_max = 100000000,
     fdp_varname = ''edfi_onfdp_p''\<rparr>"

definition ex_module :: ir_module where
  "ex_module = \<lparr>M_name = ''pm'', M_globals = needed_globals ex_options, M_functions =
     [\<lparr>F_name = ''f'', F_section = '''', F_relPath = Some ''a.c'', F_intrinsic = None, F_blocks = code_blocks ex_code\<rparr>,
      \<lparr>F_name = ''edfi_rand'', F_section = ''edfi_functions'', F_relPath = None, F_intrinsic = None, F_blocks = [[]]\<rparr>]\<rparr>"

definition ex_pass_env :: pass_env where
  "ex_pass_env = \<lparr>fenv = \<lparr>edits = list_edits, rand_sequence = (\<lambda>seed k. of_nat k), module_functions = [], loop_header = (\<lambda>c b. None),
       fault_prob = (\<lambda>ft. None), prob_default = None\<rparr>,
     MINIX_build = False, time_seed = 5, regex_match = (\<lambda>r p. False), HashString = (\<lambda>s. 0),
     faulty_clones = (\<lambda>k. if k = 0 then ex_code else \<lparr>code_blocks = [[]], code_next = 0\<rparr>)\<rparr>"

lemma ex_library: "ir_library (fenv ex_pass_env)"
  using list_ir.ir_library_axioms [of "fenv ex_pass_env"] by (simp add: ex_pass_env_def)

lemma ex_clean: "clean_module ex_pass_env ex_module"
  by code_simp

lemma ex_pass_runs:
  "case runOnModule ex_pass_env ex_options ex_module of
     Some (Inr (Some r)) \<Rightarrow> length (pr_map r) < 1000 \<and> bb_num_faults (pr_context r) = [1, 0] | _ \<Rightarrow> False"
  by code_simp

lemma ex_pass_result:
  "\<exists>r. runOnModule ex_pass_env ex_options ex_module = Some (Inr (Some r)) \<and> length (pr_map r) < 2 ^ 30 \<and>
     bb_num_faults (pr_context r) = [1, 0]"
  using ex_pass_runs by (auto split: option.splits sum.splits)

lemma ex_blocks: "length (AllBasicBlocks ex_pass_env ex_options ex_module) = 2"
  by code_simp




end
