(* ===== verification/Selectors.thy ===== *)
theory Selectors
  imports Instrumentation
begin

text \<open>
  The choices that the command line of the injection pass makes: the list of faults to inject, and
  the number of random blocks with a fault impact factor of their own.
\<close>

section \<open>Random blocks\<close>

lemma draw_block_new:
  assumes "draw_block e all m g = Some y"
  shows "all \<noteq> [] \<longrightarrow> m (fst y) = None \<and> fst y \<in> set all"
proof (rule draw_block.raw_induct [OF _ assms])
  fix draw :: "fault_env \<Rightarrow> (nat \<times> nat) list \<Rightarrow> fif_map \<Rightarrow> rng \<Rightarrow> ((nat \<times> nat) \<times> rng) option"
  fix e all m g y
  assume IH: "\<And>e all m g y. draw e all m g = Some y \<Longrightarrow> all \<noteq> [] \<longrightarrow> m (fst y) = None \<and> fst y \<in> set all"
    and body: "(let (r, g) = c_rand e g; bb = all ! (r mod length all)
      in if m bb \<noteq> None then draw e all m g else Some (bb, g)) = Some y"
  show "all \<noteq> [] \<longrightarrow> m (fst y) = None \<and> fst y \<in> set all"
    using IH [of e all m _ y] body by (auto simp del: not_None_eq not_Some_eq simp: Let_def split: if_splits prod.splits)
qed

text \<open>Every position comes up again and again in the sequence of a seed.\<close>

definition fair_sequence :: "fault_env \<Rightarrow> 32 word \<Rightarrow> nat \<Rightarrow> bool" where
  "fair_sequence e seed len = (\<forall>k j. j < len \<longrightarrow> (\<exists>k' \<ge> k. unat (rand_sequence e seed k') mod len = j))"

lemma draw_block_returns:
  assumes "unat (rand_sequence e (rng_seed g) k') mod length all = j" "m (all ! j) = None" "rng_calls g \<le> k'"
  shows "\<exists>bb g'. draw_block e all m g = Some (bb, g') \<and> rng_seed g' = rng_seed g"
  using assms
proof (induction "k' - rng_calls g" arbitrary: g)
  case 0
  then have "rng_calls g = k'" by simp
  with 0 show ?case by (subst draw_block.simps) (simp add: c_rand_def Let_def)
next
  case (Suc d)
  let ?g = "snd (c_rand e g)"
  have "\<exists>bb g'. draw_block e all m ?g = Some (bb, g') \<and> rng_seed g' = rng_seed ?g"
    by (rule Suc.hyps(1)) (use Suc.hyps(2) Suc.prems in \<open>auto simp: c_rand_def\<close>)
  then show ?case by (subst draw_block.simps) (auto simp: c_rand_def Let_def)
qed

lemma random_blocks_returns:
  assumes "fair_sequence e (rng_seed g) (length all)" "finite (dom m)" "dom m \<subseteq> set all" "card (dom m) + i \<le> card (set all)"
  shows "\<exists>m'. random_blocks e all fif i m g = Some (Inr m') \<and> dom m \<subseteq> dom m' \<and> dom m' \<subseteq> set all \<and>
    card (dom m') = card (dom m) + i \<and> (\<forall>bb \<in> dom m'. m' bb = (if bb \<in> dom m then m bb else Some fif))"
  using assms
proof (induction i arbitrary: m g)
  case (Suc i)
  have "dom m \<noteq> set all" using Suc.prems(4) by auto
  then obtain bb where bb: "bb \<in> set all" "m bb = None" using Suc.prems(3) by auto
  then obtain j where j: "j < length all" "all ! j = bb" by (auto simp: in_set_conv_nth)
  then obtain k' where "k' \<ge> rng_calls g" "unat (rand_sequence e (rng_seed g) k') mod length all = j"
    using Suc.prems(1) by (auto simp: fair_sequence_def)
  then obtain bb' g' where d: "draw_block e all m g = Some (bb', g')" "rng_seed g' = rng_seed g"
    using draw_block_returns [of e g k' all j m] j(2) bb(2) by auto
  have ne: "all \<noteq> []" using bb(1) by auto
  have new: "m bb' = None" "bb' \<in> set all" using draw_block_new [OF d(1)] ne by simp_all
  define m1 where "m1 = m(bb' \<mapsto> fif)"
  have dom: "dom m1 = insert bb' (dom m)" "bb' \<notin> dom m" "m1 bb' = Some fif" "\<And>bb. bb \<noteq> bb' \<Longrightarrow> m1 bb = m bb"
    using new by (auto simp: m1_def)
  then have card: "card (dom m1) = Suc (card (dom m))" using Suc.prems(2) by simp
  obtain m' where m': "random_blocks e all fif i m1 g' = Some (Inr m')" "dom m1 \<subseteq> dom m'"
    "dom m' \<subseteq> set all" "card (dom m') = card (dom m1) + i" "\<forall>bb \<in> dom m'. m' bb = (if bb \<in> dom m1 then m1 bb else Some fif)"
    using Suc.IH [of g' m1] Suc.prems card dom(1) new d(2) by auto
  have "m' bb = (if bb \<in> dom m then m bb else Some fif)" if "bb \<in> dom m'" for bb
    using m'(5) that dom by (cases "bb = bb'") auto
  moreover have "random_blocks e all fif (Suc i) m g = Some (Inr m')" using ne d(1) m'(1) by (simp add: m1_def)
  ultimately show ?case using m'(2-4) card dom(1) by auto
qed simp

lemma random_blocks_bound:
  "random_blocks e all fif i m g = Some (Inr m') \<Longrightarrow> all \<noteq> [] \<Longrightarrow> finite (dom m) \<Longrightarrow>
   finite (dom m') \<and> dom m' \<subseteq> set all \<union> dom m \<and> card (dom m') = card (dom m) + i"
proof (induction i arbitrary: m g)
  case (Suc i)
  obtain bb g' m1 where d: "draw_block e all m g = Some (bb, g')" "random_blocks e all fif i m1 g' = Some (Inr m')" "m1 = m(bb \<mapsto> fif)"
    using Suc.prems(1,2) by (auto split: option.splits)
  have new: "bb \<notin> dom m" "bb \<in> set all" using draw_block_new [OF d(1)] Suc.prems(2) by auto
  have "dom m1 = insert bb (dom m)" by (simp add: d(3))
  then show ?case using Suc.IH [OF d(2) Suc.prems(2)] Suc.prems(3) new by auto
qed simp

lemma random_blocks_total: "all \<noteq> [] \<Longrightarrow> random_blocks e all fif i m g = None \<or> (\<exists>m'. random_blocks e all fif i m g = Some (Inr m'))"
  by (induction i arbitrary: m g) (auto split: option.splits)

lemma distinct_AllBasicBlocks: "distinct (AllBasicBlocks e opt M)"
proof -
  have "distinct (concat (map (function_blocks M) ks))" if "distinct ks" for ks
    using that by (induction ks) (auto simp: function_blocks_def distinct_map inj_on_def)
  then show ?thesis by (simp add: AllBasicBlocks_def)
qed

section \<open>Faults by function and number\<close>

definition selector_text :: "(string \<times> nat) \<Rightarrow> string" where
  "selector_text = (\<lambda>(f, i). f @ '':'' @ decimal i)"

fun selectors_text :: "(string \<times> nat) list \<Rightarrow> string" where
  "selectors_text [] = []"
| "selectors_text [v] = selector_text v"
| "selectors_text (v # vs) = selector_text v @ '','' @ selectors_text vs"

lemma takeWhile_digits: "\<not> is_digit ch \<Longrightarrow> takeWhile is_digit (decimal n @ ch # s) = decimal n \<and> dropWhile is_digit (decimal n @ ch # s) = ch # s"
  using decimal_digits [of n] by (simp add: list_all_iff)

lemma takeWhile_digits_end: "takeWhile is_digit (decimal n) = decimal n \<and> dropWhile is_digit (decimal n) = []"
  using decimal_digits [of n] by (simp add: list_all_iff takeWhile_eq_all_conv)

lemma foldl_horner: "foldl (\<lambda>n d. 10 * n + (of_char d - 48)) a ds = horner a ds"
  by (simp add: horner_def digit_val_def)

lemma atoi_decimal: "n < 2 ^ 31 \<Longrightarrow> atoi_digits (decimal n) = int n"
  unfolding atoi_digits_def foldl_horner horner_decimal
  by (simp add: sint_uint uint_nat unat_of_nat signed_take_bit_int_eq_self)

lemma parse_selector:
  assumes "f \<noteq> []" "CHR '':'' \<notin> set f" "CHR '','' \<notin> set f" "i < 2 ^ 31"
  shows "Fault_Selector_parse (selector_text (f, i)) = Inr [(f, int i)]"
    "Fault_Selector_parse (selector_text (f, i) @ '','' @ s) = ebind (Fault_Selector_parse s) (\<lambda>vs. Inr ((f, int i) # vs))"
proof -
  let ?q = "\<lambda>ch. ch \<noteq> CHR '':'' \<and> ch \<noteq> CHR '',''"
  have f: "takeWhile ?q (f @ CHR '':'' # t) = f" "dropWhile ?q (f @ CHR '':'' # t) = CHR '':'' # t" for t
    using assms(2,3) by (auto simp: takeWhile_tail dropWhile_append3)
  have nd: "\<not> is_digit (CHR '','')" by (simp add: is_digit_def)
  show "Fault_Selector_parse (selector_text (f, i)) = Inr [(f, int i)]"
    by (subst Fault_Selector_parse.simps)
      (simp add: selector_text_def f assms(1) takeWhile_digits_end atoi_decimal [OF assms(4)])
  show "Fault_Selector_parse (selector_text (f, i) @ '','' @ s) = ebind (Fault_Selector_parse s) (\<lambda>vs. Inr ((f, int i) # vs))"
    by (subst Fault_Selector_parse.simps)
      (simp add: selector_text_def f assms(1) takeWhile_digits [OF nd] atoi_decimal [OF assms(4)])
qed

section \<open>Properties\<close>

text \<open>
  C35 (termination): the loop that gives random blocks a factor of their own returns exactly when there
  are enough blocks. For a random sequence in which every position keeps coming up, a request of at
  most as many blocks as the instrumented functions have returns with that many different
  blocks, all with the factor; a request of more never returns, and one on a module without
  blocks divides by zero.
\<close>
theorem random_factors_need_blocks:
  assumes "fair_sequence (fenv e) seed (length (AllBasicBlocks e opt M))"
  shows "(if R \<le> length (AllBasicBlocks e opt M)
     then \<exists>m. random_blocks (fenv e) (AllBasicBlocks e opt M) fif R Map.empty (c_srand seed) = Some (Inr m) \<and>
       dom m \<subseteq> set (AllBasicBlocks e opt M) \<and> card (dom m) = R \<and> (\<forall>bb \<in> dom m. m bb = Some fif)
     else random_blocks (fenv e) (AllBasicBlocks e opt M) fif R Map.empty (c_srand seed) =
       (if AllBasicBlocks e opt M = [] then Some (Inl (Panic ''division by zero'')) else None))"
proof (cases "R \<le> length (AllBasicBlocks e opt M)")
  case True
  let ?all = "AllBasicBlocks e opt M"
  have "fair_sequence (fenv e) (rng_seed (c_srand seed)) (length ?all)" using assms by (simp add: c_srand_def)
  from random_blocks_returns [OF this, of Map.empty R fif] True show ?thesis
    by (auto simp: distinct_card [OF distinct_AllBasicBlocks])
next
  case False
  let ?all = "AllBasicBlocks e opt M" and ?g = "c_srand seed"
  show ?thesis
  proof (cases "?all = []")
    case True
    with False show ?thesis by (cases R) auto
  next
    case ne: False
    have "random_blocks (fenv e) ?all fif R Map.empty ?g \<noteq> Some (Inr m)" for m
    proof
      assume "random_blocks (fenv e) ?all fif R Map.empty ?g = Some (Inr m)"
      from random_blocks_bound [OF this ne] have "dom m \<subseteq> set ?all" "card (dom m) = R" by auto
      then have "R \<le> card (set ?all)" by (metis card_mono finite_set)
      then show False using \<open>\<not> R \<le> length ?all\<close> card_length [of ?all] by simp
    qed
    with random_blocks_total [OF ne, of "fenv e" fif R Map.empty ?g] False ne show ?thesis by auto
  qed
qed

lemma ex_fair: "fair_sequence (fenv ex_pass_env) 1 2"
  unfolding fair_sequence_def
proof (intro allI impI)
  fix k j :: nat assume "j < 2"
  have "unat (of_nat n :: 31 word) mod 2 = n mod 2" for n by (simp add: unat_of_nat mod_mod_cancel)
  moreover have "(2 * k + j) mod 2 = j" using \<open>j < 2\<close> by simp
  ultimately show "\<exists>k' \<ge> k. unat (rand_sequence (fenv ex_pass_env) 1 k') mod 2 = j"
    by (intro exI [of _ "2 * k + j"] conjI) (simp_all add: ex_pass_env_def del: of_nat_add of_nat_mult)
qed

theorem random_factors_need_blocks_witness:
  "random_blocks (fenv ex_pass_env) (AllBasicBlocks ex_pass_env ex_options ex_module) (1, 0) 3 Map.empty (c_srand 1) = None \<and>
   (\<exists>m. random_blocks (fenv ex_pass_env) (AllBasicBlocks ex_pass_env ex_options ex_module) (1, 0) 2 Map.empty (c_srand 1) = Some (Inr m))"
proof -
  have fair: "fair_sequence (fenv ex_pass_env) 1 (length (AllBasicBlocks ex_pass_env ex_options ex_module))"
    unfolding ex_blocks by (rule ex_fair)
  have ne: "AllBasicBlocks ex_pass_env ex_options ex_module \<noteq> []" using ex_blocks by auto
  note use = random_factors_need_blocks [OF fair, unfolded ex_blocks]
  show ?thesis using use [of 3 "(1, 0)"] use [of 2 "(1, 0)"] ne by auto
qed

text \<open>
  C36 (round trip): a list of faults written as function names and numbers with colons and commas is
  parsed to the same list, as long as the names have neither sign and the numbers fit an int.
\<close>
theorem fault_selector_round_trip:
  assumes "vs \<noteq> []" "\<forall>v \<in> set vs. fst v \<noteq> [] \<and> CHR '':'' \<notin> set (fst v) \<and> CHR '','' \<notin> set (fst v) \<and> snd v < 2 ^ 31"
  shows "Fault_Selector_parse (selectors_text vs) = Inr (map (\<lambda>(f, i). (f, int i)) vs)"
  using assms
proof (induction vs rule: selectors_text.induct)
  case (2 v)
  then show ?case using parse_selector(1) [of "fst v" "snd v"] by (simp add: case_prod_unfold)
next
  case (3 v w vs)
  then show ?case using parse_selector(2) [of "fst v" "snd v" "selectors_text (w # vs)"] by (simp add: case_prod_unfold)
qed simp

theorem fault_selector_round_trip_witness:
  "Fault_Selector_parse ''do_fork:12,main:0'' = Inr [(''do_fork'', 12), (''main'', 0)]"
proof -
  have "selectors_text [(''do_fork'', 12), (''main'', 0)] = ''do_fork:12,main:0''" by code_simp
  then show ?thesis using fault_selector_round_trip [of "[(''do_fork'', 12), (''main'', 0)]"] by simp
qed

section \<open>Numbers and probabilities\<close>

text \<open>
  Removing the first instruction of a block makes the null pointer fault apply to the next
  one: the number of a later fault depends on the faults injected before it.
\<close>

definition ex_load :: code where
  "ex_load = \<lparr>code_blocks = [[\<lparr>inst_id = 0, inst_name = [], inst_type = IntTy 32, inst_form = LoadInst (IntTy 32) (Global ''x''), inst_dbg = None\<rparr>,
     \<lparr>inst_id = 1, inst_name = [], inst_type = IntTy 32, inst_form = BinaryOperator Op_Sub (Inst 0) (Const 1), inst_dbg = None\<rparr>]], code_next = 2\<rparr>"

lemma removed_instruction_shifts_numbers:
  "case apply_fault (fenv ex_pass_env) NoLoadFault 0 1 (c_srand 1) ex_load of
     Inr (removed, g, c) \<Rightarrow> \<not> isApplicable (fenv ex_pass_env) NullPointerFault ex_load 0 0 \<and>
       isApplicable (fenv ex_pass_env) NullPointerFault c 0 0
   | Inl f \<Rightarrow> False"
  by code_simp

text \<open>
  The largest random numbers round to one in single precision, so that a fault with
  probability and factor one is still passed over.
\<close>

lemma bit_length_numeral: "bit_length 0 = 0" "bit_length (Suc 0) = 1" "bit_length (numeral k) = Suc (bit_length (numeral k div 2))"
  by (simp_all add: bit_length.simps [of 0] bit_length.simps [of "Suc 0"] bit_length.simps [of "numeral k"])

lemma certain_fault_passed_over:
  assumes "getProbability e ft = (1, 0)" "rand_sequence e (rng_seed g) (rng_calls g) = 2147483647"
  shows "fst (isApplicableWithFIF e ft c b n (1, 0) g) = False"
proof -
  have "unat (2147483647 :: 31 word) = 2147483647" by simp
  moreover have "round32 (2147483647, 0) = (16777216, 7)"
    by (simp add: round32_def round_half_even_def bit_length_numeral)
  moreover have "float_mult (1, 0) (1, 0) = (1, 0)" by (simp add: float_mult_def round32_def bit_length_numeral)
  ultimately show ?thesis using assms by (simp add: isApplicableWithFIF_def c_rand_def float_less_def Let_def)
qed

end
