(* ===== verification/Spec2Isabelle.thy ===== *)
theory Spec2Isabelle
  imports Service Messages Statfile Selectors
begin

text \<open>
  Verification of the OSIRIS recovery runtime and of the tools that inject faults into it and
  evaluate the outcome. All paths below are relative to src/llvm.

  \<^bold>\<open>The program.\<close> A MINIX service is compiled with hooks. At the top of its message loop the
  runtime (static/ltckpt) takes a checkpoint and opens a recovery window; before every write a
  hook saves the old bytes in an undo log; before a message leaves the service a policy hook
  may close the window or change the kind of recovery. After a crash the restart hook plays the
  log back, and the dispatcher answers the request with an error, kills the requester, or
  resets the machine. To test this, a second pass (passes/edfi) inserts faults into copies of
  the basic blocks and writes a map file of what it did, a runtime (static/edfi) decides at
  every block which copy runs and counts executions, and the runs leave logs and statistics
  files. The tools (tools/hypermemloganalyze, tools/mapprint, tools/printedfistats) read
  map files, logs and statistics, and pick the blocks for the next faults.

  \<^bold>\<open>Theories.\<close> The theory names stand before what they model.
  \<^item> Prelude: outcomes of C functions (a fault is a value), byte memory, C strings, numbers, and the
    locale inductive_invariant for invariants of step relations.
  \<^item> Hypermem, Recovery: static/ltckpt/ltckpt_recover.c. The globals are the record rec_state,
    the kernel services the record minix, the preprocessor switches the record cfg. One
    definition per C function; dispatch_spec is the policy as a table, and the dispatcher
    refines it. The locale bounded_builder is the contract of the message buffer.
  \<^item> Checkpoint, Writelog: ltckpt_ctx.c, ltckpt_common.c, ltckpt_stat.c and
    mechanisms/ltckpt_writelog.c. The log lies in the modelled memory, twelve bytes for each
    entry. The locale checkpoint_mechanism says what the instrumentation expects of any
    mechanism; the undo log interprets it.
  \<^item> Service: one incarnation of an instrumented service, from its start to its crash, as a transition
    system over runtime and undo log, labelled with the writes it makes; every write and every
    checkpoint interval is a step, and what recovery needs of them is a hypothesis of C1.
  \<^item> Hashtable, Helper: the tools' tables, strings, times and checked allocation
    (common/helper.c, common/linecounter.c); the locale chained_table gives every table the
    laws of a finite map.
  \<^item> Mapfile: passes/edfi/MapFile.cpp and tools/mapprint/mapparse.c.
  \<^item> Modules, Functions, Coverage: common/module.c, common/function.c, common/logexeccounts.c and
    common/coverage.c.
  \<^item> Logparse, Logfile: the log reader common/logparse.c and its properties.
  \<^item> Edfi, Statfile: static/edfi/df/edfi_df.c with the MINIX platform file, the statistics file
    and its readers.
  \<^item> Faults, Injector: passes/edfi/Fault.h, Fault.cpp and FaultInjector.cpp. The code of a function is
    a list of blocks of instructions; the kinds of faults are a datatype, with one definition
    for each apply function; the locale ir_library holds the laws of the compiler library's
    edits, and edits on lists interpret it. The pass is one function from options and module
    to map file, context of the runtime and printed statistics.
  \<^item> Instrumentation, Selectors: the properties of the pass.
  \<^item> Messages: the runtime's messages as the log reader understands them.
  \<^item> Faultpicker: faultpicker/bb_info.c and faultpicker/faultpicker.c.

  \<^bold>\<open>What is shown.\<close>
  \<^item> Recovery (C1 to C6 and the theories Recovery, Writelog, Service): for every run of an instrumented
    service that checkpoints at every message and whose writes the log saves completely, a crash
    inside an open window restores the memory of the checkpoint and the requester is answered or,
    when the recovery is process-specific and it is a user process, killed; the invariants of
    the window, the mask and the tables hold in every reachable state, recoveries included; the dispatcher follows the policy in every mode; the hooks stay within their tables.
  \<^item> Instrumentation (Writelog): hooks do not change what a write does, the log never leaves
    its memory while every message takes a checkpoint, the loop of the copy hook ends; where the
    code does not meet this (a full log that is reopened, the last region of a copy) the theorems
    say so exactly.
  \<^item> Formats (Mapfile, Logparse, Statfile, Messages): what one side writes the other side reads
    back; every message of a recovery attempt reaches the analysis as the callback that tells
    its outcome; the lines of a log are handled once each and in order.
  \<^item> Injection (Instrumentation, Selectors): the map file that the pass writes and the context that
    it leaves for the runtime agree on the blocks, their numbers, candidates and faults; with
    one fault per block every block with a candidate gets one fault; the random choice of
    blocks ends exactly when there are enough; fault selectors are parsed back.
  \<^item> Evaluation (Modules, Functions, Coverage, Faultpicker, Edfi): loading and merging of modules
    agrees with a one-pass reading of the records, block numbers agree between the tables, the
    counts of the runtime reach the blocks they belong to, the choice of faults is made of
    distinct blocks and weighted by candidates, the decisions at run time follow the schedule.

  \<^bold>\<open>Bounds and termination.\<close> MINIX code has 32-bit words and addresses, the tools 64-bit ones; int
  arithmetic that cannot overflow, such as counters of objects in memory, uses int or nat. Loops are structural recursion or have a measure.
  No definition uses fuel. The loops that need not end, such as the random choice of blocks in the
  pass, are partial functions into the option type.

  \<^bold>\<open>Not modelled.\<close> The passes other than the fault injector and the compiler library they are written
  against; in the fault injector, the copying of blocks and the demotion of values (the code of
  the faulty copies is an argument), the branches between the copies, the switch flags and the
  calls of the fault logger, and the statistics instructions that are off by default; the
  checkpoint mechanisms other than the undo log (bitmap, and those that consist of
  system calls: mprotect, fork, soft-dirty, dune, smmap); register checkpoints in assembly; sockets, threads and files of the control
  programs; console and table output and the floating-point statistics of the analysis
  programs; third-party container macros; scripts. The manifest lists them by file. Parameters
  stand for the kernel, the C library's mktime, qsort and rand, the time stamp counter, and the
  compiler library's edits, regular expressions and string hash.
\<close>

section \<open>Restart and recovery together\<close>

lemma ex_wl_init: "svc_init ex_wl"
  using rec_init_inv [OF ex_fits, of "''vfs''" None Map.empty]
  by (simp add: svc_init_def ex_wl_fields)
    (simp add: ex_wl_def rec_state.defs rec_init_def rec_inv_def used_callsites_def fail_stopped_def)

text \<open>A message is received and one byte written.\<close>

definition ex_events :: "svc_event list" where
  "ex_events = [Receive, Write (Store 0x1000 [7])]"

lemma ex_events_logged: "\<forall>ev \<in> set ex_events. logged_event ev"
  by (simp add: ex_events_def logged_event_def wl_supported_def)

lemma ex_wl_running:
  "\<exists>s. svc_run cf (ex_wl, c0) ex_events (s, mem ex_wl) \<and> sa_window_is_open s \<and> mem s 0x1000 = 7 \<and>
    g_recovery_naive_mode s = NAIVE_MODE_DEFAULT"
proof -
  let ?w = "Store 0x1000 [7]"
  obtain t where t: "wl_hooked_write ?w (wl_checkpoint ex_wl) = Some t"
    using ex_run by (auto split: option.splits)
  then obtain u where u: "wl_hook ?w (wl_checkpoint ex_wl) = Some (Ret () u)" "sa_window_is_open u"
    "t = u\<lparr>mem := plain_write ?w (mem u)\<rparr>"
    by (auto simp: wl_hooked_write_def split: option.splits outcome.splits if_splits)
  have "svc_run cf (ex_wl, c0) ([] @ [Receive]) (wl_checkpoint ex_wl, mem ex_wl)"
    by (rule run_step [OF run_start svc_receive])
  moreover have "svc_step cf (wl_checkpoint ex_wl, mem ex_wl) (Write ?w) (t, mem ex_wl)"
    unfolding u(3) by (rule svc_write [OF u(1)])
  ultimately have "svc_run cf (ex_wl, c0) (([] @ [Receive]) @ [Write ?w]) (t, mem ex_wl)" by (rule run_step)
  then have "svc_run cf (ex_wl, c0) ex_events (t, mem ex_wl)" by (simp add: ex_events_def)
  moreover have "mem t 0x1000 = 7" by (simp add: u(3) plain_write_def store_bytes_def)
  moreover have "g_recovery_naive_mode (wl_checkpoint ex_wl) = NAIVE_MODE_DEFAULT"
    by (auto simp: wl_checkpoint_def ltckpt_detect_start_of_window_hook_def wl_top_of_the_loop_def Let_def
        split_beta ex_wl_def rec_state.defs rec_init_def)
  then have "g_recovery_naive_mode t = NAIVE_MODE_DEFAULT"
    using u by (auto simp: wl_hook_def wl_store_hook_def ltckpt_write_wl_def Let_def wl_overflow_def split: if_splits)
  ultimately show ?thesis using u by auto
qed

text \<open>
  C1 (safety): the guarantee of the system. Take any run of an instrumented service from its start that
  takes a checkpoint at every pass through the top of its message loop (checkpoint interval one, the
  default), whose instrumented writes are all of the kinds the undo log saves completely (stores within
  an eight-byte region, and copies whose last region the copy hook visits), and a crash at any point while the
  recovery window is open, during a replyable request, in the default recovery mode of a build that
  does not handle requests again. If the kernel's copies and the state transfer succeed, the restart
  hook succeeds and gives back, on every protected address, the memory the service had at the top of
  its loop; if moreover the kernel accepts the reply or the signal, the dispatcher then succeeds
  without resetting the machine and leaves the restored memory as it is: it answers the requester with
  ERESTART, or kills it when the recovery is process-specific and the requester is a user process.
\<close>
theorem crash_in_window_rolls_back_and_replies:
  assumes "svc_init s0" "checkpoint_interval (ctx s0) = 1" "\<forall>ev \<in> set evs. logged_event ev"
    "svc_run cf (s0, c0) evs (s, c)" "sa_window_is_open s"
    "g_recovery_naive_mode s = NAIVE_MODE_DEFAULT" "restart_services_ok e s" "minix_ok m"
    "sef_get_current_message m = Some (Some (msg, 1))"
    "\<not> LTRC_NO_RECOVERY_ON_SVC_FI cf \<or> m_source msg \<noteq> RS_PROC_NR m" "\<not> LTRC_REHANDLE_REQUEST cf"
    "asynsend_ret m (m_source msg) (msg\<lparr>m_type := ERESTART m\<rparr>) = 0"
    "sef_llvm_is_user_endpoint m = Some is_user" "is_user (m_source msg) \<in> {0, 1}"
    "sys_kill_ret m (m_source msg) \<in> {0, EINVAL m}"
  shows "\<exists>t u. wl_restart_hook e s new = Ret 0 t \<and> ltckpt_recovery_dispatcher cf m t = Ret 0 u \<and>
    (\<forall>x. wl_protected e x \<longrightarrow> mem u x = c x) \<and>
    actions u = actions new @ (if g_recovery_bitmask s AND MASK_PROCESS_SPECIFIC \<noteq> 0 \<and> is_user (m_source msg) = 1
      then [Sys_kill (m_source msg)] else [Asynsend (m_source msg) (msg\<lparr>m_type := ERESTART m\<rparr>)])"
proof -
  have inv: "svc_inv e (s, c)" 
    by (rule svc.reach_inv [OF logged_run [OF assms(4,3)] svc_init_inv [OF assms(1,2)]])
  then have rec: "rec_inv s" and wl: "wl_inv s" and roll: "\<And>x. wl_protected e x \<Longrightarrow> wl_rollback e s x = c x"
    using assms(5) by (auto simp: svc_inv_def)
  obtain tr where tr: "wl_restart_hook e s new = Ret 0 (s\<lparr>ltckpt_writelog_enabled := False, wl_position := 0,
      mem := wl_rollback e s, inside_trusted_compute_base := True, trace := tr\<rparr>)"
    "filter is_action tr = filter is_action (trace new)"
    using restart_hook_rolls_back [OF assms(7) wl] by blast
  define t where "t = s\<lparr>ltckpt_writelog_enabled := False, wl_position := 0,
      mem := wl_rollback e s, inside_trusted_compute_base := True, trace := tr\<rparr>"
  have t: "g_recovery_bitmask t = g_recovery_bitmask s" "g_recovery_naive_mode t = NAIVE_MODE_DEFAULT"
    "actions t = actions new" "mem t = wl_rollback e s"
    using assms(6) tr(2) by (simp_all add: t_def actions_def)
  have lok: "log_ok t"
    using open_log_ok [OF rec assms(5)] by (simp add: t_def log_ok_def used_callsites_def)
  obtain u where u: "ltckpt_recovery_dispatcher cf m t = Ret 0 u"
    "actions u = actions new @ (if g_recovery_bitmask s AND MASK_PROCESS_SPECIFIC \<noteq> 0 \<and> is_user (m_source msg) = 1
      then [Sys_kill (m_source msg)] else [Asynsend (m_source msg) (msg\<lparr>m_type := ERESTART m\<rparr>)])"
    using dispatcher_meets [OF assms(8) lok, of cf] assms open_mask [OF rec assms(5)] t
    by (cases "ltckpt_recovery_dispatcher cf m t")
      (auto simp: bit_mask_iff meets_def dispatch_spec_def policy_spec_def idempotent_spec_def process_spec_def
        reply_spec_def service_fi_request_def effective_replyable_def mode_defs)
  moreover have "mem u x = c x" if "wl_protected e x" for x
    using dispatcher_untouched [OF u(1)] t(4) roll [OF that] by (simp add: log_untouched_def)
  ultimately show ?thesis using tr(1) t_def by blast
qed

theorem crash_in_window_rolls_back_and_replies_witness:
  "\<exists>s t u. svc_run ex_cfg (ex_wl, mem ex_wl) ex_events (s, mem ex_wl) \<and> mem s 0x1000 = 7 \<and>
    wl_restart_hook ex_env s ex_wl = Ret 0 t \<and> ltckpt_recovery_dispatcher ex_cfg ex_minix t = Ret 0 u \<and>
    mem u 0x1000 = 0"
proof -
  obtain s where s: "svc_run ex_cfg (ex_wl, mem ex_wl) ex_events (s, mem ex_wl)" "sa_window_is_open s"
    "mem s 0x1000 = 7" "g_recovery_naive_mode s = NAIVE_MODE_DEFAULT"
    using ex_wl_running by blast
  have int1: "checkpoint_interval (ctx ex_wl) = 1"
    by (simp add: ex_wl_fields ex_ctx_def ltckpt_ctx_init_def util_env_parse_int_def)
  have "\<exists>t u. wl_restart_hook ex_env s ex_wl = Ret 0 t \<and> ltckpt_recovery_dispatcher ex_cfg ex_minix t = Ret 0 u \<and>
    (\<forall>x. wl_protected ex_env x \<longrightarrow> mem u x = mem ex_wl x)"
    using crash_in_window_rolls_back_and_replies [OF ex_wl_init int1 ex_events_logged s(1,2,4) ex_env_ok ex_minix_ok,
        of ex_msg "\<lambda>e. 1" ex_wl]
    by (auto simp: ex_minix_def ex_msg_def ex_cfg_def)
  then show ?thesis using s(1,3) ex_protected ex_wl_fields(2) by metis
qed

end
